(* ===== verification/Prelude.thy ===== *)
theory Prelude
  imports Main "HOL-Library.Word" "HOL-Library.Monad_Syntax"
begin

text \<open>
  Shared vocabulary of the development: the types that stand for C's scalar types, the C
  \<open>switch\<close> statement as a table, NUL-terminated strings read through a cursor, and the
  lemma collections that the component theories extend.

  An outcome of type \<^typ>\<open>'a option\<close> that stands for a computation is \<^term>\<open>None\<close>
  where the C program has undefined behaviour (a wild or NULL dereference, an access out of
  bounds) and \<^term>\<open>Some r\<close> where it returns \<open>r\<close>.
\<close>

unbundle bit_operations_syntax

section \<open>Lemma collections\<close>

named_theorems table_simps \<open>tables of switch statements, unfolded on demand\<close>
named_theorems sys_simps \<open>how one system call moves the state\<close>
named_theorems ledger_simps \<open>what a trace of system calls opens, closes, allocates and frees\<close>
named_theorems heap_simps \<open>field reads after field writes\<close>

section \<open>Scalar types\<close>

type_synonym byte = "8 word"
type_synonym u16 = "16 word"
type_synonym u32 = "32 word"
type_synonym u64 = "64 word"
type_synonym addr = "64 word"

abbreviation NULL :: addr where
  "NULL \<equiv> 0"

section \<open>Words read as integers\<close>

lemma sint_add_exact:
  fixes a b :: "'a::len word"
  assumes "- (2 ^ (LENGTH('a) - 1)) \<le> sint a + sint b" and "sint a + sint b < 2 ^ (LENGTH('a) - 1)"
  shows "sint (a + b) = sint a + sint b"
  using assms by (simp add: sint_word_ariths signed_take_bit_int_eq_self)

lemma sint_sub_exact:
  fixes a b :: "'a::len word"
  assumes "- (2 ^ (LENGTH('a) - 1)) \<le> sint a - sint b" and "sint a - sint b < 2 ^ (LENGTH('a) - 1)"
  shows "sint (a - b) = sint a - sint b"
  using assms by (simp add: sint_word_ariths signed_take_bit_int_eq_self)

lemma sint_mult_exact:
  fixes a b :: "'a::len word"
  assumes "- (2 ^ (LENGTH('a) - 1)) \<le> sint a * sint b" and "sint a * sint b < 2 ^ (LENGTH('a) - 1)"
  shows "sint (a * b) = sint a * sint b"
  using assms by (simp add: sint_word_ariths signed_take_bit_int_eq_self)

lemma uint_add_exact:
  fixes a b :: "'a::len word"
  assumes "uint a + uint b < 2 ^ LENGTH('a)"
  shows "uint (a + b) = uint a + uint b"
  using assms by (simp add: uint_word_ariths take_bit_int_eq_self)

lemma uint_sub_exact:
  fixes a b :: "'a::len word"
  assumes "uint b \<le> uint a"
  shows "uint (a - b) = uint a - uint b"
  using assms by (rule uint_sub_lem [THEN iffD1])

lemma uint_of_int_exact: "0 \<le> k \<Longrightarrow> k < 2 ^ LENGTH('a) \<Longrightarrow> uint (of_int k :: 'a::len word) = k"
  by (simp add: unsigned_of_int take_bit_int_eq_self)

lemma unat_of_nat_exact: "k < 2 ^ LENGTH('a) \<Longrightarrow> unat (of_nat k :: 'a::len word) = k"
  by (simp add: unsigned_of_nat take_bit_nat_eq_self)

lemma unat_of_int_exact:
  assumes "0 \<le> k" and "k < 2 ^ LENGTH('a)"
  shows "unat (of_int k :: 'a::len word) = nat k"
  using uint_of_int_exact [where 'a = 'a, OF assms] by (simp only: unat_eq_nat_uint)

lemma dword_mod: "uint (ucast w :: u32) = sint w mod 2 ^ 32" for w :: u64
proof -
  have "uint (ucast w :: u32) = uint w mod 2 ^ 32" by (simp add: unsigned_ucast_eq take_bit_eq_mod)
  also have "\<dots> = sint w mod 2 ^ 32" by (simp add: uint_sint [of w] take_bit_eq_mod mod_mod_cancel)
  finally show ?thesis .
qed

lemma sint_widened: "sint (ucast (x :: u32) :: u64) = uint x"
proof -
  have b: "0 \<le> uint x" "uint x < 2 ^ 32"
    using uint_bounded [of x] by simp_all
  have "uint (ucast x :: u64) = uint x"
    by (rule uint_up_ucast) (simp add: is_up)
  moreover have "signed_take_bit 63 (uint x) = uint x"
  proof (rule signed_take_bit_int_eq_self)
    show "- (2 ^ 63) \<le> uint x" by (rule order_trans [OF _ b(1)]) simp
    show "uint x < 2 ^ 63" by (rule order_less_trans [OF b(2)]) simp
  qed
  ultimately show ?thesis
    by (simp only: sint_uint) simp
qed

section \<open>The switch statement\<close>

text \<open>
  A C \<open>switch\<close> whose cases all return a constant is an association list from case labels
  to results together with the result of \<open>default\<close>. C forbids two equal labels, which is
  \<open>distinct (map fst tbl)\<close> here; under it the order of the cases does not matter.
\<close>

definition switch :: "('k \<times> 'v) list \<Rightarrow> 'v \<Rightarrow> 'k \<Rightarrow> 'v" where
  "switch tbl d k = (case map_of tbl k of Some v \<Rightarrow> v | None \<Rightarrow> d)"

lemma switch_Nil [simp]: "switch [] d k = d"
  by (simp add: switch_def)

lemma switch_Cons [simp]: "switch ((l, v) # tbl) d k = (if k = l then v else switch tbl d k)"
  by (simp add: switch_def)

lemma switch_label: "distinct (map fst tbl) \<Longrightarrow> (k, v) \<in> set tbl \<Longrightarrow> switch tbl d k = v"
  by (simp add: switch_def)

lemma switch_default: "k \<notin> fst ` set tbl \<Longrightarrow> switch tbl d k = d"
  by (simp add: switch_def map_of_eq_None_iff [THEN iffD2])

lemma switch_range: "switch tbl d k = d \<or> (k, switch tbl d k) \<in> set tbl"
  by (auto simp: switch_def map_of_SomeD split: option.splits)

lemma switch_avoids:
  "d \<noteq> v \<Longrightarrow> \<forall>(l, w) \<in> set tbl. w \<noteq> v \<Longrightarrow> switch tbl d k \<noteq> v"
  using switch_range [of tbl d k] by auto

section \<open>C strings\<close>

text \<open>
  A \<open>const char *\<close> cursor into a NUL-terminated string is the list of the characters that
  are left; \<open>*it\<close> at the end of the list reads the terminating NUL.
\<close>

abbreviation NUL :: char where
  "NUL \<equiv> CHR 0x00"

definition peek :: "string \<Rightarrow> char" where
  "peek s = (case s of [] \<Rightarrow> NUL | c # _ \<Rightarrow> c)"

lemma peek_Nil [simp]: "peek [] = NUL"
  by (simp add: peek_def)

lemma peek_Cons [simp]: "peek (c # s) = c"
  by (simp add: peek_def)

lemma peek_append: "peek (s @ t) = (if s = [] then peek t else peek s)"
  by (cases s) simp_all

text \<open>The functions of \<open>ctype.h\<close> in the C locale.\<close>

definition char_code :: "char \<Rightarrow> nat" where
  "char_code c = of_char c"

definition isdigit :: "char \<Rightarrow> bool" where
  "isdigit c \<longleftrightarrow> 48 \<le> char_code c \<and> char_code c \<le> 57"

definition islower :: "char \<Rightarrow> bool" where
  "islower c \<longleftrightarrow> 97 \<le> char_code c \<and> char_code c \<le> 122"

definition isupper :: "char \<Rightarrow> bool" where
  "isupper c \<longleftrightarrow> 65 \<le> char_code c \<and> char_code c \<le> 90"

definition isxdigit :: "char \<Rightarrow> bool" where
  "isxdigit c \<longleftrightarrow> isdigit c \<or> 97 \<le> char_code c \<and> char_code c \<le> 102
     \<or> 65 \<le> char_code c \<and> char_code c \<le> 70"

lemmas ctype_defs = isdigit_def islower_def isupper_def isxdigit_def char_code_def

lemma isdigit_NUL [simp]: "\<not> isdigit NUL"
  by (simp add: ctype_defs)

lemma isxdigit_NUL [simp]: "\<not> isxdigit NUL"
  by (simp add: ctype_defs)

lemma isdigit_isxdigit: "isdigit c \<Longrightarrow> isxdigit c"
  by (simp add: isxdigit_def)

lemma isdigit_dot [simp]: "\<not> isdigit CHR ''.''"
  by (simp add: ctype_defs)

lemma isxdigit_dot [simp]: "\<not> isxdigit CHR ''.''"
  by (simp add: ctype_defs)

lemma isxdigit_colon [simp]: "\<not> isxdigit CHR '':''"
  by (simp add: ctype_defs)

lemma isdigit_colon [simp]: "\<not> isdigit CHR '':''"
  by (simp add: ctype_defs)

end
