(* ===== verification/Errors.thy ===== *)
theory Errors
  imports Prelude
begin

text \<open>
  The error codes of \<open>inc/yaooi/errno.h\<close>, \<open>yo_strerr\<close> of \<open>src/yaooi.c\<close> and the
  conversions of operating-system errors into them: \<open>yoi_unix_conv_errno\<close> and
  \<open>yoi_unix_conv_aierr\<close> of \<open>src/unix/impl.c\<close>, \<open>yoi_ansi_conv_errno\<close> of
  \<open>src/ansi/impl.c\<close>. Every \<open>switch\<close> is a table in the source's order.
\<close>

section \<open>Error codes\<close>

text \<open>
  \<open>yo_code_t\<close> is a C enum, so it also holds integers that are no enumerator:
  \<open>YO_RAW k\<close> stands for those. \<open>ASSERT_FAILED\<close> is no value of the enum: it is the
  outcome of a failed \<open>assert\<close>, which ends the process.
\<close>

datatype (plugins only: code) yo_code =
    YO_OK | YO_EIO | YO_ECANCELED | YO_ETIMEOUT | YO_EOF | YO_EPERM | YO_EBUSY | YO_EAGAIN |
    YO_ENOTSUP | YO_ENOTIMPL | YO_ENOENT | YO_ENODEV | YO_EEXIST | YO_ENOTFILE | YO_ENOTDIR |
    YO_ENOTBLK | YO_ENOTTTY | YO_ENOTSOCK | YO_ENOTEMPTY | YO_EISDIR | YO_EINVAL | YO_EBADFD |
    YO_EBADOP | YO_EXDEV | YO_ERANGE | YO_EFAULT | YO_EBADEXE | YO_EUTF | YO_EALREADY |
    YO_ENORESOURCE | YO_ELOOP | YO_EFBIG | YO_EROFS | YO_ENOMEM | YO_EPROTO | YO_EREMOTEIO |
    YO_EADDRINUSE | YO_EADDRNOTAVAIL | YO_ENETDOWN | YO_ECONNABORTED | YO_ECONNRESET |
    YO_ECONNREFUSED | YO_EHOSTDOWN | YO_ENOMEDIUM | YO_EUNKNOWN | YO_RAW int | ASSERT_FAILED

text \<open>The X-macro \<open>YO_SIGDEF\<close>: enumerator, value and message.\<close>

definition YO_SIGDEF :: "(yo_code \<times> int \<times> string) list" where
  "YO_SIGDEF = [
     (YO_OK, 0, ''no error occurred''),
     (YO_EIO, -1, ''i/o error''),
     (YO_ECANCELED, -2, ''cancelled''),
     (YO_ETIMEOUT, -3, ''timed out''),
     (YO_EOF, -4, ''end of file''),
     (YO_EPERM, -5, ''operation not permitted''),
     (YO_EBUSY, -6, ''resource busy or locked''),
     (YO_EAGAIN, -7, ''resource temporarily unavailable''),
     (YO_ENOTSUP, -8, ''not supported''),
     (YO_ENOTIMPL, -9, ''not implemented''),
     (YO_ENOENT, -10, ''no such object''),
     (YO_ENODEV, -11, ''no such device''),
     (YO_EEXIST, -12, ''object already exists''),
     (YO_ENOTFILE, -13, ''not a file''),
     (YO_ENOTDIR, -14, ''not a directory''),
     (YO_ENOTBLK, -15, ''not a block device''),
     (YO_ENOTTTY, -16, ''not a tty''),
     (YO_ENOTSOCK, -17, ''not a socket''),
     (YO_ENOTEMPTY, -18, ''directory not empty''),
     (YO_EISDIR, -19, ''illegal operation on a directory''),
     (YO_EINVAL, -20, ''invalid argument''),
     (YO_EBADFD, -21, ''bad file descriptor''),
     (YO_EBADOP, -22, ''invalid operation''),
     (YO_EXDEV, -23, ''cross-device link not permitted''),
     (YO_ERANGE, -24, ''argument or result out of range''),
     (YO_EFAULT, -25, ''bad usage of memory''),
     (YO_EBADEXE, -26, ''corrupted or bad executable''),
     (YO_EUTF, -27, ''illegal utf8 sequence''),
     (YO_EALREADY, -28, ''operation already in progress''),
     (YO_ENORESOURCE, -30, ''resource or limit exhausted''),
     (YO_ELOOP, -31, ''recursive symbolic link''),
     (YO_EFBIG, -32, ''file too large''),
     (YO_EROFS, -33, ''read-only file system''),
     (YO_ENOMEM, -34, ''not enough memory''),
     (YO_EPROTO, -100, ''protocol error''),
     (YO_EREMOTEIO, -101, ''remote I/O error''),
     (YO_EADDRINUSE, -103, ''address already in use''),
     (YO_EADDRNOTAVAIL, -104, ''address not available''),
     (YO_ENETDOWN, -105, ''network is down''),
     (YO_ECONNABORTED, -106, ''software caused connection abort''),
     (YO_ECONNRESET, -107, ''connection reset by peer''),
     (YO_ECONNREFUSED, -108, ''connection refused''),
     (YO_EHOSTDOWN, -109, ''host is down''),
     (YO_ENOMEDIUM, -110, ''no medium found''),
     (YO_EUNKNOWN, -10000, ''unknown error'')]"

definition yo_code_val :: "yo_code \<Rightarrow> int" where
  "yo_code_val c = (case c of YO_RAW k \<Rightarrow> k
     | _ \<Rightarrow> switch (map (\<lambda>(name, v, _). (name, v)) YO_SIGDEF) 0 c)"

definition yo_strerr :: "int \<Rightarrow> string" where
  "yo_strerr code =
     switch (map (\<lambda>(_, v, msg). (v, msg)) YO_SIGDEF) ''unknown OS-specific error'' code"

section \<open>Operating-system error numbers\<close>

text \<open>
  The values of \<open>errno.h\<close> on Linux (asm-generic). \<open>EWOULDBLOCK\<close> and \<open>EAGAIN\<close>
  are one number there, as are \<open>ENOTSUP\<close> and \<open>EOPNOTSUPP\<close>.
\<close>

abbreviation (input) EPERM :: int where "EPERM \<equiv> 1"
abbreviation (input) ENOENT :: int where "ENOENT \<equiv> 2"
abbreviation (input) ESRCH :: int where "ESRCH \<equiv> 3"
abbreviation (input) EINTR :: int where "EINTR \<equiv> 4"
abbreviation (input) EIO :: int where "EIO \<equiv> 5"
abbreviation (input) ENXIO :: int where "ENXIO \<equiv> 6"
abbreviation (input) E2BIG :: int where "E2BIG \<equiv> 7"
abbreviation (input) ENOEXEC :: int where "ENOEXEC \<equiv> 8"
abbreviation (input) EBADF :: int where "EBADF \<equiv> 9"
abbreviation (input) ECHILD :: int where "ECHILD \<equiv> 10"
abbreviation (input) EAGAIN :: int where "EAGAIN \<equiv> 11"
abbreviation (input) EWOULDBLOCK :: int where "EWOULDBLOCK \<equiv> 11"
abbreviation (input) ENOMEM :: int where "ENOMEM \<equiv> 12"
abbreviation (input) EACCES :: int where "EACCES \<equiv> 13"
abbreviation (input) EFAULT :: int where "EFAULT \<equiv> 14"
abbreviation (input) ENOTBLK :: int where "ENOTBLK \<equiv> 15"
abbreviation (input) EBUSY :: int where "EBUSY \<equiv> 16"
abbreviation (input) EEXIST :: int where "EEXIST \<equiv> 17"
abbreviation (input) EXDEV :: int where "EXDEV \<equiv> 18"
abbreviation (input) ENODEV :: int where "ENODEV \<equiv> 19"
abbreviation (input) ENOTDIR :: int where "ENOTDIR \<equiv> 20"
abbreviation (input) EISDIR :: int where "EISDIR \<equiv> 21"
abbreviation (input) EINVAL :: int where "EINVAL \<equiv> 22"
abbreviation (input) ENFILE :: int where "ENFILE \<equiv> 23"
abbreviation (input) EMFILE :: int where "EMFILE \<equiv> 24"
abbreviation (input) ENOTTY :: int where "ENOTTY \<equiv> 25"
abbreviation (input) ETXTBSY :: int where "ETXTBSY \<equiv> 26"
abbreviation (input) EFBIG :: int where "EFBIG \<equiv> 27"
abbreviation (input) ENOSPC :: int where "ENOSPC \<equiv> 28"
abbreviation (input) ESPIPE :: int where "ESPIPE \<equiv> 29"
abbreviation (input) EROFS :: int where "EROFS \<equiv> 30"
abbreviation (input) EMLINK :: int where "EMLINK \<equiv> 31"
abbreviation (input) EPIPE :: int where "EPIPE \<equiv> 32"
abbreviation (input) EDOM :: int where "EDOM \<equiv> 33"
abbreviation (input) ERANGE :: int where "ERANGE \<equiv> 34"
abbreviation (input) EDEADLK :: int where "EDEADLK \<equiv> 35"
abbreviation (input) ENAMETOOLONG :: int where "ENAMETOOLONG \<equiv> 36"
abbreviation (input) ENOLCK :: int where "ENOLCK \<equiv> 37"
abbreviation (input) ENOSYS :: int where "ENOSYS \<equiv> 38"
abbreviation (input) ENOTEMPTY :: int where "ENOTEMPTY \<equiv> 39"
abbreviation (input) ELOOP :: int where "ELOOP \<equiv> 40"
abbreviation (input) EUNATCH :: int where "EUNATCH \<equiv> 49"
abbreviation (input) ENODATA :: int where "ENODATA \<equiv> 61"
abbreviation (input) ENONET :: int where "ENONET \<equiv> 64"
abbreviation (input) ECOMM :: int where "ECOMM \<equiv> 70"
abbreviation (input) EPROTO :: int where "EPROTO \<equiv> 71"
abbreviation (input) EOVERFLOW :: int where "EOVERFLOW \<equiv> 75"
abbreviation (input) ENOTUNIQ :: int where "ENOTUNIQ \<equiv> 76"
abbreviation (input) ELIBBAD :: int where "ELIBBAD \<equiv> 80"
abbreviation (input) EILSEQ :: int where "EILSEQ \<equiv> 84"
abbreviation (input) ENOTSOCK :: int where "ENOTSOCK \<equiv> 88"
abbreviation (input) EDESTADDRREQ :: int where "EDESTADDRREQ \<equiv> 89"
abbreviation (input) EMSGSIZE :: int where "EMSGSIZE \<equiv> 90"
abbreviation (input) EPROTOTYPE :: int where "EPROTOTYPE \<equiv> 91"
abbreviation (input) ENOPROTOOPT :: int where "ENOPROTOOPT \<equiv> 92"
abbreviation (input) EPROTONOSUPPORT :: int where "EPROTONOSUPPORT \<equiv> 93"
abbreviation (input) ESOCKTNOSUPPORT :: int where "ESOCKTNOSUPPORT \<equiv> 94"
abbreviation (input) ENOTSUP :: int where "ENOTSUP \<equiv> 95"
abbreviation (input) EPFNOSUPPORT :: int where "EPFNOSUPPORT \<equiv> 96"
abbreviation (input) EAFNOSUPPORT :: int where "EAFNOSUPPORT \<equiv> 97"
abbreviation (input) EADDRINUSE :: int where "EADDRINUSE \<equiv> 98"
abbreviation (input) EADDRNOTAVAIL :: int where "EADDRNOTAVAIL \<equiv> 99"
abbreviation (input) ENETDOWN :: int where "ENETDOWN \<equiv> 100"
abbreviation (input) ENETUNREACH :: int where "ENETUNREACH \<equiv> 101"
abbreviation (input) ECONNABORTED :: int where "ECONNABORTED \<equiv> 103"
abbreviation (input) ECONNRESET :: int where "ECONNRESET \<equiv> 104"
abbreviation (input) ENOBUFS :: int where "ENOBUFS \<equiv> 105"
abbreviation (input) EISCONN :: int where "EISCONN \<equiv> 106"
abbreviation (input) ENOTCONN :: int where "ENOTCONN \<equiv> 107"
abbreviation (input) ESHUTDOWN :: int where "ESHUTDOWN \<equiv> 108"
abbreviation (input) ETIMEDOUT :: int where "ETIMEDOUT \<equiv> 110"
abbreviation (input) ECONNREFUSED :: int where "ECONNREFUSED \<equiv> 111"
abbreviation (input) EHOSTDOWN :: int where "EHOSTDOWN \<equiv> 112"
abbreviation (input) EHOSTUNREACH :: int where "EHOSTUNREACH \<equiv> 113"
abbreviation (input) EALREADY :: int where "EALREADY \<equiv> 114"
abbreviation (input) EREMOTEIO :: int where "EREMOTEIO \<equiv> 121"
abbreviation (input) ENOMEDIUM :: int where "ENOMEDIUM \<equiv> 123"
abbreviation (input) ECANCELED :: int where "ECANCELED \<equiv> 125"

section \<open>Conversion of errno on Unix\<close>

definition unix_errno_cases :: "(int \<times> yo_code) list" where
  "unix_errno_cases = [
     (EPERM, YO_EPERM), (ENOENT, YO_ENOENT), (ESRCH, YO_ENOENT), (EINTR, YO_ECANCELED),
     (EIO, YO_EIO), (ENXIO, YO_ENOENT), (E2BIG, YO_EINVAL), (ENOEXEC, YO_EBADEXE),
     (EBADF, YO_EBADFD), (ECHILD, YO_EUNKNOWN), (EAGAIN, YO_EAGAIN), (ENOMEM, YO_ENOMEM),
     (EACCES, YO_EPERM), (EFAULT, YO_EFAULT), (EBUSY, YO_EBUSY), (EEXIST, YO_EEXIST),
     (EXDEV, YO_EXDEV), (ENODEV, YO_ENODEV), (ENOTDIR, YO_ENOTDIR), (EISDIR, YO_EISDIR),
     (EINVAL, YO_EINVAL), (ENFILE, YO_ENORESOURCE), (EMFILE, YO_ENORESOURCE),
     (ENOTTY, YO_ENOTTTY), (ETXTBSY, YO_EBUSY), (EFBIG, YO_EFBIG), (ENOSPC, YO_ENORESOURCE),
     (ESPIPE, YO_EBADOP), (EROFS, YO_EROFS), (EMLINK, YO_ENORESOURCE), (EPIPE, YO_EOF),
     (ERANGE, YO_ERANGE), (EDEADLK, YO_EBUSY), (ENAMETOOLONG, YO_ERANGE),
     (ENOLCK, YO_ENORESOURCE), (ENOSYS, YO_ENORESOURCE), (ENOTEMPTY, YO_ENOTEMPTY),
     (ELOOP, YO_ELOOP), (EUNATCH, YO_ENOENT), (ENODATA, YO_EOF), (ENONET, YO_ENETDOWN),
     (ECOMM, YO_EPROTO), (EPROTO, YO_EPROTO), (EOVERFLOW, YO_ERANGE), (ENOTUNIQ, YO_EEXIST),
     (ELIBBAD, YO_EBADEXE), (EILSEQ, YO_EUTF), (ENOTSOCK, YO_ENOTSOCK),
     (EDESTADDRREQ, YO_EINVAL), (EMSGSIZE, YO_ERANGE), (EPROTOTYPE, YO_EINVAL),
     (ENOPROTOOPT, YO_ENOTSUP), (EPROTONOSUPPORT, YO_ENOTSUP), (ESOCKTNOSUPPORT, YO_ENOTSUP),
     (ENOTSUP, YO_ENOTSUP), (EPFNOSUPPORT, YO_ENOTSUP), (EAFNOSUPPORT, YO_ENOTSUP),
     (EADDRINUSE, YO_EADDRINUSE), (EADDRNOTAVAIL, YO_EADDRNOTAVAIL), (ENETDOWN, YO_ENETDOWN),
     (ENETUNREACH, YO_ENETDOWN), (ECONNABORTED, YO_ECONNABORTED), (ECONNRESET, YO_ECONNRESET),
     (ENOBUFS, YO_ERANGE), (EISCONN, YO_EBADOP), (ENOTCONN, YO_EBADOP), (ESHUTDOWN, YO_EOF),
     (ETIMEDOUT, YO_ETIMEOUT), (ECONNREFUSED, YO_ECONNREFUSED), (EHOSTDOWN, YO_EHOSTDOWN),
     (EHOSTUNREACH, YO_EHOSTDOWN), (EALREADY, YO_EALREADY), (EREMOTEIO, YO_EREMOTEIO),
     (ENOMEDIUM, YO_ENOMEDIUM), (ECANCELED, YO_ECANCELED), (0, YO_OK), ((-1), ASSERT_FAILED)]"

definition yoi_unix_conv_errno :: "int \<Rightarrow> yo_code" where
  "yoi_unix_conv_errno unixerr = switch unix_errno_cases YO_EUNKNOWN unixerr"

text \<open>
  Results of \<open>getaddrinfo\<close>, with the values of glibc's \<open>netdb.h\<close> (all GNU
  extensions present).
\<close>

abbreviation (input) EAI_BADFLAGS :: int where "EAI_BADFLAGS \<equiv> -1"
abbreviation (input) EAI_NONAME :: int where "EAI_NONAME \<equiv> -2"
abbreviation (input) EAI_AGAIN :: int where "EAI_AGAIN \<equiv> -3"
abbreviation (input) EAI_FAIL :: int where "EAI_FAIL \<equiv> -4"
abbreviation (input) EAI_NODATA :: int where "EAI_NODATA \<equiv> -5"
abbreviation (input) EAI_FAMILY :: int where "EAI_FAMILY \<equiv> -6"
abbreviation (input) EAI_SOCKTYPE :: int where "EAI_SOCKTYPE \<equiv> -7"
abbreviation (input) EAI_SERVICE :: int where "EAI_SERVICE \<equiv> -8"
abbreviation (input) EAI_ADDRFAMILY :: int where "EAI_ADDRFAMILY \<equiv> -9"
abbreviation (input) EAI_MEMORY :: int where "EAI_MEMORY \<equiv> -10"
abbreviation (input) EAI_OVERFLOW :: int where "EAI_OVERFLOW \<equiv> -12"
abbreviation (input) EAI_CANCELED :: int where "EAI_CANCELED \<equiv> -101"

definition unix_aierr_cases :: "(int \<times> yo_code) list" where
  "unix_aierr_cases = [
     (EAI_BADFLAGS, YO_EINVAL), (EAI_NONAME, YO_EINVAL), (EAI_AGAIN, YO_EAGAIN),
     (EAI_FAIL, YO_EIO), (EAI_FAMILY, YO_ENOTSUP), (EAI_SOCKTYPE, YO_ENOTSUP),
     (EAI_SERVICE, YO_ENOTSUP), (EAI_MEMORY, YO_ENOMEM), (EAI_OVERFLOW, YO_ERANGE),
     (EAI_NODATA, YO_EOF), (EAI_ADDRFAMILY, YO_ENOTSUP), (EAI_CANCELED, YO_ECANCELED)]"

definition yoi_unix_conv_aierr :: "int \<Rightarrow> yo_code" where
  "yoi_unix_conv_aierr aierr = switch unix_aierr_cases YO_EUNKNOWN aierr"

section \<open>Conversion of errno in the ANSI backend\<close>

definition ansi_errno_cases :: "(int \<times> yo_code) list" where
  "ansi_errno_cases = [
     (EPERM, YO_EPERM), (ENOENT, YO_ENOENT), (ESRCH, YO_ENOENT), (EINTR, YO_ECANCELED),
     (EIO, YO_EIO), (ENXIO, YO_ENORESOURCE), (E2BIG, YO_EINVAL), (ENOEXEC, YO_EBADEXE),
     (EBADF, YO_EBADFD), (ECHILD, YO_EIO), (EAGAIN, YO_EAGAIN), (ENOMEM, YO_ENOMEM),
     (EACCES, YO_EPERM), (EFAULT, YO_EFAULT), (ENOTBLK, YO_ENOTBLK), (EBUSY, YO_EBUSY),
     (EEXIST, YO_EEXIST), (EXDEV, YO_EXDEV), (ENODEV, YO_ENODEV), (ENOTDIR, YO_ENOTDIR),
     (EISDIR, YO_EISDIR), (EINVAL, YO_EINVAL), (ENFILE, YO_ENORESOURCE),
     (EMFILE, YO_ENORESOURCE), (ENOTTY, YO_ENOTTTY), (ETXTBSY, YO_EBUSY), (EFBIG, YO_EFBIG),
     (ENOSPC, YO_ENORESOURCE), (ESPIPE, YO_EBADOP), (EROFS, YO_EROFS),
     (EMLINK, YO_ENORESOURCE), (EPIPE, YO_EOF), (EDOM, YO_ERANGE), (ERANGE, YO_ERANGE)]"

definition yoi_ansi_conv_errno :: "int \<Rightarrow> yo_code \<Rightarrow> yo_code" where
  "yoi_ansi_conv_errno err fallback = switch ansi_errno_cases fallback err"

lemmas [table_simps] = unix_errno_cases_def unix_aierr_cases_def ansi_errno_cases_def YO_SIGDEF_def

section \<open>Facts about the tables\<close>

lemma unix_labels_distinct: "distinct (map fst unix_errno_cases)"
  by (simp add: unix_errno_cases_def)

lemma ansi_labels_distinct: "distinct (map fst ansi_errno_cases)"
  by (simp add: ansi_errno_cases_def)

lemma sigdef_codes: "map fst YO_SIGDEF = [
     YO_OK, YO_EIO, YO_ECANCELED, YO_ETIMEOUT, YO_EOF, YO_EPERM, YO_EBUSY, YO_EAGAIN,
     YO_ENOTSUP, YO_ENOTIMPL, YO_ENOENT, YO_ENODEV, YO_EEXIST, YO_ENOTFILE, YO_ENOTDIR,
     YO_ENOTBLK, YO_ENOTTTY, YO_ENOTSOCK, YO_ENOTEMPTY, YO_EISDIR, YO_EINVAL, YO_EBADFD,
     YO_EBADOP, YO_EXDEV, YO_ERANGE, YO_EFAULT, YO_EBADEXE, YO_EUTF, YO_EALREADY,
     YO_ENORESOURCE, YO_ELOOP, YO_EFBIG, YO_EROFS, YO_ENOMEM, YO_EPROTO, YO_EREMOTEIO,
     YO_EADDRINUSE, YO_EADDRNOTAVAIL, YO_ENETDOWN, YO_ECONNABORTED, YO_ECONNRESET,
     YO_ECONNREFUSED, YO_EHOSTDOWN, YO_ENOMEDIUM, YO_EUNKNOWN]"
  by (simp only: YO_SIGDEF_def list.map fst_conv)

lemma sigdef_set: "fst ` set YO_SIGDEF = set (map fst YO_SIGDEF)"
  by simp

lemma sigdef_covers: "c \<in> fst ` set YO_SIGDEF \<or> c = ASSERT_FAILED \<or> (\<exists>k. c = YO_RAW k)"
  by (cases c) (simp_all add: sigdef_set sigdef_codes del: set_map)

lemma sigdef_values: "map (\<lambda>(name, v, _). (name, v)) YO_SIGDEF = [
     (YO_OK, 0), (YO_EIO, -1), (YO_ECANCELED, -2), (YO_ETIMEOUT, -3), (YO_EOF, -4),
     (YO_EPERM, -5), (YO_EBUSY, -6), (YO_EAGAIN, -7), (YO_ENOTSUP, -8), (YO_ENOTIMPL, -9),
     (YO_ENOENT, -10), (YO_ENODEV, -11), (YO_EEXIST, -12), (YO_ENOTFILE, -13),
     (YO_ENOTDIR, -14), (YO_ENOTBLK, -15), (YO_ENOTTTY, -16), (YO_ENOTSOCK, -17),
     (YO_ENOTEMPTY, -18), (YO_EISDIR, -19), (YO_EINVAL, -20), (YO_EBADFD, -21),
     (YO_EBADOP, -22), (YO_EXDEV, -23), (YO_ERANGE, -24), (YO_EFAULT, -25),
     (YO_EBADEXE, -26), (YO_EUTF, -27), (YO_EALREADY, -28), (YO_ENORESOURCE, -30),
     (YO_ELOOP, -31), (YO_EFBIG, -32), (YO_EROFS, -33), (YO_ENOMEM, -34), (YO_EPROTO, -100),
     (YO_EREMOTEIO, -101), (YO_EADDRINUSE, -103), (YO_EADDRNOTAVAIL, -104),
     (YO_ENETDOWN, -105), (YO_ECONNABORTED, -106), (YO_ECONNRESET, -107),
     (YO_ECONNREFUSED, -108), (YO_EHOSTDOWN, -109), (YO_ENOMEDIUM, -110),
     (YO_EUNKNOWN, -10000)]"
  by (simp only: YO_SIGDEF_def list.map prod.case)

lemma yo_code_val_row: "row \<in> set YO_SIGDEF \<Longrightarrow> yo_code_val (fst row) = fst (snd row)"
proof -
  have "\<forall>(c, v) \<in> set (map (\<lambda>(name, v, _). (name, v)) YO_SIGDEF). yo_code_val c = v"
    by (simp add: sigdef_values yo_code_val_def del: set_map)
  then show "row \<in> set YO_SIGDEF \<Longrightarrow> yo_code_val (fst row) = fst (snd row)"
    by (cases row) fastforce
qed

lemma switch_find:
  "switch (map (\<lambda>(_, v, m). (v, m)) tbl) d k
     = (case find (\<lambda>row. fst (snd row) = k) tbl of Some row \<Rightarrow> snd (snd row) | None \<Rightarrow> d)"
  by (induction tbl) auto

lemma unix_conv_ok: "yoi_unix_conv_errno e = YO_OK \<longleftrightarrow> e = 0"
  by (simp add: yoi_unix_conv_errno_def unix_errno_cases_def)

lemma unix_conv_assert: "yoi_unix_conv_errno e = ASSERT_FAILED \<longleftrightarrow> e = -1"
  by (simp add: yoi_unix_conv_errno_def unix_errno_cases_def)

lemma unix_conv_not_raw: "yoi_unix_conv_errno e \<noteq> YO_RAW k"
  by (simp add: yoi_unix_conv_errno_def unix_errno_cases_def)

lemma unix_conv_enum: "e \<noteq> -1 \<Longrightarrow> yoi_unix_conv_errno e \<in> fst ` set YO_SIGDEF"
  using sigdef_covers [of "yoi_unix_conv_errno e"] by (auto simp: unix_conv_assert unix_conv_not_raw)

section \<open>Properties\<close>

text \<open>
  \<open>yo_strerr\<close> inverts the enumeration: each declared code has the message of its row,
  and any other integer, however it got into a \<open>yo_code_t\<close>, gets the default message.
\<close>
theorem strerr_table:
  "yo_strerr k =
     (case find (\<lambda>row. yo_code_val (fst row) = k) YO_SIGDEF of
        Some row \<Rightarrow> snd (snd row)
      | None \<Rightarrow> ''unknown OS-specific error'')"
proof -
  have "find (\<lambda>row. fst (snd row) = k) YO_SIGDEF = find (\<lambda>row. yo_code_val (fst row) = k) YO_SIGDEF"
    by (rule find_cong) (simp_all add: yo_code_val_row)
  then show ?thesis
    unfolding yo_strerr_def switch_find by simp
qed

text \<open>
  The conversion of \<open>errno\<close> on Unix reports success exactly for 0, ends the process
  exactly for -1 (its assertion), and otherwise returns a declared code, never a stray integer.
\<close>
theorem unix_errno_total:
  "(yoi_unix_conv_errno e = YO_OK \<longleftrightarrow> e = 0)
   \<and> (yoi_unix_conv_errno e = ASSERT_FAILED \<longleftrightarrow> e = -1)
   \<and> (e = -1 \<or> yoi_unix_conv_errno e \<in> fst ` set YO_SIGDEF)"
  using unix_conv_enum [of e] by (auto simp: unix_conv_ok unix_conv_assert)

text \<open>
  The ANSI and the Unix backend translate an error number to the same code, except for
  four: ENXIO and ECHILD, which they translate differently, and ENOTBLK and EDOM, which
  only the ANSI backend knows; all others that the ANSI backend does not know fall back.
\<close>
theorem unix_ansi_agree:
  "filter (\<lambda>e. yoi_ansi_conv_errno e fallback \<noteq> yoi_unix_conv_errno e) (map fst ansi_errno_cases)
     = [ENXIO, ECHILD, ENOTBLK, EDOM]
   \<and> (e \<in> fst ` set ansi_errno_cases \<or> yoi_ansi_conv_errno e fallback = fallback)"
proof
  show "filter (\<lambda>e. yoi_ansi_conv_errno e fallback \<noteq> yoi_unix_conv_errno e)
      (map fst ansi_errno_cases) = [ENXIO, ECHILD, ENOTBLK, EDOM]"
    by (simp add: ansi_errno_cases_def unix_errno_cases_def yoi_ansi_conv_errno_def
        yoi_unix_conv_errno_def)
  show "e \<in> fst ` set ansi_errno_cases \<or> yoi_ansi_conv_errno e fallback = fallback"
    by (metis switch_default yoi_ansi_conv_errno_def)
qed

end

