(* ===== verification/Times.thy ===== *)
theory Times
  imports Prelude
begin

text \<open>
  The timestamps of \<open>inc/yaooi/time.h\<close> and their arithmetic in \<open>src/time.c\<close>. A
  timestamp is a signed 64-bit count of seconds and an unsigned 32-bit count of nanoseconds;
  the value it stands for is \<open>time_ns\<close>. The type is made a linear order by the comparison
  the code computes.
\<close>

section \<open>The type\<close>

record yo_time =
  sec :: u64
  nsec :: u32

definition time_ns :: "yo_time \<Rightarrow> int" where
  "time_ns t = sint (sec t) * 1000000000 + uint (nsec t)"

text \<open>A timestamp is normal when its nanoseconds are less than a second.\<close>

definition normal :: "yo_time \<Rightarrow> bool" where
  "normal t \<longleftrightarrow> nsec t < 1000000000"

section \<open>The operations of time.c\<close>

definition yo_timeadd :: "yo_time \<Rightarrow> yo_time \<Rightarrow> yo_time" where
  "yo_timeadd a b =
     (let res = \<lparr>sec = sec a + sec b, nsec = nsec a + nsec b\<rparr>
      in if nsec res > 1000000000
         then \<lparr>sec = sec res + 1, nsec = nsec res - 1000000000\<rparr>
         else res)"

definition yo_timesub :: "yo_time \<Rightarrow> yo_time \<Rightarrow> yo_time" where
  "yo_timesub a b =
     (let a = (if nsec a < nsec b
               then a\<lparr>nsec := nsec a + 1000000000, sec := sec a - 1\<rparr>
               else a);
          res = \<lparr>sec = sec a - sec b, nsec = nsec a - nsec b\<rparr>
      in if nsec res > 1000000000
         then \<lparr>sec = sec res + 1, nsec = nsec res - 1000000000\<rparr>
         else res)"

definition yo_timecmp :: "yo_time \<Rightarrow> yo_time \<Rightarrow> int" where
  "yo_timecmp a b =
     (if sec a \<noteq> sec b then (if sec a <s sec b then -1 else 1)
      else if nsec a \<noteq> nsec b then (if nsec a < nsec b then -1 else 1)
      else 0)"

text \<open>
  \<open>(time.nsec + 999999) / 1000000\<close> is computed in \<open>uint32_t\<close>, then widened.
\<close>

definition yo_timems :: "yo_time \<Rightarrow> u64" where
  "yo_timems t = sec t * 1000 + ucast ((nsec t + 999999) div 1000000)"

section \<open>Reading the fields as integers\<close>

lemma normal_uint: "normal t \<longleftrightarrow> uint (nsec t) < 1000000000"
  by (simp add: normal_def word_less_def)

lemma normal_bounds: "normal t \<Longrightarrow> 0 \<le> uint (nsec t) \<and> uint (nsec t) < 1000000000"
  by (simp add: normal_uint)

text \<open>The seconds of a sum, or of a difference, that the code's signed arithmetic can hold.\<close>

definition secs_fit :: "int \<Rightarrow> bool" where
  "secs_fit k \<longleftrightarrow> - (2 ^ 63) \<le> k \<and> k < 2 ^ 63"

lemma secs_fit_add: "secs_fit (sint (a :: u64) + sint b) \<Longrightarrow> sint (a + b) = sint a + sint b"
  by (rule sint_add_exact) (simp_all add: secs_fit_def)

lemma secs_fit_sub: "secs_fit (sint (a :: u64) - sint b) \<Longrightarrow> sint (a - b) = sint a - sint b"
  by (rule sint_sub_exact) (simp_all add: secs_fit_def)

lemma secs_fit_suc: "secs_fit (sint (a :: u64) + 1) \<Longrightarrow> sint (a + 1) = sint a + 1"
  using secs_fit_add [of a 1] by simp

lemma secs_fit_pred: "secs_fit (sint (a :: u64) - 1) \<Longrightarrow> sint (a - 1) = sint a - 1"
  using secs_fit_sub [of a 1] by simp

lemma nsec_sum:
  assumes "normal a" and "normal b"
  shows "uint (nsec a + nsec b) = uint (nsec a) + uint (nsec b)"
  by (rule uint_add_exact) (use assms [THEN normal_bounds] in simp)

lemma giga_less [simp]: "(1000000000 :: u32) < x \<longleftrightarrow> 1000000000 < uint x"
  by (simp add: word_less_def)

lemma giga_le [simp]: "x \<le> (1000000000 :: u32) \<longleftrightarrow> uint x \<le> 1000000000"
  by (simp add: word_le_def)

lemma nsec_less: "nsec a < nsec b \<longleftrightarrow> uint (nsec a) < uint (nsec b)"
  by (simp add: word_less_def)

lemma timeadd_exact:
  assumes "normal a" and "normal b"
    and "secs_fit (sint (sec a) + sint (sec b))" and "secs_fit (sint (sec a) + sint (sec b) + 1)"
  shows "time_ns (yo_timeadd a b) = time_ns a + time_ns b"
    and "nsec (yo_timeadd a b) \<le> 1000000000"
proof -
  note n = nsec_sum [OF assms(1,2)]
  note s = secs_fit_add [OF assms(3)]
  have s1: "sint (sec a + sec b + 1) = sint (sec a) + sint (sec b) + 1"
    using secs_fit_suc [of "sec a + sec b"] assms(4) by (simp add: s)
  note ab = assms(1,2) [THEN normal_bounds]
  have carry: "uint (nsec a + nsec b - 1000000000) = uint (nsec a) + uint (nsec b) - 1000000000"
    if "1000000000 < uint (nsec a) + uint (nsec b)"
    using uint_sub_exact [of "1000000000 :: u32" "nsec a + nsec b"] that by (simp add: n)
  show "time_ns (yo_timeadd a b) = time_ns a + time_ns b"
    using carry ab by (auto simp: yo_timeadd_def time_ns_def Let_def n s s1)
  show "nsec (yo_timeadd a b) \<le> 1000000000"
    using carry ab by (auto simp: yo_timeadd_def Let_def n)
qed

lemma timesub_exact:
  assumes "normal a" and "normal b"
    and "secs_fit (sint (sec a) - sint (sec b))" and "secs_fit (sint (sec a) - 1)"
    and "secs_fit (sint (sec a) - sint (sec b) - 1)"
  shows "time_ns (yo_timesub a b) = time_ns a - time_ns b"
    and "normal (yo_timesub a b)"
proof -
  note ab = assms(1,2) [THEN normal_bounds]
  note s = secs_fit_sub [OF assms(3)]
  note p = secs_fit_pred [OF assms(4)]
  have sp: "sint (sec a - 1 - sec b) = sint (sec a) - 1 - sint (sec b)"
    using secs_fit_sub [of "sec a - 1" "sec b"] assms(5) by (simp add: p algebra_simps)
  have borrow: "uint (nsec a + 1000000000) = uint (nsec a) + 1000000000"
    using uint_add_exact [of "nsec a" "1000000000 :: u32"] ab by simp
  have low: "uint (nsec a + 1000000000 - nsec b) = uint (nsec a) + 1000000000 - uint (nsec b)"
    using uint_sub_exact [of "nsec b" "nsec a + 1000000000"] ab by (simp add: borrow)
  have direct: "uint (nsec a - nsec b) = uint (nsec a) - uint (nsec b)" if "uint (nsec b) \<le> uint (nsec a)"
    using that by (rule uint_sub_exact)
  have settled: "uint (nsec a) - uint (nsec b) < 1000000000"
    using ab by linarith
  show "time_ns (yo_timesub a b) = time_ns a - time_ns b"
    using ab direct settled by (auto simp: yo_timesub_def time_ns_def Let_def nsec_less s sp low)
  show "normal (yo_timesub a b)"
    using ab direct settled by (auto simp: yo_timesub_def normal_uint Let_def nsec_less low)
qed

section \<open>Timestamps are linearly ordered by the comparison\<close>

instantiation yo_time_ext :: (linorder) linorder
begin

definition less_eq_yo_time_ext :: "'a yo_time_scheme \<Rightarrow> 'a yo_time_scheme \<Rightarrow> bool" where
  "a \<le> b \<longleftrightarrow> sint (sec a) < sint (sec b) \<or> sec a = sec b \<and>
     (nsec a < nsec b \<or> nsec a = nsec b \<and> yo_time.more a \<le> yo_time.more b)"

definition less_yo_time_ext :: "'a yo_time_scheme \<Rightarrow> 'a yo_time_scheme \<Rightarrow> bool" where
  "a < b \<longleftrightarrow> sint (sec a) < sint (sec b) \<or> sec a = sec b \<and>
     (nsec a < nsec b \<or> nsec a = nsec b \<and> yo_time.more a < yo_time.more b)"

instance
proof
  fix a b c :: "'a yo_time_scheme"
  show "a < b \<longleftrightarrow> a \<le> b \<and> \<not> b \<le> a"
    by (auto simp: less_eq_yo_time_ext_def less_yo_time_ext_def)
  show "a \<le> a"
    by (simp add: less_eq_yo_time_ext_def)
  show "a \<le> c" if "a \<le> b" and "b \<le> c"
    using that by (auto simp: less_eq_yo_time_ext_def)
  show "a = b" if "a \<le> b" and "b \<le> a"
    using that by (auto simp: less_eq_yo_time_ext_def intro: yo_time.equality)
  show "a \<le> b \<or> b \<le> a"
    by (simp add: less_eq_yo_time_ext_def)
      (metis linorder_less_linear linorder_linear signed_word_eqI)
qed

end

lemma timecmp_order:
  "yo_timecmp a b = (if a < b then -1 else if a = b then 0 else 1)"
  by (auto simp: yo_timecmp_def less_yo_time_ext_def word_sless_alt intro: yo_time.equality)

lemma time_ns_order:
  assumes "normal a" and "normal b"
  shows "a < b \<longleftrightarrow> time_ns a < time_ns b" and "a = b \<longleftrightarrow> time_ns a = time_ns b"
proof -
  note ab = assms [THEN normal_bounds]
  have gap: "sint x * 1000000000 + 1000000000 \<le> sint y * 1000000000"
    if "sint x < sint y" for x y :: u64
    using that by simp
  have lt: "a < b \<longleftrightarrow> time_ns a < time_ns b" if "normal a" "normal b" for a b
  proof (rule linorder_cases [of "sint (sec a)" "sint (sec b)"])
    assume *: "sint (sec a) < sint (sec b)"
    have "time_ns a < time_ns b"
      using gap [OF *] that [THEN normal_bounds] unfolding time_ns_def by linarith
    with * show ?thesis by (simp add: less_yo_time_ext_def)
  next
    assume "sint (sec a) = sint (sec b)"
    then show ?thesis
      by (simp add: less_yo_time_ext_def time_ns_def nsec_less signed_word_eqI)
  next
    assume *: "sint (sec b) < sint (sec a)"
    have "time_ns b < time_ns a"
      using gap [OF *] that [THEN normal_bounds] unfolding time_ns_def by linarith
    with * show ?thesis by (auto simp: less_yo_time_ext_def)
  qed
  show "a < b \<longleftrightarrow> time_ns a < time_ns b"
    by (rule lt [OF assms])
  show "a = b \<longleftrightarrow> time_ns a = time_ns b"
    using lt [OF assms] lt [OF assms(2,1)] unfolding linorder_neq_iff [symmetric]
    by (auto simp: order_eq_iff simp flip: not_less)
qed

lemma uint_div_exact: "uint ((x :: u32) div 1000000) = uint x div 1000000"
  by (simp add: uint_div_distrib)

lemma timems_ceiling:
  assumes "normal t" and "secs_fit (sint (sec t) * 1000 + 1000)" and "secs_fit (sint (sec t) * 1000)"
  shows "sint (yo_timems t) = - ((- time_ns t) div 1000000)"
proof -
  let ?k = "(nsec t + 999999) div 1000000"
  note t = normal_bounds [OF assms(1)]
  have "uint (nsec t + 999999) = uint (nsec t) + 999999"
    using uint_add_exact [of "nsec t" "999999 :: u32"] t by simp
  then have k: "uint ?k = (uint (nsec t) + 999999) div 1000000"
    by (simp add: uint_div_exact)
  then have "uint ?k \<le> 1000"
    using t by simp
  then have kb: "0 \<le> uint ?k" "uint ?k \<le> 1000"
    by simp_all
  have "sint (ucast ?k :: u64) = uint ?k"
    by (rule sint_widened)
  moreover have m: "sint (sec t * 1000) = sint (sec t) * 1000"
    using sint_mult_exact [of "sec t" "1000 :: u64"] assms(3) by (simp add: secs_fit_def)
  moreover have "secs_fit (sint (sec t) * 1000 + uint ?k)"
    using assms(2,3) kb unfolding secs_fit_def by linarith
  ultimately have "sint (yo_timems t) = sint (sec t) * 1000 + uint ?k"
    unfolding yo_timems_def using secs_fit_add [of "sec t * 1000" "ucast ?k :: u64"] by simp
  also have "\<dots> = - ((- time_ns t) div 1000000)"
    using t by (simp add: k time_ns_def)
  finally show ?thesis .
qed

text \<open>The milliseconds from one time to another, as the timeouts of the systems take them.\<close>

lemma ms_between:
  assumes "normal until" and "normal now" and "\<bar>sint (sec until)\<bar> < 2 ^ 50" and "\<bar>sint (sec now)\<bar> < 2 ^ 50"
  shows "sint (yo_timems (yo_timesub until now)) = - ((time_ns now - time_ns until) div 10 ^ 6)"
proof -
  let ?d = "yo_timesub until now"
  have b: "- (2 ^ 50) < sint (sec until)" "sint (sec until) < 2 ^ 50" "- (2 ^ 50) < sint (sec now)" "sint (sec now) < 2 ^ 50"
    using assms(3,4) by auto
  have sub: "time_ns ?d = time_ns until - time_ns now" "normal ?d"
    using timesub_exact [OF assms(1,2)] b by (simp_all add: secs_fit_def)
  have "- 4503599627370496 < sint (sec ?d)" "sint (sec ?d) < 4503599627370496"
    using sub(1) normal_bounds [OF sub(2)] normal_bounds [OF assms(1)] normal_bounds [OF assms(2)] b [simplified]
    unfolding time_ns_def by linarith+
  then show ?thesis
    using timems_ceiling [OF sub(2)] sub(1) by (simp add: secs_fit_def)
qed

section \<open>Properties\<close>

text \<open>
  C40: The sum of two normal timestamps denotes the sum of their values, as long as the
  seconds fit. It is normal except when the nanoseconds add up to exactly one second: the
  carry is taken only above a second, so that sum keeps 1000000000 nanoseconds.
\<close>
theorem timeadd_correct:
  assumes "normal a" and "normal b"
    and "secs_fit (sint (sec a) + sint (sec b))" and "secs_fit (sint (sec a) + sint (sec b) + 1)"
  shows "time_ns (yo_timeadd a b) = time_ns a + time_ns b
    \<and> (normal (yo_timeadd a b) \<longleftrightarrow> uint (nsec a) + uint (nsec b) \<noteq> 1000000000)"
proof
  show "time_ns (yo_timeadd a b) = time_ns a + time_ns b"
    by (rule timeadd_exact(1) [OF assms])
  note n = nsec_sum [OF assms(1,2)]
  have "uint (nsec a + nsec b - 1000000000) = uint (nsec a) + uint (nsec b) - 1000000000"
    if "1000000000 < uint (nsec a) + uint (nsec b)"
    using uint_sub_exact [of "1000000000 :: u32" "nsec a + nsec b"] that by (simp add: n)
  then show "normal (yo_timeadd a b) \<longleftrightarrow> uint (nsec a) + uint (nsec b) \<noteq> 1000000000"
    using assms(1,2) [THEN normal_bounds] by (auto simp: yo_timeadd_def normal_uint Let_def n)
qed

theorem timeadd_correct_witness:
  "\<not> normal (yo_timeadd \<lparr>sec = 1, nsec = 500000000\<rparr> \<lparr>sec = 0, nsec = 500000000\<rparr>)
   \<and> time_ns (yo_timeadd \<lparr>sec = 1, nsec = 500000000\<rparr> \<lparr>sec = 0, nsec = 500000000\<rparr>) = 2000000000"
  using timeadd_correct [of "\<lparr>sec = 1, nsec = 500000000\<rparr>" "\<lparr>sec = 0, nsec = 500000000\<rparr>"]
  by (simp add: normal_uint secs_fit_def time_ns_def)

text \<open>
  The difference of two normal timestamps denotes the difference of their values and is
  always normal, as long as the seconds fit.
\<close>
theorem timesub_correct:
  assumes "normal a" and "normal b"
    and "secs_fit (sint (sec a) - sint (sec b))" and "secs_fit (sint (sec a) - 1)"
    and "secs_fit (sint (sec a) - sint (sec b) - 1)"
  shows "time_ns (yo_timesub a b) = time_ns a - time_ns b \<and> normal (yo_timesub a b)"
  using timesub_exact [OF assms] by blast

theorem timesub_correct_witness:
  "time_ns (yo_timesub \<lparr>sec = 5, nsec = 1\<rparr> \<lparr>sec = 7, nsec = 2\<rparr>) = -2000000001"
  using timesub_correct [of "\<lparr>sec = 5, nsec = 1\<rparr>" "\<lparr>sec = 7, nsec = 2\<rparr>"]
  by (simp add: normal_uint secs_fit_def time_ns_def)

text \<open>
  \<open>yo_timecmp\<close> decides the linear order of timestamps, and on normal timestamps it is
  the sign of the difference of their values.
\<close>
theorem timecmp_correct:
  assumes "normal a" and "normal b"
  shows "yo_timecmp a b = sgn (time_ns a - time_ns b)
    \<and> (yo_timecmp a b < 0 \<longleftrightarrow> a < b) \<and> (yo_timecmp a b = 0 \<longleftrightarrow> a = b)"
  using time_ns_order [OF assms] by (auto simp: timecmp_order)

theorem timecmp_correct_witness:
  "yo_timecmp \<lparr>sec = -1, nsec = 999999999\<rparr> \<lparr>sec = 0, nsec = 0\<rparr> = -1"
  using timecmp_correct [of "\<lparr>sec = -1, nsec = 999999999\<rparr>" "\<lparr>sec = 0, nsec = 0\<rparr>"]
  by (simp add: normal_uint time_ns_def)

text \<open>
  \<open>yo_timems\<close> is the number of milliseconds rounded up, so a wait of that many
  milliseconds never ends before the time has passed.
\<close>
theorem timems_rounds_up:
  assumes "normal t" and "secs_fit (sint (sec t) * 1000 + 1000)" and "secs_fit (sint (sec t) * 1000)"
  shows "sint (yo_timems t) = - ((- time_ns t) div 1000000)
    \<and> time_ns t \<le> sint (yo_timems t) * 1000000 \<and> sint (yo_timems t) * 1000000 < time_ns t + 1000000"
  using timems_ceiling [OF assms] by auto

theorem timems_rounds_up_witness:
  "sint (yo_timems \<lparr>sec = 2, nsec = 1\<rparr>) = 2001"
  using timems_rounds_up [of "\<lparr>sec = 2, nsec = 1\<rparr>"]
  by (simp add: normal_uint secs_fit_def time_ns_def)

end
