(* ===== verification/Addr.thy ===== *)
theory Addr
  imports Prelude
begin

text \<open>
  The addresses of \<open>inc/yaooi/addr.h\<close> and \<open>src/addr.c\<close>: the two textual parsers, the
  comparison, and what they accept. \<open>*it\<close> is \<open>peek\<close> and \<open>it++\<close> is \<open>tl\<close>; a
  \<open>return false\<close> is \<open>None\<close> inside the loops.
\<close>

section \<open>Addresses\<close>

text \<open>The tagged union: four bytes, or eight 16-bit groups in host order.\<close>

datatype yo_addr =
    YO_ADDR_IPV4 (v4: "byte list")
  | YO_ADDR_IPV6 (v6: "u16 list")

definition wf_addr :: "yo_addr \<Rightarrow> bool" where
  "wf_addr a = (case a of YO_ADDR_IPV4 b \<Rightarrow> length b = 4 | YO_ADDR_IPV6 g \<Rightarrow> length g = 8)"

text \<open>\<open>memcmp\<close> over the member that the tag selects.\<close>

definition yo_addrcmp :: "yo_addr \<Rightarrow> yo_addr \<Rightarrow> bool" where
  "yo_addrcmp a b =
     (case a of
        YO_ADDR_IPV4 x \<Rightarrow> (case b of YO_ADDR_IPV4 y \<Rightarrow> x = y | YO_ADDR_IPV6 _ \<Rightarrow> False)
      | YO_ADDR_IPV6 x \<Rightarrow> (case b of YO_ADDR_IPV4 _ \<Rightarrow> False | YO_ADDR_IPV6 y \<Rightarrow> x = y))"

section \<open>The IPv4 parser\<close>

text \<open>
  The inner \<open>while (isdigit( *it))\<close> loop. \<open>part\<close> is a \<open>uint64_t\<close>; the guard on 100
  keeps it below 1010, so a natural number holds it.
\<close>

fun ipv4_digits :: "nat \<Rightarrow> string \<Rightarrow> (nat \<times> string) option" where
  "ipv4_digits part [] = Some (part, [])"
| "ipv4_digits part (c # it) =
     (if isdigit c then
        if part > 100 then None
        else ipv4_digits (part * 10 + char_code c - 48) it
      else Some (part, c # it))"

text \<open>The outer loop over \<open>i\<close>; \<open>out\<close> is \<open>res.v4[0..i)\<close>.\<close>

function ipv4_parts :: "nat \<Rightarrow> string \<Rightarrow> byte list \<Rightarrow> (byte list \<times> string) option" where
  "ipv4_parts i it out =
     (if i < 4 then
        if \<not> isdigit (peek it) then None
        else case ipv4_digits 0 it of
          None \<Rightarrow> None
        | Some (part, it) \<Rightarrow>
            if part > 255 then None
            else if peek it = CHR ''.'' \<and> i = 3 then None
            else
              let it = (if peek it = CHR ''.'' then tl it else it) in
              if peek it = NUL \<and> i \<noteq> 3 then None
              else ipv4_parts (i + 1) it (out @ [of_nat part])
      else Some (out, it))"
  by pat_completeness auto
termination
  by (relation "measure (\<lambda>(i, it, out). 4 - i)") auto

declare ipv4_parts.simps [simp del]

definition yo_parse_ipv4 :: "string \<Rightarrow> yo_addr option" where
  "yo_parse_ipv4 str =
     (case ipv4_parts 0 str [] of
        None \<Rightarrow> None
      | Some (out, it) \<Rightarrow> if peek it \<noteq> NUL then None else Some (YO_ADDR_IPV4 out))"

section \<open>The IPv6 parser\<close>

text \<open>One hexadecimal digit shifted into \<open>res.v6[i]\<close>: the three \<open>if\<close>s in order.\<close>

definition hex_step :: "u16 \<Rightarrow> char \<Rightarrow> u16" where
  "hex_step w c =
     (let w = push_bit 4 w;
          w = (if isdigit c then w OR of_nat (char_code c - 48) else w);
          w = (if islower c then w OR of_nat (char_code c - 97 + 10) else w)
      in if isupper c then w OR of_nat (char_code c - 65 + 10) else w)"

text \<open>The inner loop over \<open>j\<close>, counting down from 4.\<close>

fun hex_group :: "nat \<Rightarrow> u16 \<Rightarrow> string \<Rightarrow> u16 \<times> string" where
  "hex_group 0 w it = (w, it)"
| "hex_group (Suc n) w it =
     (if \<not> isxdigit (peek it) then (w, it)
      else hex_group n (hex_step w (peek it)) (tl it))"

text \<open>
  The outer loop. Its result is \<open>i\<close>, the cursor, \<open>zeroes_i\<close> and the array when the loop is
  left, \<open>None\<close> for \<open>return false\<close>. The test for \<open>::\<close> comes after the test for
  \<open>:\<close>, as in the source.
\<close>

function ipv6_groups ::
  "nat \<Rightarrow> string \<Rightarrow> int \<Rightarrow> u16 list \<Rightarrow> (nat \<times> string \<times> int \<times> u16 list) option" where
  "ipv6_groups i it zeroes_i out =
     (if i < 8 then
        if \<not> isxdigit (peek it) then None
        else
          let (w, it) = hex_group 4 (out ! i) it;
              out = out[i := w] in
          if peek it = CHR '':'' then ipv6_groups (i + 1) (tl it) zeroes_i out
          else
            case (if peek it = CHR '':'' \<and> peek (tl it) = CHR '':''
                  then if zeroes_i \<noteq> -1 then None else Some (int i, tl (tl it))
                  else Some (zeroes_i, it)) of
              None \<Rightarrow> None
            | Some (zeroes_i, it) \<Rightarrow>
                if peek it = NUL then Some (i, it, zeroes_i, out)
                else ipv6_groups (i + 1) it zeroes_i out
      else Some (i, it, zeroes_i, out))"
  by pat_completeness auto
termination
  by (relation "measure (\<lambda>(i, it, z, out). 8 - i)") auto

declare ipv6_groups.simps [simp del]

text \<open>\<open>memmove\<close> inside one array of groups: undefined out of bounds.\<close>

definition memmove_groups :: "u16 list \<Rightarrow> int \<Rightarrow> int \<Rightarrow> int \<Rightarrow> u16 list option" where
  "memmove_groups a dst src n =
     (if 0 \<le> dst \<and> 0 \<le> src \<and> 0 \<le> n \<and> dst + n \<le> int (length a) \<and> src + n \<le> int (length a)
      then Some (take (nat dst) a @ take (nat n) (drop (nat src) a) @ drop (nat (dst + n)) a)
      else None)"

text \<open>
  \<open>pres\<close> says whether the output pointer is not NULL. The outer option is undefined
  behaviour, the inner one \<open>return false\<close>.
\<close>

definition yo_parse_ipv6 :: "bool \<Rightarrow> string \<Rightarrow> yo_addr option option" where
  "yo_parse_ipv6 pres str =
     (let dbl = (peek str = CHR '':'' \<and> peek (tl str) = CHR '':'');
          it = (if dbl then tl (tl str) else str);
          zeroes_i = (if dbl then 0 else -1)
      in if dbl \<and> peek it = NUL then
           (if pres then Some (Some (YO_ADDR_IPV6 (replicate 8 0))) else None)
         else
           case ipv6_groups 0 it zeroes_i (replicate 8 0) of
             None \<Rightarrow> Some None
           | Some (i, it, zeroes_i, out) \<Rightarrow>
               if peek it \<noteq> NUL then Some None
               else if zeroes_i > 0 then
                 let trailing_n = int i - zeroes_i in
                 (case memmove_groups out (16 - trailing_n) zeroes_i trailing_n of
                    None \<Rightarrow> None
                  | Some out \<Rightarrow> Some (Some (YO_ADDR_IPV6 out)))
               else Some (Some (YO_ADDR_IPV6 out)))"

definition yo_addrparse :: "bool \<Rightarrow> string \<Rightarrow> yo_addr option option" where
  "yo_addrparse pres str =
     (case yo_parse_ipv4 str of
        Some a \<Rightarrow> Some (Some a)
      | None \<Rightarrow> yo_parse_ipv6 pres str)"

section \<open>Dotted quads\<close>

fun join :: "char \<Rightarrow> string list \<Rightarrow> string" where
  "join sep [] = []"
| "join sep [x] = x"
| "join sep (x # y # xs) = x @ sep # join sep (y # xs)"

definition digits_value :: "nat \<Rightarrow> string \<Rightarrow> nat" where
  "digits_value n ds = foldl (\<lambda>n c. n * 10 + (char_code c - 48)) n ds"

text \<open>A decimal octet: digits, at least one, of value at most 255.\<close>

definition octet :: "string \<Rightarrow> bool" where
  "octet d \<longleftrightarrow> d \<noteq> [] \<and> list_all isdigit d \<and> digits_value 0 d \<le> 255"

definition dotted_quad :: "string \<Rightarrow> byte list \<Rightarrow> bool" where
  "dotted_quad s bs \<longleftrightarrow>
     (\<exists>ds. length ds = 4 \<and> list_all octet ds \<and> s = join CHR ''.'' ds
        \<and> bs = map (\<lambda>d. of_nat (digits_value 0 d)) ds)"

lemma digits_value_Nil [simp]: "digits_value n [] = n"
  by (simp add: digits_value_def)

lemma digits_value_Cons [simp]:
  "digits_value n (c # ds) = digits_value (n * 10 + (char_code c - 48)) ds"
  by (simp add: digits_value_def)

lemma digits_value_ge: "n \<le> digits_value n ds"
proof (induction ds arbitrary: n)
  case (Cons c ds)
  show ?case using Cons.IH [of "n * 10 + (char_code c - 48)"] by simp
qed simp

lemma isdigit_code: "isdigit c \<Longrightarrow> n * 10 + char_code c - 48 = n * 10 + (char_code c - 48)"
  by (simp add: isdigit_def)

lemma ipv4_digits_accepts:
  assumes "list_all isdigit d" and "\<not> isdigit (peek r)" and "digits_value n d \<le> 255"
  shows "ipv4_digits n (d @ r) = Some (digits_value n d, r)"
  using assms
proof (induction d arbitrary: n)
  case Nil
  then show ?case by (cases r) simp_all
next
  case (Cons c d)
  have "n * 10 + (char_code c - 48) \<le> 255"
    using Cons.prems(3) digits_value_ge [of "n * 10 + (char_code c - 48)" d] by simp
  then have "n \<le> 100" by simp
  with Cons show ?case by (simp add: isdigit_code)
qed

lemma ipv4_digits_shape:
  "ipv4_digits n it = Some (q, r) \<Longrightarrow>
     \<exists>d. it = d @ r \<and> list_all isdigit d \<and> \<not> isdigit (peek r) \<and> q = digits_value n d"
proof (induction it arbitrary: n)
  case Nil
  then show ?case by simp
next
  case (Cons c it)
  show ?case
  proof (cases "isdigit c")
    case True
    with Cons.prems have "ipv4_digits (n * 10 + (char_code c - 48)) it = Some (q, r)"
      by (auto simp: isdigit_code split: if_splits)
    from Cons.IH [OF this] obtain d where "it = d @ r" "list_all isdigit d"
      "\<not> isdigit (peek r)" "q = digits_value (n * 10 + (char_code c - 48)) d" by blast
    with True have "c # it = (c # d) @ r \<and> list_all isdigit (c # d) \<and> \<not> isdigit (peek r)
        \<and> q = digits_value n (c # d)" by simp
    then show ?thesis by blast
  next
    case False
    with Cons.prems have "c # it = [] @ r \<and> list_all isdigit [] \<and> \<not> isdigit (peek r)
        \<and> q = digits_value n []" by auto
    then show ?thesis by blast
  qed
qed

lemma peek_join: "list_all octet ds \<Longrightarrow> ds \<noteq> [] \<Longrightarrow> isdigit (peek (join sep ds))"
  by (cases "(sep, ds)" rule: join.cases) (auto simp: octet_def neq_Nil_conv)

lemma join_Cons: "ds \<noteq> [] \<Longrightarrow> join sep (d # ds) = d @ sep # join sep ds"
  by (cases ds) simp_all

lemma peek_NUL: "NUL \<notin> set s \<Longrightarrow> peek s = NUL \<longleftrightarrow> s = []"
  by (cases s) auto

lemma ipv4_parts_shape:
  assumes "ipv4_parts i it out = Some (res, r)" and "peek r = NUL" and "NUL \<notin> set it" and "i < 4"
  shows "\<exists>ds. length ds = 4 - i \<and> list_all octet ds \<and> it = join CHR ''.'' ds
    \<and> res = out @ map (\<lambda>d. of_nat (digits_value 0 d)) ds"
  using assms
proof (induction "3 - i" arbitrary: i it out)
  case 0
  then have i: "i = 3" by simp
  note run = "0.prems"(1) [unfolded i, unfolded ipv4_parts.simps [of 3]]
  from run obtain q r1 where q: "ipv4_digits 0 it = Some (q, r1)" "q \<le> 255" "isdigit (peek it)"
    and res: "res = out @ [of_nat q]" "r = r1"
    by (auto simp: ipv4_parts.simps [of 4] split: if_splits option.splits)
  from ipv4_digits_shape [OF q(1)] obtain d where d: "it = d @ r1" "list_all isdigit d"
    "\<not> isdigit (peek r1)" "q = digits_value 0 d" by blast
  have "r1 = []" using 0 res d(1) by (auto simp: peek_NUL)
  moreover have "d \<noteq> []" using q(3) d(1,3) by (auto simp: peek_append)
  ultimately have "length [d] = 4 - i \<and> list_all octet [d] \<and> it = join CHR ''.'' [d]
      \<and> res = out @ map (\<lambda>d. of_nat (digits_value 0 d)) [d]"
    using i d q(2) res by (simp add: octet_def)
  then show ?case by blast
next
  case (Suc k)
  then have i: "i < 3" by simp
  from Suc.prems obtain q r1 where q: "ipv4_digits 0 it = Some (q, r1)" "q \<le> 255" "isdigit (peek it)"
    and rec: "ipv4_parts (Suc i) (if peek r1 = CHR ''.'' then tl r1 else r1) (out @ [of_nat q])
      = Some (res, r)"
    by (auto simp: ipv4_parts.simps [of i] Let_def split: if_splits option.splits)
  from ipv4_digits_shape [OF q(1)] obtain d where d: "it = d @ r1" "list_all isdigit d"
    "\<not> isdigit (peek r1)" "q = digits_value 0 d" by blast
  have dot: "peek r1 = CHR ''.''"
    using rec d(3) i by (auto simp: ipv4_parts.simps [of "Suc i"] split: if_splits)
  then obtain t where t: "r1 = CHR ''.'' # t" by (cases r1) simp_all
  have "\<exists>ds. length ds = 4 - Suc i \<and> list_all octet ds \<and> t = join CHR ''.'' ds
      \<and> res = (out @ [of_nat q]) @ map (\<lambda>d. of_nat (digits_value 0 d)) ds"
    by (rule Suc.hyps(1)) (use Suc rec t d in auto)
  then obtain ds where ds: "length ds = 3 - i" "list_all octet ds" "t = join CHR ''.'' ds"
    "res = (out @ [of_nat q]) @ map (\<lambda>d. of_nat (digits_value 0 d)) ds" by auto
  have "d \<noteq> []" using q(3) d(1,3) by (auto simp: peek_append)
  with d q(2) ds t i have "length (d # ds) = 4 - i \<and> list_all octet (d # ds)
      \<and> it = join CHR ''.'' (d # ds)
      \<and> res = out @ map (\<lambda>d. of_nat (digits_value 0 d)) (d # ds)"
    by (subst join_Cons) (auto simp: octet_def)
  then show ?case by blast
qed

lemma ipv4_parts_accepts:
  assumes "list_all octet ds" and "length ds = 4 - i" and "i < 4"
  shows "ipv4_parts i (join CHR ''.'' ds) out
    = Some (out @ map (\<lambda>d. of_nat (digits_value 0 d)) ds, [])"
  using assms
proof (induction ds arbitrary: i out)
  case (Cons d ds)
  have d: "d \<noteq> []" "list_all isdigit d" "digits_value 0 d \<le> 255"
    using Cons.prems(1) by (simp_all add: octet_def)
  show ?case
  proof (cases "ds = []")
    case True
    with Cons.prems(2,3) have i: "i = 3" by simp
    have "isdigit (peek d)" using d by (cases d) simp_all
    moreover have "ipv4_digits 0 d = Some (digits_value 0 d, [])"
      using ipv4_digits_accepts [of d "[]" 0] d by simp
    ultimately show ?thesis
      unfolding i True using d(3)
      by (simp add: ipv4_parts.simps [of 3] ipv4_parts.simps [of 4])
  next
    case False
    then have i: "i < 3" using Cons.prems by (cases ds) auto
    have "isdigit (peek (d @ CHR ''.'' # join CHR ''.'' ds))" using d by (cases d) simp_all
    moreover have "isdigit (peek (join CHR ''.'' ds))"
      using Cons.prems(1) False by (simp add: peek_join)
    then have "peek (join CHR ''.'' ds) \<noteq> NUL" using isdigit_NUL by metis
    moreover have "ipv4_parts (Suc i) (join CHR ''.'' ds) (out @ [of_nat (digits_value 0 d)])
        = Some ((out @ [of_nat (digits_value 0 d)])
            @ map (\<lambda>d. of_nat (digits_value 0 d)) ds, [])"
      by (rule Cons.IH) (use Cons.prems i in auto)
    moreover note ipv4_digits_accepts [of d "CHR ''.'' # join CHR ''.'' ds" 0]
    ultimately show ?thesis
      using False d i by (simp add: ipv4_parts.simps [of i] join_Cons)
  qed
qed simp

section \<open>Full-form IPv6\<close>

definition hexval :: "char \<Rightarrow> nat" where
  "hexval c =
     (if isdigit c then char_code c - 48
      else if islower c then char_code c - 97 + 10 else char_code c - 65 + 10)"

definition hex_value :: "string \<Rightarrow> nat" where
  "hex_value ds = foldl (\<lambda>n c. n * 16 + hexval c) 0 ds"

text \<open>One group: one to four hexadecimal digits.\<close>

definition hex_quad :: "string \<Rightarrow> bool" where
  "hex_quad d \<longleftrightarrow> d \<noteq> [] \<and> length d \<le> 4 \<and> list_all isxdigit d"

lemma hexval_less: "isxdigit c \<Longrightarrow> hexval c < 16"
  by (auto simp: hexval_def ctype_defs)

lemma shift_or_add:
  assumes "n < 16"
  shows "push_bit 4 w OR of_nat n = w * 16 + (of_nat n :: u16)"
proof -
  have "of_nat n = take_bit 4 (of_nat n :: u16)"
    using assms by (simp add: of_nat_take_bit [symmetric] take_bit_nat_eq_self)
  then have "\<not> bit (push_bit 4 w) k \<or> \<not> bit (of_nat n :: u16) k" for k
    by (metis bit_push_bit_iff bit_take_bit_iff not_less)
  then have "push_bit 4 w + of_nat n = push_bit 4 w OR (of_nat n :: u16)"
    by (rule disjunctive_add)
  then show ?thesis by (simp add: push_bit_eq_mult)
qed

lemma hex_step_value:
  assumes "isxdigit c"
  shows "hex_step w c = w * 16 + of_nat (hexval c)"
proof -
  have "hex_step w c = push_bit 4 w OR of_nat (hexval c)"
    using assms by (auto simp: hex_step_def hexval_def ctype_defs)
  then show ?thesis by (simp add: shift_or_add hexval_less assms)
qed

lemma hex_group_run:
  "list_all isxdigit d \<Longrightarrow> length d \<le> n \<Longrightarrow> length d = n \<or> \<not> isxdigit (peek r) \<Longrightarrow>
     hex_group n (of_nat k) (d @ r) = (of_nat (foldl (\<lambda>n c. n * 16 + hexval c) k d), r)"
proof (induction d arbitrary: n k)
  case Nil
  then show ?case by (cases n) simp_all
next
  case (Cons c d)
  then obtain m where m: "n = Suc m" by (cases n) simp_all
  have "hex_step (of_nat k) c = of_nat (k * 16 + hexval c)"
    using Cons.prems(1) by (simp add: hex_step_value)
  with Cons.prems m Cons.IH [of m "k * 16 + hexval c"] show ?case by (simp del: of_nat_add of_nat_mult)
qed

lemma hex_group_quad:
  "hex_quad d \<Longrightarrow> \<not> isxdigit (peek r) \<Longrightarrow> hex_group 4 0 (d @ r) = (of_nat (hex_value d), r)"
  using hex_group_run [of d 4 r 0] by (simp add: hex_quad_def hex_value_def)

lemma peek_quads: "list_all hex_quad ds \<Longrightarrow> ds \<noteq> [] \<Longrightarrow> isxdigit (peek (join sep ds))"
  by (cases "(sep, ds)" rule: join.cases) (auto simp: hex_quad_def neq_Nil_conv)

lemma write_next_group:
  "length pre = i \<Longrightarrow> i < 8 \<Longrightarrow>
     (pre @ replicate (8 - i) 0)[i := w] = (pre @ [w]) @ replicate (8 - Suc i) (0 :: u16)"
  by (simp add: list_update_append Suc_diff_Suc [symmetric, of i 8] del: diff_Suc_Suc)

text \<open>The loop over \<open>i\<close> on the groups that are left; the array still holds zeros from \<open>i\<close> on.\<close>

lemma ipv6_groups_accepts:
  assumes "list_all hex_quad ds" and "ds \<noteq> []" and "length pre = i" and "i + length ds \<le> 8"
  shows "\<exists>j. ipv6_groups i (join CHR '':'' ds) z (pre @ replicate (8 - i) 0)
    = Some (j, [], z, pre @ map (\<lambda>d. of_nat (hex_value d)) ds @ replicate (8 - i - length ds) 0)"
  using assms
proof (induction ds arbitrary: i pre)
  case Nil
  then show ?case by simp
next
  case (Cons d ds)
  have i: "i < 8" and d: "hex_quad d" using Cons.prems by simp_all
  have zero: "(pre @ replicate (8 - i) 0) ! i = (0 :: u16)"
    using Cons.prems(3) i by (simp add: nth_append)
  note upd = write_next_group [OF Cons.prems(3) i]
  have first: "isxdigit (peek (d @ r))" for r
    using d by (cases d) (simp_all add: hex_quad_def)
  show ?case
  proof (cases "ds = []")
    case True
    with hex_group_quad [OF d, of "[]"] first [of "[]"] upd zero i show ?thesis
      by (subst ipv6_groups.simps) simp
  next
    case False
    obtain j where "ipv6_groups (Suc i) (join CHR '':'' ds) z
        ((pre @ [of_nat (hex_value d)]) @ replicate (8 - Suc i) 0)
      = Some (j, [], z, (pre @ [of_nat (hex_value d)]) @ map (\<lambda>d. of_nat (hex_value d)) ds
          @ replicate (8 - Suc i - length ds) 0)"
      using Cons.IH [of "pre @ [of_nat (hex_value d)]" "Suc i"] Cons.prems False by auto
    with False hex_group_quad [OF d, of "CHR '':'' # join CHR '':'' ds"] first i upd zero
    show ?thesis by (subst ipv6_groups.simps) (simp add: join_Cons)
  qed
qed

section \<open>What the two parsers can never accept\<close>

lemma set_join: "set (join sep ds) \<subseteq> insert sep (\<Union> (set ` set ds))"
  by (induction sep ds rule: join.induct) auto

lemma join_has_sep: "2 \<le> length ds \<Longrightarrow> sep \<in> set (join sep ds)"
  by (cases "(sep, ds)" rule: join.cases) auto

lemma ipv4_accepts_chars:
  assumes "yo_parse_ipv4 s = Some a" and "NUL \<notin> set s"
  shows "CHR ''.'' \<in> set s" and "CHR '':'' \<notin> set s"
proof -
  obtain out r where "ipv4_parts 0 s [] = Some (out, r)" "peek r = NUL"
    using assms(1) by (auto simp: yo_parse_ipv4_def split: option.splits if_splits)
  from ipv4_parts_shape [OF this assms(2)] obtain ds where
    ds: "length ds = 4" "list_all octet ds" "s = join CHR ''.'' ds" by auto
  show "CHR ''.'' \<in> set s" using ds join_has_sep by simp
  have "CHR '':'' \<notin> set d" if "d \<in> set ds" for d
    using ds(2) that isdigit_colon unfolding list_all_iff octet_def by metis
  with set_join [of "CHR ''.''" ds] ds(3) show "CHR '':'' \<notin> set s" by auto
qed

text \<open>
  The test for \<open>::\<close> inside the loop is reached only when the cursor is at no colon, so
  it never succeeds: the loop is the one below, and \<open>zeroes_i\<close> only travels along.
\<close>

lemma ipv6_groups_done: "\<not> i < 8 \<Longrightarrow> ipv6_groups i it z out = Some (i, it, z, out)"
  by (subst ipv6_groups.simps) simp

lemma ipv6_groups_stuck: "i < 8 \<Longrightarrow> \<not> isxdigit (peek it) \<Longrightarrow> ipv6_groups i it z out = None"
  by (subst ipv6_groups.simps) simp

lemma ipv6_groups_step:
  assumes "i < 8" and "isxdigit (peek it)" and "hex_group 4 (out ! i) it = (w, r)"
  shows "ipv6_groups i it z out =
    (if peek r = CHR '':'' then ipv6_groups (Suc i) (tl r) z (out[i := w])
     else if peek r = NUL then Some (i, r, z, out[i := w])
     else ipv6_groups (Suc i) r z (out[i := w]))"
  using assms by (subst ipv6_groups.simps) simp

lemma ipv6_groups_zeroes:
  "ipv6_groups i it z out = map_option (\<lambda>(j, r, _, out). (j, r, z, out)) (ipv6_groups i it y out)"
proof (induction "8 - i" arbitrary: i it out)
  case 0
  then show ?case by (simp add: ipv6_groups_done)
next
  case (Suc k)
  obtain w r where g: "hex_group 4 (out ! i) it = (w, r)" by (cases "hex_group 4 (out ! i) it")
  have IH: "ipv6_groups (Suc i) it z out
      = map_option (\<lambda>(j, r, _, out). (j, r, z, out)) (ipv6_groups (Suc i) it y out)" for it out
    by (rule Suc.hyps(1)) (use Suc.hyps(2) in simp)
  show ?case
  proof (cases "isxdigit (peek it)")
    case True
    with Suc.hyps(2) IH show ?thesis
      by (simp add: ipv6_groups_step [OF _ True g])
  next
    case False
    with Suc.hyps(2) show ?thesis by (simp add: ipv6_groups_stuck)
  qed
qed

lemma ipv6_groups_constant: "ipv6_groups i it z out = Some (j, r, z', out') \<Longrightarrow> z' = z"
  using ipv6_groups_zeroes [of i it z out z] by (auto simp: map_option_case split: option.splits)

lemma hex_group_shape:
  "hex_group n w it = (w', r) \<Longrightarrow> \<exists>d. it = d @ r \<and> list_all isxdigit d"
proof (induction n w it rule: hex_group.induct)
  case (1 w it)
  then show ?case by (intro exI [of _ "[]"]) simp
next
  case (2 n w it)
  show ?case
  proof (cases "isxdigit (peek it)")
    case True
    with 2 obtain d where d: "tl it = d @ r" "list_all isxdigit d" by auto
    with True show ?thesis
      by (intro exI [of _ "peek it # d"]) (cases it; simp)
  next
    case False
    with 2 show ?thesis by (intro exI [of _ "[]"]) simp
  qed
qed

text \<open>Two colons in a row, anywhere.\<close>

fun has_dbl :: "string \<Rightarrow> bool" where
  "has_dbl [] = False"
| "has_dbl (c # s) = (c = CHR '':'' \<and> peek s = CHR '':'' \<or> has_dbl s)"

lemma has_dbl_infix: "has_dbl (a @ CHR '':'' # CHR '':'' # b)"
  by (induction a) simp_all

lemma has_dbl_skip: "list_all isxdigit d \<Longrightarrow> has_dbl (d @ r) = has_dbl r"
  by (induction d) auto

lemma ipv6_groups_no_dbl:
  assumes "ipv6_groups i it z out = Some (j, r, z', out')" and "peek r = NUL" and "NUL \<notin> set it"
  shows "\<not> has_dbl it"
  using assms
proof (induction "8 - i" arbitrary: i it out)
  case 0
  then show ?case by (auto simp: ipv6_groups_done peek_NUL)
next
  case (Suc k)
  obtain w s where g: "hex_group 4 (out ! i) it = (w, s)" by (cases "hex_group 4 (out ! i) it")
  from hex_group_shape [OF g] obtain d where d: "it = d @ s" "list_all isxdigit d" by blast
  have i: "i < 8" using Suc.hyps(2) by simp
  have x: "isxdigit (peek it)"
    using Suc.prems(1) i ipv6_groups_stuck by force
  note run = Suc.prems(1) [unfolded ipv6_groups_step [OF i x g]]
  have IH: "\<not> has_dbl t" if "ipv6_groups (Suc i) t z (out[i := w]) = Some (j, r, z', out')"
    and "NUL \<notin> set t" for t
    using Suc.hyps(1) [OF _ that(1) Suc.prems(2) that(2)] Suc.hyps(2) by simp
  have start: "peek t \<noteq> CHR '':''" if "ipv6_groups (Suc i) t z (out[i := w]) = Some (j, r, z', out')" for t
    using that Suc.prems(2) ipv6_groups_stuck [of "Suc i" t] ipv6_groups_done [of "Suc i" t]
    by (cases "Suc i < 8") fastforce+
  have nul: "NUL \<notin> set s" using Suc.prems(3) d(1) by simp
  have "\<not> has_dbl s"
  proof (cases s)
    case (Cons c t)
    with run IH [of s] IH [of t] start nul show ?thesis by (auto split: if_splits)
  qed simp
  with d show ?case by (simp add: has_dbl_skip)
qed

section \<open>The shape of an address\<close>

lemma ipv4_parts_length:
  "ipv4_parts i it out = Some (res, r) \<Longrightarrow> length res = length out + (4 - i)"
proof (induction i it out rule: ipv4_parts.induct)
  case (1 i it out)
  show ?case
  proof (cases "i < 4")
    case True
    with "1.prems" obtain part t where rec: "isdigit (peek it)" "ipv4_digits 0 it = Some (part, t)" "part \<le> 255"
      "\<not> (peek t = CHR ''.'' \<and> i = 3)"
      "ipv4_parts (i + 1) (if peek t = CHR ''.'' then tl t else t) (out @ [of_nat part]) = Some (res, r)"
      by (auto simp: ipv4_parts.simps [of i] Let_def split: if_splits option.splits)
    with True "1.prems" have "\<not> (peek (if peek t = CHR ''.'' then tl t else t) = NUL \<and> i \<noteq> 3)"
      by (auto simp: ipv4_parts.simps [of i] Let_def split: if_splits)
    from "1.IH" [OF True _ rec(2) refl _ rec(4) refl this rec(5)] rec(1,3) True show ?thesis by simp
  next
    case False
    with "1.prems" show ?thesis by (simp add: ipv4_parts.simps [of i])
  qed
qed

lemma ipv6_groups_length:
  "ipv6_groups i it z out = Some (j, r, z', res) \<Longrightarrow> length res = length out"
proof (induction "8 - i" arbitrary: i it out)
  case 0
  then show ?case by (simp add: ipv6_groups_done)
next
  case (Suc k)
  obtain w s where g: "hex_group 4 (out ! i) it = (w, s)" by (cases "hex_group 4 (out ! i) it")
  have i: "i < 8" using Suc.hyps(2) by simp
  have x: "isxdigit (peek it)"
    using Suc.prems i ipv6_groups_stuck by force
  have IH: "length res = length (out[i := w])" if "ipv6_groups (Suc i) t z (out[i := w]) = Some (j, r, z', res)" for t
    using Suc.hyps(1) [OF _ that] Suc.hyps(2) by simp
  show ?case
    using Suc.prems [unfolded ipv6_groups_step [OF i x g]] IH by (auto split: if_splits)
qed

lemma ipv4_accepts_iff:
  assumes "NUL \<notin> set s"
  shows "yo_parse_ipv4 s = Some (YO_ADDR_IPV4 bs) \<longleftrightarrow> dotted_quad s bs"
proof
  assume "yo_parse_ipv4 s = Some (YO_ADDR_IPV4 bs)"
  then obtain r where r: "ipv4_parts 0 s [] = Some (bs, r)" "peek r = NUL"
    by (auto simp: yo_parse_ipv4_def split: option.splits if_splits)
  from ipv4_parts_shape [OF r assms] show "dotted_quad s bs"
    by (auto simp: dotted_quad_def)
next
  assume "dotted_quad s bs"
  then obtain ds where "length ds = 4" "list_all octet ds" "s = join CHR ''.'' ds"
    "bs = map (\<lambda>d. of_nat (digits_value 0 d)) ds" by (auto simp: dotted_quad_def)
  with ipv4_parts_accepts [of ds 0 "[]"] show "yo_parse_ipv4 s = Some (YO_ADDR_IPV4 bs)"
    by (simp add: yo_parse_ipv4_def)
qed

lemma addrparse_quad:
  assumes "NUL \<notin> set s" and "dotted_quad s bs"
  shows "yo_addrparse pres s = Some (Some (YO_ADDR_IPV4 bs))" and "length bs = 4"
  using assms ipv4_accepts_iff [OF assms(1), of bs] by (auto simp: yo_addrparse_def dotted_quad_def)

section \<open>Properties\<close>

text \<open>
  C16: The IPv4 parser accepts a string exactly when it is four decimal octets separated by
  single dots, each of value at most 255 (leading zeros allowed), and returns those octets.
\<close>
theorem parse_ipv4_iff:
  assumes "NUL \<notin> set s"
  shows "yo_parse_ipv4 s = Some (YO_ADDR_IPV4 bs) \<longleftrightarrow> dotted_quad s bs"
  by (rule ipv4_accepts_iff [OF assms])

theorem parse_ipv4_iff_witness:
  "dotted_quad ''192.168.001.7'' [192, 168, 1, 7]"
  by (rule parse_ipv4_iff [THEN iffD1])
    (simp_all add: yo_parse_ipv4_def ipv4_parts.simps isdigit_def char_code_def)

text \<open>
  C19: One to eight groups of one to four hexadecimal digits, separated by single colons, are
  accepted as an IPv6 address, with the groups that are missing at the end taken as zero. For
  eight groups this is the full textual form.
\<close>
theorem addrparse_groups:
  assumes "list_all hex_quad ds" and "ds \<noteq> []" and "length ds \<le> 8"
  shows "yo_addrparse pres (join CHR '':'' ds)
    = Some (Some (YO_ADDR_IPV6 (map (\<lambda>d. of_nat (hex_value d)) ds @ replicate (8 - length ds) 0)))"
proof -
  let ?s = "join CHR '':'' ds"
  have d: "CHR ''.'' \<notin> set d \<and> NUL \<notin> set d" if "d \<in> set ds" for d
    using assms(1) that isxdigit_dot isxdigit_NUL unfolding list_all_iff hex_quad_def by metis
  have "CHR ''.'' \<notin> set ?s" and nul: "NUL \<notin> set ?s"
    using d set_join [of "CHR '':''" ds] by auto
  then have "yo_parse_ipv4 ?s = None"
    using ipv4_accepts_chars by (cases "yo_parse_ipv4 ?s") auto
  moreover have "peek ?s \<noteq> CHR '':''"
    using peek_quads [OF assms(1,2)] isxdigit_colon by metis
  moreover obtain j where "ipv6_groups 0 ?s (-1) (replicate 8 0)
      = Some (j, [], -1, map (\<lambda>d. of_nat (hex_value d)) ds @ replicate (8 - length ds) 0)"
    using ipv6_groups_accepts [OF assms(1,2), of "[]" 0 "-1"] assms(3) by auto
  ultimately show ?thesis by (simp add: yo_addrparse_def yo_parse_ipv6_def)
qed

theorem addrparse_groups_witness:
  "yo_addrparse True ''fe80:0:0:0:2aa:FF:FE9a:4ca2''
     = Some (Some (YO_ADDR_IPV6 [0xfe80, 0, 0, 0, 0x2aa, 0xff, 0xfe9a, 0x4ca2]))
   \<and> yo_addrparse True ''10'' = Some (Some (YO_ADDR_IPV6 (0x10 # replicate 7 0)))"
  using addrparse_groups [of "[''fe80'', ''0'', ''0'', ''0'', ''2aa'', ''FF'', ''FE9a'', ''4ca2'']" True]
    addrparse_groups [of "[''10'']" True]
  by (simp add: hex_quad_def ctype_defs hex_value_def hexval_def)

text \<open>
  C18: Whatever is parsed, an address that the parser returns has the shape that its tag promises: four bytes, or eight groups.
  The conversions to the socket layer rely on it.
\<close>
theorem addrparse_wf:
  assumes "yo_addrparse pres s = Some (Some a)"
  shows "wf_addr a"
proof (cases "yo_parse_ipv4 s")
  case (Some b)
  then show ?thesis
    using assms ipv4_parts_length [of 0 s "[]"]
    by (auto simp: yo_addrparse_def yo_parse_ipv4_def wf_addr_def split: option.splits if_splits)
next
  case None
  have "length out = 8 \<and> z' \<le> 0" if "ipv6_groups 0 it z (replicate 8 0) = Some (j, r, z', out)" and "z \<le> 0"
    for it z j r z' out using ipv6_groups_constant [OF that(1)] ipv6_groups_length [OF that(1)] that(2) by simp
  with None assms show ?thesis
    by (fastforce simp: yo_addrparse_def yo_parse_ipv6_def Let_def wf_addr_def split: option.splits if_splits)
qed

theorem addrparse_wf_witness:
  "wf_addr (the (the (yo_addrparse True ''10.0.0.1'')))"
  by (rule addrparse_wf [of True "''10.0.0.1''"])
    (simp add: yo_addrparse_def yo_parse_ipv4_def ipv4_parts.simps isdigit_def char_code_def)

text \<open>
  Parsing never has undefined behaviour, except that the string \<open>::\<close> is written
  through \<open>pres\<close> without the NULL check that every other path makes. In particular the
  \<open>memmove\<close>, whose offsets are computed for sixteen groups instead of eight, is never reached.
\<close>
theorem addrparse_defined:
  "yo_addrparse pres s = None
     \<longleftrightarrow> \<not> pres \<and> peek s = CHR '':'' \<and> peek (tl s) = CHR '':'' \<and> peek (tl (tl s)) = NUL"
proof -
  have "yo_parse_ipv4 s = None" if "peek s = CHR '':''"
    using that by (subst (asm) peek_def) (auto simp: yo_parse_ipv4_def ipv4_parts.simps [of 0] split: list.splits)
  moreover have "\<not> 0 < z'" if "ipv6_groups 0 it z (replicate 8 0) = Some (j, r, z', out)" and "z \<le> 0"
    for it z j r z' out using ipv6_groups_constant [OF that(1)] that(2) by simp
  ultimately show ?thesis
    by (auto simp: yo_addrparse_def yo_parse_ipv6_def Let_def split: option.splits)
qed

text \<open>
  The compressed notation is not supported: a string in which \<open>::\<close> occurs anywhere but
  as its beginning is rejected.
\<close>
theorem addrparse_rejects_inner_compression:
  assumes "a \<noteq> []" and "NUL \<notin> set (a @ b)"
  shows "yo_addrparse pres (a @ '':'' @ '':'' @ b) = Some None"
proof -
  let ?s = "a @ CHR '':'' # CHR '':'' # b"
  have nul: "NUL \<notin> set ?s" using assms(2) by simp
  have v4: "yo_parse_ipv4 ?s = None"
    using ipv4_accepts_chars(2) [OF _ nul] by (cases "yo_parse_ipv4 ?s") auto
  have bad: "ipv6_groups 0 t z out = None \<or>
      (\<exists>j r z' out'. ipv6_groups 0 t z out = Some (j, r, z', out') \<and> peek r \<noteq> NUL)"
    if "has_dbl t" and "NUL \<notin> set t" for t z out
    using ipv6_groups_no_dbl [OF _ _ that(2)] that(1) by (cases "ipv6_groups 0 t z out") auto
  have "yo_parse_ipv6 pres ?s = Some None"
  proof (cases "peek ?s = CHR '':'' \<and> peek (tl ?s) = CHR '':''")
    case False
    with bad [OF has_dbl_infix nul, of "-1" "replicate 8 0"] show ?thesis
      by (auto simp: yo_parse_ipv6_def Let_def)
  next
    case True
    then obtain t where t: "?s = CHR '':'' # CHR '':'' # t"
      by (cases ?s; cases "tl ?s") simp_all
    have "has_dbl t \<or> peek t = CHR '':''"
      using t assms(1) has_dbl_infix [of "tl (tl a)" b]
      by (cases a; cases "tl a") auto
    moreover have "NUL \<notin> set t" using nul t by (metis list.set_intros(2))
    moreover have "peek t \<noteq> NUL" using calculation by (cases t) auto
    ultimately show ?thesis
      using bad [of t 0 "replicate 8 0"] ipv6_groups_stuck [of 0 t 0 "replicate 8 0"]
      unfolding t by (auto simp: yo_parse_ipv6_def Let_def)
  qed
  with v4 show ?thesis by (simp add: yo_addrparse_def)
qed

theorem addrparse_rejects_inner_compression_witness:
  "yo_addrparse True ''fe80::1'' = Some None"
  using addrparse_rejects_inner_compression [of "''fe80''" "''1''" True] by simp

text \<open>
  A leading \<open>::\<close> followed by more text is skipped: the groups after it land at the
  start of the address, not at its end. So \<open>::1\<close> becomes 1:0:0:0:0:0:0:0.
\<close>
theorem addrparse_leading_compression:
  assumes "t \<noteq> []" and "NUL \<notin> set t" and "\<not> (peek t = CHR '':'' \<and> peek (tl t) = CHR '':'')"
  shows "yo_addrparse pres ('':'' @ '':'' @ t) = yo_parse_ipv6 pres t"
proof -
  have nul: "NUL \<notin> set (CHR '':'' # CHR '':'' # t)" using assms(2) by simp
  have "yo_parse_ipv4 (CHR '':'' # CHR '':'' # t) = None"
    using ipv4_accepts_chars(2) [OF _ nul] by (cases "yo_parse_ipv4 (CHR '':'' # CHR '':'' # t)") auto
  moreover have "peek t \<noteq> NUL" using assms(1,2) by (simp add: peek_NUL)
  moreover have "\<not> 0 < z'" if "ipv6_groups 0 it z (replicate 8 0) = Some (j, r, z', out)" and "z \<le> 0"
    for it z j r z' out using ipv6_groups_constant [OF that(1)] that(2) by simp
  ultimately show ?thesis
    using assms(3) ipv6_groups_zeroes [of 0 t 0 "replicate 8 0" "-1"]
    by (auto simp: yo_addrparse_def yo_parse_ipv6_def split: option.splits)
qed

theorem addrparse_leading_compression_witness:
  "yo_addrparse True ''::1'' = yo_parse_ipv6 True ''1''
   \<and> yo_addrparse True ''::1'' \<noteq> Some (Some (YO_ADDR_IPV6 [0, 0, 0, 0, 0, 0, 0, 1]))"
  using addrparse_leading_compression [of "''1''" True]
  by (simp add: yo_parse_ipv6_def ipv6_groups.simps ctype_defs hex_step_def numeral_eq_Suc)

end
