(* ===== verification/SockAddr.thy ===== *)
theory SockAddr
  imports Addr
begin

text \<open>
  Addresses to and from the socket layer: \<open>yoi_unix_conv_addr\<close>,
  \<open>yoi_unix_conv_sockaddr\<close> of \<open>src/unix/impl.c\<close> and their twins
  \<open>yoi_win_conv_addr\<close>, \<open>yoi_win_conv_sockaddr\<close> of \<open>src/win/impl.c\<close>. The host is
  little-endian, so a 16-bit object in memory is its low byte followed by its high byte, and
  \<open>htons\<close> swaps the two.
\<close>

section \<open>Byte order\<close>

definition le16 :: "u16 \<Rightarrow> byte list" where
  "le16 w = [ucast w, ucast (drop_bit 8 w)]"

definition be16 :: "u16 \<Rightarrow> byte list" where
  "be16 w = [ucast (drop_bit 8 w), ucast w]"

definition load16 :: "byte \<Rightarrow> byte \<Rightarrow> u16" where
  "load16 lo hi = ucast lo OR push_bit 8 (ucast hi)"

definition htons :: "u16 \<Rightarrow> u16" where
  "htons w = push_bit 8 w OR drop_bit 8 w"

abbreviation ntohs :: "u16 \<Rightarrow> u16" where
  "ntohs \<equiv> htons"

text \<open>An array of 16-bit groups read from memory.\<close>

fun load_groups :: "byte list \<Rightarrow> u16 list" where
  "load_groups (lo # hi # bs) = load16 lo hi # load_groups bs"
| "load_groups _ = []"

lemma htons_htons [simp]: "htons (htons w) = w"
  unfolding htons_def by (rule bit_word_eqI) (auto simp: bit_simps)

lemma le16_htons: "le16 (htons w) = be16 w"
  unfolding le16_def be16_def htons_def by (auto simp: bit_simps intro!: bit_word_eqI)

lemma load16_le16: "load16 (ucast w) (ucast (drop_bit 8 w)) = w"
  unfolding load16_def by (rule bit_word_eqI) (auto simp: bit_simps)

lemma load_groups_le16: "load_groups (concat (map le16 ws)) = ws"
  by (induction ws) (simp_all add: le16_def load16_le16)

lemma load_groups_be16: "load_groups (concat (map be16 ws)) = map htons ws"
proof -
  have "concat (map be16 ws) = concat (map le16 (map htons ws))"
    by (simp add: le16_htons comp_def)
  then show ?thesis by (simp only: load_groups_le16)
qed

section \<open>Socket addresses\<close>

abbreviation (input) AF_UNSPEC :: int where "AF_UNSPEC \<equiv> 0"
abbreviation (input) AF_INET :: int where "AF_INET \<equiv> 2"
abbreviation (input) AF_INET6 :: int where "AF_INET6 \<equiv> 10"

text \<open>
  What the code uses of a \<open>struct sockaddr_storage\<close>: the family, the port as stored, and
  the bytes of the address (four for \<open>AF_INET\<close>, sixteen otherwise).
\<close>

record sockaddr =
  ss_family :: int
  sin_port :: u16
  sin_addr :: "byte list"

definition sizeof_sockaddr_in :: nat where
  "sizeof_sockaddr_in = 16"

definition sizeof_sockaddr_in6 :: nat where
  "sizeof_sockaddr_in6 = 28"

definition yoi_unix_conv_addr :: "yo_addr \<Rightarrow> u16 \<Rightarrow> sockaddr \<times> nat" where
  "yoi_unix_conv_addr addr port =
     (case addr of
        YO_ADDR_IPV4 b \<Rightarrow>
          (\<lparr>ss_family = AF_INET, sin_port = htons port, sin_addr = b\<rparr>, sizeof_sockaddr_in)
      | YO_ADDR_IPV6 g \<Rightarrow>
          (\<lparr>ss_family = AF_INET6, sin_port = htons port,
            sin_addr = concat (map (\<lambda>w. le16 (htons w)) g)\<rparr>, sizeof_sockaddr_in6))"

definition yoi_unix_conv_sockaddr :: "sockaddr \<Rightarrow> yo_addr \<times> u16" where
  "yoi_unix_conv_sockaddr sa =
     (if ss_family sa = AF_INET
      then (YO_ADDR_IPV4 (take 4 (sin_addr sa)), ntohs (sin_port sa))
      else (YO_ADDR_IPV6 (map ntohs (load_groups (take 16 (sin_addr sa)))), ntohs (sin_port sa)))"

text \<open>The Windows twins; the loop that swaps the groups back is commented out there. \<open>AF_INET6\<close> has another value.\<close>

abbreviation (input) WIN_AF_INET6 :: int where "WIN_AF_INET6 \<equiv> 23"

definition yoi_win_conv_addr :: "yo_addr \<Rightarrow> u16 \<Rightarrow> sockaddr \<times> nat" where
  "yoi_win_conv_addr addr port =
     (case addr of
        YO_ADDR_IPV4 b \<Rightarrow>
          (\<lparr>ss_family = AF_INET, sin_port = htons port, sin_addr = b\<rparr>, sizeof_sockaddr_in)
      | YO_ADDR_IPV6 g \<Rightarrow>
          (\<lparr>ss_family = WIN_AF_INET6, sin_port = htons port,
            sin_addr = concat (map (\<lambda>w. le16 (htons w)) g)\<rparr>, sizeof_sockaddr_in6))"

definition yoi_win_conv_sockaddr :: "sockaddr \<Rightarrow> yo_addr \<times> u16" where
  "yoi_win_conv_sockaddr sa =
     (if ss_family sa = AF_INET
      then (YO_ADDR_IPV4 (take 4 (sin_addr sa)), ntohs (sin_port sa))
      else (YO_ADDR_IPV6 (load_groups (take 16 (sin_addr sa))), ntohs (sin_port sa)))"

section \<open>Properties\<close>

lemma length_groups [simp]: "length (concat (map (\<lambda>g. le16 (htons g)) ws)) = 2 * length ws"
  by (induction ws) (simp_all add: le16_def)

lemma groups_in_memory: "concat (map (\<lambda>g. le16 (htons g)) ws) = concat (map be16 ws)"
  by (simp add: le16_htons)

lemma length_be16 [simp]: "length (concat (map be16 ws)) = 2 * length ws"
  using length_groups [of ws] by (simp only: groups_in_memory)

text \<open>
  C29: On Unix an address and a port survive the trip to the socket layer and back, the groups
  of an IPv6 address travel in network byte order, and the returned length is that of the
  structure of the family that was filled in, \<open>sockaddr_in\<close> or \<open>sockaddr_in6\<close>.
\<close>
theorem unix_sockaddr_roundtrip:
  assumes "wf_addr a"
  shows "yoi_unix_conv_sockaddr (fst (yoi_unix_conv_addr a port)) = (a, port)
    \<and> sin_addr (fst (yoi_unix_conv_addr a port))
        = (case a of YO_ADDR_IPV4 b \<Rightarrow> b | YO_ADDR_IPV6 g \<Rightarrow> concat (map be16 g))
    \<and> (ss_family (fst (yoi_unix_conv_addr a port)), snd (yoi_unix_conv_addr a port))
        = (case a of YO_ADDR_IPV4 b \<Rightarrow> (AF_INET, sizeof_sockaddr_in) | YO_ADDR_IPV6 g \<Rightarrow> (AF_INET6, sizeof_sockaddr_in6))"
  using assms
  by (cases a) (simp_all add: wf_addr_def yoi_unix_conv_addr_def yoi_unix_conv_sockaddr_def
      groups_in_memory load_groups_be16 comp_def)

theorem unix_sockaddr_roundtrip_witness:
  "yoi_unix_conv_sockaddr (fst (yoi_unix_conv_addr (YO_ADDR_IPV6 [0xfe80, 0, 0, 0, 0, 0, 0, 1]) 80))
     = (YO_ADDR_IPV6 [0xfe80, 0, 0, 0, 0, 0, 0, 1], 80)
   \<and> snd (yoi_unix_conv_addr (YO_ADDR_IPV6 [0xfe80, 0, 0, 0, 0, 0, 0, 1]) 80) = 28"
  using unix_sockaddr_roundtrip [of "YO_ADDR_IPV6 [0xfe80, 0, 0, 0, 0, 0, 0, 1]" 80]
  by (simp add: wf_addr_def sizeof_sockaddr_in6_def)

text \<open>
  On Windows the trip returns every IPv6 group with its bytes swapped, so it loses exactly
  the addresses that have a group whose two bytes differ; IPv4 addresses survive.
\<close>
theorem win_sockaddr_swaps:
  assumes "wf_addr a"
  shows "yoi_win_conv_sockaddr (fst (yoi_win_conv_addr a port))
      = ((case a of YO_ADDR_IPV4 b \<Rightarrow> YO_ADDR_IPV4 b | YO_ADDR_IPV6 g \<Rightarrow> YO_ADDR_IPV6 (map htons g)), port)"
  using assms
  by (cases a) (simp_all add: wf_addr_def yoi_win_conv_addr_def yoi_win_conv_sockaddr_def
      groups_in_memory load_groups_be16)

theorem win_sockaddr_swaps_witness:
  "fst (yoi_win_conv_sockaddr (fst (yoi_win_conv_addr (YO_ADDR_IPV6 [0, 0, 0, 0, 0, 0, 0, 1]) 80)))
     = YO_ADDR_IPV6 [0, 0, 0, 0, 0, 0, 0, 0x100]"
  using win_sockaddr_swaps [of "YO_ADDR_IPV6 [0, 0, 0, 0, 0, 0, 0, 1]" 80]
  by (simp add: wf_addr_def htons_def)

end
