(* ===== verification/Lists.thy ===== *)
theory Lists
  imports Prelude
begin

text \<open>
  The intrusive linked lists of \<open>src/utils/lists.h\<close>. The macros take the list type as a
  parameter and reach the link fields of a node by \<open>yoi_list_<type>_next\<close> and
  \<open>yoi_list_<type>_slot\<close>; here a list type is the record of its fields, one function from
  addresses for each. The locale \<open>intrusive_lists\<close> is the contract that the users of a
  doubly linked list rely on.
\<close>

section \<open>Singly linked lists\<close>

text \<open>\<open>nxt\<close> is the link field, \<open>head\<close> the head variable of each owner.\<close>

definition yoi_list_add ::
  "addr \<Rightarrow> addr \<Rightarrow> (addr \<Rightarrow> addr) \<times> (addr \<Rightarrow> addr) \<Rightarrow> (addr \<Rightarrow> addr) \<times> (addr \<Rightarrow> addr)" where
  "yoi_list_add owner node = (\<lambda>(nxt, head). (nxt(node := head owner), head(owner := node)))"

definition yoi_list_del :: "addr \<Rightarrow> (addr \<Rightarrow> addr) \<Rightarrow> (addr \<Rightarrow> addr) \<Rightarrow> (addr \<Rightarrow> addr)" where
  "yoi_list_del owner nxt head = head(owner := nxt (head owner))"

text \<open>The nodes met by following the link field from \<open>p\<close> to NULL.\<close>

fun chain :: "(addr \<Rightarrow> addr) \<Rightarrow> addr \<Rightarrow> addr list \<Rightarrow> bool" where
  "chain nxt p [] \<longleftrightarrow> p = NULL"
| "chain nxt p (x # xs) \<longleftrightarrow> x \<noteq> NULL \<and> x = p \<and> chain nxt (nxt p) xs"

lemma chain_NULL [simp]: "chain nxt NULL xs \<longleftrightarrow> xs = []"
  by (cases xs) auto

lemma chain_unique: "chain nxt p xs \<Longrightarrow> chain nxt p ys \<Longrightarrow> xs = ys"
proof (induction xs arbitrary: p ys)
  case (Cons x xs)
  then show ?case by (cases ys) auto
qed simp

lemma chain_nonnull: "chain nxt p xs \<Longrightarrow> NULL \<notin> set xs"
  by (induction xs arbitrary: p) auto

lemma chain_update [simp]: "n \<notin> set xs \<Longrightarrow> chain (nxt(n := v)) p xs = chain nxt p xs"
  by (induction xs arbitrary: p) auto

lemma chain_suffix: "chain nxt p (xs @ ys) \<Longrightarrow> \<exists>q. chain nxt q ys"
  by (induction xs arbitrary: p) auto

lemma chain_distinct: "chain nxt p xs \<Longrightarrow> distinct xs"
proof (induction xs arbitrary: p)
  case (Cons x xs)
  have "x \<notin> set xs"
  proof
    assume "x \<in> set xs"
    then obtain as bs where xs: "xs = as @ x # bs" by (meson split_list)
    with Cons.prems obtain q where "chain nxt q (x # bs)"
      using chain_suffix [of nxt "nxt p" as "x # bs"] by auto
    with Cons.prems xs have "x # bs = x # xs"
      by (metis chain.simps(2) chain_unique)
    with xs show False by (simp add: append_eq_Cons_conv)
  qed
  with Cons show ?case by auto
qed simp

section \<open>Doubly linked lists\<close>

text \<open>
  \<open>slot\<close> points to the pointer that points to the node: the head variable of the owner, or
  the link field of the node before.
\<close>

datatype slot = HeadSlot addr | NextSlot addr

record links =
  l_next :: "addr \<Rightarrow> addr"
  l_slot :: "addr \<Rightarrow> slot"
  l_head :: "addr \<Rightarrow> addr"

definition load_slot :: "links \<Rightarrow> slot \<Rightarrow> addr" where
  "load_slot L s = (case s of HeadSlot p \<Rightarrow> l_head L p | NextSlot p \<Rightarrow> l_next L p)"

definition store_slot :: "slot \<Rightarrow> addr \<Rightarrow> links \<Rightarrow> links" where
  "store_slot s v L =
     (case s of
        HeadSlot p \<Rightarrow> L\<lparr>l_head := (l_head L)(p := v)\<rparr>
      | NextSlot p \<Rightarrow> L\<lparr>l_next := (l_next L)(p := v)\<rparr>)"

definition yoi_dlist_add :: "addr \<Rightarrow> addr \<Rightarrow> links \<Rightarrow> links" where
  "yoi_dlist_add owner node L =
     (let L = L\<lparr>l_next := (l_next L)(node := l_head L owner)\<rparr>;
          L = L\<lparr>l_slot := (l_slot L)(node := HeadSlot owner)\<rparr>;
          L = (if l_head L owner \<noteq> NULL
               then L\<lparr>l_slot := (l_slot L)(l_head L owner := NextSlot node)\<rparr>
               else L)
      in L\<lparr>l_head := (l_head L)(owner := node)\<rparr>)"

definition yoi_dlist_del :: "addr \<Rightarrow> links \<Rightarrow> links" where
  "yoi_dlist_del node L =
     (let L = (if l_next L node \<noteq> NULL
               then L\<lparr>l_slot := (l_slot L)(l_next L node := l_slot L node)\<rparr>
               else L)
      in store_slot (l_slot L node) (l_next L node) L)"

section \<open>The abstraction\<close>

fun slots :: "(addr \<Rightarrow> slot) \<Rightarrow> slot \<Rightarrow> addr list \<Rightarrow> bool" where
  "slots slt s [] \<longleftrightarrow> True"
| "slots slt s (x # xs) \<longleftrightarrow> slt x = s \<and> slots slt (NextSlot x) xs"

text \<open>The list of \<open>owner\<close> consists of the nodes \<open>xs\<close>, correctly linked both ways.\<close>

definition dlist :: "links \<Rightarrow> addr \<Rightarrow> addr list \<Rightarrow> bool" where
  "dlist L owner xs \<longleftrightarrow> chain (l_next L) (l_head L owner) xs \<and> slots (l_slot L) (HeadSlot owner) xs"

lemma slots_update [simp]: "n \<notin> set xs \<Longrightarrow> slots (slt(n := v)) s xs = slots slt s xs"
  by (induction xs arbitrary: s) auto

lemma dlist_distinct: "dlist L owner xs \<Longrightarrow> distinct xs"
  by (auto simp: dlist_def intro: chain_distinct)

lemma dlist_add:
  assumes "dlist L owner xs" and "n \<noteq> NULL" and "n \<notin> set xs"
  shows "dlist (yoi_dlist_add owner n L) owner (n # xs)"
proof (cases xs)
  case Nil
  with assms show ?thesis by (simp add: dlist_def yoi_dlist_add_def)
next
  case (Cons x ys)
  with assms dlist_distinct [OF assms(1)] show ?thesis
    by (auto simp: dlist_def yoi_dlist_add_def Let_def)
qed

lemma dlist_add_other:
  assumes "dlist L owner xs" and "dlist L other ys" and "other \<noteq> owner"
    and "n \<notin> set ys" and "set xs \<inter> set ys = {}"
  shows "dlist (yoi_dlist_add owner n L) other ys"
proof -
  have "l_head L owner \<notin> set ys" if "l_head L owner \<noteq> NULL"
    using assms(1,5) that by (cases xs) (auto simp: dlist_def)
  with assms show ?thesis by (auto simp: dlist_def yoi_dlist_add_def Let_def)
qed

text \<open>Unlinking in the middle: the segment before the node, the node, the segment after it.\<close>

lemma chain_append:
  "chain nxt p (xs @ n # ys) \<Longrightarrow> n \<notin> set xs \<Longrightarrow> xs \<noteq> [] \<Longrightarrow> distinct (xs @ ys) \<Longrightarrow> last xs \<noteq> n
     \<Longrightarrow> chain (nxt(last xs := nxt n)) p (xs @ ys)"
proof (induction xs arbitrary: p)
  case (Cons x xs)
  show ?case
  proof (cases "xs = []")
    case True
    with Cons.prems have "chain nxt (nxt n) ys" and "p \<notin> set ys" and "x = p" and "p \<noteq> NULL"
      by auto
    with True show ?thesis by (simp only: append.simps last.simps chain.simps chain_update
      fun_upd_same if_True) simp
  next
    case False
    with Cons.prems have "last xs \<noteq> p" by auto
    with False Cons show ?thesis by auto
  qed
qed simp

lemma slots_append:
  "slots slt s (xs @ ys) \<longleftrightarrow> slots slt s xs \<and> slots slt (if xs = [] then s else NextSlot (last xs)) ys"
  by (induction xs arbitrary: s) auto

lemma dlist_del:
  assumes "dlist L owner xs" and "n \<in> set xs"
  shows "dlist (yoi_dlist_del n L) owner (remove1 n xs)"
proof -
  obtain as bs where xs: "xs = as @ n # bs" and n: "n \<notin> set as"
    using assms(2) by (meson split_list_first)
  have dist: "distinct (as @ n # bs)" using dlist_distinct [OF assms(1)] xs by simp
  have ch: "chain (l_next L) (l_head L owner) (as @ n # bs)"
    and sl: "slots (l_slot L) (HeadSlot owner) (as @ n # bs)"
    using assms(1) xs by (simp_all add: dlist_def)
  have rem: "remove1 n xs = as @ bs" using n xs by (simp add: remove1_append)
  have at: "l_slot L n = (if as = [] then HeadSlot owner else NextSlot (last as))"
    using sl by (simp add: slots_append)
  obtain q where "chain (l_next L) q (n # bs)" using chain_suffix [OF ch] by blast
  then have after: "chain (l_next L) (l_next L n) bs" by simp
  have slt: "slots ((l_slot L)(l_next L n := l_slot L n)) (HeadSlot owner) (as @ bs)"
    if "l_next L n \<noteq> NULL"
  proof -
    from after that have "bs = l_next L n # tl bs" by (cases bs) auto
    moreover have "l_next L n \<notin> set as" "l_next L n \<notin> set (tl bs)"
      using dist calculation by (metis disjoint_iff distinct_append list.set_intros(1) set_subset_Cons
        subsetD) (metis calculation dist distinct.simps(2) distinct_append)
    moreover have "slots (l_slot L) (NextSlot (l_next L n)) (tl bs)" 
      using sl calculation(1) by (metis slots.simps(2) slots_append)
    ultimately show ?thesis
      using sl at by (cases bs) (auto simp: slots_append)
  qed
  have slt0: "slots (l_slot L) (HeadSlot owner) (as @ bs)" if "l_next L n = NULL"
    using sl after that by (auto simp: slots_append)
  have keep: "((l_slot L)(l_next L n := l_slot L n)) n = l_slot L n" by simp
  show ?thesis
  proof (cases "as = []")
    case True
    with after slt slt0 at show ?thesis
      by (auto simp: dlist_def yoi_dlist_del_def store_slot_def Let_def rem)
  next
    case False
    with n have "last as \<noteq> n" by auto
    with False ch n dist have "chain ((l_next L)(last as := l_next L n)) (l_head L owner) (as @ bs)"
      by (intro chain_append) auto
    with False slt slt0 at show ?thesis
      by (auto simp: dlist_def yoi_dlist_del_def store_slot_def Let_def rem)
  qed
qed


lemma dlist_del_other:
  assumes "dlist L owner xs" and "n \<in> set xs" and "dlist L other ys" and "other \<noteq> owner"
    and "set xs \<inter> set ys = {}"
  shows "dlist (yoi_dlist_del n L) other ys"
proof -
  obtain as bs where xs: "xs = as @ n # bs" using assms(2) by (meson split_list)
  have ch: "chain (l_next L) (l_head L owner) (as @ n # bs)"
    and sl: "slots (l_slot L) (HeadSlot owner) (as @ n # bs)"
    using assms(1) xs by (simp_all add: dlist_def)
  have at: "l_slot L n = (if as = [] then HeadSlot owner else NextSlot (last as))"
    using sl by (simp add: slots_append)
  obtain q where "chain (l_next L) q (n # bs)" using chain_suffix [OF ch] by blast
  then have "l_next L n \<notin> set ys" if "l_next L n \<noteq> NULL"
    using that assms(5) xs by (cases bs) auto
  moreover have "last as \<notin> set ys" if "as \<noteq> []"
  proof -
    have "last as \<in> set xs" using last_in_set [OF that] xs by simp
    with assms(5) show ?thesis by blast
  qed
  ultimately show ?thesis
    using assms(3,4) at
    by (auto simp: dlist_def yoi_dlist_del_def store_slot_def Let_def)
qed

section \<open>The contract of a list of nodes\<close>

text \<open>
  The lists of the owners \<open>D\<close>, pairwise disjoint. \<open>rep h o xs\<close> says that the list of the
  owner \<open>o\<close> consists of the nodes \<open>xs\<close>.
\<close>

definition family ::
  "('h \<Rightarrow> addr \<Rightarrow> addr list \<Rightarrow> bool) \<Rightarrow> 'h \<Rightarrow> addr set \<Rightarrow> (addr \<Rightarrow> addr list) \<Rightarrow> bool" where
  "family rep h D F \<longleftrightarrow> (\<forall>own \<in> D. rep h own (F own))
     \<and> (\<forall>own \<in> D. \<forall>oth \<in> D. own \<noteq> oth \<longrightarrow> set (F own) \<inter> set (F oth) = {})"

lemma familyI:
  assumes "\<And>own. own \<in> D \<Longrightarrow> rep h own (F own)"
    and "\<And>own oth. own \<in> D \<Longrightarrow> oth \<in> D \<Longrightarrow> own \<noteq> oth \<Longrightarrow> set (F own) \<inter> set (F oth) = {}"
  shows "family rep h D F"
  using assms by (simp add: family_def)

lemma family_rep: "family rep h D F \<Longrightarrow> own \<in> D \<Longrightarrow> rep h own (F own)"
  by (simp add: family_def)

lemma family_disjoint:
  "family rep h D F \<Longrightarrow> own \<in> D \<Longrightarrow> oth \<in> D \<Longrightarrow> own \<noteq> oth \<Longrightarrow> set (F own) \<inter> set (F oth) = {}"
  by (simp add: family_def)

text \<open>What the users of a doubly linked list rely on.\<close>

locale intrusive_lists =
  fixes rep :: "'h \<Rightarrow> addr \<Rightarrow> addr list \<Rightarrow> bool"
    and insert_node :: "addr \<Rightarrow> addr \<Rightarrow> 'h \<Rightarrow> 'h"
    and unlink_node :: "addr \<Rightarrow> 'h \<Rightarrow> 'h"
  assumes rep_unique: "rep h own xs \<Longrightarrow> rep h own ys \<Longrightarrow> xs = ys"
    and rep_distinct: "rep h own xs \<Longrightarrow> distinct xs"
    and insert_own: "rep h own xs \<Longrightarrow> n \<noteq> NULL \<Longrightarrow> n \<notin> set xs \<Longrightarrow> rep (insert_node own n h) own (n # xs)"
    and insert_frame: "rep h own xs \<Longrightarrow> rep h oth ys \<Longrightarrow> oth \<noteq> own \<Longrightarrow> n \<notin> set ys
          \<Longrightarrow> set xs \<inter> set ys = {} \<Longrightarrow> rep (insert_node own n h) oth ys"
    and unlink_own: "rep h own xs \<Longrightarrow> n \<in> set xs \<Longrightarrow> rep (unlink_node n h) own (remove1 n xs)"
    and unlink_frame: "rep h own xs \<Longrightarrow> n \<in> set xs \<Longrightarrow> rep h oth ys \<Longrightarrow> oth \<noteq> own
          \<Longrightarrow> set xs \<inter> set ys = {} \<Longrightarrow> rep (unlink_node n h) oth ys"
begin

lemma family_insert:
  assumes fam: "family rep h D F" and own: "own \<in> D" and n: "n \<noteq> NULL"
    and fresh: "\<forall>oth \<in> D. n \<notin> set (F oth)"
  shows "family rep (insert_node own n h) D (F(own := n # F own))"
proof (rule familyI)
  fix o1 assume o1: "o1 \<in> D"
  show "rep (insert_node own n h) o1 ((F(own := n # F own)) o1)"
  proof (cases "o1 = own")
    case True
    with insert_own [OF family_rep [OF fam own] n] fresh own show ?thesis by simp
  next
    case False
    with insert_frame [OF family_rep [OF fam own] family_rep [OF fam o1] False]
      family_disjoint [OF fam own o1] fresh o1 show ?thesis by simp
  qed
next
  fix o1 o2 assume o: "o1 \<in> D" "o2 \<in> D" "o1 \<noteq> o2"
  with fresh have "n \<notin> set (F o1)" "n \<notin> set (F o2)" by simp_all
  with family_disjoint [OF fam o] o(3)
  show "set ((F(own := n # F own)) o1) \<inter> set ((F(own := n # F own)) o2) = {}"
    by (cases "o1 = own"; cases "o2 = own") simp_all
qed

lemma family_unlink:
  assumes fam: "family rep h D F" and own: "own \<in> D" and n: "n \<in> set (F own)"
  shows "family rep (unlink_node n h) D (F(own := remove1 n (F own)))"
proof (rule familyI)
  fix o1 assume o1: "o1 \<in> D"
  show "rep (unlink_node n h) o1 ((F(own := remove1 n (F own))) o1)"
  proof (cases "o1 = own")
    case True
    with unlink_own [OF family_rep [OF fam own] n] show ?thesis by simp
  next
    case False
    with unlink_frame [OF family_rep [OF fam own] n family_rep [OF fam o1] False]
      family_disjoint [OF fam own o1] show ?thesis by simp
  qed
next
  fix o1 o2 assume o: "o1 \<in> D" "o2 \<in> D" "o1 \<noteq> o2"
  have "set ((F(own := remove1 n (F own))) x) \<subseteq> set (F x)" for x
    using set_remove1_subset [of n "F own"] by simp
  with family_disjoint [OF fam o]
  show "set ((F(own := remove1 n (F own))) o1) \<inter> set ((F(own := remove1 n (F own))) o2) = {}" by blast
qed

lemma family_insert_unlink:
  assumes "family rep h D F" and "own \<in> D" and "n \<noteq> NULL" and "\<forall>oth \<in> D. n \<notin> set (F oth)"
  shows "family rep (unlink_node n (insert_node own n h)) D F"
proof -
  have "family rep (insert_node own n h) D (F(own := n # F own))"
    using assms by (rule family_insert)
  from family_unlink [OF this assms(2), of n] show ?thesis by simp
qed

lemma family_distinct:
  assumes "family rep h D F" and "own \<in> D"
  shows "distinct (F own)"
  using rep_distinct [of h own "F own"] family_rep [of rep, OF assms] by simp

end

interpretation dl: intrusive_lists dlist yoi_dlist_add yoi_dlist_del
proof unfold_locales
  show "dlist h own xs \<Longrightarrow> dlist h own ys \<Longrightarrow> xs = ys" for h own xs ys
    by (auto simp: dlist_def intro: chain_unique)
qed (auto intro: dlist_distinct dlist_add dlist_add_other dlist_del dlist_del_other)

text \<open>
  C30: several lists with pairwise disjoint nodes live side by side. Adding a fresh node to one
  of them and unlinking a node of one of them, through its slot pointer alone and without
  knowing its owner, change that list as \<open>Cons\<close> and \<open>remove1\<close> do and leave every other
  list as it is.
\<close>

theorem dlist_operations:
  assumes "family dlist L D F" and "own \<in> D"
  shows "(n \<noteq> NULL \<and> (\<forall>oth \<in> D. n \<notin> set (F oth)) \<longrightarrow>
           family dlist (yoi_dlist_add own n L) D (F(own := n # F own)))
       \<and> (m \<in> set (F own) \<longrightarrow>
           family dlist (yoi_dlist_del m L) D (F(own := remove1 m (F own))))"
  using dl.family_insert [OF assms] dl.family_unlink [OF assms] by blast

definition sample_links :: links where
  "sample_links = \<lparr>l_next = (\<lambda>_. NULL)(10 := 11),
     l_slot = (\<lambda>_. HeadSlot NULL)(10 := HeadSlot 1, 11 := NextSlot 10, 20 := HeadSlot 2),
     l_head = (\<lambda>_. NULL)(1 := 10, 2 := 20)\<rparr>"

lemma sample_family: "family dlist sample_links {1, 2} ((\<lambda>_. [])(1 := [10, 11], 2 := [20]))"
  by (simp add: family_def dlist_def sample_links_def)

lemma dlist_operations_witness:
  "family dlist (yoi_dlist_add 2 30 sample_links) {1, 2} ((\<lambda>_. [])(1 := [10, 11], 2 := [30, 20]))
   \<and> family dlist (yoi_dlist_del 11 sample_links) {1, 2} ((\<lambda>_. [])(1 := [10], 2 := [20]))"
  using dlist_operations [OF sample_family, of 2 30 20] dlist_operations [OF sample_family, of 1 12 11]
  by (simp add: fun_upd_twist)

end
