(* ===== verification/Posix.thy ===== *)
theory Posix
  imports Errors Times SockAddr "HOL-Library.Multiset"
begin

text \<open>
  The system underneath: libc and the kernel are one parameter \<open>os\<close>, a function from a
  world and a call to a reply and the next world. Every call that the library makes goes
  through \<open>syscall\<close>, which records it in a trace and sets \<open>errno\<close> when the reply says
  so. Memory that the library shares with its caller is typed: one function from addresses for
  each C type. Header constants have their Linux values.
\<close>

section \<open>Calls and replies\<close>

record termios =
  c_iflag :: u32
  c_oflag :: u32
  c_cflag :: u32
  c_lflag :: u32
  c_vmin :: byte
  c_vtime :: byte

record cstat =
  st_mode :: u32
  st_uid :: u32
  st_gid :: u32
  st_atim :: "int \<times> int"
  st_mtim :: "int \<times> int"
  st_ctim :: "int \<times> int"
  st_size :: u64
  st_ino :: u64
  st_nlink :: u64
  st_blksize :: u64

text \<open>
  The calls of the Windows backend. A wide string is the list of its UTF-16 units without the terminator. Reading and writing
  take the offset of the \<open>OVERLAPPED\<close> structure, if there is one, and the two conversions the room in the buffer,
  if they are not only asked for the length.
\<close>

type_synonym wide = "u16 list"

record winfo =
  wi_attributes :: u32
  wi_atime :: "u32 \<times> u32"
  wi_mtime :: "u32 \<times> u32"
  wi_ctime :: "u32 \<times> u32"
  wi_size :: "u32 \<times> u32"
  wi_index :: "u32 \<times> u32"
  wi_links :: u32

datatype (plugins only: code) wcall =
    WStartup | WFolder int | WPipe | WSetInfo addr | WCloseHandle int
  | WWiden "string option" "u64 option" | WNarrow wide "u64 option"
  | WReadFile int u32 "u64 option" | WWriteFile int "byte list" u32 "u64 option"
  | WRecv int u64 | WSend int "byte list" u64 | WClosesocket int
  | WFlush int | WFileInfo int | WStdHandle int
  | WDelete wide | WRmdir wide | WSymlink wide wide | WHardlink wide wide | WMkdir wide
  | WCreateFile wide u32 u32 int u32 | WFindFirst wide | WFindNext int | WFindClose int
  | WGetAddrInfo wide wide int int | WFreeAddrInfo
  | WCreateProcess wide wide wide "wide option" int int int
  | WWait int | WExitCode int | WSleep u32
  | WCwd u32 | WGetEnv wide u32 | WSetEnv wide wide | WEnvStrings | WFreeEnvStrings addr
  | WFileTime | WCounter | WFrequency | WThreadTimes
  | WThread addr addr | WCancelIo addr | WInitCs addr | WDeleteCs addr | WEnterCs addr | WLeaveCs addr
  | WInitCond addr | WSleepCond addr addr u32 | WWakeAll addr | WWakeOne addr

text \<open>
  The calls of standard C that only the ANSI backend makes and, behind them, those that Unix makes outside Linux; and the calls of
  the threads.
\<close>

datatype (plugins only: code) stdcall =
    SFopen string string | SFclose addr | SFread addr u64 u64 | SFwrite addr "byte list" u64 u64
  | SFflush addr | SClearerr addr | SFerror addr | SFeof addr | SFtell addr | SFseek addr u64 int
  | SSignal int bool | STime | STicks
  | SChmod string int | SChown string int int | STimes | SPoll "(int \<times> u32) list" int

datatype (plugins only: code) thcall =
    TThread addr addr | TJoin addr | TKill addr int | TSigaction int | TSignalCond addr

datatype (plugins only: code) call =
    CMalloc u64 | CFree addr | CRealloc addr u64
  | CClose int | CRead int u64 | CWrite int "byte list"
  | CPread int u64 u64 | CPwrite int "byte list" u64
  | CFsync int | CFstat int | CLstat string
  | CTcgetattr int | CTcsetattr int termios
  | CRemove string | CSymlink string string | CLink string string | CReadlink string u64
  | COpen string int int | CFchmod int int | CFchown int int int
  | CMkdir string int | COpendir string | CReaddir addr | CClosedir addr
  | CSocket int int int | CConnect int sockaddr nat | CReuseaddr int
  | CBind int sockaddr nat | CListen int u64 | CAccept int
  | CGetaddrinfo "string option" int int | CFreeaddrinfo
  | CPipe | CCloexec int | CNonblock int | CFork | CWaitpid int
  | CDup2 int int | CChdir string | CSetmask "int set" | CExecve "string list" "string list" | CExit int
  | CBlock "int set" | CSigwait
  | CGetpwuid u64 | CGetenv string | CGetcwd u64 | CSetenv string string | CUnsetenv string
  | CClock int | CNanosleep int int
  | CEpollCreate | CEpollCtl int int int u32 addr | CEpollWait int
  | CTimerfdCreate | CTimerfdSettime int bool int int
  | CLock addr | CUnlock addr | CMutexNew addr | CMutexFree addr
  | CCondNew addr | CCondFree addr | CBroadcast addr | CCondWait addr "yo_time option"
  | CPoll "(int \<times> u32) list" "(int \<times> int) option"
  | CStd stdcall | CThr thcall | CWin wcall

abbreviation "CFopen p m \<equiv> CStd (SFopen p m)"
abbreviation "CFclose f \<equiv> CStd (SFclose f)"
abbreviation "CFread f n m \<equiv> CStd (SFread f n m)"
abbreviation "CFwrite f bs n m \<equiv> CStd (SFwrite f bs n m)"
abbreviation "CFflush f \<equiv> CStd (SFflush f)"
abbreviation "CClearerr f \<equiv> CStd (SClearerr f)"
abbreviation "CFerror f \<equiv> CStd (SFerror f)"
abbreviation "CFeof f \<equiv> CStd (SFeof f)"
abbreviation "CFtell f \<equiv> CStd (SFtell f)"
abbreviation "CFseek f n wh \<equiv> CStd (SFseek f n wh)"
abbreviation "CSignal sig b \<equiv> CStd (SSignal sig b)"
abbreviation "CTime \<equiv> CStd STime"
abbreviation "CTicks \<equiv> CStd STicks"
abbreviation "CThread th a \<equiv> CThr (TThread th a)"
abbreviation "CJoin th \<equiv> CThr (TJoin th)"
abbreviation "CKill th sig \<equiv> CThr (TKill th sig)"
abbreviation "CSigaction sig \<equiv> CThr (TSigaction sig)"
abbreviation "CSignalCond c \<equiv> CThr (TSignalCond c)"

record reply =
  ret :: int
  eno :: "int option"
  r_bytes :: "byte list"
  r_text :: "string option"
  r_stat :: cstat
  r_termios :: termios
  r_socks :: "sockaddr list"
  r_pair :: "int \<times> int"
  r_status :: u32
  r_event :: "u32 \<times> addr"
  r_revents :: "u32 list"
  r_mask :: "int set"
  r_wide :: wide
  r_info :: winfo
  r_times :: "(u32 \<times> u32) \<times> (u32 \<times> u32)"

type_synonym 'w os = "'w \<Rightarrow> call \<Rightarrow> reply \<times> 'w"

text \<open>The result of a call that returns a pointer.\<close>

abbreviation ptr :: "reply \<Rightarrow> addr" where
  "ptr r \<equiv> of_int (ret r)"

text \<open>The reply that returns \<open>v\<close> and nothing else.\<close>

definition returns :: "int \<Rightarrow> reply" where
  "returns v = \<lparr>ret = v, eno = None, r_bytes = [], r_text = None,
     r_stat = \<lparr>st_mode = 0, st_uid = 0, st_gid = 0, st_atim = (0, 0), st_mtim = (0, 0),
       st_ctim = (0, 0), st_size = 0, st_ino = 0, st_nlink = 0, st_blksize = 0\<rparr>,
     r_termios = \<lparr>c_iflag = 0, c_oflag = 0, c_cflag = 0, c_lflag = 0, c_vmin = 0, c_vtime = 0\<rparr>,
     r_socks = [], r_pair = (0, 0), r_status = 0, r_event = (0, 0), r_revents = [],
     r_mask = {}, r_wide = [],
     r_info = \<lparr>wi_attributes = 0, wi_atime = (0, 0), wi_mtime = (0, 0), wi_ctime = (0, 0), wi_size = (0, 0),
       wi_index = (0, 0), wi_links = 0\<rparr>, r_times = ((0, 0), (0, 0))\<rparr>"

text \<open>The reply of a call that fails with the error \<open>e\<close>, by its convention.\<close>

definition returns_pointer :: "call \<Rightarrow> bool" where
  "returns_pointer q =
     (case q of CMalloc _ \<Rightarrow> True | CRealloc _ _ \<Rightarrow> True | COpendir _ \<Rightarrow> True | CGetcwd _ \<Rightarrow> True
       | CStd (SFopen _ _) \<Rightarrow> True | _ \<Rightarrow> False)"

definition fails :: "call \<Rightarrow> reply \<Rightarrow> bool" where
  "fails q r \<longleftrightarrow> ret r < 0 \<or> returns_pointer q \<and> ptr r = NULL"

definition failed :: "int \<Rightarrow> int \<Rightarrow> reply" where
  "failed v e = (returns v)\<lparr>eno := Some e\<rparr>"

section \<open>The state of the process\<close>

datatype stat_type =
    YO_STAT_REG | YO_STAT_DIR | YO_STAT_LINK | YO_STAT_SOCK | YO_STAT_FIFO | YO_STAT_CHAR
  | YO_STAT_BLK | STAT_NONE

record yo_stat_t =
  type_of :: stat_type
  mode_of :: u32
  gid_of :: u32
  uid_of :: u32
  atime_of :: yo_time
  mtime_of :: yo_time
  ctime_of :: yo_time
  size_of :: u64
  blksize_of :: u32
  inode_of :: u64
  links_of :: u32

record 'w sys =
  world :: 'w
  errno :: int
  trace :: "(call \<times> reply) list"
  m_byte :: "addr \<Rightarrow> byte"
  m_size :: "addr \<Rightarrow> u64"
  m_ptr :: "addr \<Rightarrow> addr"
  m_int :: "addr \<Rightarrow> int"
  m_u16 :: "addr \<Rightarrow> u16"
  m_addr :: "addr \<Rightarrow> yo_addr"
  m_stat :: "addr \<Rightarrow> yo_stat_t"

definition syscall :: "'w os \<Rightarrow> call \<Rightarrow> ('w, 'z) sys_scheme \<Rightarrow> reply \<times> ('w, 'z) sys_scheme" where
  "syscall os q s =
     (let (r, w) = os (world s) q
      in (r, s\<lparr>world := w, errno := (case eno r of None \<Rightarrow> errno s | Some e \<Rightarrow> e),
             trace := trace s @ [(q, r)]\<rparr>))"

text \<open>\<open>malloc\<close> and \<open>free\<close>.\<close>

definition malloc :: "'w os \<Rightarrow> u64 \<Rightarrow> ('w, 'z) sys_scheme \<Rightarrow> addr \<times> ('w, 'z) sys_scheme" where
  "malloc os n s = (let (r, s) = syscall os (CMalloc n) s in (ptr r, s))"

definition free :: "'w os \<Rightarrow> addr \<Rightarrow> ('w, 'z) sys_scheme \<Rightarrow> ('w, 'z) sys_scheme" where
  "free os p s = snd (syscall os (CFree p) s)"

text \<open>A call whose result is thrown away.\<close>

definition ignore :: "'w os \<Rightarrow> call \<Rightarrow> ('w, 'z) sys_scheme \<Rightarrow> ('w, 'z) sys_scheme" where
  "ignore os q s = snd (syscall os q s)"

text \<open>Bytes of the caller's memory.\<close>

definition load_bytes :: "addr \<Rightarrow> u64 \<Rightarrow> ('w, 'z) sys_scheme \<Rightarrow> byte list" where
  "load_bytes p n s = map (\<lambda>i. m_byte s (p + of_nat i)) [0..<unat n]"

fun write_bytes :: "(addr \<Rightarrow> byte) \<Rightarrow> addr \<Rightarrow> byte list \<Rightarrow> addr \<Rightarrow> byte" where
  "write_bytes m p [] = m"
| "write_bytes m p (b # bs) = write_bytes (m(p := b)) (p + 1) bs"

definition store_bytes :: "addr \<Rightarrow> byte list \<Rightarrow> ('w, 'z) sys_scheme \<Rightarrow> ('w, 'z) sys_scheme" where
  "store_bytes p bs s = s\<lparr>m_byte := write_bytes (m_byte s) p bs\<rparr>"

definition set_size :: "addr \<Rightarrow> u64 \<Rightarrow> ('w, 'z) sys_scheme \<Rightarrow> ('w, 'z) sys_scheme" where
  "set_size p v s = s\<lparr>m_size := (m_size s)(p := v)\<rparr>"

definition set_ptr :: "addr \<Rightarrow> addr \<Rightarrow> ('w, 'z) sys_scheme \<Rightarrow> ('w, 'z) sys_scheme" where
  "set_ptr p v s = s\<lparr>m_ptr := (m_ptr s)(p := v)\<rparr>"

definition set_int :: "addr \<Rightarrow> int \<Rightarrow> ('w, 'z) sys_scheme \<Rightarrow> ('w, 'z) sys_scheme" where
  "set_int p v s = s\<lparr>m_int := (m_int s)(p := v)\<rparr>"

lemmas mem_defs = store_bytes_def set_size_def set_ptr_def set_int_def

text \<open>The bytes that \<open>read\<close>, \<open>pread\<close> and \<open>readlink\<close> put in the buffer.\<close>

definition syscall_into ::
  "'w os \<Rightarrow> call \<Rightarrow> addr \<Rightarrow> ('w, 'z) sys_scheme \<Rightarrow> reply \<times> ('w, 'z) sys_scheme" where
  "syscall_into os q buff s =
     (let (r, s) = syscall os q s in (r, store_bytes buff (take (nat (ret r)) (r_bytes r)) s))"

section \<open>What is assumed of the system\<close>

text \<open>
  POSIX: a call that fails sets \<open>errno\<close> to a positive number, and no call sets it to zero.
  This is a hypothesis of the theorems that need it.
\<close>

definition posix_os :: "'w os \<Rightarrow> bool" where
  "posix_os os \<longleftrightarrow> (\<forall>w q. let r = fst (os w q)
     in (fails q r \<longrightarrow> eno r \<noteq> None) \<and> (\<forall>e. eno r = Some e \<longrightarrow> 0 < e))"

text \<open>A system that answers each call from a table, the same answer every time.\<close>

definition table_os :: "(call \<times> reply) list \<Rightarrow> unit os" where
  "table_os tbl = (\<lambda>_ q. (case map_of tbl q of Some r \<Rightarrow> r | None \<Rightarrow> returns (if returns_pointer q then 4096 else 0), ()))"

lemma failed_simps [simp]: "eno (failed v e) = Some e" "ret (failed v e) = v"
  by (simp_all add: failed_def returns_def)

lemma returns_simps [simp]: "ret (returns v) = v" "eno (returns v) = None" "r_bytes (returns v) = []"
  by (simp_all add: returns_def)

lemma posix_table:
  assumes "\<forall>(q, r) \<in> set tbl. (fails q r \<longrightarrow> eno r \<noteq> None) \<and> (\<forall>e. eno r = Some e \<longrightarrow> 0 < e)"
  shows "posix_os (table_os tbl)"
  using assms unfolding posix_os_def table_os_def fails_def
  by (auto simp: Let_def split: option.splits dest!: map_of_SomeD)

lemma posix_failure: "posix_os os \<Longrightarrow> fails q (fst (os w q)) \<Longrightarrow> \<exists>e. eno (fst (os w q)) = Some e \<and> 0 < e"
  unfolding posix_os_def by (metis not_Some_eq)

lemma posix_errno: "posix_os os \<Longrightarrow> eno (fst (os w q)) = Some e \<Longrightarrow> 0 < e"
  unfolding posix_os_def by metis

section \<open>One call, as equations\<close>

definition reply_of :: "'w os \<Rightarrow> call \<Rightarrow> ('w, 'z) sys_scheme \<Rightarrow> reply" where
  "reply_of os q s = fst (os (world s) q)"

definition after :: "'w os \<Rightarrow> call \<Rightarrow> ('w, 'z) sys_scheme \<Rightarrow> ('w, 'z) sys_scheme" where
  "after os q s = snd (syscall os q s)"

lemma syscall_eq [sys_simps]: "syscall os q s = (reply_of os q s, after os q s)"
  by (simp add: reply_of_def after_def syscall_def split: prod.split)

lemma after_eq: "after os q s = s\<lparr>world := snd (os (world s) q),
   errno := (case eno (reply_of os q s) of None \<Rightarrow> errno s | Some e \<Rightarrow> e),
   trace := trace s @ [(q, reply_of os q s)]\<rparr>"
  by (simp add: reply_of_def after_def syscall_def split: prod.split)

lemma free_eq [sys_simps]: "free os p s = after os (CFree p) s"
  by (simp add: free_def after_def)

lemma ignore_eq [sys_simps]: "ignore os q s = after os q s"
  by (simp add: ignore_def after_def)

lemma malloc_eq [sys_simps]: "malloc os n s = (ptr (reply_of os (CMalloc n) s), after os (CMalloc n) s)"
  by (simp add: malloc_def syscall_eq)

lemma after_simps [simp]:
  "trace (after os q s) = trace s @ [(q, reply_of os q s)]"
  "m_byte (after os q s) = m_byte s" "m_size (after os q s) = m_size s"
  "m_ptr (after os q s) = m_ptr s" "m_int (after os q s) = m_int s"
  "m_u16 (after os q s) = m_u16 s" "m_addr (after os q s) = m_addr s"
  "m_stat (after os q s) = m_stat s"
  by (simp_all add: after_eq)

lemma after_errno: "errno (after os q s) = (case eno (reply_of os q s) of None \<Rightarrow> errno s | Some e \<Rightarrow> e)"
  by (simp add: after_eq)

lemma store_bytes_simps [simp]:
  "trace (store_bytes p bs s) = trace s" "errno (store_bytes p bs s) = errno s"
  "world (store_bytes p bs s) = world s" "m_size (store_bytes p bs s) = m_size s"
  "m_byte (store_bytes p bs s) = write_bytes (m_byte s) p bs"
  by (simp_all add: store_bytes_def)

lemma syscall_into_eq [sys_simps]:
  "syscall_into os q buff s =
     (reply_of os q s, store_bytes buff (take (nat (ret (reply_of os q s))) (r_bytes (reply_of os q s))) (after os q s))"
  by (simp add: syscall_into_def syscall_eq)

lemma reply_failure:
  "posix_os os \<Longrightarrow> fails q (reply_of os q s) \<Longrightarrow> \<exists>e. eno (reply_of os q s) = Some e \<and> 0 < e"
  unfolding reply_of_def by (rule posix_failure)

lemma reply_errno: "posix_os os \<Longrightarrow> eno (reply_of os q s) = Some e \<Longrightarrow> 0 < e"
  unfolding reply_of_def by (rule posix_errno)

text \<open>\<open>errno\<close> is positive after a failed call, and stays so over later calls.\<close>

lemma errno_after_failure:
  "posix_os os \<Longrightarrow> fails q (reply_of os q s) \<Longrightarrow> 0 < errno (after os q s)"
  using reply_failure [of os q s] by (auto simp: after_errno)

lemma errno_after_any: "posix_os os \<Longrightarrow> 0 < errno s \<Longrightarrow> 0 < errno (after os q s)"
  by (auto simp: after_errno reply_errno split: option.splits)

text \<open>The two as conditional rewrite rules.\<close>

lemma errno_nonzero [sys_simps]:
  "posix_os os \<Longrightarrow> fails q (reply_of os q s) \<or> 0 < errno s \<Longrightarrow> 0 < errno (after os q s)"
  "posix_os os \<Longrightarrow> fails q (reply_of os q s) \<or> 0 < errno s \<Longrightarrow> errno (after os q s) \<noteq> 0"
  using errno_after_failure [of os q s] errno_after_any [of os s q] by auto

lemma fails_ret [sys_simps]: "ret r < 0 \<Longrightarrow> fails q r"
  by (simp add: fails_def)

lemma fails_ptr [sys_simps]: "ptr r = NULL \<Longrightarrow> returns_pointer q \<Longrightarrow> fails q r"
  by (simp add: fails_def)

lemma write_bytes_other: "(\<And>i. i < length bs \<Longrightarrow> a \<noteq> p + of_nat i) \<Longrightarrow> write_bytes m p bs a = m a"
proof (induction bs arbitrary: m p)
  case (Cons b bs)
  have "a \<noteq> p + 1 + of_nat i" if "i < length bs" for i
    using Cons.prems [of "Suc i"] that by (simp add: algebra_simps)
  then have "write_bytes (m(p := b)) (p + 1) bs a = (m(p := b)) a"
    by (rule Cons.IH)
  moreover have "a \<noteq> p" using Cons.prems [of 0] by simp
  ultimately show ?case by simp
qed simp

section \<open>Resources\<close>

text \<open>
  What each call takes from the system and gives back. Linux closes a descriptor whatever
  \<open>close\<close> returns.
\<close>

datatype resource = Mem addr | Fd int | Dir addr | AddrList | Stream addr | Hnd int | Find int

fun acquires :: "call \<times> reply \<Rightarrow> resource list" where
  "acquires (CMalloc n, r) = (if ptr r = NULL then [] else [Mem (ptr r)])"
| "acquires (CRealloc p n, r) = (if ptr r = NULL then [] else [Mem (ptr r)])"
| "acquires (COpen p f m, r) = (if ret r < 0 then [] else [Fd (ret r)])"
| "acquires (CSocket a b c, r) = (if ret r < 0 then [] else [Fd (ret r)])"
| "acquires (CAccept f, r) = (if ret r < 0 then [] else [Fd (ret r)])"
| "acquires (CEpollCreate, r) = (if ret r < 0 then [] else [Fd (ret r)])"
| "acquires (CTimerfdCreate, r) = (if ret r < 0 then [] else [Fd (ret r)])"
| "acquires (CPipe, r) = (if ret r < 0 then [] else [Fd (fst (r_pair r)), Fd (snd (r_pair r))])"
| "acquires (COpendir p, r) = (if ptr r = NULL then [] else [Dir (ptr r)])"
| "acquires (CFopen p m, r) = (if ptr r = NULL then [] else [Stream (ptr r)])"
| "acquires (CWin WPipe, r) = (if ret r = 0 then [] else [Hnd (fst (r_pair r)), Hnd (snd (r_pair r))])"
| "acquires (CWin (WCreateFile p a b c d), r) = (if ret r = -1 then [] else [Hnd (ret r)])"
| "acquires (CWin (WFindFirst p), r) = (if ret r = -1 then [] else [Find (ret r)])"
| "acquires (CWin (WGetAddrInfo n a b c), r) = (if ret r = 0 then [AddrList] else [])"
| "acquires (CGetaddrinfo n a b, r) = (if ret r = 0 then [AddrList] else [])"
| "acquires _ = []"

fun releases :: "call \<times> reply \<Rightarrow> resource list" where
  "releases (CFree p, r) = (if p = NULL then [] else [Mem p])"
| "releases (CRealloc p n, r) = (if ptr r = NULL then [] else [Mem p])"
| "releases (CClose fd, r) = [Fd fd]"
| "releases (CClosedir d, r) = (if ret r < 0 then [] else [Dir d])"
| "releases (CFclose f, r) = [Stream f]"
| "releases (CWin (WCloseHandle h), r) = [Hnd h]"
| "releases (CWin (WClosesocket h), r) = [Fd h]"
| "releases (CWin (WFindClose h), r) = [Find h]"
| "releases (CWin WFreeAddrInfo, r) = [AddrList]"
| "releases (CFreeaddrinfo, r) = [AddrList]"
| "releases _ = []"

definition delta :: "call \<times> reply \<Rightarrow> resource \<Rightarrow> int" where
  "delta ev x = int (count_list (acquires ev) x) - int (count_list (releases ev) x)"

definition held :: "(call \<times> reply) list \<Rightarrow> resource \<Rightarrow> int" where
  "held tr x = (\<Sum>ev\<leftarrow>tr. delta ev x)"

text \<open>
  Between \<open>s\<close> and \<open>s'\<close> the process gained exactly the resources \<open>xs\<close>: a leak when it
  keeps no pointer to one of them, nothing leaked when \<open>xs\<close> is empty.
\<close>

definition gained :: "resource list \<Rightarrow> ('w, 'z) sys_scheme \<Rightarrow> ('w, 'z) sys_scheme \<Rightarrow> bool" where
  "gained xs s s' \<longleftrightarrow> (\<forall>x. held (trace s') x = held (trace s) x + int (count_list xs x))"

lemma held_Nil [simp]: "held [] x = 0"
  by (simp add: held_def)

lemma held_append [simp]: "held (tr @ tr') x = held tr x + held tr' x"
  by (simp add: held_def)

lemma held_Cons [simp]: "held (ev # tr) x = delta ev x + held tr x"
  by (simp add: held_def)

lemma gainedI: "(\<And>x. held (trace s') x = held (trace s) x + int (count_list xs x)) \<Longrightarrow> gained xs s s'"
  by (simp add: gained_def)

lemma gained_trans: "gained xs s s' \<Longrightarrow> gained ys s' s'' \<Longrightarrow> gained (xs @ ys) s s''"
  by (simp add: gained_def)

lemmas ledger_defs [ledger_simps] = gained_def delta_def

section \<open>Paths through a function\<close>

text \<open>
  \<open>sat x P\<close> says that the outcome \<open>x\<close> satisfies \<open>P\<close>. The introduction rules walk
  through the body of an operation and leave one goal for each path, in which a reply is a
  variable and the state a chain of \<open>after\<close>.
\<close>

definition sat :: "'a \<Rightarrow> ('a \<Rightarrow> bool) \<Rightarrow> bool" where
  "sat x P = P x"

named_theorems paths \<open>introduction rules for the paths of an operation\<close>

lemma sat_case: "sat x (\<lambda>(c, s'). P c s') \<Longrightarrow> case x of (c, s') \<Rightarrow> P c s'"
  by (simp add: sat_def)

lemma sat_syscall [paths]:
  "(\<And>r. reply_of os q s = r \<Longrightarrow> sat (f r (after os q s)) P)
     \<Longrightarrow> sat (case syscall os q s of (r, s') \<Rightarrow> f r s') P"
  by (simp add: sys_simps)

lemma sat_malloc [paths]:
  "(\<And>r. reply_of os (CMalloc n) s = r \<Longrightarrow> sat (f (ptr r) (after os (CMalloc n) s)) P)
     \<Longrightarrow> sat (case malloc os n s of (p, s') \<Rightarrow> f p s') P"
  by (simp add: sys_simps)

lemma sat_syscall_into [paths]:
  "(\<And>r. reply_of os q s = r \<Longrightarrow> sat (f r (store_bytes b (take (nat (ret r)) (r_bytes r)) (after os q s))) P)
     \<Longrightarrow> sat (case syscall_into os q b s of (r, s') \<Rightarrow> f r s') P"
  by (simp add: sys_simps)

lemma sat_if [paths]: "(b \<Longrightarrow> sat x P) \<Longrightarrow> (\<not> b \<Longrightarrow> sat y P) \<Longrightarrow> sat (if b then x else y) P"
  by simp

lemma sat_Let [paths]: "sat (f t) P \<Longrightarrow> sat (Let t f) P"
  by simp

lemma sat_conv_addr [paths]:
  "(\<And>a n. yoi_unix_conv_addr ad po = (a, n) \<Longrightarrow> sat (f a n) P)
     \<Longrightarrow> sat (case yoi_unix_conv_addr ad po of (a, n) \<Rightarrow> f a n) P"
  by (simp split: prod.splits)

lemma sat_conv_sockaddr [paths]:
  "(\<And>a n. yoi_unix_conv_sockaddr sa = (a, n) \<Longrightarrow> sat (f a n) P)
     \<Longrightarrow> sat (case yoi_unix_conv_sockaddr sa of (a, n) \<Rightarrow> f a n) P"
  by (simp split: prod.splits)

end
