(* ===== verification/UnixIO.thy ===== *)
theory UnixIO
  imports Posix
begin

text \<open>
  The blocking operations of \<open>src/unix/impl.c\<close> in the Linux configuration: handles, files,
  directories, terminals and sockets. A structure that the library allocates is a group of
  functions from its address to its fields (\<open>struct yo_fd\<close>, \<open>struct yo_dir\<close>,
  \<open>struct yo_tty_raw\<close>, \<open>struct yo_proc\<close> of \<open>src/unix/impl.h\<close>). Functions take their
  out parameters as addresses, as in C. \<open>yo_fd_close\<close> calls into the request queue and
  stands in the theory \<open>Pollish\<close>.
\<close>

section \<open>Conversions\<close>

abbreviation (input) YO_OPEN_READ :: int where "YO_OPEN_READ \<equiv> 1"
abbreviation (input) YO_OPEN_WRITE :: int where "YO_OPEN_WRITE \<equiv> 2"
abbreviation (input) YO_OPEN_APPEND :: int where "YO_OPEN_APPEND \<equiv> 4"
abbreviation (input) YO_OPEN_CREATE :: int where "YO_OPEN_CREATE \<equiv> 8"
abbreviation (input) YO_OPEN_TRUNC :: int where "YO_OPEN_TRUNC \<equiv> 16"
abbreviation (input) YO_OPEN_DIRECT :: int where "YO_OPEN_DIRECT \<equiv> 32"
abbreviation (input) YO_OPEN_SHARED :: int where "YO_OPEN_SHARED \<equiv> 64"
abbreviation (input) YO_OPEN_NOFOLLOW :: int where "YO_OPEN_NOFOLLOW \<equiv> 128"
abbreviation (input) YO_OPEN_STAT :: int where "YO_OPEN_STAT \<equiv> 128"

abbreviation (input) O_RDONLY :: int where "O_RDONLY \<equiv> 0"
abbreviation (input) O_WRONLY :: int where "O_WRONLY \<equiv> 1"
abbreviation (input) O_RDWR :: int where "O_RDWR \<equiv> 2"
abbreviation (input) O_CREAT :: int where "O_CREAT \<equiv> 64"
abbreviation (input) O_TRUNC :: int where "O_TRUNC \<equiv> 512"
abbreviation (input) O_APPEND :: int where "O_APPEND \<equiv> 1024"
abbreviation (input) O_NOFOLLOW :: int where "O_NOFOLLOW \<equiv> 131072"
abbreviation (input) O_CLOEXEC :: int where "O_CLOEXEC \<equiv> 524288"
abbreviation (input) O_SYNC :: int where "O_SYNC \<equiv> 1052672"
abbreviation (input) O_PATH :: int where "O_PATH \<equiv> 2097152"

definition yoi_unix_conv_open_flags :: "int \<Rightarrow> int" where
  "yoi_unix_conv_open_flags flags =
     (let res = 0;
          (flags, res) =
            (if flags AND YO_OPEN_STAT \<noteq> 0 then (flags, res OR O_PATH)
             else
               let (flags, res) = (if flags AND YO_OPEN_APPEND \<noteq> 0
                                   then (flags OR YO_OPEN_WRITE, res OR O_APPEND) else (flags, res))
               in if flags AND YO_OPEN_WRITE \<noteq> 0 then
                    if flags AND YO_OPEN_READ \<noteq> 0 then (flags, res OR O_RDWR)
                    else (flags, res OR O_WRONLY)
                  else if flags AND YO_OPEN_READ \<noteq> 0 then (flags, res OR O_RDONLY)
                  else (flags, res));
          res = (if flags AND YO_OPEN_CREATE \<noteq> 0 then res OR O_CREAT else res);
          res = (if flags AND YO_OPEN_TRUNC \<noteq> 0 then res OR O_TRUNC else res);
          res = (if flags AND YO_OPEN_DIRECT \<noteq> 0 then res OR O_SYNC else res);
          res = (if flags AND YO_OPEN_NOFOLLOW \<noteq> 0 then res OR O_NOFOLLOW else res);
          res = (if flags AND YO_OPEN_SHARED = 0 then res OR O_CLOEXEC else res)
      in res)"

abbreviation (input) S_IFMT :: u32 where "S_IFMT \<equiv> 61440"

definition stat_mode_cases :: "(u32 \<times> stat_type) list" where
  "stat_mode_cases =
     [(32768, YO_STAT_REG), (16384, YO_STAT_DIR), (40960, YO_STAT_LINK), (49152, YO_STAT_SOCK),
      (4096, YO_STAT_FIFO), (8192, YO_STAT_CHAR), (24576, YO_STAT_BLK)]"

definition yoi_unix_conv_stat_mode :: "u32 \<Rightarrow> yo_stat_t \<Rightarrow> yo_stat_t" where
  "yoi_unix_conv_stat_mode mode dst =
     dst\<lparr>type_of := switch stat_mode_cases STAT_NONE (mode AND S_IFMT), mode_of := mode AND NOT S_IFMT\<rparr>"

definition timespec_time :: "int \<times> int \<Rightarrow> yo_time" where
  "timespec_time ts = \<lparr>sec = of_int (fst ts), nsec = of_int (snd ts)\<rparr>"

definition yoi_unix_conv_stat :: "yo_stat_t \<Rightarrow> cstat \<Rightarrow> yo_stat_t" where
  "yoi_unix_conv_stat dst src =
     (let dst = yoi_unix_conv_stat_mode (st_mode src) dst
      in dst\<lparr>mode_of := st_mode src AND NOT S_IFMT,
             uid_of := st_uid src,
             gid_of := st_gid src,
             atime_of := timespec_time (st_atim src),
             ctime_of := timespec_time (st_ctim src),
             mtime_of := timespec_time (st_mtim src),
             size_of := st_size src,
             inode_of := st_ino src,
             links_of := ucast (st_nlink src),
             blksize_of := ucast (st_blksize src)\<rparr>)"

text \<open>A C string with its terminating NUL.\<close>

definition cstr :: "string \<Rightarrow> byte list" where
  "cstr s = map (\<lambda>c. of_nat (char_code c)) s @ [0]"

section \<open>Handles\<close>

record 'w io = "'w sys" +
  fd_head :: "addr \<Rightarrow> addr"
  fd_owned :: "addr \<Rightarrow> bool"
  fd_fd :: "addr \<Rightarrow> int"
  fd_read_n :: "addr \<Rightarrow> u32"
  fd_write_n :: "addr \<Rightarrow> u32"
  dir_dir :: "addr \<Rightarrow> addr"
  tty_fd :: "addr \<Rightarrow> int"
  tty_mode :: "addr \<Rightarrow> termios"
  proc_pid :: "addr \<Rightarrow> int"

abbreviation (input) sizeof_yo_fd :: u64 where "sizeof_yo_fd \<equiv> 24"
abbreviation (input) sizeof_yo_dir :: u64 where "sizeof_yo_dir \<equiv> 16"
abbreviation (input) sizeof_yo_proc :: u64 where "sizeof_yo_proc \<equiv> 16"
abbreviation (input) sizeof_yo_tty_raw :: u64 where "sizeof_yo_tty_raw \<equiv> 64"

text \<open>On Linux every handle is a descriptor.\<close>

definition yoi_unix_isfd :: "addr \<Rightarrow> bool" where
  "yoi_unix_isfd res = True"

definition yoi_fd_ioq_init :: "addr \<Rightarrow> ('w, 'z) io_scheme \<Rightarrow> ('w, 'z) io_scheme" where
  "yoi_fd_ioq_init fd s = s\<lparr>fd_read_n := (fd_read_n s)(fd := 0), fd_write_n := (fd_write_n s)(fd := 0)\<rparr>"

definition yoi_unix_mkfd :: "addr \<Rightarrow> int \<Rightarrow> ('w, 'z) io_scheme \<Rightarrow> ('w, 'z) io_scheme" where
  "yoi_unix_mkfd res fd s =
     (let s = s\<lparr>fd_owned := (fd_owned s)(res := True)\<rparr>;
          s = s\<lparr>fd_fd := (fd_fd s)(res := fd)\<rparr>;
          s = s\<lparr>fd_head := (fd_head s)(res := NULL)\<rparr>
      in yoi_fd_ioq_init res s)"

definition yo_fd_new :: "'w os \<Rightarrow> addr \<Rightarrow> u64 \<Rightarrow> bool \<Rightarrow> ('w, 'z) io_scheme \<Rightarrow> yo_code \<times> ('w, 'z) io_scheme" where
  "yo_fd_new os pres fd owned s =
     (let (res, s) = malloc os sizeof_yo_fd s
      in if res = NULL then (YO_ENOMEM, s)
         else
           let s = yoi_unix_mkfd res (sint (ucast fd :: u32)) s;
               s = s\<lparr>fd_owned := (fd_owned s)(res := owned)\<rparr>;
               s = set_ptr pres res s
           in (YO_OK, s))"

definition yo_tty_in :: "'w os \<Rightarrow> addr \<Rightarrow> ('w, 'z) io_scheme \<Rightarrow> yo_code \<times> ('w, 'z) io_scheme" where
  "yo_tty_in os pres s = yo_fd_new os pres 0 False s"

definition yo_tty_out :: "'w os \<Rightarrow> addr \<Rightarrow> ('w, 'z) io_scheme \<Rightarrow> yo_code \<times> ('w, 'z) io_scheme" where
  "yo_tty_out os pres s = yo_fd_new os pres 1 False s"

definition yo_tty_err :: "'w os \<Rightarrow> addr \<Rightarrow> ('w, 'z) io_scheme \<Rightarrow> yo_code \<times> ('w, 'z) io_scheme" where
  "yo_tty_err os pres s = yo_fd_new os pres 2 False s"

text \<open>\<open>return yoi_unix_conv_errno(errno)\<close>\<close>

definition return_errno :: "('w, 'z) sys_scheme \<Rightarrow> yo_code \<times> ('w, 'z) sys_scheme" where
  "return_errno s = (yoi_unix_conv_errno (errno s), s)"

definition yo_read ::
  "'w os \<Rightarrow> addr \<Rightarrow> addr \<Rightarrow> addr \<Rightarrow> ('w, 'z) io_scheme \<Rightarrow> yo_code \<times> ('w, 'z) io_scheme" where
  "yo_read os fd buff pn s =
     (if \<not> yoi_unix_isfd fd then (YO_EBADFD, s)
      else
        let (r, s) = syscall_into os (CRead (fd_fd s fd) (m_size s pn)) buff s; n = ret r
        in if n < 0 then return_errno s
           else if n = 0 then (YO_EOF, s)
           else (YO_OK, set_size pn (of_int n) s))"

definition yo_write ::
  "'w os \<Rightarrow> addr \<Rightarrow> addr \<Rightarrow> addr \<Rightarrow> ('w, 'z) io_scheme \<Rightarrow> yo_code \<times> ('w, 'z) io_scheme" where
  "yo_write os fd buff pn s =
     (if \<not> yoi_unix_isfd fd then (YO_EBADFD, s)
      else
        let (r, s) = syscall os (CWrite (fd_fd s fd) (load_bytes buff (m_size s pn) s)) s; n = ret r
        in if n < 0 then return_errno s
           else if n = 0 then (YO_EOF, s)
           else (YO_OK, set_size pn (of_int n) s))"

definition yo_sync :: "'w os \<Rightarrow> addr \<Rightarrow> ('w, 'z) io_scheme \<Rightarrow> yo_code \<times> ('w, 'z) io_scheme" where
  "yo_sync os fd s =
     (if \<not> yoi_unix_isfd fd then (YO_EBADFD, s)
      else let (r, s) = syscall os (CFsync (fd_fd s fd)) s
           in if ret r < 0 then return_errno s else (YO_OK, s))"

definition yo_stat :: "'w os \<Rightarrow> addr \<Rightarrow> addr \<Rightarrow> ('w, 'z) io_scheme \<Rightarrow> yo_code \<times> ('w, 'z) io_scheme" where
  "yo_stat os fd buff s =
     (let (r, s) = syscall os (CFstat (fd_fd s fd)) s
      in if ret r < 0 then return_errno s
         else (YO_OK, s\<lparr>m_stat := (m_stat s)(buff := yoi_unix_conv_stat (m_stat s buff) (r_stat r))\<rparr>))"

section \<open>Terminals\<close>

abbreviation (input) TCSA_IFLAGS :: u32 where "TCSA_IFLAGS \<equiv> 2 OR 256 OR 16 OR 32 OR 1024"
abbreviation (input) OPOST :: u32 where "OPOST \<equiv> 1"
abbreviation (input) CS8 :: u32 where "CS8 \<equiv> 48"
abbreviation (input) TCSA_LFLAGS :: u32 where "TCSA_LFLAGS \<equiv> 8 OR 2 OR 32768 OR 1"

definition raw_of :: "termios \<Rightarrow> termios" where
  "raw_of t = t\<lparr>c_iflag := c_iflag t AND NOT TCSA_IFLAGS, c_oflag := c_oflag t AND NOT OPOST,
     c_cflag := c_cflag t OR CS8, c_lflag := c_lflag t AND NOT TCSA_LFLAGS, c_vmin := 1, c_vtime := 0\<rparr>"

definition yo_tty_raw :: "'w os \<Rightarrow> addr \<Rightarrow> addr \<Rightarrow> ('w, 'z) io_scheme \<Rightarrow> yo_code \<times> ('w, 'z) io_scheme" where
  "yo_tty_raw os tty pres s =
     (if \<not> yoi_unix_isfd tty then (YO_EBADFD, s)
      else
        let (res, s) = malloc os sizeof_yo_tty_raw s
        in if res = NULL then (YO_ENOMEM, s)
           else
             let s = s\<lparr>tty_fd := (tty_fd s)(res := fd_fd s tty)\<rparr>;
                 (r, s) = syscall os (CTcgetattr (tty_fd s res)) s
             in if ret r < 0 then let s = free os res s in return_errno s
                else
                  let s = s\<lparr>tty_mode := (tty_mode s)(res := r_termios r)\<rparr>;
                      raw = raw_of (tty_mode s res);
                      (r, s) = syscall os (CTcsetattr (tty_fd s res) raw) s
                  in if ret r < 0 then let s = free os res s in return_errno s
                     else (YO_OK, set_ptr pres res s))"

definition yo_tty_rawend :: "'w os \<Rightarrow> addr \<Rightarrow> ('w, 'z) io_scheme \<Rightarrow> yo_code \<times> ('w, 'z) io_scheme" where
  "yo_tty_rawend os rawmode s =
     (let (r, s) = syscall os (CTcsetattr (tty_fd s rawmode) (tty_mode s rawmode)) s
      in if ret r < 0 then return_errno s else (YO_OK, free os rawmode s))"

section \<open>Files\<close>

definition simple_call :: "'w os \<Rightarrow> call \<Rightarrow> ('w, 'z) io_scheme \<Rightarrow> yo_code \<times> ('w, 'z) io_scheme" where
  "simple_call os q s =
     (let (r, s) = syscall os q s in if ret r < 0 then return_errno s else (YO_OK, s))"

definition yo_file_remove :: "'w os \<Rightarrow> string \<Rightarrow> ('w, 'z) io_scheme \<Rightarrow> yo_code \<times> ('w, 'z) io_scheme" where
  "yo_file_remove os path s = simple_call os (CRemove path) s"

definition yo_file_symlink :: "'w os \<Rightarrow> string \<Rightarrow> string \<Rightarrow> ('w, 'z) io_scheme \<Rightarrow> yo_code \<times> ('w, 'z) io_scheme" where
  "yo_file_symlink os path target s = simple_call os (CSymlink path target) s"

definition yo_file_hardlink :: "'w os \<Rightarrow> string \<Rightarrow> string \<Rightarrow> ('w, 'z) io_scheme \<Rightarrow> yo_code \<times> ('w, 'z) io_scheme" where
  "yo_file_hardlink os path target s = simple_call os (CLink path target) s"

text \<open>
  \<open>int n = readlink(...)\<close>, then \<open>res[n] = 0\<close>: \<open>None\<close> when the index is outside the
  allocated block.
\<close>

definition yo_file_readlink ::
  "'w os \<Rightarrow> string \<Rightarrow> addr \<Rightarrow> ('w, 'z) io_scheme \<Rightarrow> (yo_code \<times> ('w, 'z) io_scheme) option" where
  "yo_file_readlink os path pres s =
     (let (r, s) = syscall os (CLstat path) s
      in if ret r < 0 then Some (return_errno s)
         else
           let size = st_size (r_stat r) + 1;
               (res, s) = malloc os size s
           in if res = NULL then Some (YO_ENOMEM, s)
              else
                let (r, s) = syscall_into os (CReadlink path size) res s;
                    n = sint (of_int (ret r) :: u32)
                in if n < 0 then let s = free os res s in Some (return_errno s)
                   else if n \<ge> uint size then None
                   else
                     let s = store_bytes (res + of_int n) [0] s
                     in Some (YO_OK, set_ptr pres res s))"

definition yo_file_open ::
  "'w os \<Rightarrow> addr \<Rightarrow> string \<Rightarrow> int \<Rightarrow> int \<Rightarrow> ('w, 'z) io_scheme \<Rightarrow> yo_code \<times> ('w, 'z) io_scheme" where
  "yo_file_open os pres path flags mode s =
     (let (res, s) = malloc os sizeof_yo_fd s
      in if res = NULL then (YO_ENOMEM, s)
         else
           let (r, s) = syscall os (COpen path (yoi_unix_conv_open_flags flags) mode) s; fd = ret r
           in if fd < 0 then return_errno s
              else
                let s = yoi_unix_mkfd res fd s
                in (YO_OK, set_ptr pres res s))"

definition yo_file_read ::
  "'w os \<Rightarrow> addr \<Rightarrow> addr \<Rightarrow> addr \<Rightarrow> u64 \<Rightarrow> ('w, 'z) io_scheme \<Rightarrow> yo_code \<times> ('w, 'z) io_scheme" where
  "yo_file_read os fd buff n off s =
     (if \<not> yoi_unix_isfd fd then (YO_EBADFD, s)
      else
        let (r, s) = syscall_into os (CPread (fd_fd s fd) (m_size s n) off) buff s; res = ret r
        in if res < 0 then return_errno s
           else if m_size s n \<noteq> 0 \<and> res = 0 then (YO_EOF, s)
           else (YO_OK, set_size n (of_int res) s))"

definition yo_file_write ::
  "'w os \<Rightarrow> addr \<Rightarrow> addr \<Rightarrow> addr \<Rightarrow> u64 \<Rightarrow> ('w, 'z) io_scheme \<Rightarrow> yo_code \<times> ('w, 'z) io_scheme" where
  "yo_file_write os fd buff n off s =
     (if \<not> yoi_unix_isfd fd then (YO_EBADFD, s)
      else
        let (r, s) = syscall os (CPwrite (fd_fd s fd) (load_bytes buff (m_size s n) s) off) s; res = ret r
        in if res < 0 then return_errno s
           else if m_size s n \<noteq> 0 \<and> res = 0 then (YO_EOF, s)
           else (YO_OK, set_size n (of_int res) s))"

definition yo_file_chmod :: "'w os \<Rightarrow> addr \<Rightarrow> int \<Rightarrow> ('w, 'z) io_scheme \<Rightarrow> yo_code \<times> ('w, 'z) io_scheme" where
  "yo_file_chmod os fd mode s =
     (if yoi_unix_isfd fd then simple_call os (CFchmod (fd_fd s fd) mode) s else (YO_OK, s))"

definition yo_file_chown :: "'w os \<Rightarrow> addr \<Rightarrow> int \<Rightarrow> int \<Rightarrow> ('w, 'z) io_scheme \<Rightarrow> yo_code \<times> ('w, 'z) io_scheme" where
  "yo_file_chown os fd uid gid s =
     (if yoi_unix_isfd fd then simple_call os (CFchown (fd_fd s fd) uid gid) s else (YO_OK, s))"

section \<open>Directories\<close>

definition yo_dir_new :: "'w os \<Rightarrow> string \<Rightarrow> int \<Rightarrow> ('w, 'z) io_scheme \<Rightarrow> yo_code \<times> ('w, 'z) io_scheme" where
  "yo_dir_new os path mode s = simple_call os (CMkdir path mode) s"

definition yo_dir_open :: "'w os \<Rightarrow> addr \<Rightarrow> string \<Rightarrow> ('w, 'z) io_scheme \<Rightarrow> yo_code \<times> ('w, 'z) io_scheme" where
  "yo_dir_open os pres path s =
     (let (res, s) = malloc os sizeof_yo_dir s
      in if res = NULL then (YO_ENOMEM, s)
         else
           let (r, s) = syscall os (COpendir path) s; dir = of_int (ret r)
           in if dir = NULL then let s = free os res s in return_errno s
              else
                let s = s\<lparr>dir_dir := (dir_dir s)(res := dir)\<rparr>
                in (YO_OK, set_ptr pres res s))"

text \<open>
  The loop over \<open>readdir\<close>; it may go on for ever, on an endless directory of dots, so that
  not returning is \<open>None\<close>.
\<close>

datatype entry = ReadError | EndOfDir | Entry string

partial_function (option) dir_entries ::
  "'w os \<Rightarrow> addr \<Rightarrow> ('w, 'z) io_scheme \<Rightarrow> (entry \<times> ('w, 'z) io_scheme) option" where
  "dir_entries os dirp s =
     (let s = s\<lparr>errno := 0\<rparr>;
          (r, s) = syscall os (CReaddir dirp) s
      in if errno s \<noteq> 0 then Some (ReadError, s)
         else case r_text r of
           None \<Rightarrow> Some (EndOfDir, s)
         | Some name \<Rightarrow> if name = ''.'' \<or> name = ''..'' then dir_entries os dirp s
                        else Some (Entry name, s))"

definition yo_dir_next ::
  "'w os \<Rightarrow> addr \<Rightarrow> addr \<Rightarrow> ('w, 'z) io_scheme \<Rightarrow> (yo_code \<times> ('w, 'z) io_scheme) option" where
  "yo_dir_next os dir pname s =
     do {
       (e, s) \<leftarrow> dir_entries os (dir_dir s dir) s;
       case e of
         ReadError \<Rightarrow> Some (return_errno s)
       | EndOfDir \<Rightarrow> Some (YO_OK, set_ptr pname NULL s)
       | Entry name \<Rightarrow>
           let (p, s) = malloc os (of_nat (length name) + 1) s;
               s = set_ptr pname p s
           in if m_ptr s pname = NULL then Some (YO_ENOMEM, s)
              else Some (YO_OK, store_bytes p (cstr name) s)
     }"

partial_function (option) closedir_loop ::
  "'w os \<Rightarrow> addr \<Rightarrow> ('w, 'z) io_scheme \<Rightarrow> ('w, 'z) io_scheme option" where
  "closedir_loop os dirp s =
     (let (r, s) = syscall os (CClosedir dirp) s
      in if ret r < 0 then if errno s \<noteq> EINTR then Some s else closedir_loop os dirp s
         else Some s)"

definition yo_dir_close :: "'w os \<Rightarrow> addr \<Rightarrow> ('w, 'z) io_scheme \<Rightarrow> ('w, 'z) io_scheme option" where
  "yo_dir_close os dir s =
     do {
       s \<leftarrow> closedir_loop os (dir_dir s dir) s;
       Some (free os dir s)
     }"

section \<open>Sockets\<close>

datatype yo_proto = YO_PROTO_TCP | YO_PROTO_UDP

definition is_ipv4 :: "yo_addr \<Rightarrow> bool" where
  "is_ipv4 a = (case a of YO_ADDR_IPV4 _ \<Rightarrow> True | YO_ADDR_IPV6 _ \<Rightarrow> False)"

definition yoi_unix_socket_new :: "'w os \<Rightarrow> yo_proto \<Rightarrow> yo_addr \<Rightarrow> ('w, 'z) io_scheme \<Rightarrow> int \<times> ('w, 'z) io_scheme" where
  "yoi_unix_socket_new os proto addr s =
     (let (r, s) = syscall os (CSocket (if is_ipv4 addr then AF_INET else AF_INET6)
                                       (if proto = YO_PROTO_UDP then 2 else 1)
                                       (if proto = YO_PROTO_UDP then 17 else 6)) s
      in (ret r, s))"

definition yo_socket_connect ::
  "'w os \<Rightarrow> addr \<Rightarrow> yo_proto \<Rightarrow> yo_addr \<Rightarrow> u16 \<Rightarrow> ('w, 'z) io_scheme \<Rightarrow> yo_code \<times> ('w, 'z) io_scheme" where
  "yo_socket_connect os pres proto addr port s =
     (let (client, s) = malloc os sizeof_yo_fd s
      in if client = NULL then (YO_ENOMEM, s)
         else
           let (arg_addr, len) = yoi_unix_conv_addr addr port;
               (sock, s) = yoi_unix_socket_new os proto addr s;
               err_connect = (\<lambda>s. let s = free os client s in return_errno s);
               err_socket = (\<lambda>s. let s = ignore os (CClose sock) s in err_connect s)
           in if sock < 0 then err_socket s
              else
                let (r, s) = syscall os (CConnect sock arg_addr len) s
                in if ret r < 0 then err_connect s
                   else
                     let s = yoi_unix_mkfd client sock s
                     in (YO_OK, set_ptr pres client s))"

definition yo_socket_bind ::
  "'w os \<Rightarrow> addr \<Rightarrow> yo_proto \<Rightarrow> yo_addr \<Rightarrow> u16 \<Rightarrow> u64 \<Rightarrow> ('w, 'z) io_scheme
     \<Rightarrow> yo_code \<times> ('w, 'z) io_scheme" where
  "yo_socket_bind os pres proto addr port max_n s =
     (let (server, s) = malloc os sizeof_yo_fd s
      in if server = NULL then (YO_ENOMEM, s)
         else
           let (sock, s) = yoi_unix_socket_new os proto addr s;
               err_socket = (\<lambda>s. let s = free os server s in return_errno s);
               err_listen = (\<lambda>s. let s = ignore os (CClose sock) s in err_socket s)
           in if sock < 0 then err_socket s
              else
                let (r, s) = syscall os (CReuseaddr sock) s
                in if ret r < 0 then err_listen s
                   else
                     let (arg_addr, len) = yoi_unix_conv_addr addr port;
                         (r, s) = syscall os (CBind sock arg_addr len) s
                     in if ret r < 0 then err_listen s
                        else
                          let (r, s) = syscall os (CListen sock max_n) s
                          in if ret r < 0 then err_listen s
                             else
                               let s = yoi_unix_mkfd server sock s
                               in (YO_OK, set_ptr pres server s))"

definition yo_socket_accept ::
  "'w os \<Rightarrow> addr \<Rightarrow> addr \<Rightarrow> addr \<Rightarrow> addr \<Rightarrow> ('w, 'z) io_scheme \<Rightarrow> yo_code \<times> ('w, 'z) io_scheme" where
  "yo_socket_accept os server pres paddr pport s =
     (if \<not> yoi_unix_isfd server then (YO_EBADFD, s)
      else
        let (client, s) = malloc os sizeof_yo_fd s
        in if client = NULL then (YO_ENOMEM, s)
           else
             let (r, s) = syscall os (CAccept (fd_fd s server)) s; res = ret r
             in if res < 0 then let s = free os client s in return_errno s
                else
                  let (a, port) = yoi_unix_conv_sockaddr (hd (r_socks r));
                      s = s\<lparr>m_addr := (m_addr s)(paddr := a), m_u16 := (m_u16 s)(pport := port)\<rparr>;
                      s = yoi_unix_mkfd client res s
                  in (YO_OK, set_ptr pres client s))"

section \<open>Fields across calls\<close>

lemma io_after_simps [simp]:
  "fd_fd (after os q s) = fd_fd s" "fd_owned (after os q s) = fd_owned s"
  "fd_head (after os q s) = fd_head s" "fd_read_n (after os q s) = fd_read_n s"
  "fd_write_n (after os q s) = fd_write_n s" "tty_fd (after os q s) = tty_fd s"
  "tty_mode (after os q s) = tty_mode s" "dir_dir (after os q s) = dir_dir s"
  by (simp_all add: after_eq)

lemma io_store_simps [simp]:
  "fd_fd (store_bytes p bs s) = fd_fd s" "m_ptr (store_bytes p bs s) = m_ptr s"
  by (simp_all add: store_bytes_def)

lemma mkfd_simps [simp]:
  "trace (yoi_unix_mkfd h fd s) = trace s"
  "fd_fd (yoi_unix_mkfd h fd s) = (fd_fd s)(h := fd)"
  "fd_owned (yoi_unix_mkfd h fd s) = (fd_owned s)(h := True)"
  "m_ptr (yoi_unix_mkfd h fd s) = m_ptr s"
  by (simp_all add: yoi_unix_mkfd_def yoi_fd_ioq_init_def)

lemma set_simps [simp]:
  "trace (set_size p v s) = trace s" "m_size (set_size p v s) = (m_size s)(p := v)"
  "m_byte (set_size p v s) = m_byte s"
  "trace (set_ptr p a s) = trace s" "m_ptr (set_ptr p a s) = (m_ptr s)(p := a)"
  "m_byte (set_ptr p a s) = m_byte s" "m_size (set_ptr p a s) = m_size s"
  "fd_fd (set_ptr p a s) = fd_fd s" "fd_owned (set_ptr p a s) = fd_owned s"
  "tty_mode (set_ptr p a s) = tty_mode s" "tty_fd (set_ptr p a s) = tty_fd s"
  "dir_dir (set_ptr p a s) = dir_dir s"
  by (simp_all add: set_size_def set_ptr_def)

lemma isfd [simp]: "yoi_unix_isfd h"
  by (simp add: yoi_unix_isfd_def)

lemma return_errno_simps [simp]:
  "fst (return_errno s) = yoi_unix_conv_errno (errno s)" "snd (return_errno s) = s"
  by (simp_all add: return_errno_def)

text \<open>What \<open>return yoi_unix_conv_errno(errno)\<close> returns after a failed call is an error.\<close>

lemma conv_positive: "0 < e \<Longrightarrow> yoi_unix_conv_errno e \<noteq> YO_OK"
  by (simp add: unix_conv_ok)

lemmas errno_positive = conv_positive [OF errno_after_failure] conv_positive [OF errno_after_any]

lemmas [sys_simps] = return_errno_def unix_conv_ok

section \<open>Properties\<close>

lemma load_store_bytes:
  assumes "length bs < 2 ^ 64"
  shows "map (\<lambda>i. write_bytes m p bs (p + of_nat i)) [0..<length bs] = bs"
  using assms
proof (induction bs arbitrary: m p)
  case (Cons b bs)
  have step: "write_bytes m p (b # bs) (p + of_nat i)
      = (case i of 0 \<Rightarrow> b | Suc j \<Rightarrow> write_bytes (m(p := b)) (p + 1) bs (p + 1 + of_nat j))"
    if "i < length (b # bs)" for i
  proof (cases i)
    case 0
    have "write_bytes (m(p := b)) (p + 1) bs p = (m(p := b)) p"
    proof (rule write_bytes_other)
      fix j assume "j < length bs"
      with Cons.prems have "unat (of_nat (Suc j) :: addr) = Suc j"
        by (intro unat_of_nat_exact) simp
      then have "(of_nat (Suc j) :: addr) \<noteq> 0" by (metis nat.distinct(1) unat_0)
      then show "p \<noteq> p + 1 + of_nat j" by (simp add: add.assoc)
    qed
    with 0 show ?thesis by simp
  qed (simp add: add.assoc)
  have "map (\<lambda>i. write_bytes m p (b # bs) (p + of_nat i)) [0..<length (b # bs)]
      = b # map (\<lambda>j. write_bytes m p (b # bs) (p + of_nat (Suc j))) [0..<length bs]"
    using step [of 0] by (simp only: length_Cons map_upt_Suc) simp
  also have "\<dots> = b # map (\<lambda>j. write_bytes (m(p := b)) (p + 1) bs (p + 1 + of_nat j)) [0..<length bs]"
    using step [of "Suc j" for j] by (auto simp del: of_nat_Suc)
  also have "\<dots> = b # bs"
    using Cons.IH [of "m(p := b)" "p + 1"] Cons.prems by (simp del: fun_upd_apply)
  finally show ?case .
qed simp

text \<open>
  What \<open>yo_read\<close> promises. If the kernel returns at most as many bytes as were asked for,
  the operation succeeds exactly when it returned some; then \<open>*pn\<close> is their number, not
  more than before, and the buffer starts with them. On the end of the file and on errors
  \<open>*pn\<close> is left alone. Memory outside the buffer is not written in any case.
\<close>

theorem yo_read_outcome:
  fixes s :: "('w, 'z) io_scheme"
  defines "r \<equiv> \<lambda>os fd pn. reply_of os (CRead (fd_fd s fd) (m_size s pn)) s"
  assumes posix: "posix_os os"
    and kernel: "ret (r os fd pn) \<le> uint (m_size s pn)" "length (r_bytes (r os fd pn)) = nat (ret (r os fd pn))"
  shows "case yo_read os fd buff pn s of (c, s') \<Rightarrow>
     (c = YO_OK \<longleftrightarrow> 0 < ret (r os fd pn)) \<and> (ret (r os fd pn) = 0 \<longrightarrow> c = YO_EOF)
     \<and> (c = YO_OK \<longrightarrow> m_size s' pn \<le> m_size s pn \<and> load_bytes buff (m_size s' pn) s' = r_bytes (r os fd pn))
     \<and> (c \<noteq> YO_OK \<longrightarrow> m_size s' = m_size s)
     \<and> (\<forall>a. (\<forall>i < unat (m_size s pn). a \<noteq> buff + of_nat i) \<longrightarrow> m_byte s' a = m_byte s a)"
proof -
  define R where "R = r os fd pn"
  have R: "reply_of os (CRead (fd_fd s fd) (m_size s pn)) s = R" by (simp add: R_def r_def)
  have k: "ret R \<le> uint (m_size s pn)" "length (r_bytes R) = nat (ret R)"
    using kernel by (simp_all add: R_def)
  have lt: "uint (m_size s pn) < 2 ^ 64" using uint_bounded [of "m_size s pn"] by simp
  have out: "write_bytes (m_byte s) buff (r_bytes R) a = m_byte s a"
    if "\<forall>i < unat (m_size s pn). a \<noteq> buff + of_nat i" for a
    using that k(2) nat_mono [OF k(1)] by (intro write_bytes_other) simp
  have err: "yoi_unix_conv_errno (errno (after os (CRead (fd_fd s fd) (m_size s pn)) s)) \<noteq> YO_OK" if "ret R < 0"
    using that R by (intro errno_positive(1) [OF posix]) (simp add: fails_def)
  show ?thesis
  proof (cases "ret R" "0 :: int" rule: linorder_cases)
    case less
    with err out R show ?thesis
      by (simp add: yo_read_def sys_simps r_def return_errno_def)
  next
    case equal
    with out R k show ?thesis
      by (simp add: yo_read_def sys_simps r_def)
  next
    case greater
    then have n: "unat (of_int (ret R) :: u64) = length (r_bytes R)"
      using k lt greater unat_of_int_exact [where 'a = 64, of "ret R"] by simp
    have "length (r_bytes R) < 2 ^ 64" using k lt greater by (simp add: nat_less_iff)
    from load_store_bytes [OF this] have "map (\<lambda>i. write_bytes (m_byte s) buff (r_bytes R) (buff + of_nat i))
        [0..<unat (of_int (ret R) :: u64)] = r_bytes R" by (simp only: n)
    moreover have "(of_int (ret R) :: u64) \<le> m_size s pn"
      using greater k lt uint_of_int_exact [where 'a = 64, of "ret R"] by (simp add: word_le_def)
    ultimately show ?thesis
      using greater R out k
      by (simp add: yo_read_def sys_simps r_def load_bytes_def)
  qed
qed



lemma sat_socket [paths]:
  "(\<And>a b c r. reply_of os (CSocket a b c) s = r \<Longrightarrow> sat (f (ret r) (after os (CSocket a b c) s)) P)
     \<Longrightarrow> sat (case yoi_unix_socket_new os pr ad s of (r, s') \<Rightarrow> f r s') P"
  by (simp add: yoi_unix_socket_new_def sys_simps)

text \<open>
  What an operation that makes a handle promises of a finished call: the caller owns exactly the
  new handle and its descriptor, reachable from \<open>*pres\<close>, or the operation failed, has given
  back all that it had taken, and has not written \<open>*pres\<close>.
\<close>

definition handle_outcome ::
  "addr \<Rightarrow> ('w, 'z) io_scheme \<Rightarrow> yo_code \<times> ('w, 'z) io_scheme \<Rightarrow> bool" where
  "handle_outcome pres s = (\<lambda>(c, s').
     if c = YO_OK then fd_owned s' (m_ptr s' pres)
       \<and> gained [Mem (m_ptr s' pres), Fd (fd_fd s' (m_ptr s' pres))] s s'
     else gained [] s s' \<and> m_ptr s' = m_ptr s)"

lemma handle_outcomeI: "sat x (handle_outcome pres s) \<Longrightarrow> handle_outcome pres s x"
  by (simp add: sat_def)

lemmas outcome_simps = sat_def sys_simps ledger_simps handle_outcome_def

text \<open>The calls made between two states.\<close>

definition news :: "('w, 'z) sys_scheme \<Rightarrow> ('w, 'z) sys_scheme \<Rightarrow> (call \<times> reply) list" where
  "news s s' = drop (length (trace s)) (trace s')"

text \<open>
  C20: the operations that make listening and accepted sockets never leak. When one succeeds the
  caller owns exactly the new handle and its socket, reachable from \<open>*pres\<close>; when a step fails,
  every resource taken before that step has been given back and \<open>*pres\<close> has not been written.
\<close>

theorem server_sockets_clean:
  assumes "posix_os os"
  shows "handle_outcome pres s (yo_socket_bind os pres proto addr port max_n s)
       \<and> handle_outcome pres s (yo_socket_accept os server pres paddr pport s)"
proof
  show "handle_outcome pres s (yo_socket_bind os pres proto addr port max_n s)"
    using assms unfolding yo_socket_bind_def
    by (intro handle_outcomeI paths) (simp_all add: outcome_simps)
  show "handle_outcome pres s (yo_socket_accept os server pres paddr pport s)"
    using assms unfolding yo_socket_accept_def
    by (intro handle_outcomeI paths) (simp_all add: outcome_simps)
qed

text \<open>
  \<open>yo_socket_connect\<close> jumps to the wrong labels. A connection that is refused leaks the
  socket, and a socket that cannot be made is closed nevertheless. Success is clean.
\<close>

theorem socket_connect_labels:
  assumes "posix_os os"
  shows "case yo_socket_connect os pres proto addr port s of (c, s') \<Rightarrow>
     (c = YO_OK \<longrightarrow> handle_outcome pres s (c, s'))
   \<and> (\<forall>f a n r. (CConnect f a n, r) \<in> set (news s s') \<and> ret r < 0 \<longrightarrow> c \<noteq> YO_OK \<and> gained [Fd f] s s')
   \<and> (\<forall>a b d r. (CSocket a b d, r) \<in> set (news s s') \<and> ret r < 0
        \<longrightarrow> (\<exists>r'. (CClose (ret r), r') \<in> set (news s s')))"
  using assms unfolding yo_socket_connect_def
  by (intro sat_case paths) (auto simp: outcome_simps news_def)

text \<open>
  \<open>yo_file_open\<close> is clean when it succeeds; when the file cannot be opened it reports the
  error and leaks the handle that it had allocated.
\<close>

theorem file_open_outcome:
  assumes "posix_os os"
  shows "case yo_file_open os pres path flags mode s of (c, s') \<Rightarrow>
     (c = YO_OK \<longrightarrow> handle_outcome pres s (c, s'))
   \<and> (\<forall>p f m r. (COpen p f m, r) \<in> set (news s s') \<and> ret r < 0
        \<longrightarrow> c \<noteq> YO_OK \<and> (\<exists>h. h \<noteq> NULL \<and> gained [Mem h] s s'))"
  using assms unfolding yo_file_open_def
  by (intro sat_case paths) (auto simp: outcome_simps news_def)

text \<open>
  Leaving the raw mode restores the terminal. If \<open>yo_tty_raw\<close> succeeded, then
  \<open>yo_tty_rawend\<close> on the handle it made asks the kernel for exactly the settings that
  \<open>tcgetattr\<close> had reported, on the same descriptor, and nothing is held afterwards.
\<close>

theorem tty_raw_roundtrip:
  assumes "posix_os os"
  shows "case yo_tty_raw os tty pres s of (c, s1) \<Rightarrow>
     if c = YO_OK then
       (case yo_tty_rawend os (m_ptr s1 pres) s1 of (c2, s2) \<Rightarrow>
          \<exists>g r. (CTcgetattr (fd_fd s tty), g) \<in> set (news s s1)
            \<and> (CTcsetattr (fd_fd s tty) (raw_of (r_termios g))) \<in> fst ` set (news s s1)
            \<and> hd (news s1 s2) = (CTcsetattr (fd_fd s tty) (r_termios g), r)
            \<and> (ret r \<ge> 0 \<longrightarrow> c2 = YO_OK \<and> gained [] s s2))
     else gained [] s s1"
  using assms unfolding yo_tty_raw_def
  by (intro sat_case paths) (auto simp: outcome_simps news_def yo_tty_rawend_def Let_def)


lemma and_or_distrib: "(a OR b) AND c = (a AND c) OR (b AND c)" for a b c :: int
  by (rule bit.conj_disj_distrib2)

lemma and_or_absorb: "(a AND b) OR b = b" for a b :: int
  by (rule bit_eqI) (auto simp: bit_simps)

text \<open>
  The flags given to \<open>open\<close>. Because \<open>YO_OPEN_NOFOLLOW\<close> and \<open>YO_OPEN_STAT\<close> are the
  same bit, a request not to follow links opens the file as a bare path, without the access
  mode that was asked for. Otherwise the access mode is the one requested, appending implies
  writing, and each remaining flag is translated independently of the others.
\<close>

theorem open_flags_meaning:
  "let f = yoi_unix_conv_open_flags flags in
     f AND 3 = (if flags AND YO_OPEN_NOFOLLOW \<noteq> 0 then O_RDONLY
                else if flags AND YO_OPEN_WRITE = 0 \<and> flags AND YO_OPEN_APPEND = 0 then O_RDONLY
                else if flags AND YO_OPEN_READ = 0 then O_WRONLY else O_RDWR)
   \<and> (f AND O_PATH \<noteq> 0 \<longleftrightarrow> flags AND YO_OPEN_NOFOLLOW \<noteq> 0)
   \<and> (f AND O_NOFOLLOW \<noteq> 0 \<longleftrightarrow> flags AND YO_OPEN_STAT \<noteq> 0)
   \<and> (f AND O_APPEND \<noteq> 0 \<longleftrightarrow> flags AND YO_OPEN_APPEND \<noteq> 0 \<and> flags AND YO_OPEN_STAT = 0)
   \<and> (f AND O_CREAT \<noteq> 0 \<longleftrightarrow> flags AND YO_OPEN_CREATE \<noteq> 0)
   \<and> (f AND O_TRUNC \<noteq> 0 \<longleftrightarrow> flags AND YO_OPEN_TRUNC \<noteq> 0)
   \<and> (f AND O_CLOEXEC \<noteq> 0 \<longleftrightarrow> flags AND YO_OPEN_SHARED = 0)"
  by (simp add: yoi_unix_conv_open_flags_def Let_def and_or_distrib and_or_absorb)

text \<open>
  \<open>yo_file_readlink\<close> writes the terminator outside its block exactly when the link's text
  is longer than \<open>lstat\<close> had reported, which a link that changed in between and the links under
  \<open>/proc\<close> (of reported length 0) do. A link of the reported length comes back as a
  NUL-terminated string.
\<close>

theorem readlink_terminator:
  assumes "reply_of os (CLstat path) s = st" and "ret st \<ge> 0"
    and "n = st_size (r_stat st) + 1"
    and "reply_of os (CMalloc n) (after os (CLstat path) s) = m" and "ptr m \<noteq> NULL"
    and "reply_of os (CReadlink path n) (after os (CMalloc n) (after os (CLstat path) s)) = r"
    and "0 \<le> ret r" and "ret r < 2 ^ 31" and "ret r \<le> uint n"
  shows "(yo_file_readlink os path pres s = None \<longleftrightarrow> ret r = uint n)
       \<and> (\<forall>s'. yo_file_readlink os path pres s = Some (YO_OK, s') \<longrightarrow>
            m_ptr s' pres = ptr m \<and> m_byte s' (ptr m + of_int (ret r)) = 0)"
proof -
  have "sint (of_int (ret r) :: u32) = ret r"
    using assms(7,8) by (simp add: signed_of_int signed_take_bit_int_eq_self)
  with assms show ?thesis
    by (auto simp: yo_file_readlink_def sys_simps Let_def not_less)
qed

section \<open>Reading a directory\<close>

definition dots :: "string \<Rightarrow> bool" where
  "dots name \<longleftrightarrow> name = ''.'' \<or> name = ''..''"

text \<open>
  A system in which \<open>readdir\<close> walks through a list: \<open>rest\<close> reads off a world the names that
  are left, and no other call moves it.
\<close>

definition walks_dir :: "'w os \<Rightarrow> addr \<Rightarrow> ('w \<Rightarrow> string list) \<Rightarrow> bool" where
  "walks_dir os d rest \<longleftrightarrow> (\<forall>w.
     eno (fst (os w (CReaddir d))) = None
   \<and> r_text (fst (os w (CReaddir d))) = (case rest w of [] \<Rightarrow> None | x # _ \<Rightarrow> Some x)
   \<and> rest (snd (os w (CReaddir d))) = tl (rest w)
   \<and> (\<forall>q. q \<noteq> CReaddir d \<longrightarrow> rest (snd (os w q)) = rest w))"

lemma world_after [simp]: "world (after os q s) = snd (os (world s) q)"
  by (simp add: after_eq)

lemma dir_entries_walk:
  fixes s :: "('w, 'z) io_scheme"
  assumes "walks_dir os d rest"
  shows "\<exists>s'. dir_entries os d s = Some (case dropWhile dots (rest (world s)) of
            [] \<Rightarrow> EndOfDir | x # _ \<Rightarrow> Entry x, s') \<and> rest (world s') = tl (dropWhile dots (rest (world s)))
            \<and> m_ptr s' = m_ptr s"
proof (induction "rest (world s)" arbitrary: s)
  case Nil
  with assms show ?case
    by (subst dir_entries.simps)
       (auto simp: walks_dir_def sys_simps Let_def after_errno reply_of_def)
next
  case (Cons x xs)
  let ?s1 = "after os (CReaddir d) (s\<lparr>errno := 0\<rparr>)"
  have rd: "r_text (reply_of os (CReaddir d) (s\<lparr>errno := 0\<rparr>)) = Some x" "errno ?s1 = 0"
    "rest (world ?s1) = xs" "m_ptr ?s1 = m_ptr s"
    using assms Cons.hyps(2) [symmetric] by (auto simp: walks_dir_def after_errno reply_of_def)
  show ?case
  proof (cases "dots x")
    case True
    with rd have "dir_entries os d s = dir_entries os d ?s1"
      by (subst dir_entries.simps) (simp add: sys_simps Let_def dots_def)
    with Cons.hyps(1) [of ?s1] rd True Cons.hyps(2) [symmetric] show ?thesis by auto
  next
    case False
    with rd have "dir_entries os d s = Some (Entry x, ?s1)"
      by (subst dir_entries.simps) (simp add: sys_simps Let_def dots_def)
    with rd False Cons.hyps(2) [symmetric] show ?thesis by auto
  qed
qed

text \<open>
  Over a system that walks a directory, \<open>yo_dir_next\<close> returns. It skips \<open>.\<close> and \<open>..\<close>,
  reports the next name in a block of its own as a NUL-terminated string, and NULL once no name is
  left; the directory then stands behind the name reported.
\<close>

theorem dir_next_walk:
  assumes "walks_dir os (dir_dir s dir) rest"
  shows "\<exists>c s'. yo_dir_next os dir pname s = Some (c, s')
     \<and> rest (world s') = tl (dropWhile dots (rest (world s)))
     \<and> (case dropWhile dots (rest (world s)) of
          [] \<Rightarrow> c = YO_OK \<and> m_ptr s' pname = NULL
        | x # _ \<Rightarrow> if m_ptr s' pname = NULL then c = YO_ENOMEM
                   else c = YO_OK \<and> (length x < 2 ^ 32 \<longrightarrow>
                          map (\<lambda>i. m_byte s' (m_ptr s' pname + of_nat i)) [0..<length x + 1] = cstr x))"
proof -
  obtain s1 where s1: "dir_entries os (dir_dir s dir) s = Some (case dropWhile dots (rest (world s)) of
      [] \<Rightarrow> EndOfDir | x # _ \<Rightarrow> Entry x, s1)" "rest (world s1) = tl (dropWhile dots (rest (world s)))"
    using dir_entries_walk [OF assms, of s] by blast
  have malloc_rest: "rest (snd (os w (CMalloc n))) = rest w" for w n
    using assms by (simp add: walks_dir_def)
  have str: "map (\<lambda>i. write_bytes m p (cstr x) (p + of_nat i)) [0..<Suc (length x)] = cstr x"
    if "length x < 2 ^ 32" for x m p
    using load_store_bytes [of "cstr x" m p] that by (simp add: cstr_def del: upt_Suc)
  show ?thesis
  proof (cases "dropWhile dots (rest (world s))")
    case Nil
    with s1 show ?thesis by (simp add: yo_dir_next_def set_ptr_def del: dropWhile_eq_Nil_conv)
  next
    case (Cons x xs)
    with s1 malloc_rest show ?thesis
      by (simp add: yo_dir_next_def sys_simps Let_def del: upt_Suc)
         (auto simp: set_ptr_def store_bytes_def str simp del: upt_Suc)
  qed
qed


section \<open>Concrete systems\<close>

definition idle :: "'w \<Rightarrow> 'w io" where
  "idle w = \<lparr>world = w, errno = 0, trace = [], m_byte = (\<lambda>_. 0), m_size = (\<lambda>_. 4), m_ptr = (\<lambda>_. NULL),
     m_int = (\<lambda>_. 0), m_u16 = (\<lambda>_. 0), m_addr = (\<lambda>_. YO_ADDR_IPV4 [0, 0, 0, 0]),
     m_stat = (\<lambda>_. \<lparr>type_of = STAT_NONE, mode_of = 0, gid_of = 0, uid_of = 0,
       atime_of = \<lparr>sec = 0, nsec = 0\<rparr>, mtime_of = \<lparr>sec = 0, nsec = 0\<rparr>,
       ctime_of = \<lparr>sec = 0, nsec = 0\<rparr>, size_of = 0, blksize_of = 0, inode_of = 0, links_of = 0\<rparr>),
     fd_head = (\<lambda>_. NULL), fd_owned = (\<lambda>_. True), fd_fd = (\<lambda>_. 5), fd_read_n = (\<lambda>_. 0),
     fd_write_n = (\<lambda>_. 0), dir_dir = (\<lambda>_. 7), tty_fd = (\<lambda>_. 0),
     tty_mode = (\<lambda>_. \<lparr>c_iflag = 0, c_oflag = 0, c_cflag = 0, c_lflag = 0, c_vmin = 0, c_vtime = 0\<rparr>),
     proc_pid = (\<lambda>_. 0)\<rparr>"

text \<open>Nobody listens on port 80, and the port is taken.\<close>

definition refusing_os :: "unit os" where
  "refusing_os = table_os
     [(CSocket AF_INET 1 6, returns 9),
      (CConnect 9 (fst (yoi_unix_conv_addr (YO_ADDR_IPV4 [127, 0, 0, 1]) 80)) 16, failed (-1) ECONNREFUSED),
      (CBind 9 (fst (yoi_unix_conv_addr (YO_ADDR_IPV4 [127, 0, 0, 1]) 80)) 16, failed (-1) EADDRINUSE),
      (COpen ''/none'' 524288 0, failed (-1) ENOENT),
      (CRead 5 4, (returns 2)\<lparr>r_bytes := [72, 105]\<rparr>),
      (CAccept 5, failed (-1) EMFILE)]"

lemma posix_refusing: "posix_os refusing_os"
  unfolding refusing_os_def by (rule posix_table) (simp add: fails_def returns_pointer_def)

lemmas run_simps = sys_simps Let_def refusing_os_def table_os_def reply_of_def news_def idle_def
  after_errno after_eq returns_pointer_def yoi_unix_conv_errno_def

lemma server_sockets_clean_witness:
  "handle_outcome 1 (idle ()) (yo_socket_bind refusing_os 1 YO_PROTO_TCP (YO_ADDR_IPV4 [127, 0, 0, 1]) 80 5 (idle ()))
   \<and> handle_outcome 1 (idle ()) (yo_socket_accept refusing_os 3 1 2 4 (idle ()))"
  by (rule server_sockets_clean [OF posix_refusing])

lemma socket_connect_labels_witness:
  "case yo_socket_connect refusing_os 1 YO_PROTO_TCP (YO_ADDR_IPV4 [127, 0, 0, 1]) 80 (idle ()) of (c, s') \<Rightarrow>
     c \<noteq> YO_OK \<and> gained [Fd 9] (idle ()) s'"
proof -
  let ?c = "yo_socket_connect refusing_os 1 YO_PROTO_TCP (YO_ADDR_IPV4 [127, 0, 0, 1]) 80 (idle ())"
  have "\<exists>a n r. (CConnect 9 a n, r) \<in> set (news (idle ()) (snd ?c)) \<and> ret r < 0"
    by (simp add: yo_socket_connect_def yoi_unix_socket_new_def is_ipv4_def yoi_unix_conv_addr_def
        sizeof_sockaddr_in_def run_simps table_simps)
  with socket_connect_labels [OF posix_refusing, where pres = 1 and proto = YO_PROTO_TCP
      and addr = "YO_ADDR_IPV4 [127, 0, 0, 1]" and port = 80 and s = "idle ()"]
  show ?thesis by (auto split: prod.splits)
qed

lemma file_open_outcome_witness:
  "case yo_file_open refusing_os 1 ''/none'' 0 0 (idle ()) of (c, s') \<Rightarrow>
     c \<noteq> YO_OK \<and> (\<exists>h. h \<noteq> NULL \<and> gained [Mem h] (idle ()) s')"
proof -
  let ?c = "yo_file_open refusing_os 1 ''/none'' 0 0 (idle ())"
  have "\<exists>p f m r. (COpen p f m, r) \<in> set (news (idle ()) (snd ?c)) \<and> ret r < 0"
    by (simp add: yo_file_open_def yoi_unix_conv_open_flags_def run_simps table_simps)
  with file_open_outcome [OF posix_refusing, where pres = 1 and path = "''/none''" and flags = 0
      and mode = 0 and s = "idle ()"]
  show ?thesis by (auto split: prod.splits)
qed

lemma tty_raw_roundtrip_witness:
  "case yo_tty_raw refusing_os 3 1 (idle ()) of (c, s1) \<Rightarrow> c = YO_OK \<and>
     (case yo_tty_rawend refusing_os (m_ptr s1 1) s1 of (c2, s2) \<Rightarrow> c2 = YO_OK \<and> gained [] (idle ()) s2)"
proof -
  have "fst (yo_tty_raw refusing_os 3 1 (idle ())) = YO_OK"
    by (simp add: yo_tty_raw_def run_simps)
  then obtain s1 where s1: "yo_tty_raw refusing_os 3 1 (idle ()) = (YO_OK, s1)"
    by (metis prod.collapse)
  obtain c2 s2 where s2: "yo_tty_rawend refusing_os (m_ptr s1 1) s1 = (c2, s2)" by fastforce
  have "snd (hd (news s1 (snd (yo_tty_rawend refusing_os h s1)))) = returns 0" for h
    by (simp add: yo_tty_rawend_def run_simps)
  from this [of "m_ptr s1 1"] have "snd (hd (news s1 s2)) = returns 0" by (simp add: s2)
  then show ?thesis
    using tty_raw_roundtrip [OF posix_refusing, where tty = 3 and pres = 1 and s = "idle ()"] s1 s2
    by auto
qed

lemma yo_read_outcome_witness:
  "case yo_read refusing_os 3 100 200 (idle ()) of (c, s') \<Rightarrow>
     c = YO_OK \<and> m_size s' 200 \<le> 4 \<and> load_bytes 100 (m_size s' 200) s' = [72, 105]"
  using yo_read_outcome [OF posix_refusing, where fd = 3 and pn = 200 and buff = 100 and s = "idle ()"]
  by (simp add: run_simps split: prod.splits)

text \<open>A link under \<open>/proc\<close>: reported length 0, and the buffer of one byte is filled.\<close>

lemma readlink_terminator_witness:
  "yo_file_readlink (table_os [(CReadlink ''/proc/self/exe'' 1, (returns 1)\<lparr>r_bytes := [47]\<rparr>)])
     ''/proc/self/exe'' 1 (idle ()) = None"
proof -
  let ?os = "table_os [(CReadlink ''/proc/self/exe'' 1, (returns 1)\<lparr>r_bytes := [47]\<rparr>)]"
  have "r_stat (returns 0) = r_stat (returns 0)\<lparr>st_size := 0\<rparr>" by (simp add: returns_def)
  then show ?thesis
    using readlink_terminator [where os = ?os and path = "''/proc/self/exe''" and s = "idle ()"
        and st = "returns 0" and n = 1 and m = "returns 4096"
        and r = "(returns 1)\<lparr>r_bytes := [47]\<rparr>" and pres = 1]
    by (simp add: table_os_def reply_of_def returns_pointer_def returns_def)
qed

text \<open>A directory whose remaining names are the world.\<close>

definition listing_os :: "string list os" where
  "listing_os names q = (case q of
     CReaddir d \<Rightarrow>
       if d = 7 then ((returns 1)\<lparr>r_text := (case names of [] \<Rightarrow> None | x # _ \<Rightarrow> Some x)\<rparr>, tl names)
       else (returns 0, names)
   | _ \<Rightarrow> (returns 4096, names))"

lemma dir_next_walk_witness:
  "\<exists>c s'. yo_dir_next listing_os 3 1 (idle [''.'', ''..'', ''lib'', ''src'']) = Some (c, s')
     \<and> world s' = [''src''] \<and> (if c = YO_OK then m_ptr s' 1 \<noteq> NULL
          \<and> [m_byte s' (m_ptr s' 1), m_byte s' (m_ptr s' 1 + 1), m_byte s' (m_ptr s' 1 + 2), m_byte s' (m_ptr s' 1 + 3)] = cstr ''lib''
        else m_ptr s' 1 = NULL)"
proof -
  have "walks_dir listing_os (dir_dir (idle [''.'', ''..'', ''lib'', ''src'']) 3) id"
    by (auto simp: walks_dir_def listing_os_def idle_def returns_def split: call.splits)
  from dir_next_walk [OF this, where pname = 1]
  show ?thesis by (auto simp: idle_def dots_def split: if_splits)
qed

end
