(* ===== verification/ReqQueue.thy ===== *)
theory ReqQueue
  imports UnixIO Lists
begin

text \<open>
  Requests and the queue of completed requests: \<open>src/queue.c\<close> and \<open>src/queue.h\<close>. A request
  has the queue pointer and a union of its running and its ready state. On LP64 the two states
  share two words: the cancel callback and the result code, and the word that holds the
  \<open>cancelled\<close> flag in its low byte and the link \<open>ready.next\<close> in all of it. The platform
  supplies how a waiting thread is woken (\<open>yoi_queue_impl_notify\<close>); the locale
  \<open>notifier\<close> is what the queue needs of it.
\<close>

section \<open>State\<close>

datatype cancel_cb = NoopCb | PlCancelCb | PoolCancelCb

datatype cell = Uninit | Cancel cancel_cb | Code yo_code

record 'w rq = "'w io" +
  rq_queue :: "addr \<Rightarrow> addr"
  rq_cell :: "addr \<Rightarrow> cell"
  rq_word :: "addr \<Rightarrow> u64"
  q_head :: "addr \<Rightarrow> addr"
  q_pool :: "addr \<Rightarrow> addr"
  m_code :: "addr \<Rightarrow> yo_code"

abbreviation (input) sizeof_yo_queue :: u64 where "sizeof_yo_queue \<equiv> 72"
abbreviation (input) sizeof_yo_req :: u64 where "sizeof_yo_req \<equiv> 80"

text \<open>\<open>running.cancelled\<close>, the low byte of the shared word.\<close>

definition get_cancelled :: "addr \<Rightarrow> ('w, 'z) rq_scheme \<Rightarrow> bool" where
  "get_cancelled req s \<longleftrightarrow> rq_word s req AND 255 \<noteq> 0"

definition set_cancelled :: "addr \<Rightarrow> bool \<Rightarrow> ('w, 'z) rq_scheme \<Rightarrow> ('w, 'z) rq_scheme" where
  "set_cancelled req b s =
     s\<lparr>rq_word := (rq_word s)(req := (rq_word s req AND NOT 255) OR (if b then 1 else 0))\<rparr>"

text \<open>\<open>yoi_list_add(req_ready, req->queue->head, req)\<close> and its inverse.\<close>

definition push_ready :: "addr \<Rightarrow> addr \<Rightarrow> ('w, 'z) rq_scheme \<Rightarrow> ('w, 'z) rq_scheme" where
  "push_ready q req s =
     (let (nxt, head) = yoi_list_add q req (rq_word s, q_head s) in s\<lparr>rq_word := nxt, q_head := head\<rparr>)"

definition pop_ready :: "addr \<Rightarrow> ('w, 'z) rq_scheme \<Rightarrow> ('w, 'z) rq_scheme" where
  "pop_ready q s = s\<lparr>q_head := yoi_list_del q (rq_word s) (q_head s)\<rparr>"

section \<open>Operations\<close>

definition yoi_req_begin :: "addr \<Rightarrow> cancel_cb \<Rightarrow> ('w, 'z) rq_scheme \<Rightarrow> ('w, 'z) rq_scheme" where
  "yoi_req_begin req cancel s =
     (let s = s\<lparr>rq_cell := (rq_cell s)(req := Cancel cancel)\<rparr> in set_cancelled req False s)"

definition yoi_req_end ::
  "'w os \<Rightarrow> (addr \<Rightarrow> ('w, 'z) rq_scheme \<Rightarrow> ('w, 'z) rq_scheme) \<Rightarrow> addr \<Rightarrow> yo_code
     \<Rightarrow> ('w, 'z) rq_scheme \<Rightarrow> ('w, 'z) rq_scheme" where
  "yoi_req_end os notify req code s =
     (let s = s\<lparr>rq_cell := (rq_cell s)(req := Code code)\<rparr>;
          s = ignore os (CLock (rq_queue s req)) s;
          s = push_ready (rq_queue s req) req s;
          s = notify (rq_queue s req) s
      in ignore os (CUnlock (rq_queue s req)) s)"

definition yoi_req_cancel_noop_cb ::
  "'w os \<Rightarrow> (addr \<Rightarrow> ('w, 'z) rq_scheme \<Rightarrow> ('w, 'z) rq_scheme) \<Rightarrow> addr
     \<Rightarrow> ('w, 'z) rq_scheme \<Rightarrow> ('w, 'z) rq_scheme" where
  "yoi_req_cancel_noop_cb os notify req s = yoi_req_end os notify req YO_ECANCELED s"

text \<open>
  The result pointer is NULL when nothing is ready; \<open>None\<close> when the head is not a finished
  request, so that the code that is read is not one.
\<close>

definition yoi_queue_pop ::
  "'w os \<Rightarrow> addr \<Rightarrow> addr \<Rightarrow> ('w, 'z) rq_scheme \<Rightarrow> (addr \<times> ('w, 'z) rq_scheme) option" where
  "yoi_queue_pop os queue pcode s =
     (let s = ignore os (CLock queue) s;
          req = q_head s queue
      in if req = NULL then Some (NULL, ignore os (CUnlock queue) s)
         else
           let s = pop_ready queue s;
               s = ignore os (CUnlock queue) s
           in case rq_cell s req of
                Code c \<Rightarrow> Some (req, s\<lparr>m_code := (m_code s)(pcode := c)\<rparr>)
              | _ \<Rightarrow> None)"

definition yo_queue_new ::
  "'w os \<Rightarrow> (addr \<Rightarrow> ('w, 'z) rq_scheme \<Rightarrow> yo_code \<times> ('w, 'z) rq_scheme)
     \<Rightarrow> ('w, 'z) rq_scheme \<Rightarrow> addr \<times> ('w, 'z) rq_scheme" where
  "yo_queue_new os impl_init s =
     (let (queue, s) = malloc os sizeof_yo_queue s
      in if queue = NULL then (NULL, s)
         else
           let (err, s) = impl_init queue s
           in if err \<noteq> YO_OK then (NULL, s)
              else
                let s = s\<lparr>q_head := (q_head s)(queue := NULL)\<rparr>;
                    s = s\<lparr>q_pool := (q_pool s)(queue := NULL)\<rparr>;
                    s = ignore os (CMutexNew queue) s
                in (queue, s))"

definition yo_queue_free ::
  "'w os \<Rightarrow> (addr \<Rightarrow> ('w, 'z) rq_scheme \<Rightarrow> ('w, 'z) rq_scheme)
     \<Rightarrow> (addr \<Rightarrow> ('w, 'z) rq_scheme \<Rightarrow> yo_code \<times> ('w, 'z) rq_scheme)
     \<Rightarrow> addr \<Rightarrow> ('w, 'z) rq_scheme \<Rightarrow> ('w, 'z) rq_scheme" where
  "yo_queue_free os pool_free impl_free queue s =
     (let s = ignore os (CLock queue) s;
          s = pool_free queue s;
          (err, s) = impl_free queue s
      in if err \<noteq> YO_OK then ignore os (CUnlock queue) s
         else
           let s = ignore os (CMutexFree queue) s
           in free os queue s)"

definition yo_req_new :: "'w os \<Rightarrow> addr \<Rightarrow> ('w, 'z) rq_scheme \<Rightarrow> addr \<times> ('w, 'z) rq_scheme" where
  "yo_req_new os queue s =
     (let (res, s) = malloc os sizeof_yo_req s
      in if res = NULL then (NULL, s)
         else (res, s\<lparr>rq_queue := (rq_queue s)(res := queue)\<rparr>))"

text \<open>\<open>dispatch\<close> calls the function that the pointer in the request names.\<close>

definition yo_req_cancel ::
  "(cancel_cb \<Rightarrow> addr \<Rightarrow> ('w, 'z) rq_scheme \<Rightarrow> ('w, 'z) rq_scheme option) \<Rightarrow> addr
     \<Rightarrow> ('w, 'z) rq_scheme \<Rightarrow> ('w, 'z) rq_scheme option" where
  "yo_req_cancel dispatch req s =
     (if get_cancelled req s then Some s
      else case rq_cell s req of
        Cancel cb \<Rightarrow>
          do {
            s \<leftarrow> dispatch cb req s;
            Some (set_cancelled req True s)
          }
      | _ \<Rightarrow> None)"

definition yo_req_free :: "'w os \<Rightarrow> addr \<Rightarrow> ('w, 'z) rq_scheme \<Rightarrow> ('w, 'z) rq_scheme" where
  "yo_req_free os req s = free os req s"

section \<open>The ready list as a stack\<close>

text \<open>The finished requests of a queue with their codes, the next one to be delivered first.\<close>

definition ready :: "('w, 'z) rq_scheme \<Rightarrow> addr \<Rightarrow> (addr \<times> yo_code) list \<Rightarrow> bool" where
  "ready s q ys \<longleftrightarrow> chain (rq_word s) (q_head s q) (map fst ys)
     \<and> (\<forall>y \<in> set ys. rq_cell s (fst y) = Code (snd y))"

text \<open>The part of the state that the ready lists live in.\<close>

definition same_queues :: "('w, 'z) rq_scheme \<Rightarrow> ('w, 'z) rq_scheme \<Rightarrow> bool" where
  "same_queues s s' \<longleftrightarrow> rq_queue s' = rq_queue s \<and> rq_cell s' = rq_cell s \<and> rq_word s' = rq_word s
     \<and> q_head s' = q_head s"

lemma same_queues_refl: "same_queues s s"
  by (simp add: same_queues_def)

lemma same_queues_trans: "same_queues s t \<Longrightarrow> same_queues t u \<Longrightarrow> same_queues s u"
  by (simp add: same_queues_def)

lemma rq_after_simps [simp]:
  "rq_queue (after os q s) = rq_queue s" "rq_cell (after os q s) = rq_cell s"
  "rq_word (after os q s) = rq_word s" "q_head (after os q s) = q_head s"
  "q_pool (after os q s) = q_pool s" "m_code (after os q s) = m_code s"
  by (simp_all add: after_eq)

lemma same_queues_after: "same_queues s (after os q s)"
  by (simp add: same_queues_def)

lemma ready_same: "same_queues s s' \<Longrightarrow> ready s' q ys = ready s q ys"
  by (simp add: ready_def same_queues_def)

lemma ready_after [simp]: "ready (after os c s) q ys = ready s q ys"
  by (rule ready_same [OF same_queues_after])

lemma ready_unique:
  assumes "ready s q ys" and "ready s q zs"
  shows "ys = zs"
proof -
  have "map fst ys = map fst zs"
    using assms chain_unique by (auto simp: ready_def)
  moreover have "map snd ys = map snd zs"
  proof (rule nth_equalityI)
    show "length (map snd ys) = length (map snd zs)"
      using calculation map_eq_imp_length_eq by fastforce
    fix i assume i: "i < length (map snd ys)"
    with calculation have "fst (ys ! i) = fst (zs ! i)" "i < length zs"
      by (metis length_map nth_map) (metis calculation i length_map)
    with assms i show "map snd ys ! i = map snd zs ! i"
      by (fastforce simp: ready_def split_beta dest: nth_mem)
  qed
  ultimately show ?thesis by (metis zip_map_fst_snd)
qed

lemma ready_push:
  assumes "ready s q ys" and "req \<noteq> NULL" and "req \<notin> fst ` set ys" and "rq_cell s req = Code c"
  shows "ready (push_ready q req s) q ((req, c) # ys)"
  using assms chain_update [of req "map fst ys" "rq_word s"]
  by (simp add: ready_def push_ready_def yoi_list_add_def del: fun_upd_apply)
     (simp add: fun_upd_same)

lemma ready_push_other:
  assumes "ready s q ys" and "q' \<noteq> q" and "req \<notin> fst ` set ys"
  shows "ready (push_ready q' req s) q ys"
  using assms chain_update [of req "map fst ys" "rq_word s"]
  by (auto simp: ready_def push_ready_def yoi_list_add_def)

lemma ready_code_update:
  "req \<notin> fst ` set ys \<Longrightarrow> ready (s\<lparr>rq_cell := (rq_cell s)(req := v)\<rparr>) q ys = ready s q ys"
  by (auto simp: ready_def image_iff)

section \<open>What the queue needs of the platform\<close>

locale notifier =
  fixes notify :: "'w os \<Rightarrow> addr \<Rightarrow> ('w, 'z) rq_scheme \<Rightarrow> ('w, 'z) rq_scheme"
  assumes notify_same: "same_queues s (notify os q s)"
begin

lemma notify_queue [simp]: "rq_queue (notify os q s) = rq_queue s"
  using notify_same [of s os q] by (simp add: same_queues_def)

lemma end_queue [simp]: "rq_queue (yoi_req_end os (notify os) req c s) = rq_queue s"
  by (simp add: yoi_req_end_def sys_simps Let_def push_ready_def split: prod.split)

text \<open>Finishing a request pushes it on the ready list of its queue.\<close>

lemma end_ready:
  assumes "ready s (rq_queue s req) ys" and "req \<noteq> NULL" and "req \<notin> fst ` set ys"
  shows "ready (yoi_req_end os (notify os) req c s) (rq_queue s req) ((req, c) # ys)"
proof -
  let ?q = "rq_queue s req"
  let ?s1 = "ignore os (CLock ?q) (s\<lparr>rq_cell := (rq_cell s)(req := Code c)\<rparr>)"
  have "ready ?s1 ?q ys"
    using assms(1,3) by (simp add: sys_simps ready_code_update)
  then have "ready (push_ready ?q req ?s1) ?q ((req, c) # ys)"
    using assms(2,3) by (intro ready_push) (simp_all add: sys_simps)
  then have "ready (notify os ?q (push_ready ?q req ?s1)) ?q ((req, c) # ys)"
    by (simp add: ready_same [OF notify_same])
  then show ?thesis
    by (simp add: yoi_req_end_def sys_simps Let_def push_ready_def split: prod.splits)
qed

lemma end_ready_other:
  assumes "ready s q ys" and "q \<noteq> rq_queue s req" and "req \<notin> fst ` set ys"
  shows "ready (yoi_req_end os (notify os) req c s) q ys"
proof -
  let ?q = "rq_queue s req"
  let ?s1 = "ignore os (CLock ?q) (s\<lparr>rq_cell := (rq_cell s)(req := Code c)\<rparr>)"
  have "ready ?s1 q ys"
    using assms(1,3) by (simp add: sys_simps ready_code_update)
  then have "ready (push_ready ?q req ?s1) q ys"
    using assms(2,3) by (intro ready_push_other) (simp_all add: sys_simps)
  then have "ready (notify os ?q (push_ready ?q req ?s1)) q ys"
    by (simp add: ready_same [OF notify_same])
  then show ?thesis
    by (simp add: yoi_req_end_def sys_simps Let_def push_ready_def split: prod.splits)
qed

text \<open>A batch of completions.\<close>

lemma end_batch:
  assumes "ready s q ys" and "\<forall>(x, c) \<in> set zs. x \<noteq> NULL \<and> rq_queue s x = q \<and> x \<notin> fst ` set ys"
    and "distinct (map fst zs)"
  shows "ready (fold (\<lambda>(x, c). yoi_req_end os (notify os) x c) zs s) q (rev zs @ ys)"
  using assms
proof (induction zs arbitrary: s ys)
  case (Cons z zs)
  obtain x c where z: "z = (x, c)" by fastforce
  have "ready (yoi_req_end os (notify os) x c s) q ((x, c) # ys)"
    using Cons.prems z end_ready [of s x ys] by auto
  then have "ready (fold (\<lambda>(x, c). yoi_req_end os (notify os) x c) zs (yoi_req_end os (notify os) x c s))
      q (rev zs @ (x, c) # ys)"
    using Cons.prems z by (intro Cons.IH) (auto simp: rev_image_eqI)
  with z show ?case by simp
qed simp

end

lemma pop_ready_list:
  assumes "ready s q ((x, c) # ys)"
  shows "\<exists>s'. yoi_queue_pop os q pcode s = Some (x, s') \<and> ready s' q ys \<and> m_code s' pcode = c"
  using assms
  by (auto simp: yoi_queue_pop_def sys_simps Let_def pop_ready_def yoi_list_del_def ready_def)

lemma pop_ready_empty:
  assumes "ready s q []"
  shows "\<exists>s'. yoi_queue_pop os q pcode s = Some (NULL, s') \<and> ready s' q []"
  using assms by (simp add: yoi_queue_pop_def sys_simps Let_def ready_def)

text \<open>What a consumer sees that pops until nothing is ready, at most \<open>n\<close> times.\<close>

fun deliveries ::
  "'w os \<Rightarrow> nat \<Rightarrow> addr \<Rightarrow> addr \<Rightarrow> ('w, 'z) rq_scheme
     \<Rightarrow> ((addr \<times> yo_code) list \<times> ('w, 'z) rq_scheme) option" where
  "deliveries os 0 q pcode s = Some ([], s)"
| "deliveries os (Suc n) q pcode s =
     do {
       (req, s) \<leftarrow> yoi_queue_pop os q pcode s;
       if req = NULL then Some ([], s)
       else do {
         (ys, s') \<leftarrow> deliveries os n q pcode s;
         Some ((req, m_code s pcode) # ys, s')
       }
     }"

lemma deliveries_ready:
  assumes "ready s q ys" and "length ys < n"
  shows "\<exists>s'. deliveries os n q pcode s = Some (ys, s') \<and> ready s' q []"
  using assms
proof (induction ys arbitrary: s n)
  case Nil
  then obtain m where n: "n = Suc m" by (cases n) auto
  with pop_ready_empty [OF Nil.prems(1), of os pcode] show ?case by auto
next
  case (Cons y ys)
  then obtain m where n: "n = Suc m" by (cases n) auto
  obtain x c where y: "y = (x, c)" by fastforce
  with pop_ready_list [of s q x c ys os pcode] Cons.prems obtain s1 where
    s1: "yoi_queue_pop os q pcode s = Some (x, s1)" "ready s1 q ys" "m_code s1 pcode = c" by auto
  moreover have "x \<noteq> NULL" using Cons.prems(1) y by (auto simp: ready_def)
  moreover obtain s' where "deliveries os m q pcode s1 = Some (ys, s')" "ready s' q []"
    using Cons.IH [OF s1(2), of m] Cons.prems(2) n by auto
  ultimately show ?case using n y by auto
qed

text \<open>
  The flag is written after the request was put on the ready list: it then overwrites the low
  byte of the link.
\<close>

lemma cancelled_breaks_link:
  "rq_word (set_cancelled req True s) req = (rq_word s req AND NOT 255) OR 1"
  by (simp add: set_cancelled_def)

lemma low_byte_nonzero: "(w AND NOT 255) OR 1 \<noteq> (0 :: u64)"
proof -
  have "((w AND NOT 255) OR 1) AND 1 = (1 :: u64)"
    by (simp add: bit.conj_disj_distrib2 and.assoc)
  then show ?thesis by (metis and_zero_eq zero_neq_one and.commute and.left_neutral bit.conj_zero_left)
qed

end
