(* ===== verification/Clock.thy ===== *)
theory Clock
  imports UnixIO
begin

text \<open>
  The clocks of \<open>src/unix/impl.c\<close> (\<open>yo_time\<close>, \<open>yo_timesleep\<close>) on Linux. A clock that
  cannot be read fails an assertion and ends the process, which is \<open>None\<close>.
\<close>

datatype yo_clock_t = YO_CLOCK_REAL | YO_CLOCK_MONO | YO_CLOCK_CPU

definition clock_id :: "yo_clock_t \<Rightarrow> int" where
  "clock_id clock = (case clock of YO_CLOCK_REAL \<Rightarrow> 0 | YO_CLOCK_MONO \<Rightarrow> 1 | YO_CLOCK_CPU \<Rightarrow> 3)"

definition yo_time_now :: "'w os \<Rightarrow> yo_clock_t \<Rightarrow> ('w, 'z) sys_scheme \<Rightarrow> (yo_time \<times> ('w, 'z) sys_scheme) option" where
  "yo_time_now os clock s =
     (let (r, s) = syscall os (CClock (clock_id clock)) s
      in if ret r < 0 then None else Some (timespec_time (r_pair r), s))"

partial_function (option) nanosleep_loop ::
  "'w os \<Rightarrow> int \<times> int \<Rightarrow> ('w, 'z) sys_scheme \<Rightarrow> ('w, 'z) sys_scheme option" where
  "nanosleep_loop os req s =
     (let (r, s) = syscall os (CNanosleep (fst req) (snd req)) s
      in if ret r = 0 then Some s
         else if errno s \<noteq> EINTR then Some s
         else nanosleep_loop os (r_pair r) s)"

definition yo_timesleep :: "'w os \<Rightarrow> yo_time \<Rightarrow> ('w, 'z) sys_scheme \<Rightarrow> ('w, 'z) sys_scheme option" where
  "yo_timesleep os until s =
     do {
       (now, s) \<leftarrow> yo_time_now os YO_CLOCK_MONO s;
       let dur = yo_timesub until now in
       nanosleep_loop os (sint (sec dur), uint (nsec dur)) s
     }"

text \<open>
  A system whose interrupted sleeps report what is left: \<open>left\<close> is a bound on the number of
  interruptions to come, and each sleep that is interrupted uses one up.
\<close>

definition finitely_interrupted :: "'w os \<Rightarrow> ('w \<Rightarrow> nat) \<Rightarrow> bool" where
  "finitely_interrupted os left \<longleftrightarrow> (\<forall>w a b. ret (fst (os w (CNanosleep a b))) \<noteq> 0 \<longrightarrow>
     (\<exists>e. eno (fst (os w (CNanosleep a b))) = Some e
        \<and> (e = EINTR \<longrightarrow> left (snd (os w (CNanosleep a b))) < left w)))"

lemma nanosleep_returns:
  assumes "finitely_interrupted os left"
  shows "\<exists>s'. nanosleep_loop os req s = Some s'"
proof (induction "left (world s)" arbitrary: req s rule: less_induct)
  case less
  let ?q = "CNanosleep (fst req) (snd req)" let ?s1 = "after os ?q s"
  show ?case
  proof (cases "ret (reply_of os ?q s) = 0 \<or> errno ?s1 \<noteq> EINTR")
    case True
    then show ?thesis by (subst nanosleep_loop.simps) (auto simp: sys_simps Let_def)
  next
    case False
    with assms have "left (world ?s1) < left (world s)"
      by (fastforce simp: finitely_interrupted_def after_errno reply_of_def split: option.splits)
    from less [OF this, of "r_pair (reply_of os ?q s)"] False show ?thesis
      by (subst nanosleep_loop.simps) (auto simp: sys_simps Let_def)
  qed
qed

text \<open>
  \<open>yo_timesleep\<close> returns if the monotonic clock can be read and the sleep is interrupted
  finitely often. The first sleep asks for exactly the time from the reading of the clock to the
  deadline.
\<close>

theorem timesleep_returns:
  assumes "finitely_interrupted os left" and "ret (reply_of os (CClock 1) s) \<ge> 0"
    and "timespec_time (r_pair (reply_of os (CClock 1) s)) = now"
  shows "\<exists>s'. yo_timesleep os until s = Some s'
     \<and> (let d = yo_timesub until now in yo_timesleep os until s
          = nanosleep_loop os (sint (sec d), uint (nsec d)) (after os (CClock 1) s))"
  using assms nanosleep_returns [OF assms(1)]
  by (simp add: yo_timesleep_def yo_time_now_def clock_id_def sys_simps Let_def)

definition ticking_os :: "nat os" where
  "ticking_os n q = (case q of
     CNanosleep a b \<Rightarrow> if n = 0 then (returns 0, 0) else ((failed (-1) EINTR)\<lparr>r_pair := (a, b div 2)\<rparr>, n - 1)
   | CClock i \<Rightarrow> ((returns 0)\<lparr>r_pair := (100, 0)\<rparr>, n)
   | _ \<Rightarrow> (returns 0, n))"

lemma timesleep_returns_witness:
  "\<exists>s'. yo_timesleep ticking_os \<lparr>sec = 101, nsec = 5\<rparr> (idle 3) = Some s'"
proof -
  have "finitely_interrupted ticking_os id"
    by (auto simp: finitely_interrupted_def ticking_os_def failed_def returns_def)
  from timesleep_returns [OF this, where s = "idle 3" and until = "\<lparr>sec = 101, nsec = 5\<rparr>"
      and now = "timespec_time (100, 0)"]
  show ?thesis by (auto simp: reply_of_def ticking_os_def returns_def)
qed

end
