(* ===== verification/Pollish.thy ===== *)
theory Pollish
  imports ReqQueue
begin

text \<open>
  Asynchronous operations on descriptors over a poll-like interface: \<open>src/unix/pollish.c\<close> and
  \<open>src/unix/pollish.h\<close>. A handle keeps the list of its running requests and the number of
  those that wait to read and to write; the interface is told the mask of the two. The backend
  (\<open>yoi_pl_impl_setmask\<close>, \<open>yoi_pl_impl_poll\<close>) is chosen when the library is compiled and is a
  parameter of the definitions here; the locale \<open>poll_backend\<close> states the contract that
  \<open>pollish.h\<close> gives for it, which the theories \<open>Epoll\<close> and \<open>Poll\<close> discharge.
\<close>

section \<open>State\<close>

datatype pl_kind = YOI_PL_READ | YOI_PL_WRITE | YOI_PL_PREAD | YOI_PL_PWRITE | YOI_PL_ACCEPT

abbreviation (input) YOI_PL_READABLE :: u32 where "YOI_PL_READABLE \<equiv> 1"
abbreviation (input) YOI_PL_WRITABLE :: u32 where "YOI_PL_WRITABLE \<equiv> 2"

record 'w pl = "'w rq" +
  ioq_next :: "addr \<Rightarrow> addr"
  ioq_slot :: "addr \<Rightarrow> slot"
  ioq_fd :: "addr \<Rightarrow> addr"
  ioq_kind :: "addr \<Rightarrow> pl_kind"
  ioq_buff :: "addr \<Rightarrow> addr"
  ioq_pn :: "addr \<Rightarrow> addr"
  ioq_ptr :: "addr \<Rightarrow> u64"
  ioq_pclient :: "addr \<Rightarrow> addr"
  ioq_paddr :: "addr \<Rightarrow> addr"
  ioq_pport :: "addr \<Rightarrow> addr"
  notify_read :: "addr \<Rightarrow> int"
  notify_write :: "addr \<Rightarrow> int"

text \<open>The list \<open>req_ioq\<close>: its links are in the requests, its heads in the handles.\<close>

definition req_links :: "('w, 'z) pl_scheme \<Rightarrow> links" where
  "req_links s = \<lparr>l_next = ioq_next s, l_slot = ioq_slot s, l_head = fd_head s\<rparr>"

definition put_links :: "links \<Rightarrow> ('w, 'z) pl_scheme \<Rightarrow> ('w, 'z) pl_scheme" where
  "put_links L s = s\<lparr>ioq_next := l_next L, ioq_slot := l_slot L, fd_head := l_head L\<rparr>"

type_synonym ('w, 'z) setmask =
  "'w os \<Rightarrow> addr \<Rightarrow> addr \<Rightarrow> int \<Rightarrow> u32 \<Rightarrow> ('w, 'z) pl_scheme \<Rightarrow> yo_code \<times> ('w, 'z) pl_scheme"

section \<open>Operations\<close>

definition yoi_pl_tomask :: "pl_kind \<Rightarrow> u32" where
  "yoi_pl_tomask kind =
     (case kind of
        YOI_PL_READ \<Rightarrow> YOI_PL_READABLE
      | YOI_PL_PREAD \<Rightarrow> YOI_PL_READABLE
      | YOI_PL_ACCEPT \<Rightarrow> YOI_PL_READABLE
      | YOI_PL_WRITE \<Rightarrow> YOI_PL_WRITABLE
      | YOI_PL_PWRITE \<Rightarrow> YOI_PL_WRITABLE)"

definition yoi_queue_impl_notify :: "'w os \<Rightarrow> addr \<Rightarrow> ('w, 'z) pl_scheme \<Rightarrow> yo_code \<times> ('w, 'z) pl_scheme" where
  "yoi_queue_impl_notify os queue s =
     (let (r, s) = syscall os (CWrite (notify_write s queue) [0]) s
      in if ret r < 0 then
           if errno s \<noteq> EWOULDBLOCK then return_errno s else (YO_OK, s)
         else (YO_OK, s))"

text \<open>The callers throw the result away.\<close>

definition pl_notify :: "'w os \<Rightarrow> addr \<Rightarrow> ('w, 'z) pl_scheme \<Rightarrow> ('w, 'z) pl_scheme" where
  "pl_notify os queue s = snd (yoi_queue_impl_notify os queue s)"

text \<open>The walk over the requests of a handle; the oldest stands last.\<close>

partial_function (option) find_req :: "('w, 'z) pl_scheme \<Rightarrow> u32 \<Rightarrow> addr \<Rightarrow> addr option" where
  "find_req s evn i =
     (if i = NULL then Some NULL
      else if yoi_pl_tomask (ioq_kind s i) AND evn \<noteq> 0 then Some i
      else find_req s evn (ioq_next s i))"

definition yoi_pl_get_req :: "('w, 'z) pl_scheme \<Rightarrow> addr \<Rightarrow> u32 \<Rightarrow> addr option" where
  "yoi_pl_get_req s fd evn = find_req s evn (fd_head s fd)"

definition yoi_pl_req_do :: "'w os \<Rightarrow> addr \<Rightarrow> ('w, 'z) pl_scheme \<Rightarrow> yo_code \<times> ('w, 'z) pl_scheme" where
  "yoi_pl_req_do os req s =
     (case ioq_kind s req of
        YOI_PL_READ \<Rightarrow> yo_read os (ioq_fd s req) (ioq_buff s req) (ioq_pn s req) s
      | YOI_PL_WRITE \<Rightarrow> yo_write os (ioq_fd s req) (ioq_buff s req) (ioq_pn s req) s
      | YOI_PL_PREAD \<Rightarrow> yo_file_read os (ioq_fd s req) (ioq_buff s req) (ioq_pn s req) (ioq_ptr s req) s
      | YOI_PL_PWRITE \<Rightarrow> yo_file_write os (ioq_fd s req) (ioq_buff s req) (ioq_pn s req) (ioq_ptr s req) s
      | YOI_PL_ACCEPT \<Rightarrow> yo_socket_accept os (ioq_fd s req) (ioq_pclient s req) (ioq_paddr s req) (ioq_pport s req) s)"

text \<open>\<open>if (fd->ioq.read_n) mask |= ...\<close>\<close>

definition want_mask :: "addr \<Rightarrow> ('w, 'z) pl_scheme \<Rightarrow> u32" where
  "want_mask fd s =
     (let mask = 0;
          mask = (if fd_read_n s fd \<noteq> 0 then mask OR YOI_PL_READABLE else mask);
          mask = (if fd_write_n s fd \<noteq> 0 then mask OR YOI_PL_WRITABLE else mask)
      in mask)"

definition count_up :: "addr \<Rightarrow> addr \<Rightarrow> ('w, 'z) pl_scheme \<Rightarrow> ('w, 'z) pl_scheme" where
  "count_up fd req s =
     (let k = yoi_pl_tomask (ioq_kind s req)
      in if k = YOI_PL_READABLE then s\<lparr>fd_read_n := (fd_read_n s)(fd := fd_read_n s fd + 1)\<rparr>
         else if k = YOI_PL_WRITABLE then s\<lparr>fd_write_n := (fd_write_n s)(fd := fd_write_n s fd + 1)\<rparr>
         else s)"

definition count_down :: "addr \<Rightarrow> addr \<Rightarrow> ('w, 'z) pl_scheme \<Rightarrow> ('w, 'z) pl_scheme" where
  "count_down fd req s =
     (let k = yoi_pl_tomask (ioq_kind s req)
      in if k = YOI_PL_READABLE then s\<lparr>fd_read_n := (fd_read_n s)(fd := fd_read_n s fd - 1)\<rparr>
         else if k = YOI_PL_WRITABLE then s\<lparr>fd_write_n := (fd_write_n s)(fd := fd_write_n s fd - 1)\<rparr>
         else s)"

definition yoi_pl_req_start ::
  "('w, 'z) setmask \<Rightarrow> 'w os \<Rightarrow> addr \<Rightarrow> ('w, 'z) pl_scheme \<Rightarrow> yo_code \<times> ('w, 'z) pl_scheme" where
  "yoi_pl_req_start setmask os req s =
     (let fd = ioq_fd s req;
          s = count_up fd req s;
          mask = want_mask fd s;
          (code, s) = setmask os (rq_queue s req) fd (fd_fd s fd) mask s;
          s = yoi_req_begin req PlCancelCb s
      in if code = YO_EPERM then
           let (result, s) = yoi_pl_req_do os req s;
               s = yoi_req_end os (pl_notify os) req result s
           in (YO_OK, s)
         else
           let s = put_links (yoi_dlist_add fd req (req_links s)) s
           in (code, s))"

definition yoi_pl_req_stop ::
  "('w, 'z) setmask \<Rightarrow> 'w os \<Rightarrow> addr \<Rightarrow> ('w, 'z) pl_scheme \<Rightarrow> yo_code \<times> ('w, 'z) pl_scheme" where
  "yoi_pl_req_stop setmask os req s =
     (let fd = ioq_fd s req;
          s = count_down fd req s;
          mask = want_mask fd s;
          s = put_links (yoi_dlist_del req (req_links s)) s
      in setmask os (rq_queue s req) fd (fd_fd s fd) mask s)"

definition yoi_pl_req_cancel ::
  "('w, 'z) setmask \<Rightarrow> 'w os \<Rightarrow> addr \<Rightarrow> ('w, 'z) pl_scheme \<Rightarrow> ('w, 'z) pl_scheme" where
  "yoi_pl_req_cancel setmask os req s =
     (let (_, s) = yoi_pl_req_stop setmask os req s
      in yoi_req_end os (pl_notify os) req YO_ECANCELED s)"

definition yoi_pl_init ::
  "('w, 'z) setmask \<Rightarrow> 'w os \<Rightarrow> addr \<Rightarrow> ('w, 'z) pl_scheme \<Rightarrow> yo_code \<times> ('w, 'z) pl_scheme" where
  "yoi_pl_init setmask os queue s =
     (let (r, s) = syscall os CPipe s
      in if ret r < 0 then return_errno s
         else
           let (rd, wr) = r_pair r;
               fail = (\<lambda>s. let s = ignore os (CClose rd) s; s = ignore os (CClose wr) s in return_errno s);
               (r, s) = syscall os (CNonblock rd) s
           in if ret r < 0 then fail s
              else
                let (r, s) = syscall os (CNonblock wr) s
                in if ret r < 0 then fail s
                   else
                     let s = s\<lparr>notify_read := (notify_read s)(queue := rd), notify_write := (notify_write s)(queue := wr)\<rparr>;
                         (code, s) = setmask os queue NULL (notify_read s queue) YOI_PL_READABLE s
                     in if code \<noteq> YO_OK then fail s else (YO_OK, s))"

definition yoi_pl_free :: "'w os \<Rightarrow> addr \<Rightarrow> ('w, 'z) pl_scheme \<Rightarrow> yo_code \<times> ('w, 'z) pl_scheme" where
  "yoi_pl_free os queue s =
     (let s = ignore os (CClose (notify_read s queue)) s;
          s = ignore os (CClose (notify_write s queue)) s
      in (YO_OK, s))"

partial_function (option) close_requests ::
  "('w, 'z) setmask \<Rightarrow> 'w os \<Rightarrow> addr \<Rightarrow> addr \<Rightarrow> ('w, 'z) pl_scheme \<Rightarrow> ('w, 'z) pl_scheme option" where
  "close_requests setmask os fd i s =
     (if i = NULL then Some s
      else
        let (_, s) = setmask os (rq_queue s i) NULL (fd_fd s fd) 0 s;
            s = yoi_req_end os (pl_notify os) i YO_ECANCELED s
        in close_requests setmask os fd (ioq_next s i) s)"

definition yoi_unix_onclose ::
  "('w, 'z) setmask \<Rightarrow> 'w os \<Rightarrow> addr \<Rightarrow> ('w, 'z) pl_scheme \<Rightarrow> ('w, 'z) pl_scheme option" where
  "yoi_unix_onclose setmask os fd s = close_requests setmask os fd (fd_head s fd) s"

partial_function (option) close_loop :: "'w os \<Rightarrow> int \<Rightarrow> ('w, 'z) sys_scheme \<Rightarrow> ('w, 'z) sys_scheme option" where
  "close_loop os fd s =
     (let (r, s) = syscall os (CClose fd) s
      in if ret r < 0 then if errno s \<noteq> EINTR then Some s else close_loop os fd s
         else Some s)"

definition yoi_fd_ioq_free :: "addr \<Rightarrow> ('w, 'z) pl_scheme \<Rightarrow> ('w, 'z) pl_scheme" where
  "yoi_fd_ioq_free fd s = s"

definition yo_fd_close ::
  "('w, 'z) setmask \<Rightarrow> 'w os \<Rightarrow> addr \<Rightarrow> ('w, 'z) pl_scheme \<Rightarrow> ('w, 'z) pl_scheme option" where
  "yo_fd_close setmask os fd s =
     do {
       s \<leftarrow> yoi_unix_onclose setmask os fd s;
       s \<leftarrow> (if fd_owned s fd then do {
                s \<leftarrow> close_loop os (fd_fd s fd) s;
                Some (yoi_fd_ioq_free fd s)
              } else Some s);
       Some (free os fd s)
     }"

text \<open>\<open>while (read(...) >= 0);\<close> over the notification pipe, with a buffer of its own.\<close>

partial_function (option) drain_pipe :: "'w os \<Rightarrow> int \<Rightarrow> ('w, 'z) sys_scheme \<Rightarrow> ('w, 'z) sys_scheme option" where
  "drain_pipe os fd s =
     (let (r, s) = syscall os (CRead fd 1024) s
      in if ret r \<ge> 0 then drain_pipe os fd s else Some s)"

text \<open>The backend's poll returns the code, the data of the ready descriptor and its events.\<close>

type_synonym ('w, 'z) pl_poll =
  "'w os \<Rightarrow> addr \<Rightarrow> yo_time option \<Rightarrow> ('w, 'z) pl_scheme
     \<Rightarrow> (yo_code \<times> addr \<times> u32 \<times> ('w, 'z) pl_scheme) option"

text \<open>One round of the \<open>while (true)\<close>: \<open>Inl\<close> returns from the function, \<open>Inr\<close> continues.\<close>

definition poll_round ::
  "('w, 'z) setmask \<Rightarrow> ('w, 'z) pl_poll \<Rightarrow> 'w os \<Rightarrow> addr \<Rightarrow> yo_time option \<Rightarrow> addr \<Rightarrow> addr
     \<Rightarrow> ('w, 'z) pl_scheme \<Rightarrow> ((yo_code \<times> ('w, 'z) pl_scheme) + ('w, 'z) pl_scheme) option" where
  "poll_round setmask poll os queue deadline preq pcode s =
     do {
       (queue_req, s) \<leftarrow> yoi_queue_pop os queue pcode s;
       if queue_req \<noteq> NULL then Some (Inl (YO_OK, set_ptr preq queue_req s))
       else do {
         (err, fd, evn, s) \<leftarrow> poll os queue deadline s;
         if err \<noteq> YO_OK then Some (Inl (err, s))
         else if fd = NULL then do {
           s \<leftarrow> drain_pipe os (notify_read s queue) s;
           Some (Inr s)
         }
         else do {
           req \<leftarrow> yoi_pl_get_req s fd evn;
           if req = NULL then Some (Inr s)
           else
             let (_, s) = yoi_pl_req_stop setmask os req s;
                 (code, s) = yoi_pl_req_do os req s;
                 s = s\<lparr>m_code := (m_code s)(pcode := code)\<rparr>;
                 s = set_ptr preq req s
             in Some (Inl (YO_OK, s))
         }
       }
     }"

partial_function (option) repeat_rounds :: "('s \<Rightarrow> ('r + 's) option) \<Rightarrow> 's \<Rightarrow> 'r option" where
  "repeat_rounds f s =
     do {
       r \<leftarrow> f s;
       case r of Inl res \<Rightarrow> Some res | Inr s \<Rightarrow> repeat_rounds f s
     }"

definition yo_queue_poll ::
  "('w, 'z) setmask \<Rightarrow> ('w, 'z) pl_poll \<Rightarrow> 'w os \<Rightarrow> addr \<Rightarrow> yo_time option \<Rightarrow> addr \<Rightarrow> addr
     \<Rightarrow> ('w, 'z) pl_scheme \<Rightarrow> (yo_code \<times> ('w, 'z) pl_scheme) option" where
  "yo_queue_poll setmask poll os queue deadline preq pcode s =
     repeat_rounds (poll_round setmask poll os queue deadline preq pcode) s"

section \<open>The asynchronous calls\<close>

definition set_rw :: "pl_kind \<Rightarrow> addr \<Rightarrow> addr \<Rightarrow> addr \<Rightarrow> addr \<Rightarrow> ('w, 'z) pl_scheme \<Rightarrow> ('w, 'z) pl_scheme" where
  "set_rw kind req fd buff pn s =
     s\<lparr>ioq_kind := (ioq_kind s)(req := kind), ioq_fd := (ioq_fd s)(req := fd),
       ioq_buff := (ioq_buff s)(req := buff), ioq_pn := (ioq_pn s)(req := pn)\<rparr>"

definition yoa_read ::
  "('w, 'z) setmask \<Rightarrow> 'w os \<Rightarrow> addr \<Rightarrow> addr \<Rightarrow> addr \<Rightarrow> addr \<Rightarrow> ('w, 'z) pl_scheme \<Rightarrow> yo_code \<times> ('w, 'z) pl_scheme" where
  "yoa_read setmask os req fd buff pn s =
     (if \<not> yoi_unix_isfd fd then (YO_EBADFD, s)
      else yoi_pl_req_start setmask os req (set_rw YOI_PL_READ req fd buff pn s))"

definition yoa_write ::
  "('w, 'z) setmask \<Rightarrow> 'w os \<Rightarrow> addr \<Rightarrow> addr \<Rightarrow> addr \<Rightarrow> addr \<Rightarrow> ('w, 'z) pl_scheme \<Rightarrow> yo_code \<times> ('w, 'z) pl_scheme" where
  "yoa_write setmask os req fd buff pn s =
     (if \<not> yoi_unix_isfd fd then (YO_EBADFD, s)
      else yoi_pl_req_start setmask os req (set_rw YOI_PL_WRITE req fd buff pn s))"

definition yoa_file_read ::
  "('w, 'z) setmask \<Rightarrow> 'w os \<Rightarrow> addr \<Rightarrow> addr \<Rightarrow> addr \<Rightarrow> addr \<Rightarrow> u64 \<Rightarrow> ('w, 'z) pl_scheme
     \<Rightarrow> yo_code \<times> ('w, 'z) pl_scheme" where
  "yoa_file_read setmask os req fd buff pn off s =
     (if \<not> yoi_unix_isfd fd then (YO_EBADFD, s)
      else
        let s = set_rw YOI_PL_PREAD req fd buff pn s;
            s = s\<lparr>ioq_ptr := (ioq_ptr s)(req := off)\<rparr>
        in yoi_pl_req_start setmask os req s)"

definition yoa_file_write ::
  "('w, 'z) setmask \<Rightarrow> 'w os \<Rightarrow> addr \<Rightarrow> addr \<Rightarrow> addr \<Rightarrow> addr \<Rightarrow> u64 \<Rightarrow> ('w, 'z) pl_scheme
     \<Rightarrow> yo_code \<times> ('w, 'z) pl_scheme" where
  "yoa_file_write setmask os req fd buff pn off s =
     (if \<not> yoi_unix_isfd fd then (YO_EBADFD, s)
      else
        let s = set_rw YOI_PL_PWRITE req fd buff pn s;
            s = s\<lparr>ioq_ptr := (ioq_ptr s)(req := off)\<rparr>
        in yoi_pl_req_start setmask os req s)"

definition yoa_socket_accept ::
  "('w, 'z) setmask \<Rightarrow> 'w os \<Rightarrow> addr \<Rightarrow> addr \<Rightarrow> addr \<Rightarrow> addr \<Rightarrow> addr \<Rightarrow> ('w, 'z) pl_scheme
     \<Rightarrow> yo_code \<times> ('w, 'z) pl_scheme" where
  "yoa_socket_accept setmask os req server pclient paddr pport s =
     (if \<not> yoi_unix_isfd server then (YO_EBADFD, s)
      else
        let s = s\<lparr>ioq_kind := (ioq_kind s)(req := YOI_PL_ACCEPT), ioq_fd := (ioq_fd s)(req := server)\<rparr>;
            s = s\<lparr>ioq_pclient := (ioq_pclient s)(req := pclient), ioq_paddr := (ioq_paddr s)(req := paddr),
                  ioq_pport := (ioq_pport s)(req := pport)\<rparr>
        in yoi_pl_req_start setmask os req s)"

text \<open>The function that a request's cancel pointer names, for the requests of this file.\<close>

definition pl_dispatch ::
  "('w, 'z) setmask \<Rightarrow> 'w os \<Rightarrow> cancel_cb \<Rightarrow> addr \<Rightarrow> ('w, 'z) pl_scheme \<Rightarrow> ('w, 'z) pl_scheme option" where
  "pl_dispatch setmask os cb req s =
     (case cb of
        NoopCb \<Rightarrow> Some (yoi_req_cancel_noop_cb os (pl_notify os) req s)
      | PlCancelCb \<Rightarrow> Some (yoi_pl_req_cancel setmask os req s)
      | PoolCancelCb \<Rightarrow> None)"

interpretation pln: notifier pl_notify
proof
  show "same_queues s (pl_notify os q s)" for os q and s :: "('w, 'z) pl_scheme"
    by (simp add: pl_notify_def yoi_queue_impl_notify_def sys_simps Let_def same_queues_after)
qed

section \<open>Fields across operations\<close>

lemma pl_after_simps [simp]:
  "ioq_next (after os q s) = ioq_next s" "ioq_slot (after os q s) = ioq_slot s"
  "ioq_fd (after os q s) = ioq_fd s" "ioq_kind (after os q s) = ioq_kind s"
  "notify_read (after os q s) = notify_read s" "notify_write (after os q s) = notify_write s"
  "pl.more (after os q s) = pl.more s"
  by (simp_all add: after_eq)

lemma put_links_simps [simp]:
  "req_links (put_links L s) = L" "fd_head (put_links L s) = l_head L"
  "ioq_fd (put_links L s) = ioq_fd s" "ioq_kind (put_links L s) = ioq_kind s"
  "fd_read_n (put_links L s) = fd_read_n s" "fd_write_n (put_links L s) = fd_write_n s"
  "fd_fd (put_links L s) = fd_fd s" "rq_queue (put_links L s) = rq_queue s"
  "rq_cell (put_links L s) = rq_cell s" "rq_word (put_links L s) = rq_word s"
  "q_head (put_links L s) = q_head s"
  "world (put_links L s) = world s" "pl.more (put_links L s) = pl.more s"
  by (simp_all add: put_links_def req_links_def)

lemma begin_simps [simp]:
  "req_links (yoi_req_begin req cb s) = req_links s" "ioq_fd (yoi_req_begin req cb s) = ioq_fd s"
  "ioq_kind (yoi_req_begin req cb s) = ioq_kind s" "fd_read_n (yoi_req_begin req cb s) = fd_read_n s"
  "fd_write_n (yoi_req_begin req cb s) = fd_write_n s" "fd_fd (yoi_req_begin req cb s) = fd_fd s"
  "rq_queue (yoi_req_begin req cb s) = rq_queue s" "q_head (yoi_req_begin req cb s) = q_head s"
  "world (yoi_req_begin req cb s) = world s" "pl.more (yoi_req_begin req cb s) = pl.more s"
  by (simp_all add: yoi_req_begin_def set_cancelled_def req_links_def)

lemma tomask_cases: "yoi_pl_tomask k = YOI_PL_READABLE \<or> yoi_pl_tomask k = YOI_PL_WRITABLE"
  by (cases k) (simp_all add: yoi_pl_tomask_def)

lemma count_simps [simp]:
  "req_links (count_up h req s) = req_links s" "ioq_fd (count_up h req s) = ioq_fd s"
  "ioq_kind (count_up h req s) = ioq_kind s" "fd_fd (count_up h req s) = fd_fd s"
  "rq_queue (count_up h req s) = rq_queue s" "q_head (count_up h req s) = q_head s"
  "world (count_up h req s) = world s" "pl.more (count_up h req s) = pl.more s"
  "req_links (count_down h req s) = req_links s" "ioq_fd (count_down h req s) = ioq_fd s"
  "ioq_kind (count_down h req s) = ioq_kind s" "fd_fd (count_down h req s) = fd_fd s"
  "rq_queue (count_down h req s) = rq_queue s" "q_head (count_down h req s) = q_head s"
  "world (count_down h req s) = world s" "pl.more (count_down h req s) = pl.more s"
  "rq_word (count_down h req s) = rq_word s" "rq_cell (count_down h req s) = rq_cell s"
  "rq_word (count_up h req s) = rq_word s" "rq_cell (count_up h req s) = rq_cell s"
  by (simp_all add: count_up_def count_down_def req_links_def Let_def)

text \<open>The fields that belong to the requests and handles, which a backend must not touch.\<close>

definition same_requests :: "('w, 'z) pl_scheme \<Rightarrow> ('w, 'z) pl_scheme \<Rightarrow> bool" where
  "same_requests s s' \<longleftrightarrow> same_queues s s' \<and> req_links s' = req_links s \<and> ioq_fd s' = ioq_fd s
     \<and> ioq_kind s' = ioq_kind s \<and> fd_read_n s' = fd_read_n s \<and> fd_write_n s' = fd_write_n s
     \<and> fd_fd s' = fd_fd s"

lemma same_requests_refl: "same_requests s s"
  by (simp add: same_requests_def same_queues_refl)

lemma same_requests_trans: "same_requests s t \<Longrightarrow> same_requests t u \<Longrightarrow> same_requests s u"
  by (simp add: same_requests_def same_queues_def)

lemma same_requests_after: "same_requests s (after os q s)"
  by (simp add: same_requests_def same_queues_after req_links_def)

text \<open>The calls that finishing a request makes.\<close>

definition quiet :: "call \<Rightarrow> bool" where
  "quiet q = (case q of CLock _ \<Rightarrow> True | CUnlock _ \<Rightarrow> True | CWrite _ _ \<Rightarrow> True | _ \<Rightarrow> False)"

section \<open>The invariant of a handle\<close>

definition waiting :: "('w, 'z) pl_scheme \<Rightarrow> u32 \<Rightarrow> addr list \<Rightarrow> nat" where
  "waiting s m xs = length (filter (\<lambda>x. yoi_pl_tomask (ioq_kind s x) = m) xs)"

definition mask_of :: "bool \<Rightarrow> bool \<Rightarrow> u32" where
  "mask_of r w = (if r then YOI_PL_READABLE else 0) OR (if w then YOI_PL_WRITABLE else 0)"

definition needed :: "('w, 'z) pl_scheme \<Rightarrow> addr list \<Rightarrow> u32" where
  "needed s xs = mask_of (waiting s YOI_PL_READABLE xs \<noteq> 0) (waiting s YOI_PL_WRITABLE xs \<noteq> 0)"

text \<open>
  \<open>xs\<close> are the running requests of the handle \<open>h\<close>: they are linked, the two counters count
  them, and the backend of the queue \<open>q\<close> watches the descriptor for exactly what they need.
\<close>

definition handle_inv ::
  "(int \<Rightarrow> (u32 \<times> addr) option) \<Rightarrow> ('w, 'z) pl_scheme \<Rightarrow> addr \<Rightarrow> addr \<Rightarrow> addr list \<Rightarrow> bool" where
  "handle_inv reg s q h xs \<longleftrightarrow> dlist (req_links s) h xs
     \<and> (\<forall>x \<in> set xs. ioq_fd s x = h \<and> rq_queue s x = q) \<and> length xs < 2 ^ 32
     \<and> unat (fd_read_n s h) = waiting s YOI_PL_READABLE xs
     \<and> unat (fd_write_n s h) = waiting s YOI_PL_WRITABLE xs
     \<and> reg (fd_fd s h) = (if xs = [] then None else Some (needed s xs, h))"

lemma want_mask_eq: "want_mask h s = mask_of (fd_read_n s h \<noteq> 0) (fd_write_n s h \<noteq> 0)"
  by (simp add: want_mask_def mask_of_def Let_def)

lemma mask_of_zero: "mask_of r w = 0 \<longleftrightarrow> \<not> r \<and> \<not> w"
  by (simp add: mask_of_def)

lemma mask_of_bits:
  "mask_of r w AND YOI_PL_READABLE \<noteq> 0 \<longleftrightarrow> r" "mask_of r w AND YOI_PL_WRITABLE \<noteq> 0 \<longleftrightarrow> w"
  by (simp_all add: mask_of_def)

lemma waiting_total: "waiting s YOI_PL_READABLE xs + waiting s YOI_PL_WRITABLE xs = length xs"
proof (induction xs)
  case (Cons x xs)
  then show ?case using tomask_cases [of "ioq_kind s x"] by (auto simp: waiting_def)
qed (simp add: waiting_def)

lemma needed_zero: "needed s xs = 0 \<longleftrightarrow> xs = []"
  using waiting_total [of s xs] by (auto simp: needed_def mask_of_zero waiting_def)

lemma waiting_remove1:
  "x \<in> set xs \<Longrightarrow> waiting s m (remove1 x xs)
     = waiting s m xs - (if yoi_pl_tomask (ioq_kind s x) = m then 1 else 0)"
  by (auto simp: waiting_def filter_remove1 length_remove1)

lemma waiting_le: "waiting s m xs \<le> length xs"
  by (simp add: waiting_def)

lemma unat_inc: "Suc (unat (w :: u32)) < 2 ^ 32 \<Longrightarrow> unat (w + 1) = Suc (unat w)"
  by (simp add: unat_word_ariths)

lemma unat_dec: "0 < unat (w :: u32) \<Longrightarrow> unat (w - 1) = unat w - 1"
  by (rule unat_minus_one) auto

lemma count_up_counts:
  assumes "unat (fd_read_n s h) = waiting s YOI_PL_READABLE xs"
    and "unat (fd_write_n s h) = waiting s YOI_PL_WRITABLE xs" and "Suc (length xs) < 2 ^ 32"
  shows "unat (fd_read_n (count_up h req s) h) = waiting s YOI_PL_READABLE (req # xs)"
    and "unat (fd_write_n (count_up h req s) h) = waiting s YOI_PL_WRITABLE (req # xs)"
proof -
  have "Suc (unat (fd_read_n s h)) < 2 ^ 32" "Suc (unat (fd_write_n s h)) < 2 ^ 32"
    using assms waiting_le [of s YOI_PL_READABLE xs] waiting_le [of s YOI_PL_WRITABLE xs] by simp_all
  note inc = this [THEN unat_inc]
  show "unat (fd_read_n (count_up h req s) h) = waiting s YOI_PL_READABLE (req # xs)"
    using assms(1) tomask_cases [of "ioq_kind s req"] inc(1)
    by (auto simp: count_up_def Let_def waiting_def)
  show "unat (fd_write_n (count_up h req s) h) = waiting s YOI_PL_WRITABLE (req # xs)"
    using assms(2) tomask_cases [of "ioq_kind s req"] inc(2)
    by (auto simp: count_up_def Let_def waiting_def)
qed

lemma count_down_counts:
  assumes "unat (fd_read_n s h) = waiting s YOI_PL_READABLE xs"
    and "unat (fd_write_n s h) = waiting s YOI_PL_WRITABLE xs" and "req \<in> set xs"
  shows "unat (fd_read_n (count_down h req s) h) = waiting s YOI_PL_READABLE (remove1 req xs)"
    and "unat (fd_write_n (count_down h req s) h) = waiting s YOI_PL_WRITABLE (remove1 req xs)"
proof -
  have nz: "waiting s (yoi_pl_tomask (ioq_kind s req)) xs > 0"
    using assms(3) by (auto simp: waiting_def filter_empty_conv)
  show "unat (fd_read_n (count_down h req s) h) = waiting s YOI_PL_READABLE (remove1 req xs)"
    using assms nz tomask_cases [of "ioq_kind s req"] unat_dec [of "fd_read_n s h"]
    by (auto simp: count_down_def Let_def waiting_remove1)
  show "unat (fd_write_n (count_down h req s) h) = waiting s YOI_PL_WRITABLE (remove1 req xs)"
    using assms nz tomask_cases [of "ioq_kind s req"] unat_dec [of "fd_write_n s h"]
    by (auto simp: count_down_def Let_def waiting_remove1)
qed

section \<open>The contract of a backend\<close>

text \<open>
  \<open>registered s q\<close> is what the backend of the queue \<open>q\<close> watches: for a descriptor the mask
  and the data it was registered with. \<open>sane os s\<close> is what the backend assumes of the system
  and of its own state. The laws are those of the comments in \<open>pollish.h\<close>.
\<close>

locale poll_backend =
  fixes setmask :: "('w, 'z) setmask"
    and sane :: "'w os \<Rightarrow> ('w, 'z) pl_scheme \<Rightarrow> bool"
    and registered :: "('w, 'z) pl_scheme \<Rightarrow> addr \<Rightarrow> int \<Rightarrow> (u32 \<times> addr) option"
  assumes setmask_sets: "sane os s \<Longrightarrow> setmask os q u fd m s = (YO_OK, s') \<Longrightarrow> m AND 3 = m
      \<Longrightarrow> registered s' q fd = (if m = 0 then None else Some (m, u))"
    and setmask_frame: "sane os s \<Longrightarrow> setmask os q u fd m s = (c, s')
      \<Longrightarrow> sane os s' \<and> same_requests s s' \<and> (fd' \<noteq> fd \<longrightarrow> registered s' q fd' = registered s q fd')"
    and setmask_error: "sane os s \<Longrightarrow> setmask os q u fd m s = (c, s') \<Longrightarrow> c \<noteq> YO_OK
      \<Longrightarrow> registered s' q = registered s q"
    and own_state: "world s' = world s \<Longrightarrow> pl.more s' = pl.more s
      \<Longrightarrow> sane os s' = sane os s \<and> registered s' = registered s"
    and quiet_calls: "sane os s \<Longrightarrow> quiet k \<Longrightarrow> sane os (after os k s) \<and> registered (after os k s) = registered s"
begin

lemma mask_of_range: "mask_of r w AND 3 = mask_of r w"
  by (simp add: mask_of_def)

lemma dlist_same: "same_requests s s' \<Longrightarrow> req_links s' = req_links s"
  by (simp add: same_requests_def)

lemma waiting_same: "same_requests s s' \<Longrightarrow> waiting s' m xs = waiting s m xs"
  by (simp add: same_requests_def waiting_def)

text \<open>A request that is started joins the list, and the backend watches for it.\<close>

lemma start_inv:
  assumes inv: "handle_inv (registered s q) s q h xs" and sane: "sane os s"
    and req: "ioq_fd s req = h" "rq_queue s req = q" "req \<noteq> NULL" "req \<notin> set xs" "Suc (length xs) < 2 ^ 32"
    and ok: "fst (setmask os q h (fd_fd s h) (want_mask h (count_up h req s)) (count_up h req s)) = YO_OK"
  shows "\<exists>s'. yoi_pl_req_start setmask os req s = (YO_OK, s')
     \<and> handle_inv (registered s' q) s' q h (req # xs) \<and> sane os s'
     \<and> rq_cell s' req = Cancel PlCancelCb \<and> \<not> get_cancelled req s'"
proof -
  let ?s1 = "count_up h req s"
  obtain s2 where s2: "setmask os q h (fd_fd s h) (want_mask h ?s1) ?s1 = (YO_OK, s2)"
    using ok by (metis prod.collapse)
  have sane1: "sane os ?s1" "registered ?s1 = registered s"
    using own_state [of ?s1 s os] sane by simp_all
  from setmask_frame [OF sane1(1) s2] have fr: "sane os s2" "same_requests ?s1 s2" by auto
  have "unat (fd_read_n ?s1 h) = waiting s YOI_PL_READABLE (req # xs)"
    "unat (fd_write_n ?s1 h) = waiting s YOI_PL_WRITABLE (req # xs)"
    using inv req(5) by (auto simp: handle_inv_def intro!: count_up_counts)
  note cnt = this
  have want: "want_mask h ?s1 = needed s (req # xs)"
    using cnt by (simp add: want_mask_eq needed_def unat_gt_0 unsigned_eq_0_iff flip: cnt)
  have reg: "registered s2 q (fd_fd s h) = Some (needed s (req # xs), h)"
    using setmask_sets [OF sane1(1) s2] mask_of_range needed_zero [of s "req # xs"]
    by (simp add: want needed_def)
  define s3 where "s3 = yoi_req_begin req PlCancelCb s2"
  define s4 where "s4 = put_links (yoi_dlist_add h req (req_links s3)) s3"
  have run: "yoi_pl_req_start setmask os req s = (YO_OK, s4)"
    using s2 req by (simp add: yoi_pl_req_start_def Let_def s3_def s4_def)
  have links: "req_links s3 = req_links s" "ioq_kind s3 = ioq_kind s" "ioq_fd s3 = ioq_fd s"
    "rq_queue s3 = rq_queue s" "fd_read_n s3 = fd_read_n ?s1" "fd_write_n s3 = fd_write_n ?s1" "fd_fd s3 = fd_fd s"
    using fr(2) by (simp_all add: s3_def same_requests_def same_queues_def)
  have "sane os s4" "registered s4 = registered s2"
    using own_state [of s4 s2 os] fr(1) by (simp_all add: s4_def s3_def)
  moreover have "dlist (req_links s4) h (req # xs)"
    using inv req(3,4) dlist_add [of "req_links s" h xs req]
    by (simp add: s4_def links handle_inv_def)
  moreover have "waiting s4 m ys = waiting s m ys" for m ys
    by (simp add: waiting_def s4_def links)
  moreover have "needed s4 ys = needed s ys" for ys
    by (simp add: needed_def waiting_def s4_def links)
  moreover have "rq_cell s4 req = Cancel PlCancelCb" "\<not> get_cancelled req s4"
    by (simp_all add: s4_def s3_def yoi_req_begin_def set_cancelled_def get_cancelled_def and.assoc)
  ultimately show ?thesis
    using inv req cnt reg run by (simp add: handle_inv_def s4_def links)
qed

text \<open>A request that is stopped leaves the list; the others are watched for as before.\<close>

lemma stop_inv:
  assumes inv: "handle_inv (registered s q) s q h xs" and sane: "sane os s" and req: "req \<in> set xs"
    and stop: "yoi_pl_req_stop setmask os req s = (c, s')"
  shows "sane os s'" and "same_queues s s'" and "dlist (req_links s') h (remove1 req xs)"
    and "ioq_kind s' = ioq_kind s" and "ioq_fd s' = ioq_fd s" and "fd_fd s' = fd_fd s"
    and "c = YO_OK \<Longrightarrow> handle_inv (registered s' q) s' q h (remove1 req xs)"
proof -
  have h: "ioq_fd s req = h" "rq_queue s req = q" using inv req by (auto simp: handle_inv_def)
  define s1 where "s1 = count_down h req s"
  define s2 where "s2 = put_links (yoi_dlist_del req (req_links s1)) s1"
  have s': "setmask os q h (fd_fd s h) (want_mask h s1) s2 = (c, s')"
    using stop h by (simp add: yoi_pl_req_stop_def Let_def s1_def s2_def)
  have sane2: "sane os s2" "registered s2 = registered s"
    using own_state [of s2 s os] sane by (simp_all add: s1_def s2_def)
  from setmask_frame [OF sane2(1) s'] have fr: "sane os s'" "same_requests s2 s'" by auto
  have "unat (fd_read_n s1 h) = waiting s YOI_PL_READABLE (remove1 req xs)"
    "unat (fd_write_n s1 h) = waiting s YOI_PL_WRITABLE (remove1 req xs)"
    using inv req unfolding s1_def by (auto simp: handle_inv_def intro!: count_down_counts)
  note cnt = this
  have want: "want_mask h s1 = needed s (remove1 req xs)"
    using cnt by (simp add: want_mask_eq needed_def unat_gt_0 unsigned_eq_0_iff flip: cnt)
  have dl: "dlist (req_links s2) h (remove1 req xs)"
    using inv req dlist_del [of "req_links s" h xs req] by (simp add: s2_def s1_def handle_inv_def)
  have keep: "ioq_kind s2 = ioq_kind s" "ioq_fd s2 = ioq_fd s" "fd_fd s2 = fd_fd s"
    "rq_queue s2 = rq_queue s" "fd_read_n s2 = fd_read_n s1" "fd_write_n s2 = fd_write_n s1"
    by (simp_all add: s2_def s1_def)
  show "sane os s'" by (rule fr)
  have "same_queues s s2" by (simp add: same_queues_def s2_def s1_def)
  with fr(2) show "same_queues s s'" by (auto simp: same_requests_def intro: same_queues_trans)
  show "dlist (req_links s') h (remove1 req xs)" using dl fr(2) by (simp add: same_requests_def)
  show "ioq_kind s' = ioq_kind s" "ioq_fd s' = ioq_fd s" "fd_fd s' = fd_fd s"
    using fr(2) keep by (simp_all add: same_requests_def)
  show "handle_inv (registered s' q) s' q h (remove1 req xs)" if "c = YO_OK"
  proof -
    have reg: "registered s' q (fd_fd s h) =
        (if remove1 req xs = [] then None else Some (needed s (remove1 req xs), h))"
      using setmask_sets [OF sane2(1)] s' that mask_of_range needed_zero [of s "remove1 req xs"]
      by (simp add: want needed_def)
    have "waiting s' m ys = waiting s m ys" for m ys
      using fr(2) keep by (simp add: waiting_def same_requests_def)
    moreover have "needed s' ys = needed s ys" for ys
      using fr(2) keep by (simp add: needed_def waiting_def same_requests_def)
    moreover have "length (remove1 req xs) \<le> length xs" by (simp add: length_remove1)
    moreover have "set (remove1 req xs) \<subseteq> set xs" by (rule set_remove1_subset)
    ultimately show ?thesis
      using inv fr(2) dl keep cnt reg by (auto simp: handle_inv_def same_requests_def same_queues_def)
  qed
qed

end

section \<open>Finishing requests\<close>

lemma pl_notify_eq: "pl_notify os q s = after os (CWrite (notify_write s q) [0]) s"
  by (simp add: pl_notify_def yoi_queue_impl_notify_def sys_simps Let_def)

lemma push_simps [simp]:
  "req_links (push_ready q req s) = req_links s" "ioq_fd (push_ready q req s) = ioq_fd s"
  "ioq_kind (push_ready q req s) = ioq_kind s" "fd_read_n (push_ready q req s) = fd_read_n s"
  "fd_write_n (push_ready q req s) = fd_write_n s" "fd_fd (push_ready q req s) = fd_fd s"
  "rq_queue (push_ready q req s) = rq_queue s" "world (push_ready q req s) = world s"
  "pl.more (push_ready q req s) = pl.more s" "ioq_next (push_ready q req s) = ioq_next s"
  by (simp_all add: push_ready_def yoi_list_add_def req_links_def)

lemma cell_update_simps [simp]:
  "req_links (s\<lparr>rq_cell := v\<rparr>) = req_links s"
  by (simp add: req_links_def)

lemma links_after [simp]: "req_links (after os c s) = req_links s"
  by (simp add: req_links_def)

lemma push_notify [simp]: "notify_write (push_ready q req s) = notify_write s"
  by (simp add: push_ready_def yoi_list_add_def)

lemma end_eq:
  "yoi_req_end os (pl_notify os) req c s =
     after os (CUnlock (rq_queue s req))
       (after os (CWrite (notify_write s (rq_queue s req)) [0])
         (push_ready (rq_queue s req) req
           (after os (CLock (rq_queue s req)) (s\<lparr>rq_cell := (rq_cell s)(req := Code c)\<rparr>))))"
  unfolding yoi_req_end_def Let_def ignore_eq pl_notify_eq by simp

lemma end_simps [simp]:
  "req_links (yoi_req_end os (pl_notify os) req c s) = req_links s"
  "ioq_fd (yoi_req_end os (pl_notify os) req c s) = ioq_fd s"
  "ioq_kind (yoi_req_end os (pl_notify os) req c s) = ioq_kind s"
  "fd_read_n (yoi_req_end os (pl_notify os) req c s) = fd_read_n s"
  "fd_write_n (yoi_req_end os (pl_notify os) req c s) = fd_write_n s"
  "fd_fd (yoi_req_end os (pl_notify os) req c s) = fd_fd s"
  "ioq_next (yoi_req_end os (pl_notify os) req c s) = ioq_next s"
  by (simp_all add: end_eq)

lemma find_req_chain:
  "chain (ioq_next s) p xs \<Longrightarrow> find_req s evn p =
     Some (case find (\<lambda>x. yoi_pl_tomask (ioq_kind s x) AND evn \<noteq> 0) xs of None \<Rightarrow> NULL | Some x \<Rightarrow> x)"
proof (induction xs arbitrary: p)
  case Nil
  then show ?case by (simp add: find_req.simps)
next
  case (Cons x xs)
  then show ?case by (subst find_req.simps) auto
qed

lemma get_req_dlist:
  "dlist (req_links s) h xs \<Longrightarrow> yoi_pl_get_req s h evn =
     Some (case find (\<lambda>x. yoi_pl_tomask (ioq_kind s x) AND evn \<noteq> 0) xs of None \<Rightarrow> NULL | Some x \<Rightarrow> x)"
  unfolding yoi_pl_get_req_def by (intro find_req_chain) (simp add: dlist_def req_links_def)

lemma dlist_nonnull: "dlist L h xs \<Longrightarrow> NULL \<notin> set xs"
  by (auto simp: dlist_def dest: chain_nonnull)

text \<open>An event that the handle is watched for concerns one of its requests.\<close>

lemma needed_found:
  assumes "needed s xs AND evn \<noteq> 0"
  shows "\<exists>x. find (\<lambda>x. yoi_pl_tomask (ioq_kind s x) AND evn \<noteq> 0) xs = Some x"
proof (rule ccontr)
  assume "\<nexists>x. find (\<lambda>x. yoi_pl_tomask (ioq_kind s x) AND evn \<noteq> 0) xs = Some x"
  then have "find (\<lambda>x. yoi_pl_tomask (ioq_kind s x) AND evn \<noteq> 0) xs = None" by simp
  then have none: "yoi_pl_tomask (ioq_kind s x) AND evn = 0" if "x \<in> set xs" for x
    using that by (simp add: find_None_iff)
  have "(if waiting s YOI_PL_READABLE xs \<noteq> 0 then YOI_PL_READABLE else 0) AND evn = 0"
    using none by (fastforce simp: waiting_def filter_empty_conv)
  moreover have "(if waiting s YOI_PL_WRITABLE xs \<noteq> 0 then YOI_PL_WRITABLE else 0) AND evn = 0"
    using none by (fastforce simp: waiting_def filter_empty_conv)
  ultimately have "needed s xs AND evn = 0"
    by (simp add: needed_def mask_of_def bit.conj_disj_distrib2)
  with assms show False by simp
qed

context poll_backend
begin

lemma end_sane:
  assumes "sane os s"
  shows "sane os (yoi_req_end os (pl_notify os) req c s)"
    and "registered (yoi_req_end os (pl_notify os) req c s) = registered s"
proof -
  let ?q = "rq_queue s req"
  let ?s1 = "s\<lparr>rq_cell := (rq_cell s)(req := Code c)\<rparr>"
  let ?s2 = "after os (CLock ?q) ?s1"
  let ?s3 = "push_ready ?q req ?s2"
  let ?s4 = "after os (CWrite (notify_write s ?q) [0]) ?s3"
  have s1: "sane os ?s1 \<and> registered ?s1 = registered s"
    using own_state [of ?s1 s os] assms by simp
  have s2: "sane os ?s2 \<and> registered ?s2 = registered s"
    using quiet_calls [of os ?s1 "CLock ?q"] s1 by (simp add: quiet_def)
  have s3: "sane os ?s3 \<and> registered ?s3 = registered s"
    using own_state [of ?s3 ?s2 os] s2 by simp
  have s4: "sane os ?s4 \<and> registered ?s4 = registered s"
    using quiet_calls [of os ?s3 "CWrite (notify_write s ?q) [0]"] s3 by (simp add: quiet_def)
  have "sane os (after os (CUnlock ?q) ?s4) \<and> registered (after os (CUnlock ?q) ?s4) = registered s"
    using quiet_calls [of os ?s4 "CUnlock ?q"] s4 by (simp add: quiet_def)
  then show "sane os (yoi_req_end os (pl_notify os) req c s)"
    and "registered (yoi_req_end os (pl_notify os) req c s) = registered s"
    by (simp_all add: end_eq)
qed

lemma end_handle_inv:
  assumes "handle_inv (registered s q) s q h xs" and "sane os s"
  shows "handle_inv (registered (yoi_req_end os (pl_notify os) req c s) q)
           (yoi_req_end os (pl_notify os) req c s) q h xs"
  using assms by (simp add: handle_inv_def end_sane needed_def waiting_def)

text \<open>Cancelling a running request: it leaves its handle and is ready with \<open>YO_ECANCELED\<close>.\<close>

lemma cancel_inv:
  assumes inv: "handle_inv (registered s q) s q h xs" and sane: "sane os s" and req: "req \<in> set xs"
    and ys: "ready s q ys" "req \<notin> fst ` set ys"
  shows "ready (yoi_pl_req_cancel setmask os req s) q ((req, YO_ECANCELED) # ys)"
    and "sane os (yoi_pl_req_cancel setmask os req s)"
    and "fst (yoi_pl_req_stop setmask os req s) = YO_OK \<Longrightarrow>
      handle_inv (registered (yoi_pl_req_cancel setmask os req s) q)
        (yoi_pl_req_cancel setmask os req s) q h (remove1 req xs)"
proof -
  obtain c s1 where s1: "yoi_pl_req_stop setmask os req s = (c, s1)" by fastforce
  note stop = stop_inv [OF inv sane req s1]
  have q: "rq_queue s req = q" "rq_queue s1 req = q"
    using inv req stop(2) by (auto simp: handle_inv_def same_queues_def)
  have nn: "req \<noteq> NULL" using inv req dlist_nonnull by (auto simp: handle_inv_def)
  have eq: "yoi_pl_req_cancel setmask os req s = yoi_req_end os (pl_notify os) req YO_ECANCELED s1"
    by (simp add: yoi_pl_req_cancel_def s1)
  have "ready s1 q ys" using ys(1) ready_same [OF stop(2)] by simp
  then show "ready (yoi_pl_req_cancel setmask os req s) q ((req, YO_ECANCELED) # ys)"
    using pln.end_ready [of s1 req ys os YO_ECANCELED] ys(2) nn q by (simp add: eq)
  show "sane os (yoi_pl_req_cancel setmask os req s)"
    by (simp add: eq end_sane stop(1))
  show "handle_inv (registered (yoi_pl_req_cancel setmask os req s) q)
        (yoi_pl_req_cancel setmask os req s) q h (remove1 req xs)"
    if "fst (yoi_pl_req_stop setmask os req s) = YO_OK"
    using end_handle_inv [OF stop(7) stop(1)] that by (simp add: eq s1)
qed

text \<open>Closing a handle finishes all its requests; the newest is put on the ready list first.\<close>

lemma close_requests_ready:
  assumes "sane os s" and "chain (ioq_next s) p xs" and "ready s q ys"
    and "\<forall>x \<in> set xs. rq_queue s x = q \<and> x \<notin> fst ` set ys" and "distinct xs"
  shows "\<exists>s'. close_requests setmask os h p s = Some s' \<and> sane os s'
     \<and> ready s' q (rev (map (\<lambda>x. (x, YO_ECANCELED)) xs) @ ys)"
  using assms
proof (induction xs arbitrary: s p ys)
  case Nil
  then show ?case by (auto simp: close_requests.simps)
next
  case (Cons x xs)
  then have p: "p = x" "p \<noteq> NULL" "chain (ioq_next s) (ioq_next s x) xs" by auto
  obtain c s1 where s1: "setmask os (rq_queue s x) NULL (fd_fd s h) 0 s = (c, s1)" by fastforce
  from setmask_frame [OF Cons.prems(1) s1] have fr: "sane os s1" "same_requests s s1" by auto
  define s2 where "s2 = yoi_req_end os (pl_notify os) x YO_ECANCELED s1"
  have q: "rq_queue s1 = rq_queue s" "rq_queue s2 = rq_queue s"
    using fr(2) by (simp_all add: same_requests_def same_queues_def s2_def)
  have nx: "ioq_next s2 = ioq_next s"
    using fr(2) by (simp add: same_requests_def req_links_def s2_def)
  have run: "close_requests setmask os h p s = close_requests setmask os h (ioq_next s x) s2"
    using p s1 nx by (subst close_requests.simps) (simp add: Let_def s2_def)
  have "ready s1 q ys"
    using Cons.prems(3) fr(2) ready_same [of s s1 q ys] by (simp add: same_requests_def)
  then have "ready s2 q ((x, YO_ECANCELED) # ys)"
    using pln.end_ready [of s1 x ys os YO_ECANCELED] Cons.prems(4) p q by (simp add: s2_def)
  moreover have "sane os s2" using end_sane(1) [OF fr(1)] by (simp add: s2_def)
  ultimately have "\<exists>s'. close_requests setmask os h (ioq_next s x) s2 = Some s' \<and> sane os s'
     \<and> ready s' q (rev (map (\<lambda>x. (x, YO_ECANCELED)) xs) @ (x, YO_ECANCELED) # ys)"
    using Cons.prems(4,5) p(3) q nx by (intro Cons.IH) auto
  with run show ?case by simp
qed

end

section \<open>Performing the operation of a request\<close>

lemma same_queues_io:
  "same_queues s (store_bytes p bs t) = same_queues s t" "same_queues s (set_size p v t) = same_queues s t"
  "same_queues s (set_ptr p a t) = same_queues s t" "same_queues s (yoi_unix_mkfd h fd t) = same_queues s t"
  "same_queues s (after os q t) = same_queues s t"
  "same_queues s (t\<lparr>m_addr := x, m_u16 := y\<rparr>) = same_queues s t"
  by (simp_all add: same_queues_def mem_defs yoi_unix_mkfd_def yoi_fd_ioq_init_def)

lemma req_do_queues: "same_queues s (snd (yoi_pl_req_do os req s))"
proof (cases "ioq_kind s req")
  case YOI_PL_ACCEPT
  have "sat (yo_socket_accept os h p a b s) (\<lambda>(c, s'). same_queues s s')" for h p a b
    unfolding yo_socket_accept_def
    by (intro paths) (simp_all add: sat_def return_errno_def sys_simps same_queues_io same_queues_refl)
  with YOI_PL_ACCEPT show ?thesis
    by (simp add: yoi_pl_req_do_def sat_def split_beta)
qed (simp_all add: yoi_pl_req_do_def yo_read_def yo_write_def yo_file_read_def yo_file_write_def
    sys_simps Let_def same_queues_io same_queues_refl return_errno_def)

lemma req_do_links:
  "ioq_kind s req \<noteq> YOI_PL_ACCEPT \<Longrightarrow> req_links (snd (yoi_pl_req_do os req s)) = req_links s
     \<and> fd_read_n (snd (yoi_pl_req_do os req s)) = fd_read_n s"
  by (cases "ioq_kind s req")
     (simp_all add: yoi_pl_req_do_def yo_read_def yo_write_def yo_file_read_def yo_file_write_def
      sys_simps Let_def return_errno_def mem_defs req_links_def)

lemma set_rw_simps [simp]:
  "req_links (set_rw k req h b p s) = req_links s" "fd_read_n (set_rw k req h b p s) = fd_read_n s"
  "fd_write_n (set_rw k req h b p s) = fd_write_n s" "fd_fd (set_rw k req h b p s) = fd_fd s"
  "rq_queue (set_rw k req h b p s) = rq_queue s" "rq_cell (set_rw k req h b p s) = rq_cell s"
  "rq_word (set_rw k req h b p s) = rq_word s" "q_head (set_rw k req h b p s) = q_head s"
  "world (set_rw k req h b p s) = world s" "pl.more (set_rw k req h b p s) = pl.more s"
  "ioq_fd (set_rw k req h b p s) = (ioq_fd s)(req := h)"
  "ioq_kind (set_rw k req h b p s) = (ioq_kind s)(req := k)"
  by (simp_all add: set_rw_def req_links_def)

lemma waiting_set_rw: "req \<notin> set xs \<Longrightarrow> waiting (set_rw k req h b p s) m xs = waiting s m xs"
  unfolding waiting_def by (induction xs) auto

lemma handle_inv_set_rw:
  "req \<notin> set xs \<Longrightarrow> handle_inv reg (set_rw k req h' b p s) q h xs = handle_inv reg s q h xs"
  by (auto simp: handle_inv_def needed_def waiting_set_rw)

lemma same_queues_upd:
  "same_queues s (set_rw k req h b p s)" "same_queues s (count_up h req s)" "same_queues s (put_links L s)"
  by (simp_all add: same_queues_def)

lemma ready_begin:
  assumes "ready s q ys" and "req \<notin> fst ` set ys"
  shows "ready (yoi_req_begin req cb s) q ys"
proof -
  have "\<forall>y \<in> set ys. fst y \<noteq> req" using assms(2) by auto
  with assms show ?thesis
    by (simp add: ready_def yoi_req_begin_def set_cancelled_def)
qed

text \<open>The state in which the operation of a request runs at once, after the backend refused the new mask of the handle.\<close>

definition refused :: "('w, 'z) setmask \<Rightarrow> 'w os \<Rightarrow> addr \<Rightarrow> ('w, 'z) pl_scheme \<Rightarrow> ('w, 'z) pl_scheme" where
  "refused setmask os req s =
     (let h = ioq_fd s req; s1 = count_up h req s
      in yoi_req_begin req PlCancelCb (snd (setmask os (rq_queue s req) h (fd_fd s h) (want_mask h s1) s1)))"

context poll_backend
begin

text \<open>The three outcomes of starting a request.\<close>

lemma start_eperm:
  assumes sane: "sane os s" and q: "rq_queue s req = q" and req: "req \<noteq> NULL" "req \<notin> fst ` set ys"
    and ys: "ready s q ys" and kind: "ioq_kind s req \<noteq> YOI_PL_ACCEPT"
    and eperm: "fst (setmask os q (ioq_fd s req) (fd_fd s (ioq_fd s req)) (want_mask (ioq_fd s req) (count_up (ioq_fd s req) req s))
          (count_up (ioq_fd s req) req s)) = YO_EPERM"
  shows "case yoi_pl_req_do os req (refused setmask os req s) of (result, t) \<Rightarrow>
     \<exists>s'. yoi_pl_req_start setmask os req s = (YO_OK, s') \<and> ready s' q ((req, result) # ys)
       \<and> m_byte s' = m_byte t \<and> m_size s' = m_size t
       \<and> req_links s' = req_links s \<and> fd_read_n s' = fd_read_n (count_up (ioq_fd s req) req s)"
proof -
  let ?h = "ioq_fd s req"
  let ?s1 = "count_up ?h req s"
  obtain s2 where s2: "setmask os q ?h (fd_fd s ?h) (want_mask ?h ?s1) ?s1 = (YO_EPERM, s2)"
    using eperm by (metis prod.collapse)
  have "sane os ?s1" using own_state [of ?s1 s os] sane by simp
  from setmask_frame [OF this s2] have fr: "same_requests ?s1 s2" by blast
  define s3 where "s3 = yoi_req_begin req PlCancelCb s2"
  obtain c s4 where s4: "yoi_pl_req_do os req s3 = (c, s4)" by fastforce
  have "ready s2 q ys"
    using ys ready_same [of s ?s1 q ys] ready_same [of ?s1 s2 q ys] fr
    by (simp add: same_queues_upd same_requests_def)
  then have "ready s3 q ys" using req(2) by (simp add: s3_def ready_begin)
  moreover have sq: "same_queues s3 s4" using req_do_queues [of s3 os req] s4 by simp
  ultimately have "ready s4 q ys" by (simp add: ready_same)
  moreover have "rq_queue s4 req = q"
    using sq fr q by (simp add: same_queues_def same_requests_def s3_def)
  ultimately have r: "ready (yoi_req_end os (pl_notify os) req c s4) q ((req, c) # ys)"
    using pln.end_ready [of s4 req ys os c] req by simp
  have "ioq_kind s3 req \<noteq> YOI_PL_ACCEPT" using fr kind by (simp add: s3_def same_requests_def)
  from req_do_links [OF this, of os] s4 fr
  have "req_links s4 = req_links s" "fd_read_n s4 = fd_read_n ?s1"
    by (simp_all add: s3_def same_requests_def)
  moreover have "yoi_pl_req_start setmask os req s = (YO_OK, yoi_req_end os (pl_notify os) req c s4)"
    using s2 q s4 by (simp add: yoi_pl_req_start_def Let_def s3_def)
  moreover have "refused setmask os req s = s3" using s2 q by (simp add: refused_def s3_def)
  moreover have "m_byte (yoi_req_end os (pl_notify os) req c s4) = m_byte s4" "m_size (yoi_req_end os (pl_notify os) req c s4) = m_size s4"
    by (simp_all add: yoi_req_end_def push_ready_def pl_notify_def yoi_queue_impl_notify_def sys_simps Let_def split: prod.split)
  ultimately show ?thesis using r s4 by simp
qed

lemma start_error:
  assumes sane: "sane os s" and q: "rq_queue s req = q" and req: "req \<noteq> NULL" "req \<notin> set xs"
    and xs: "dlist (req_links s) (ioq_fd s req) xs"
    and err: "fst (setmask os q (ioq_fd s req) (fd_fd s (ioq_fd s req)) (want_mask (ioq_fd s req) (count_up (ioq_fd s req) req s))
          (count_up (ioq_fd s req) req s)) = code" "code \<noteq> YO_EPERM"
  shows "\<exists>s'. yoi_pl_req_start setmask os req s = (code, s') \<and> dlist (req_links s') (ioq_fd s req) (req # xs)"
proof -
  let ?h = "ioq_fd s req"
  let ?s1 = "count_up ?h req s"
  obtain s2 where s2: "setmask os q ?h (fd_fd s ?h) (want_mask ?h ?s1) ?s1 = (code, s2)"
    using err by (metis prod.collapse)
  have "sane os ?s1" using own_state [of ?s1 s os] sane by simp
  from setmask_frame [OF this s2] have fr: "same_requests ?s1 s2" by blast
  then have "req_links s2 = req_links s" by (simp add: same_requests_def)
  then show ?thesis
    using s2 q err(2) dlist_add [OF xs req] by (simp add: yoi_pl_req_start_def Let_def)
qed

end

end
