(* ===== verification/Epoll.thy ===== *)
theory Epoll
  imports Pollish Clock
begin

text \<open>
  The epoll backend: \<open>src/unix/epoll.c\<close> and \<open>src/unix/epoll.h\<close>. The kernel's interest list
  is read off the world by a function \<open>I\<close>; \<open>epoll_os\<close> states how \<open>epoll_ctl\<close> moves it.
  Under it the backend meets the contract of \<open>pollish.h\<close>, and what the handle operations
  guarantee holds for the library as it is compiled on Linux.
\<close>

section \<open>State\<close>

record 'w ep = "'w pl" +
  epoll_fd :: "addr \<Rightarrow> int"
  timer_fd :: "addr \<Rightarrow> int"

abbreviation (input) EPOLLIN :: u32 where "EPOLLIN \<equiv> 1"
abbreviation (input) EPOLLOUT :: u32 where "EPOLLOUT \<equiv> 4"
abbreviation (input) EPOLLERR :: u32 where "EPOLLERR \<equiv> 8"
abbreviation (input) EPOLLHUP :: u32 where "EPOLLHUP \<equiv> 16"
abbreviation (input) EPOLLRDHUP :: u32 where "EPOLLRDHUP \<equiv> 8192"
abbreviation (input) EPOLL_CTL_ADD :: int where "EPOLL_CTL_ADD \<equiv> 1"
abbreviation (input) EPOLL_CTL_DEL :: int where "EPOLL_CTL_DEL \<equiv> 2"
abbreviation (input) EPOLL_CTL_MOD :: int where "EPOLL_CTL_MOD \<equiv> 3"

section \<open>Operations\<close>

definition realmask_of :: "u32 \<Rightarrow> u32" where
  "realmask_of msk =
     (let realmask = EPOLLRDHUP OR EPOLLERR OR EPOLLHUP;
          realmask = (if msk AND YOI_PL_READABLE \<noteq> 0 then realmask OR EPOLLIN else realmask);
          realmask = (if msk AND YOI_PL_WRITABLE \<noteq> 0 then realmask OR EPOLLOUT else realmask)
      in realmask)"

definition epoll_setmask ::
  "'w os \<Rightarrow> addr \<Rightarrow> addr \<Rightarrow> int \<Rightarrow> u32 \<Rightarrow> ('w, 'z) ep_scheme \<Rightarrow> yo_code \<times> ('w, 'z) ep_scheme" where
  "epoll_setmask os queue udata fd msk s =
     (let realmask = realmask_of msk
      in if msk = 0 then
           let (r, s) = syscall os (CEpollCtl (epoll_fd s queue) EPOLL_CTL_DEL fd realmask udata) s
           in if ret r = 0 then (YO_OK, s)
              else if errno s = ENOENT then (YO_OK, s)
              else return_errno s
         else
           let (r, s) = syscall os (CEpollCtl (epoll_fd s queue) EPOLL_CTL_MOD fd realmask udata) s
           in if ret r = 0 then (YO_OK, s)
              else if errno s = ENOENT then
                let (r, s) = syscall os (CEpollCtl (epoll_fd s queue) EPOLL_CTL_ADD fd realmask udata) s
                in if ret r = 0 then (YO_OK, s) else return_errno s
              else return_errno s)"

text \<open>\<open>while ((n = epoll_wait(...)) < 0)\<close>; \<open>err(1, ...)\<close> ends the process.\<close>

partial_function (option) epoll_wait_loop ::
  "'w os \<Rightarrow> int \<Rightarrow> ('w, 'z) sys_scheme \<Rightarrow> (reply \<times> ('w, 'z) sys_scheme) option" where
  "epoll_wait_loop os ep s =
     (let (r, s) = syscall os (CEpollWait ep) s
      in if ret r < 0 then if errno s \<noteq> EINTR then None else epoll_wait_loop os ep s
         else Some (r, s))"

definition epoll_ready :: "u32 \<Rightarrow> u32" where
  "epoll_ready events =
     (let mask = 0;
          mask = (if events AND (EPOLLRDHUP OR EPOLLERR OR EPOLLHUP OR EPOLLIN) \<noteq> 0
                  then mask OR YOI_PL_READABLE else mask);
          mask = (if events AND (EPOLLRDHUP OR EPOLLERR OR EPOLLHUP OR EPOLLOUT) \<noteq> 0
                  then mask OR YOI_PL_WRITABLE else mask)
      in mask)"

text \<open>\<open>evn.data.fd\<close> is the low half of \<open>evn.data.ptr\<close>.\<close>

definition data_fd :: "addr \<Rightarrow> int" where
  "data_fd p = sint (ucast p :: u32)"

definition epoll_poll ::
  "'w os \<Rightarrow> addr \<Rightarrow> yo_time option \<Rightarrow> ('w, 'z) ep_scheme
     \<Rightarrow> (yo_code \<times> addr \<times> u32 \<times> ('w, 'z) ep_scheme) option" where
  "epoll_poll os queue deadline s =
     do {
       (late, s) \<leftarrow>
         (case deadline of
            Some d \<Rightarrow> do {
              (now, s) \<leftarrow> yo_time_now os YO_CLOCK_MONO s;
              if yo_timecmp now d > 0 then Some (True, s)
              else Some (False, ignore os (CTimerfdSettime (timer_fd s queue) True (sint (sec d)) (uint (nsec d))) s)
            }
          | None \<Rightarrow> Some (False, ignore os (CTimerfdSettime (timer_fd s queue) False 0 0) s));
       if late then Some (YO_ETIMEOUT, NULL, 0, s)
       else do {
         (r, s) \<leftarrow> epoll_wait_loop os (epoll_fd s queue) s;
         if ret r = 0 then Some (YO_ETIMEOUT, NULL, 0, s)
         else
           let (events, data) = r_event r
           in if data_fd data = timer_fd s queue then
                if deadline = None then None
                else Some (YO_ETIMEOUT, NULL, 0, ignore os (CRead (data_fd data) 8) s)
              else Some (YO_OK, data, epoll_ready events, s)
       }
     }"

definition epoll_impl_init :: "'w os \<Rightarrow> addr \<Rightarrow> ('w, 'z) ep_scheme \<Rightarrow> yo_code \<times> ('w, 'z) ep_scheme" where
  "epoll_impl_init os queue s =
     (let (r, s) = syscall os CTimerfdCreate s;
          s = s\<lparr>timer_fd := (timer_fd s)(queue := ret r)\<rparr>;
          err_epoll = (\<lambda>s. let s = ignore os (CClose (timer_fd s queue)) s in return_errno s);
          err_pl = (\<lambda>s. let s = ignore os (CClose (epoll_fd s queue)) s in err_epoll s)
      in if timer_fd s queue < 0 then return_errno s
         else
           let (r, s) = syscall os CEpollCreate s;
               s = s\<lparr>epoll_fd := (epoll_fd s)(queue := ret r)\<rparr>
           in if epoll_fd s queue < 0 then err_epoll s
              else
                let (r, s) = syscall os (CEpollCtl (epoll_fd s queue) EPOLL_CTL_ADD (timer_fd s queue)
                               (EPOLLRDHUP OR EPOLLERR OR EPOLLHUP OR EPOLLIN) (of_int (timer_fd s queue))) s
                in if ret r < 0 then err_pl s
                   else
                     let (code, s) = yoi_pl_init epoll_setmask os queue s
                     in if code \<noteq> YO_OK then err_pl s else (YO_OK, s))"

text \<open>The release function calls \<open>yoi_pl_init\<close> where \<open>yoi_pl_free\<close> is meant.\<close>

definition epoll_impl_free :: "'w os \<Rightarrow> addr \<Rightarrow> ('w, 'z) ep_scheme \<Rightarrow> yo_code \<times> ('w, 'z) ep_scheme" where
  "epoll_impl_free os queue s =
     (let (code, s) = yoi_pl_init epoll_setmask os queue s
      in if code \<noteq> YO_OK then (code, s)
         else
           let s = ignore os (CClose (epoll_fd s queue)) s;
               s = ignore os (CClose (timer_fd s queue)) s
           in (YO_OK, s))"

section \<open>The interest list of the kernel\<close>

text \<open>
  \<open>epoll_ctl\<close> sets or removes the entry of the descriptor, or fails and leaves the list alone;
  it fails with \<open>ENOENT\<close> only when there is no entry. The calls that finishing a request makes
  leave the list alone.
\<close>

definition epoll_os :: "('w \<Rightarrow> int \<Rightarrow> int \<Rightarrow> (u32 \<times> addr) option) \<Rightarrow> 'w os \<Rightarrow> bool" where
  "epoll_os I os \<longleftrightarrow> posix_os os
     \<and> (\<forall>w ep opr fd ev d. let (r, w') = os w (CEpollCtl ep opr fd ev d) in
          (\<forall>ep' fd'. ep' \<noteq> ep \<or> fd' \<noteq> fd \<longrightarrow> I w' ep' fd' = I w ep' fd')
        \<and> (if ret r = 0 then I w' ep fd = (if opr = EPOLL_CTL_DEL then None else Some (ev, d))
           else ret r < 0 \<and> I w' ep fd = I w ep fd \<and> (eno r = Some ENOENT \<longrightarrow> I w ep fd = None)))
     \<and> (\<forall>w q. quiet q \<longrightarrow> I (snd (os w q)) = I w)"

definition epoll_registered ::
  "('w \<Rightarrow> int \<Rightarrow> int \<Rightarrow> (u32 \<times> addr) option) \<Rightarrow> ('w, 'z) ep_scheme \<Rightarrow> addr \<Rightarrow> int \<Rightarrow> (u32 \<times> addr) option" where
  "epoll_registered I s q fd =
     (case I (world s) (epoll_fd s q) fd of
        None \<Rightarrow> None
      | Some (ev, d) \<Rightarrow> Some (mask_of (ev AND EPOLLIN \<noteq> 0) (ev AND EPOLLOUT \<noteq> 0), d))"

lemma ep_after_simps [simp]:
  "epoll_fd (after os q s) = epoll_fd s" "timer_fd (after os q s) = timer_fd s"
  by (simp_all add: after_eq)

lemma mask_cases: "m AND 3 = m \<Longrightarrow> m = 0 \<or> m = 1 \<or> m = 2 \<or> m = (3 :: u32)"
proof -
  assume "m AND 3 = m"
  then have "m \<le> 3" by (metis word_and_le1)
  then have "unat m \<le> 3" by (simp add: word_le_nat_alt)
  then have "unat m = 0 \<or> unat m = 1 \<or> unat m = 2 \<or> unat m = 3" by auto
  moreover have "m = of_nat (unat m)" by simp
  ultimately show ?thesis by (auto simp del: of_nat_unat)
qed

lemma realmask_roundtrip:
  "m AND 3 = m \<Longrightarrow> mask_of (realmask_of m AND EPOLLIN \<noteq> 0) (realmask_of m AND EPOLLOUT \<noteq> 0) = m"
  using mask_cases [of m] by (auto simp: realmask_of_def mask_of_def)

lemma epoll_ctl_effect:
  assumes "epoll_os I os"
  shows "fd' \<noteq> fd \<Longrightarrow> I (world (after os (CEpollCtl ep opr fd ev d) s)) ep fd' = I (world s) ep fd'"
    and "ret (reply_of os (CEpollCtl ep opr fd ev d) s) = 0 \<Longrightarrow>
       I (world (after os (CEpollCtl ep opr fd ev d) s)) ep fd = (if opr = EPOLL_CTL_DEL then None else Some (ev, d))"
    and "ret (reply_of os (CEpollCtl ep opr fd ev d) s) \<noteq> 0 \<Longrightarrow>
       I (world (after os (CEpollCtl ep opr fd ev d) s)) ep fd = I (world s) ep fd
       \<and> 0 < errno (after os (CEpollCtl ep opr fd ev d) s)
       \<and> (errno (after os (CEpollCtl ep opr fd ev d) s) = ENOENT \<longrightarrow> I (world s) ep fd = None)"
proof -
  obtain r w' where run: "os (world s) (CEpollCtl ep opr fd ev d) = (r, w')" by fastforce
  have post: "posix_os os" using assms(1) by (simp add: epoll_os_def)
  have law: "(\<forall>ep' fd'. ep' \<noteq> ep \<or> fd' \<noteq> fd \<longrightarrow> I w' ep' fd' = I (world s) ep' fd')
      \<and> (if ret r = 0 then I w' ep fd = (if opr = EPOLL_CTL_DEL then None else Some (ev, d))
         else ret r < 0 \<and> I w' ep fd = I (world s) ep fd \<and> (eno r = Some ENOENT \<longrightarrow> I (world s) ep fd = None))"
  proof -
    from assms(1) have "\<forall>w ep opr fd ev d. case os w (CEpollCtl ep opr fd ev d) of (r, w') \<Rightarrow>
          (\<forall>ep' fd'. ep' \<noteq> ep \<or> fd' \<noteq> fd \<longrightarrow> I w' ep' fd' = I w ep' fd')
        \<and> (if ret r = 0 then I w' ep fd = (if opr = EPOLL_CTL_DEL then None else Some (ev, d))
           else ret r < 0 \<and> I w' ep fd = I w ep fd \<and> (eno r = Some ENOENT \<longrightarrow> I w ep fd = None))"
      unfolding epoll_os_def Let_def by (elim conjE)
    then have "case os (world s) (CEpollCtl ep opr fd ev d) of (r, w') \<Rightarrow>
          (\<forall>ep' fd'. ep' \<noteq> ep \<or> fd' \<noteq> fd \<longrightarrow> I w' ep' fd' = I (world s) ep' fd')
        \<and> (if ret r = 0 then I w' ep fd = (if opr = EPOLL_CTL_DEL then None else Some (ev, d))
           else ret r < 0 \<and> I w' ep fd = I (world s) ep fd \<and> (eno r = Some ENOENT \<longrightarrow> I (world s) ep fd = None))"
      by (elim allE)
    then show ?thesis unfolding run by simp
  qed
  show "I (world (after os (CEpollCtl ep opr fd ev d) s)) ep fd' = I (world s) ep fd'" if "fd' \<noteq> fd"
    using law run that by simp
  show "I (world (after os (CEpollCtl ep opr fd ev d) s)) ep fd = (if opr = EPOLL_CTL_DEL then None else Some (ev, d))"
    if "ret (reply_of os (CEpollCtl ep opr fd ev d) s) = 0"
    using law run that by (simp add: reply_of_def)
  show "I (world (after os (CEpollCtl ep opr fd ev d) s)) ep fd = I (world s) ep fd
       \<and> 0 < errno (after os (CEpollCtl ep opr fd ev d) s)
       \<and> (errno (after os (CEpollCtl ep opr fd ev d) s) = ENOENT \<longrightarrow> I (world s) ep fd = None)"
    if "ret (reply_of os (CEpollCtl ep opr fd ev d) s) \<noteq> 0"
  proof -
    have neg: "ret (reply_of os (CEpollCtl ep opr fd ev d) s) < 0"
      using law run that by (simp add: reply_of_def)
    then have "\<exists>e. eno (reply_of os (CEpollCtl ep opr fd ev d) s) = Some e \<and> 0 < e"
      by (intro reply_failure [OF post]) (simp add: fails_def)
    with law run that show ?thesis by (auto simp: reply_of_def after_errno)
  qed
qed

lemma same_requests_more:
  "same_requests s (after os q s)" "same_requests s (after os q (after os p s))"
  using same_requests_after same_requests_trans by blast+

text \<open>What one \<open>setmask\<close> does to the interest list, on every path.\<close>

lemma epoll_setmask_effect:
  assumes law: "epoll_os I os" and run: "epoll_setmask os q u fd m s = (c, s')"
  shows "epoll_fd s' = epoll_fd s" and "same_requests s s'"
    and "fd' \<noteq> fd \<Longrightarrow> I (world s') (epoll_fd s q) fd' = I (world s) (epoll_fd s q) fd'"
    and "c = YO_OK \<Longrightarrow> I (world s') (epoll_fd s q) fd = (if m = 0 then None else Some (realmask_of m, u))"
    and "c \<noteq> YO_OK \<Longrightarrow> I (world s') (epoll_fd s q) fd = I (world s) (epoll_fd s q) fd"
proof -
  note eff = epoll_ctl_effect [OF law]
  let ?ctl = "\<lambda>opr. CEpollCtl (epoll_fd s q) opr fd (realmask_of m) u"
  let ?del = "after os (?ctl EPOLL_CTL_DEL) s"
  let ?mod = "after os (?ctl EPOLL_CTL_MOD) s"
  let ?add = "after os (?ctl EPOLL_CTL_ADD) ?mod"
  note del = eff [where ep = "epoll_fd s q" and opr = EPOLL_CTL_DEL and fd = fd
      and ev = "realmask_of m" and d = u and s = s]
  note mod = eff [where ep = "epoll_fd s q" and opr = EPOLL_CTL_MOD and fd = fd
      and ev = "realmask_of m" and d = u and s = s]
  note add = eff [where ep = "epoll_fd s q" and opr = EPOLL_CTL_ADD and fd = fd
      and ev = "realmask_of m" and d = u and s = "?mod"]
  consider (removed) "m = 0" "s' = ?del"
      "c = YO_OK \<longleftrightarrow> ret (reply_of os (?ctl EPOLL_CTL_DEL) s) = 0 \<or> errno ?del = ENOENT"
    | (modified) "m \<noteq> 0" "s' = ?mod" "c = YO_OK \<longleftrightarrow> ret (reply_of os (?ctl EPOLL_CTL_MOD) s) = 0"
    | (added) "m \<noteq> 0" "s' = ?add" "ret (reply_of os (?ctl EPOLL_CTL_MOD) s) \<noteq> 0"
        "c = YO_OK \<longleftrightarrow> ret (reply_of os (?ctl EPOLL_CTL_ADD) ?mod) = 0"
    using run del(3) mod(3) add(3)
    by (auto simp: epoll_setmask_def sys_simps Let_def split: if_splits)
  note paths = this
  show "epoll_fd s' = epoll_fd s" by (cases rule: paths) simp_all
  show "same_requests s s'" by (cases rule: paths) (simp_all add: same_requests_more)
  show "I (world s') (epoll_fd s q) fd' = I (world s) (epoll_fd s q) fd'" if "fd' \<noteq> fd"
    using that del(1) mod(1) add(1) by (cases rule: paths) simp_all
  show "I (world s') (epoll_fd s q) fd = (if m = 0 then None else Some (realmask_of m, u))" if "c = YO_OK"
    using that del(2,3) mod(2) add(2)
    by (cases rule: paths; cases "ret (reply_of os (?ctl EPOLL_CTL_DEL) s) = 0") auto
  show "I (world s') (epoll_fd s q) fd = I (world s) (epoll_fd s q) fd" if "c \<noteq> YO_OK"
    using that del(3) mod(3) add(3) by (cases rule: paths) auto
qed

interpretation ep: poll_backend epoll_setmask "\<lambda>os s. epoll_os I os" "epoll_registered I" for I
proof
  fix os q u fd fd' m s s' c k
  assume law: "epoll_os I os"
  show "epoll_registered I s' q fd = (if m = 0 then None else Some (m, u))"
    if "epoll_setmask os q u fd m s = (YO_OK, s')" "m AND 3 = m"
    using epoll_setmask_effect(1,4) [OF law that(1)] realmask_roundtrip [OF that(2)]
    by (simp add: epoll_registered_def)
  show "epoll_os I os \<and> same_requests s s'
      \<and> (fd' \<noteq> fd \<longrightarrow> epoll_registered I s' q fd' = epoll_registered I s q fd')"
    if "epoll_setmask os q u fd m s = (c, s')"
    using law epoll_setmask_effect(1,2,3) [OF law that] by (auto simp: epoll_registered_def)
  show "epoll_registered I s' q = epoll_registered I s q"
    if "epoll_setmask os q u fd m s = (c, s')" "c \<noteq> YO_OK"
  proof
    fix g show "epoll_registered I s' q g = epoll_registered I s q g"
      using epoll_setmask_effect(1,3,5) [OF law that(1)] that(2)
      by (cases "g = fd") (simp_all add: epoll_registered_def)
  qed
  show "epoll_os I os \<and> epoll_registered I (after os k s) = epoll_registered I s" if "quiet k"
  proof -
    have "I (snd (os (world s) k)) = I (world s)" using law that by (simp add: epoll_os_def)
    with law show ?thesis by (simp add: epoll_registered_def fun_eq_iff)
  qed
next
  fix s s' :: "('a, 'b) ep_scheme" and os :: "'a os"
  assume w: "world s' = world s" and m: "pl.more s' = pl.more s"
  then have "epoll_fd s' = epoll_fd s" by (cases s; cases s') simp
  with w show "epoll_os I os = epoll_os I os \<and> epoll_registered I s' = epoll_registered I s"
    by (simp add: epoll_registered_def fun_eq_iff)
qed

section \<open>Properties\<close>

text \<open>
  C4: the epoll backend meets the contract that \<open>pollish.h\<close> states for \<open>setmask\<close>: a mask of
  0 removes the descriptor, another mask registers or modifies it, a failure changes nothing;
  other descriptors and the requests are left alone.
\<close>

theorem epoll_setmask_contract:
  assumes "epoll_os I os" and "m AND 3 = m"
  shows "case epoll_setmask os q u fd m s of (c, s') \<Rightarrow>
     same_requests s s'
   \<and> (\<forall>fd'. fd' \<noteq> fd \<longrightarrow> epoll_registered I s' q fd' = epoll_registered I s q fd')
   \<and> epoll_registered I s' q fd =
       (if c = YO_OK then if m = 0 then None else Some (m, u) else epoll_registered I s q fd)"
proof -
  obtain c s' where run: "epoll_setmask os q u fd m s = (c, s')" by fastforce
  have frame: "same_requests s s' \<and> (fd' \<noteq> fd \<longrightarrow> epoll_registered I s' q fd' = epoll_registered I s q fd')" for fd'
    using ep.setmask_frame [OF assms(1) run, of fd'] by blast
  have "epoll_registered I s' q fd =
       (if c = YO_OK then if m = 0 then None else Some (m, u) else epoll_registered I s q fd)"
    using ep.setmask_sets [OF assms(1) _ assms(2)] ep.setmask_error [OF assms(1) run] run
    by (cases "c = YO_OK") auto
  with frame run show ?thesis by auto
qed

text \<open>What the backend answers when a read request joins the handle \<open>h\<close>.\<close>

definition read_code ::
  "'w os \<Rightarrow> addr \<Rightarrow> addr \<Rightarrow> addr \<Rightarrow> addr \<Rightarrow> addr \<Rightarrow> ('w, 'z) ep_scheme \<Rightarrow> yo_code" where
  "read_code os q req h b n s =
     (let s1 = count_up h req (set_rw YOI_PL_READ req h b n s)
      in fst (epoll_setmask os q h (fd_fd s h) (want_mask h s1) s1))"

text \<open>
  C6: \<open>yoa_read\<close> on a handle in order has three outcomes. If the kernel accepts the new mask,
  the request joins the handle, and counters and interest list agree with the requests again. If
  the kernel cannot watch the file, the read is done at once: \<open>yo_read\<close> runs with the arguments of the request in the state after the
  kernel refused (\<open>refused\<close>), the request is ready with the code that \<open>yo_read\<close> returned, and the buffer and the size are
  as it left them; but the reader it had counted stays counted. On another error that error is returned, and yet the
  request stays linked to the handle.
\<close>

theorem yoa_read_outcomes:
  assumes law: "epoll_os I os" and inv: "handle_inv (epoll_registered I s q) s q h xs"
    and req: "rq_queue s req = q" "req \<noteq> NULL" "req \<notin> set xs" "req \<notin> fst ` set ys" "Suc (length xs) < 2 ^ 32"
    and ys: "ready s q ys"
  shows "case yoa_read epoll_setmask os req h b n s of (c, s') \<Rightarrow>
     if read_code os q req h b n s = YO_OK then
       c = YO_OK \<and> handle_inv (epoll_registered I s' q) s' q h (req # xs) \<and> \<not> get_cancelled req s'
     else if read_code os q req h b n s = YO_EPERM then
       c = YO_OK
         \<and> (case yo_read os h b n (refused epoll_setmask os req (set_rw YOI_PL_READ req h b n s)) of (result, t) \<Rightarrow>
              ready s' q ((req, result) # ys) \<and> m_byte s' = m_byte t \<and> m_size s' = m_size t)
         \<and> dlist (req_links s') h xs \<and> fd_read_n s' h = fd_read_n s h + 1
     else c = read_code os q req h b n s \<and> dlist (req_links s') h (req # xs)"
proof -
  let ?s0 = "set_rw YOI_PL_READ req h b n s"
  have reg: "epoll_registered I ?s0 = epoll_registered I s"
    using ep.own_state [of ?s0 s I os] by simp
  have inv0: "handle_inv (epoll_registered I ?s0 q) ?s0 q h xs"
    using inv req(3) by (simp add: reg handle_inv_set_rw)
  have h: "ioq_fd ?s0 req = h" "rq_queue ?s0 req = q" "ioq_kind ?s0 req = YOI_PL_READ" using req by simp_all
  have ys0: "ready ?s0 q ys" using ys by (simp add: ready_same [OF same_queues_upd(1)])
  have dl: "dlist (req_links ?s0) (ioq_fd ?s0 req) xs" using inv by (simp add: handle_inv_def)
  have run: "yoa_read epoll_setmask os req h b n s = yoi_pl_req_start epoll_setmask os req ?s0"
    by (simp add: yoa_read_def)
  have up: "fd_read_n (count_up h req ?s0) h = fd_read_n s h + 1"
    by (simp add: count_up_def yoi_pl_tomask_def)
  have code: "fst (epoll_setmask os q h (fd_fd ?s0 h) (want_mask h (count_up h req ?s0)) (count_up h req ?s0))
      = read_code os q req h b n s" by (simp add: read_code_def Let_def)
  consider (ok) "read_code os q req h b n s = YO_OK" | (eperm) "read_code os q req h b n s = YO_EPERM"
    | (error) "read_code os q req h b n s \<noteq> YO_OK" "read_code os q req h b n s \<noteq> YO_EPERM" by blast
  then show ?thesis
  proof cases
    case ok
    with ep.start_inv [OF inv0 law h(1,2) req(2,3,5)] code run show ?thesis by auto
  next
    case eperm
    let ?r = "refused epoll_setmask os req ?s0"
    let ?u = "count_up h req ?s0"
    obtain d u where u: "epoll_setmask os q h (fd_fd ?s0 h) (want_mask h ?u) ?u = (d, u)" by fastforce
    have "same_requests ?u u" by (rule epoll_setmask_effect(2) [OF law u])
    moreover have after: "ioq_buff (after os k t) = ioq_buff t" "ioq_pn (after os k t) = ioq_pn t" for k and t :: "('a, 'b) ep_scheme"
      by (simp_all add: after_eq)
    moreover have "ioq_buff u = ioq_buff ?u" "ioq_pn u = ioq_pn ?u"
      using u by (auto simp: epoll_setmask_def sys_simps Let_def after split: if_splits)
    moreover have "ioq_buff ?u req = b" "ioq_pn ?u req = n"
      by (simp_all add: count_up_def set_rw_def Let_def)
    ultimately have "yoi_pl_req_do os req ?r = yo_read os h b n ?r"
      using u h by (simp add: refused_def yoi_pl_req_do_def same_requests_def yoi_req_begin_def set_cancelled_def Let_def)
    with eperm ep.start_eperm [OF law h(2) req(2,4) ys0] code run up h dl show ?thesis by (auto split: prod.splits)
  next
    case error
    with ep.start_error [OF law h(2) req(2,3) dl] code run h show ?thesis by auto
  qed
qed

text \<open>
  C7: when the backend reports an event that a handle in order is watched for, \<open>yo_queue_poll\<close>
  picks the most recently started request that the event allows, takes it off the handle with
  counters and interest list in agreement again, performs its operation and returns the
  request together with the operation's result.
\<close>

theorem queue_poll_event:
  assumes law: "epoll_os I os" and idle: "yoi_queue_pop os q pcode s = Some (NULL, s0)"
    and poll: "epoll_poll os q deadline s0 = Some (YO_OK, h, evn, s1)" and h: "h \<noteq> NULL"
    and inv: "handle_inv (epoll_registered I s1 q) s1 q h xs" and evn: "needed s1 xs AND evn \<noteq> 0"
  shows "\<exists>req before later s2 s'. xs = before @ req # later
     \<and> yoi_pl_tomask (ioq_kind s1 req) AND evn \<noteq> 0
     \<and> (\<forall>x \<in> set before. yoi_pl_tomask (ioq_kind s1 x) AND evn = 0)
     \<and> snd (yoi_pl_req_stop epoll_setmask os req s1) = s2
     \<and> (fst (yoi_pl_req_stop epoll_setmask os req s1) = YO_OK \<longrightarrow>
          handle_inv (epoll_registered I s2 q) s2 q h (before @ later))
     \<and> yo_queue_poll epoll_setmask epoll_poll os q deadline preq pcode s = Some (YO_OK, s')
     \<and> m_ptr s' preq = req \<and> m_code s' pcode = fst (yoi_pl_req_do os req s2)"
proof -
  have dl: "dlist (req_links s1) h xs" using inv by (simp add: handle_inv_def)
  obtain req where find: "find (\<lambda>x. yoi_pl_tomask (ioq_kind s1 x) AND evn \<noteq> 0) xs = Some req"
    using needed_found [OF evn] by blast
  then obtain i where i: "i < length xs" "yoi_pl_tomask (ioq_kind s1 req) AND evn \<noteq> 0" "req = xs ! i"
    "\<forall>j<i. yoi_pl_tomask (ioq_kind s1 (xs ! j)) AND evn = 0"
    by (auto simp: find_Some_iff)
  define before later where "before = take i xs" and "later = drop (Suc i) xs"
  have xs: "xs = before @ req # later"
    using i by (simp add: before_def later_def id_take_nth_drop)
  have before: "\<forall>x \<in> set before. yoi_pl_tomask (ioq_kind s1 x) AND evn = 0"
    using i by (auto simp: before_def in_set_conv_nth)
  have mem: "req \<in> set xs" and rem: "remove1 req xs = before @ later"
    using xs dlist_distinct [OF dl] by (auto simp: remove1_append)
  have nn: "req \<noteq> NULL" using dlist_nonnull [OF dl] mem by auto
  obtain c s2 where s2: "yoi_pl_req_stop epoll_setmask os req s1 = (c, s2)" by fastforce
  have stop: "c = YO_OK \<longrightarrow> handle_inv (epoll_registered I s2 q) s2 q h (before @ later)"
    using ep.stop_inv(7) [OF inv law mem s2] rem by simp
  obtain code s3 where s3: "yoi_pl_req_do os req s2 = (code, s3)" by fastforce
  let ?s' = "set_ptr preq req (s3\<lparr>m_code := (m_code s3)(pcode := code)\<rparr>)"
  have "poll_round epoll_setmask epoll_poll os q deadline preq pcode s = Some (Inl (YO_OK, ?s'))"
    using idle poll h get_req_dlist [OF dl, of evn] find nn s2 s3
    by (simp add: poll_round_def Let_def)
  then have "yo_queue_poll epoll_setmask epoll_poll os q deadline preq pcode s = Some (YO_OK, ?s')"
    by (simp add: yo_queue_poll_def repeat_rounds.simps)
  moreover have "m_ptr ?s' preq = req" "m_code ?s' pcode = code" by (simp_all add: set_ptr_def)
  ultimately show ?thesis using xs i(2) before stop s2 s3 by (intro exI conjI) auto
qed

text \<open>
  Closing a handle delivers the cancellation of each of its running requests, each once,
  behind nothing but what becomes ready later.
\<close>

theorem onclose_cancels:
  assumes "epoll_os I os" and "handle_inv (epoll_registered I s q) s q h xs" and "ready s q ys"
    and "set xs \<inter> fst ` set ys = {}"
  shows "\<exists>s'. yoi_unix_onclose epoll_setmask os h s = Some s'
     \<and> ready s' q (rev (map (\<lambda>x. (x, YO_ECANCELED)) xs) @ ys)"
proof -
  have "chain (ioq_next s) (fd_head s h) xs" "distinct xs" "\<forall>x \<in> set xs. rq_queue s x = q \<and> x \<notin> fst ` set ys"
    using assms(2,4) dlist_distinct [of "req_links s" h xs]
    by (auto simp: handle_inv_def dlist_def req_links_def)
  from ep.close_requests_ready [OF assms(1) this(1) assms(3) this(3,2)] show ?thesis
    unfolding yoi_unix_onclose_def by blast
qed

text \<open>
  C5: completions are delivered exactly once. If a batch of distinct requests of a queue
  finishes, a consumer that pops until nothing is ready receives each of them with its code, the
  last one finished first, then what had been ready before; nothing is ready afterwards.
\<close>

theorem completions_delivered_once:
  assumes "ready s q ys" and "\<forall>(x, c) \<in> set zs. x \<noteq> NULL \<and> rq_queue s x = q \<and> x \<notin> fst ` set ys"
    and "distinct (map fst zs)" and "length zs + length ys < n"
  shows "\<exists>s'. deliveries os n q pcode (fold (\<lambda>(x, c). yoi_req_end os (pl_notify os) x c) zs s)
       = Some (rev zs @ ys, s') \<and> ready s' q []"
  using deliveries_ready [OF pln.end_batch [OF assms(1,2,3)]] assms(4) by simp

text \<open>
  C34: \<open>yo_req_cancel\<close> sets the flag after the request became ready, when the flag's byte already
  belongs to the link of the ready list. The cancelled request is delivered with
  \<open>YO_ECANCELED\<close>, but behind it the queue then holds an address that is never NULL and, unless
  the low byte of the link was 1, not the next request.
\<close>

theorem req_cancel_breaks_queue:
  assumes law: "epoll_os I os" and inv: "handle_inv (epoll_registered I s q) s q h xs"
    and req: "req \<in> set xs" "req \<notin> fst ` set ys" "rq_cell s req = Cancel PlCancelCb" "\<not> get_cancelled req s"
    and ys: "ready s q ys"
  shows "\<exists>s1 s2. yo_req_cancel (pl_dispatch epoll_setmask os) req s = Some s1
     \<and> yoi_queue_pop os q pcode s1 = Some (req, s2) \<and> m_code s2 pcode = YO_ECANCELED
     \<and> q_head s2 q = (q_head s q AND NOT 255) OR 1 \<and> q_head s2 q \<noteq> NULL"
proof -
  let ?t = "yoi_pl_req_cancel epoll_setmask os req s"
  have t: "ready ?t q ((req, YO_ECANCELED) # ys)"
    by (rule ep.cancel_inv(1) [OF inv law req(1) ys req(2)])
  have nxt: "rq_word ?t req = q_head s q"
  proof -
    have "q_head s q = (case ys of [] \<Rightarrow> NULL | y # _ \<Rightarrow> fst y)"
      using ys by (cases ys) (auto simp: ready_def)
    moreover have "rq_word ?t req = (case ys of [] \<Rightarrow> NULL | y # _ \<Rightarrow> fst y)"
      using t by (cases ys) (auto simp: ready_def)
    ultimately show ?thesis by simp
  qed
  have run: "yo_req_cancel (pl_dispatch epoll_setmask os) req s = Some (set_cancelled req True ?t)"
    using req(3,4) by (simp add: yo_req_cancel_def pl_dispatch_def)
  have "q_head ?t q = req" "rq_cell ?t req = Code YO_ECANCELED" "req \<noteq> NULL"
    using t by (auto simp: ready_def)
  then have "\<exists>s2. yoi_queue_pop os q pcode (set_cancelled req True ?t) = Some (req, s2)
      \<and> m_code s2 pcode = YO_ECANCELED \<and> q_head s2 q = (q_head s q AND NOT 255) OR 1"
    by (simp add: yoi_queue_pop_def sys_simps Let_def pop_ready_def yoi_list_del_def set_cancelled_def nxt)
  with run low_byte_nonzero show ?thesis by auto
qed

text \<open>
  A deadline that has passed is reported as a timeout without looking at the descriptors, so
  the polling without blocking that \<open>queue.h\<close> suggests never sees an event of the system.
\<close>

theorem past_deadline_skips_events:
  assumes "ret (reply_of os (CClock 1) s) \<ge> 0"
    and "yo_timecmp (timespec_time (r_pair (reply_of os (CClock 1) s))) d > 0"
  shows "\<exists>s'. epoll_poll os q (Some d) s = Some (YO_ETIMEOUT, NULL, 0, s')
     \<and> news s s' = [(CClock 1, reply_of os (CClock 1) s)]"
  using assms by (simp add: epoll_poll_def yo_time_now_def clock_id_def sys_simps Let_def news_def)

section \<open>Making and releasing a queue\<close>

lemma ep_upd_simps [simp]:
  "timer_fd (s\<lparr>notify_read := a, notify_write := b\<rparr>) = timer_fd s"
  "epoll_fd (s\<lparr>notify_read := a, notify_write := b\<rparr>) = epoll_fd s"
  by (cases s; simp)+

text \<open>\<open>setmask\<close> on a path: it takes no resource, and an error leaves \<open>errno\<close> set.\<close>

lemma setmask_path:
  assumes "epoll_os I os" and "epoll_setmask os q u fd m s = (c, s')"
  shows "gained [] s s'" and "timer_fd s' = timer_fd s" and "epoll_fd s' = epoll_fd s"
    and "notify_read s' = notify_read s" and "notify_write s' = notify_write s"
    and "c \<noteq> YO_OK \<Longrightarrow> 0 < errno s'"
  using assms(2) epoll_ctl_effect(3) [OF assms(1), THEN conjunct2, THEN conjunct1]
  by (auto simp: epoll_setmask_def sys_simps Let_def ledger_simps split: if_splits)

lemma sat_setmask:
  assumes "epoll_os I os"
    and "\<And>c s'. gained [] s s' \<Longrightarrow> timer_fd s' = timer_fd s \<Longrightarrow> epoll_fd s' = epoll_fd s
      \<Longrightarrow> notify_read s' = notify_read s \<Longrightarrow> notify_write s' = notify_write s
      \<Longrightarrow> (c \<noteq> YO_OK \<Longrightarrow> 0 < errno s') \<Longrightarrow> sat (f c s') P"
  shows "sat (case epoll_setmask os q u fd m s of (c, s') \<Rightarrow> f c s') P"
proof -
  obtain c s' where run: "epoll_setmask os q u fd m s = (c, s')" by fastforce
  from assms(2) [OF setmask_path [OF assms(1) run]] run show ?thesis by simp
qed

lemma sat_pair [paths]:
  "(\<And>a b. r_pair r = (a, b) \<Longrightarrow> sat (f a b) P) \<Longrightarrow> sat (case r_pair r of (a, b) \<Rightarrow> f a b) P"
  by (simp split: prod.splits)

text \<open>The pipe of a queue: both ends are kept on success and closed on failure.\<close>

lemma pl_init_path:
  assumes "epoll_os I os"
  shows "sat (yoi_pl_init epoll_setmask os q s) (\<lambda>(c, s').
     timer_fd s' = timer_fd s \<and> epoll_fd s' = epoll_fd s
   \<and> (if c = YO_OK then gained [Fd (notify_read s' q), Fd (notify_write s' q)] s s'
      else gained [] s s' \<and> 0 < errno s'))"
proof -
  have "posix_os os" using assms by (simp add: epoll_os_def)
  then show ?thesis
    unfolding yoi_pl_init_def
    by (intro paths sat_setmask [OF assms]) (simp_all add: outcome_simps)
qed

lemma sat_pl_init:
  assumes "epoll_os I os"
    and "\<And>c s'. timer_fd s' = timer_fd s \<Longrightarrow> epoll_fd s' = epoll_fd s
      \<Longrightarrow> (c = YO_OK \<Longrightarrow> gained [Fd (notify_read s' q), Fd (notify_write s' q)] s s')
      \<Longrightarrow> (c \<noteq> YO_OK \<Longrightarrow> gained [] s s') \<Longrightarrow> (c \<noteq> YO_OK \<Longrightarrow> 0 < errno s') \<Longrightarrow> sat (f c s') P"
  shows "sat (case yoi_pl_init epoll_setmask os q s of (c, s') \<Rightarrow> f c s') P"
proof -
  obtain c s' where run: "yoi_pl_init epoll_setmask os q s = (c, s')" by fastforce
  with pl_init_path [OF assms(1), of q s] show ?thesis
    using assms(2) [of s' c] by (auto simp: sat_def split: if_splits)
qed

lemma sat_impl_init:
  assumes "epoll_os I os"
    and "\<And>c s'. (c = YO_OK \<Longrightarrow> gained [Fd (timer_fd s' q), Fd (epoll_fd s' q), Fd (notify_read s' q), Fd (notify_write s' q)] s s')
      \<Longrightarrow> (c \<noteq> YO_OK \<Longrightarrow> gained [] s s') \<Longrightarrow> sat (f c s') P"
  shows "sat (case epoll_impl_init os q s of (c, s') \<Rightarrow> f c s') P"
proof -
  have posix: "posix_os os" using assms(1) by (simp add: epoll_os_def)
  have "sat (epoll_impl_init os q s) (\<lambda>(c, s').
     if c = YO_OK then gained [Fd (timer_fd s' q), Fd (epoll_fd s' q), Fd (notify_read s' q), Fd (notify_write s' q)] s s'
     else gained [] s s')"
    unfolding epoll_impl_init_def
    by (intro paths sat_pl_init [OF assms(1)]) (insert posix, auto simp: outcome_simps)
  moreover obtain c s' where run: "epoll_impl_init os q s = (c, s')" by fastforce
  ultimately show ?thesis
    using assms(2) [of c s'] by (auto simp: sat_def split: if_splits)
qed

text \<open>
  C28: a queue that is made owns its memory, its timer, its epoll descriptor and the two ends of
  its pipe, and nothing else is held. When the backend cannot be set up, all descriptors are given
  back but the memory of the queue is leaked.
\<close>

theorem queue_new_outcome:
  assumes "epoll_os I os"
  shows "case yo_queue_new os (epoll_impl_init os) s of (q, s') \<Rightarrow>
     if q \<noteq> NULL then ready s' q []
       \<and> gained [Mem q, Fd (timer_fd s' q), Fd (epoll_fd s' q), Fd (notify_read s' q), Fd (notify_write s' q)] s s'
     else if ptr (reply_of os (CMalloc sizeof_yo_queue) s) = NULL then gained [] s s'
     else gained [Mem (ptr (reply_of os (CMalloc sizeof_yo_queue) s))] s s'"
  unfolding yo_queue_new_def
  by (intro sat_case paths sat_impl_init [OF assms]) (auto simp: outcome_simps ready_def)

text \<open>
  Releasing a queue does not release its pipe. \<open>yoi_queue_impl_free\<close> opens a second pipe
  instead of closing the first, so that the timer and the epoll descriptor are given back and
  two new descriptors are taken.
\<close>

theorem queue_impl_free_opens_pipe:
  assumes "epoll_os I os"
  shows "case epoll_impl_free os q s of (c, s') \<Rightarrow>
     if c = YO_OK then \<forall>x. held (trace s') x + int (count_list [Fd (timer_fd s q), Fd (epoll_fd s q)] x)
        = held (trace s) x + int (count_list [Fd (notify_read s' q), Fd (notify_write s' q)] x)
     else gained [] s s'"
  unfolding epoll_impl_free_def
  by (intro sat_case paths sat_pl_init [OF assms]) (auto simp: outcome_simps)

section \<open>A concrete kernel\<close>

text \<open>
  The world is the interest list. \<open>epoll_wait\<close> reports input for the handle at 4096, reads
  return two bytes, and the monotonic clock shows 100 seconds.
\<close>

type_synonym interest = "int \<Rightarrow> int \<Rightarrow> (u32 \<times> addr) option"

definition kernel_os :: "interest os" where
  "kernel_os w q = (case q of
     CEpollCtl ep opr fd ev d \<Rightarrow>
       if opr \<noteq> EPOLL_CTL_ADD \<and> w ep fd = None then (failed (-1) ENOENT, w)
       else (returns 0, w(ep := (w ep)(fd := if opr = EPOLL_CTL_DEL then None else Some (ev, d))))
   | CEpollWait ep \<Rightarrow> ((returns 1)\<lparr>r_event := (EPOLLIN, 4096)\<rparr>, w)
   | CRead fd n \<Rightarrow> ((returns 2)\<lparr>r_bytes := [72, 105]\<rparr>, w)
   | CClock i \<Rightarrow> ((returns 0)\<lparr>r_pair := (100, 0)\<rparr>, w)
   | CPipe \<Rightarrow> ((returns 0)\<lparr>r_pair := (12, 13)\<rparr>, w)
   | _ \<Rightarrow> (returns (if returns_pointer q then 4096 else 7), w))"

lemma epoll_kernel: "epoll_os id kernel_os"
proof -
  have "posix_os kernel_os"
    unfolding posix_os_def
  proof (intro allI)
    fix w q show "let r = fst (kernel_os w q) in (fails q r \<longrightarrow> eno r \<noteq> None) \<and> (\<forall>e. eno r = Some e \<longrightarrow> 0 < e)"
      by (cases q) (auto simp: kernel_os_def fails_def returns_pointer_def Let_def returns_def)
  qed
  then show ?thesis
    unfolding epoll_os_def
    by (auto simp: kernel_os_def quiet_def returns_def Let_def split: call.splits)
qed

text \<open>
  A queue at 8192 with the epoll descriptor 10 and the timer 11, a handle at 4096 for the
  descriptor 5. The requests \<open>xs\<close> (none or the one at 12288) are running reads of the handle.
\<close>

definition queue_at :: "bool \<Rightarrow> interest \<Rightarrow> interest ep" where
  "queue_at running w = \<lparr>world = w, errno = 0, trace = [], m_byte = (\<lambda>_. 0), m_size = (\<lambda>_. 4),
     m_ptr = (\<lambda>_. NULL), m_int = (\<lambda>_. 0), m_u16 = (\<lambda>_. 0), m_addr = m_addr (idle w), m_stat = m_stat (idle w),
     fd_head = (\<lambda>_. NULL)(4096 := if running then 12288 else NULL), fd_owned = (\<lambda>_. True), fd_fd = (\<lambda>_. 5),
     fd_read_n = (\<lambda>_. if running then 1 else 0), fd_write_n = (\<lambda>_. 0), dir_dir = (\<lambda>_. 7), tty_fd = (\<lambda>_. 0),
     tty_mode = tty_mode (idle w), proc_pid = (\<lambda>_. 0),
     rq_queue = (\<lambda>_. 8192), rq_cell = (\<lambda>_. Cancel PlCancelCb), rq_word = (\<lambda>_. 0), q_head = (\<lambda>_. NULL),
     q_pool = (\<lambda>_. NULL), m_code = (\<lambda>_. YO_OK),
     ioq_next = (\<lambda>_. NULL), ioq_slot = (\<lambda>_. HeadSlot 4096), ioq_fd = (\<lambda>_. 4096), ioq_kind = (\<lambda>_. YOI_PL_READ),
     ioq_buff = (\<lambda>_. 100), ioq_pn = (\<lambda>_. 200), ioq_ptr = (\<lambda>_. 0), ioq_pclient = (\<lambda>_. 0), ioq_paddr = (\<lambda>_. 0),
     ioq_pport = (\<lambda>_. 0), notify_read = (\<lambda>_. 12), notify_write = (\<lambda>_. 13),
     epoll_fd = (\<lambda>_. 10), timer_fd = (\<lambda>_. 11)\<rparr>"

definition no_interest :: interest where
  "no_interest = (\<lambda>_ _. None)"

definition read_interest :: interest where
  "read_interest = (\<lambda>_ fd. if fd = 5 then Some (realmask_of YOI_PL_READABLE, 4096) else None)"

lemma idle_handle: "handle_inv (epoll_registered id (queue_at False no_interest) 8192) (queue_at False no_interest) 8192 4096 []"
  by (simp add: handle_inv_def queue_at_def no_interest_def epoll_registered_def dlist_def req_links_def waiting_def)

lemma busy_handle:
  "handle_inv (epoll_registered id (queue_at True read_interest) 8192) (queue_at True read_interest) 8192 4096 [12288]"
  by (simp add: handle_inv_def queue_at_def read_interest_def epoll_registered_def dlist_def req_links_def
      waiting_def needed_def mask_of_def realmask_of_def yoi_pl_tomask_def)

lemma none_ready: "ready (queue_at b w) 8192 []"
  by (simp add: ready_def queue_at_def)

lemma epoll_setmask_contract_witness:
  "case epoll_setmask kernel_os 8192 4096 5 1 (queue_at False no_interest) of (c, s') \<Rightarrow>
     c = YO_OK \<and> epoll_registered id s' 8192 5 = Some (1, 4096)"
proof -
  have "fst (epoll_setmask kernel_os 8192 4096 5 1 (queue_at False no_interest)) = YO_OK"
    by (simp add: epoll_setmask_def sys_simps Let_def reply_of_def kernel_os_def queue_at_def
        no_interest_def after_errno after_eq)
  with epoll_setmask_contract [OF epoll_kernel, where m = 1 and q = 8192 and u = 4096 and fd = 5
      and s = "queue_at False no_interest"]
  show ?thesis by (auto split: prod.splits)
qed

lemma yoa_read_outcomes_witness:
  "case yoa_read epoll_setmask kernel_os 12288 4096 100 200 (queue_at False no_interest) of (c, s') \<Rightarrow>
     c = YO_OK \<and> handle_inv (epoll_registered id s' 8192) s' 8192 4096 [12288]"
proof -
  have "read_code kernel_os 8192 12288 4096 100 200 (queue_at False no_interest) = YO_OK"
    by (simp add: read_code_def epoll_setmask_def sys_simps Let_def reply_of_def kernel_os_def queue_at_def
        no_interest_def after_errno after_eq set_rw_def count_up_def want_mask_def yoi_pl_tomask_def)
  moreover have "rq_queue (queue_at False no_interest) 12288 = 8192" by (simp add: queue_at_def)
  ultimately show ?thesis
    using yoa_read_outcomes [OF epoll_kernel idle_handle _ _ _ _ _ none_ready, where req = 12288 and b = 100 and n = 200]
    by (auto split: prod.splits)
qed

lemma queue_poll_event_witness:
  "\<exists>s'. yo_queue_poll epoll_setmask epoll_poll kernel_os 8192 None 300 400 (queue_at True read_interest)
     = Some (YO_OK, s') \<and> m_ptr s' 300 = 12288"
proof -
  let ?s = "queue_at True read_interest"
  let ?sp = "after kernel_os (CUnlock 8192) (after kernel_os (CLock 8192) ?s)"
  let ?sq = "after kernel_os (CEpollWait 10) (after kernel_os (CTimerfdSettime 11 False 0 0) ?sp)"
  have q: "q_head ?s 8192 = NULL" "timer_fd ?s = (\<lambda>_. 11)" "epoll_fd ?s = (\<lambda>_. 10)"
    by (simp_all add: queue_at_def)
  have pop: "yoi_queue_pop kernel_os 8192 400 ?s = Some (NULL, ?sp)"
    by (simp add: yoi_queue_pop_def sys_simps Let_def q)
  have poll: "epoll_poll kernel_os 8192 None ?sp = Some (YO_OK, 4096, 1, ?sq)"
    by (simp add: epoll_poll_def epoll_wait_loop.simps sys_simps Let_def reply_of_def kernel_os_def q
        data_fd_def epoll_ready_def)
  have w: "world ?sq = world ?s" by (simp add: kernel_os_def)
  have "req_links ?sq = req_links ?s" "epoll_registered id ?sq 8192 = epoll_registered id ?s 8192"
    using w by (simp_all add: epoll_registered_def fun_eq_iff)
  then have inv: "handle_inv (epoll_registered id ?sq 8192) ?sq 8192 4096 [12288]"
    using busy_handle by (simp add: handle_inv_def waiting_def needed_def)
  have need: "needed ?sq [12288] AND 1 \<noteq> 0"
    by (simp add: needed_def waiting_def mask_of_def queue_at_def yoi_pl_tomask_def)
  from queue_poll_event [OF epoll_kernel pop poll _ inv need, where preq = 300]
  show ?thesis by (auto simp: Cons_eq_append_conv)
qed

lemma onclose_cancels_witness:
  "\<exists>s'. yoi_unix_onclose epoll_setmask kernel_os 4096 (queue_at True read_interest) = Some s'
     \<and> ready s' 8192 [(12288, YO_ECANCELED)]"
  using onclose_cancels [OF epoll_kernel busy_handle none_ready] by simp

lemma completions_delivered_once_witness:
  "\<exists>s'. deliveries kernel_os 3 8192 400
       (fold (\<lambda>(x, c). yoi_req_end kernel_os (pl_notify kernel_os) x c) [(12288, YO_OK), (16384, YO_EOF)] (queue_at False no_interest))
     = Some ([(16384, YO_EOF), (12288, YO_OK)], s')"
  using completions_delivered_once [OF none_ready [of False no_interest], of "[(12288, YO_OK), (16384, YO_EOF)]" 3 kernel_os 400]
  by (auto simp: queue_at_def)

lemma req_cancel_breaks_queue_witness:
  "\<exists>s1 s2. yo_req_cancel (pl_dispatch epoll_setmask kernel_os) 12288 (queue_at True read_interest) = Some s1
     \<and> yoi_queue_pop kernel_os 8192 400 s1 = Some (12288, s2) \<and> q_head s2 8192 = 1"
proof -
  have "rq_cell (queue_at True read_interest) 12288 = Cancel PlCancelCb"
    "\<not> get_cancelled 12288 (queue_at True read_interest)" "q_head (queue_at True read_interest) 8192 = NULL"
    by (simp_all add: queue_at_def get_cancelled_def)
  with req_cancel_breaks_queue [OF epoll_kernel busy_handle _ _ _ _ none_ready, where req = 12288 and pcode = 400]
  show ?thesis by auto
qed

lemma past_deadline_skips_events_witness:
  "\<exists>s'. epoll_poll kernel_os 8192 (Some \<lparr>sec = 99, nsec = 0\<rparr>) (queue_at True read_interest)
     = Some (YO_ETIMEOUT, NULL, 0, s')"
  using past_deadline_skips_events [where os = kernel_os and s = "queue_at True read_interest"
      and d = "\<lparr>sec = 99, nsec = 0\<rparr>" and q = 8192]
  by (auto simp: reply_of_def kernel_os_def timespec_time_def yo_timecmp_def)

lemma queue_new_outcome_witness:
  "case yo_queue_new kernel_os (epoll_impl_init kernel_os) (queue_at False no_interest) of (q, s') \<Rightarrow>
     if q \<noteq> NULL then ready s' q []
       \<and> gained [Mem q, Fd (timer_fd s' q), Fd (epoll_fd s' q), Fd (notify_read s' q), Fd (notify_write s' q)] (queue_at False no_interest) s'
     else if ptr (reply_of kernel_os (CMalloc sizeof_yo_queue) (queue_at False no_interest)) = NULL then gained [] (queue_at False no_interest) s'
     else gained [Mem (ptr (reply_of kernel_os (CMalloc sizeof_yo_queue) (queue_at False no_interest)))] (queue_at False no_interest) s'"
  by (rule queue_new_outcome [OF epoll_kernel])

lemma queue_impl_free_opens_pipe_witness:
  "case epoll_impl_free kernel_os 8192 (queue_at False no_interest) of (c, s') \<Rightarrow>
     if c = YO_OK then \<forall>x. held (trace s') x
          + int (count_list [Fd (timer_fd (queue_at False no_interest) 8192), Fd (epoll_fd (queue_at False no_interest) 8192)] x)
        = held (trace (queue_at False no_interest)) x + int (count_list [Fd (notify_read s' 8192), Fd (notify_write s' 8192)] x)
     else gained [] (queue_at False no_interest) s'"
  by (rule queue_impl_free_opens_pipe [OF epoll_kernel])

end
