(* ===== verification/Poll.thy ===== *)
theory Poll
  imports Pollish Clock
begin

text \<open>
  The backend over \<open>poll\<close>: \<open>src/unix/poll.c\<close> and \<open>src/unix/poll.h\<close>, which is compiled
  when epoll is switched off. Each queue keeps a doubly linked list of nodes, one for each watched
  descriptor, and an array of \<open>struct pollfd\<close> that is filled before each call. The backend
  meets the same contract as the epoll one.
\<close>

section \<open>State\<close>

text \<open>\<open>po_arr q\<close> are the elements of the array \<open>fds\<close>: descriptor, events, returned events.\<close>

record 'w po = "'w pl" +
  po_next :: "addr \<Rightarrow> addr"
  po_slot :: "addr \<Rightarrow> slot"
  po_fd :: "addr \<Rightarrow> int"
  po_udata :: "addr \<Rightarrow> addr"
  po_evn :: "addr \<Rightarrow> u32"
  po_idx :: "addr \<Rightarrow> nat"
  po_head :: "addr \<Rightarrow> addr"
  po_fds :: "addr \<Rightarrow> addr"
  po_cap :: "addr \<Rightarrow> u64"
  po_arr :: "addr \<Rightarrow> (int \<times> u32 \<times> u32) list"

abbreviation (input) sizeof_poll_node :: u64 where "sizeof_poll_node \<equiv> 48"
abbreviation (input) sizeof_pollfd :: u64 where "sizeof_pollfd \<equiv> 8"
abbreviation (input) POLLIN :: u32 where "POLLIN \<equiv> 1"
abbreviation (input) POLLOUT :: u32 where "POLLOUT \<equiv> 4"
abbreviation (input) POLLERR :: u32 where "POLLERR \<equiv> 8"
abbreviation (input) POLLHUP :: u32 where "POLLHUP \<equiv> 16"

definition poll_links :: "('w, 'z) po_scheme \<Rightarrow> links" where
  "poll_links s = \<lparr>l_next = po_next s, l_slot = po_slot s, l_head = po_head s\<rparr>"

definition put_poll_links :: "links \<Rightarrow> ('w, 'z) po_scheme \<Rightarrow> ('w, 'z) po_scheme" where
  "put_poll_links L s = s\<lparr>po_next := l_next L, po_slot := l_slot L, po_head := l_head L\<rparr>"

section \<open>The list of watched descriptors\<close>

text \<open>
  The walk of a \<open>for\<close> loop that stops at the first node with a property. A list has fewer
  nodes than there are addresses, which bounds the walk.
\<close>

fun walk :: "nat \<Rightarrow> (addr \<Rightarrow> addr) \<Rightarrow> (addr \<Rightarrow> bool) \<Rightarrow> addr \<Rightarrow> addr" where
  "walk 0 nxt p i = NULL"
| "walk (Suc n) nxt p i = (if i = NULL then NULL else if p i then i else walk n nxt p (nxt i))"

definition find_node :: "addr \<Rightarrow> int \<Rightarrow> ('w, 'z) po_scheme \<Rightarrow> addr" where
  "find_node queue fd s = walk (2 ^ 64) (po_next s) (\<lambda>i. po_fd s i = fd) (po_head s queue)"

definition poll_setmask ::
  "'w os \<Rightarrow> addr \<Rightarrow> addr \<Rightarrow> int \<Rightarrow> u32 \<Rightarrow> ('w, 'z) po_scheme \<Rightarrow> yo_code \<times> ('w, 'z) po_scheme" where
  "poll_setmask os queue udata fd msk s =
     (if msk = 0 then
        let i = find_node queue fd s;
            s = (if i \<noteq> NULL then put_poll_links (yoi_dlist_del i (poll_links s)) s else s)
        in (YO_OK, s)
      else
        let i = find_node queue fd s;
            update = (\<lambda>i s. (YO_OK, s\<lparr>po_evn := (po_evn s)(i := msk), po_udata := (po_udata s)(i := udata)\<rparr>))
        in if i = NULL then
             let (i, s) = malloc os sizeof_poll_node s
             in if i = NULL then (YO_ENOMEM, s)
                else
                  let s = s\<lparr>po_fd := (po_fd s)(i := fd)\<rparr>;
                      s = put_poll_links (yoi_dlist_add queue i (poll_links s)) s
                  in update i s
           else update i s)"

definition poll_registered :: "('w, 'z) po_scheme \<Rightarrow> addr \<Rightarrow> int \<Rightarrow> (u32 \<times> addr) option" where
  "poll_registered s q fd =
     (let i = find_node q fd s in if i = NULL then None else Some (po_evn s i, po_udata s i))"

section \<open>Filling the array\<close>

text \<open>
  \<open>realloc\<close> keeps the elements; the others are not initialised, which is 0 here. \<open>None\<close> when
  an element outside the array is written.
\<close>

definition grow :: "(int \<times> u32 \<times> u32) list \<Rightarrow> nat \<Rightarrow> (int \<times> u32 \<times> u32) list" where
  "grow xs n = take n xs @ replicate (n - length xs) (0, 0, 0)"

definition fds_room :: "'w os \<Rightarrow> addr \<Rightarrow> nat \<Rightarrow> ('w, 'z) po_scheme \<Rightarrow> bool \<times> ('w, 'z) po_scheme" where
  "fds_room os queue n s =
     (if of_nat n \<ge> po_cap s queue then
        let cap = po_cap s queue * 2;
            cap = (if cap = 0 then 16 else cap);
            s = s\<lparr>po_cap := (po_cap s)(queue := cap)\<rparr>;
            (r, s) = syscall os (CRealloc (po_fds s queue) (sizeof_pollfd * po_cap s queue)) s
        in if ptr r = NULL then (False, s)
           else (True, s\<lparr>po_fds := (po_fds s)(queue := ptr r),
                         po_arr := (po_arr s)(queue := grow (po_arr s queue) (unat (po_cap s queue)))\<rparr>)
      else (True, s))"

definition yoi_poll_addfd ::
  "'w os \<Rightarrow> addr \<Rightarrow> addr \<Rightarrow> nat \<Rightarrow> ('w, 'z) po_scheme \<Rightarrow> (bool \<times> nat \<times> ('w, 'z) po_scheme) option" where
  "yoi_poll_addfd os queue node n s =
     (let (ok, s) = fds_room os queue n s
      in if \<not> ok then Some (False, n, s)
         else
           let target = n; n = n + 1
           in if n \<ge> length (po_arr s queue) then None
              else
                let s = s\<lparr>po_arr := (po_arr s)(queue := (po_arr s queue)[n := (0, 0, 0)])\<rparr>;
                    events = 0;
                    events = (if po_evn s node AND YOI_PL_READABLE \<noteq> 0 then events OR POLLIN else events);
                    events = (if po_evn s node AND YOI_PL_WRITABLE \<noteq> 0 then events OR POLLOUT else events);
                    old = snd (snd (po_arr s queue ! target));
                    s = s\<lparr>po_arr := (po_arr s)(queue := (po_arr s queue)[target := (po_fd s node, events, old)]),
                          po_idx := (po_idx s)(node := target)\<rparr>
                in Some (True, n, s))"

partial_function (option) add_all ::
  "'w os \<Rightarrow> addr \<Rightarrow> addr \<Rightarrow> nat \<Rightarrow> ('w, 'z) po_scheme \<Rightarrow> (bool \<times> nat \<times> ('w, 'z) po_scheme) option" where
  "add_all os queue it n s =
     (if it = NULL then Some (True, n, s)
      else do {
        (ok, n, s) \<leftarrow> yoi_poll_addfd os queue it n s;
        if \<not> ok then Some (False, n, s) else add_all os queue (po_next s it) n s
      })"

section \<open>Waiting\<close>

text \<open>The time left until the deadline, as \<open>ppoll\<close> takes it.\<close>

definition poll_timeout :: "yo_time \<Rightarrow> yo_time \<Rightarrow> int \<times> int" where
  "poll_timeout deadline now =
     (let diff = yo_timesub deadline now in
      if sec diff <s 0 then (0, 0) else (sint (sec diff), uint (nsec diff)))"

definition poll_once ::
  "'w os \<Rightarrow> addr \<Rightarrow> nat \<Rightarrow> yo_time option \<Rightarrow> ('w, 'z) po_scheme \<Rightarrow> (reply \<times> ('w, 'z) po_scheme) option" where
  "poll_once os queue fd_n deadline s =
     (let fds = map (\<lambda>(fd, ev, _). (fd, ev)) (take fd_n (po_arr s queue))
      in case deadline of
           None \<Rightarrow> Some (syscall os (CPoll fds None) s)
         | Some d \<Rightarrow> do {
             (now, s) \<leftarrow> yo_time_now os YO_CLOCK_MONO s;
             Some (syscall os (CPoll fds (Some (poll_timeout d now))) s)
           })"

partial_function (option) yoi_poll_wrapper ::
  "'w os \<Rightarrow> addr \<Rightarrow> nat \<Rightarrow> yo_time option \<Rightarrow> ('w, 'z) po_scheme \<Rightarrow> (int \<times> ('w, 'z) po_scheme) option" where
  "yoi_poll_wrapper os queue fd_n deadline s =
     do {
       (r, s) \<leftarrow> poll_once os queue fd_n deadline s;
       if ret r < 0 then
         if errno s = EINTR \<or> errno s = EAGAIN then yoi_poll_wrapper os queue fd_n deadline s else None
       else
         Some (ret r, s\<lparr>po_arr := (po_arr s)(queue :=
           map2 (\<lambda>(fd, ev, _) rev. (fd, ev, rev)) (take fd_n (po_arr s queue)) (r_revents r)
             @ drop fd_n (po_arr s queue))\<rparr>)
     }"

definition poll_ready :: "u32 \<Rightarrow> u32" where
  "poll_ready revents =
     (let rdy = 0;
          rdy = (if revents AND (POLLIN OR POLLERR OR POLLHUP) \<noteq> 0 then rdy OR YOI_PL_READABLE else rdy);
          rdy = (if revents AND (POLLOUT OR POLLERR OR POLLHUP) \<noteq> 0 then rdy OR YOI_PL_WRITABLE else rdy)
      in rdy)"

partial_function (option) first_ready :: "addr \<Rightarrow> addr \<Rightarrow> ('w, 'z) po_scheme \<Rightarrow> (addr \<times> u32) option" where
  "first_ready queue it s =
     (if it = NULL then Some (NULL, 0)
      else if po_idx s it \<ge> length (po_arr s queue) then None
      else
        let rdy = poll_ready (snd (snd (po_arr s queue ! po_idx s it)))
        in if rdy \<noteq> 0 then Some (it, rdy) else first_ready queue (po_next s it) s)"

definition poll_poll ::
  "'w os \<Rightarrow> addr \<Rightarrow> yo_time option \<Rightarrow> ('w, 'z) po_scheme
     \<Rightarrow> (yo_code \<times> addr \<times> u32 \<times> ('w, 'z) po_scheme) option" where
  "poll_poll os queue deadline s =
     do {
       (ok, fd_n, s) \<leftarrow> add_all os queue (po_head s queue) 0 s;
       if \<not> ok then Some (YO_ENOMEM, NULL, 0, s)
       else do {
         (_, s) \<leftarrow> yoi_poll_wrapper os queue fd_n deadline s;
         (it, rdy) \<leftarrow> first_ready queue (po_head s queue) s;
         if it = NULL then Some (YO_ETIMEOUT, NULL, 0, s)
         else Some (YO_OK, po_udata s it, rdy, s)
       }
     }"

definition poll_impl_init :: "addr \<Rightarrow> ('w, 'z) po_scheme \<Rightarrow> yo_code \<times> ('w, 'z) po_scheme" where
  "poll_impl_init queue s =
     (let s = s\<lparr>po_fds := (po_fds s)(queue := NULL), po_arr := (po_arr s)(queue := [])\<rparr>;
          s = s\<lparr>po_cap := (po_cap s)(queue := 0)\<rparr>;
          s = s\<lparr>po_head := (po_head s)(queue := NULL)\<rparr>
      in (YO_OK, s))"

definition poll_impl_free :: "addr \<Rightarrow> ('w, 'z) po_scheme \<Rightarrow> yo_code \<times> ('w, 'z) po_scheme" where
  "poll_impl_free queue s = (YO_OK, s)"

text \<open>\<open>_yoi_poll_subms_diff\<close>, which nothing calls.\<close>

definition yoi_poll_subms_diff :: "'w os \<Rightarrow> yo_time \<Rightarrow> ('w, 'z) sys_scheme \<Rightarrow> (u64 \<times> ('w, 'z) sys_scheme) option" where
  "yoi_poll_subms_diff os timeout s =
     do {
       (now, s) \<leftarrow> yo_time_now os YO_CLOCK_MONO s;
       let diff = yo_timesub now timeout in
       if sec diff \<noteq> 0 then Some (0, s)
       else if nsec diff > 1000000 then Some (0, s)
       else Some (ucast (nsec diff), s)
     }"

section \<open>The contract\<close>

lemma chain_length: "chain nxt p xs \<Longrightarrow> length xs < 2 ^ 64"
proof -
  assume c: "chain nxt p xs"
  have "distinct (NULL # xs)" using chain_distinct [OF c] chain_nonnull [OF c] by simp
  then have "length (NULL # xs) = card (set (NULL # xs))" by (simp only: distinct_card)
  also have "\<dots> \<le> card (UNIV :: addr set)" by (rule card_mono) simp_all
  finally show ?thesis by (simp add: card_word)
qed

lemma walk_chain:
  "chain nxt p xs \<Longrightarrow> length xs < n \<Longrightarrow> walk n nxt P p = (case find P xs of None \<Rightarrow> NULL | Some x \<Rightarrow> x)"
proof (induction xs arbitrary: p n)
  case Nil
  then show ?case by (cases n) auto
next
  case (Cons x xs)
  then obtain m where "n = Suc m" by (cases n) auto
  with Cons show ?case by auto
qed

text \<open>The lists of the queues: \<open>F q\<close> are the nodes of the queue \<open>q\<close>, one for each descriptor.\<close>

definition poll_lists :: "('w, 'z) po_scheme \<Rightarrow> (addr \<Rightarrow> addr list) \<Rightarrow> bool" where
  "poll_lists s F \<longleftrightarrow> family dlist (poll_links s) UNIV F \<and> (\<forall>q. distinct (map (po_fd s) (F q)))"

text \<open>
  The heap: \<open>H\<close> are the addresses in use, \<open>malloc\<close> returns one that is not, and the calls that
  finishing a request makes free nothing.
\<close>

definition heap_os :: "('w \<Rightarrow> addr set) \<Rightarrow> 'w os \<Rightarrow> bool" where
  "heap_os H os \<longleftrightarrow>
     (\<forall>w n. let (r, w') = os w (CMalloc n)
        in H w \<subseteq> H w' \<and> (ptr r \<noteq> NULL \<longrightarrow> ptr r \<notin> H w \<and> ptr r \<in> H w'))
   \<and> (\<forall>w q. quiet q \<longrightarrow> H w \<subseteq> H (snd (os w q)))"

definition poll_sane :: "('w \<Rightarrow> addr set) \<Rightarrow> 'w os \<Rightarrow> ('w, 'z) po_scheme \<Rightarrow> bool" where
  "poll_sane H os s \<longleftrightarrow> heap_os H os \<and> (\<exists>F. poll_lists s F \<and> (\<forall>q. set (F q) \<subseteq> H (world s)))"

lemma find_node_eq:
  assumes "poll_lists s F"
  shows "find_node q fd s = (case find (\<lambda>i. po_fd s i = fd) (F q) of None \<Rightarrow> NULL | Some x \<Rightarrow> x)"
proof -
  have "dlist (poll_links s) q (F q)" using assms by (simp add: poll_lists_def family_def)
  then have "chain (po_next s) (po_head s q) (F q)" by (simp add: dlist_def poll_links_def)
  from walk_chain [OF this chain_length [OF this]] show ?thesis by (simp add: find_node_def)
qed

lemma find_node_cases:
  assumes "poll_lists s F"
  shows "find_node q fd s = NULL \<and> find (\<lambda>i. po_fd s i = fd) (F q) = None \<and> (\<forall>i \<in> set (F q). po_fd s i \<noteq> fd)
     \<or> (\<exists>i. find_node q fd s = i \<and> find (\<lambda>i. po_fd s i = fd) (F q) = Some i
          \<and> i \<in> set (F q) \<and> po_fd s i = fd \<and> i \<noteq> NULL)"
proof (cases "find (\<lambda>i. po_fd s i = fd) (F q)")
  case None
  then have "\<forall>i \<in> set (F q). po_fd s i \<noteq> fd" by (auto simp: find_None_iff)
  with None show ?thesis using find_node_eq [OF assms, of q fd] by (simp del: find_None_iff)
next
  case (Some i)
  then have i: "i \<in> set (F q)" "po_fd s i = fd" by (auto simp: find_Some_iff)
  have "dlist (poll_links s) q (F q)" using assms by (simp add: poll_lists_def family_def)
  then have "NULL \<notin> set (F q)" by (auto simp: dlist_def dest: chain_nonnull)
  with i Some show ?thesis using find_node_eq [OF assms, of q fd] by auto
qed

lemma registered_eq:
  assumes "poll_lists s F"
  shows "poll_registered s q fd = map_option (\<lambda>i. (po_evn s i, po_udata s i)) (find (\<lambda>i. po_fd s i = fd) (F q))"
  using find_node_cases [OF assms, of q fd] by (auto simp: poll_registered_def Let_def)

lemma poll_upd_simps [simp]:
  "poll_links (put_poll_links L s) = L" "po_fd (put_poll_links L s) = po_fd s"
  "po_evn (put_poll_links L s) = po_evn s" "po_udata (put_poll_links L s) = po_udata s"
  "world (put_poll_links L s) = world s" "poll_links (s\<lparr>po_fd := f\<rparr>) = poll_links s"
  "poll_links (s\<lparr>po_evn := e, po_udata := d\<rparr>) = poll_links s"
  by (simp_all add: put_poll_links_def poll_links_def)

lemma po_after_simps [simp]:
  "poll_links (after os q s) = poll_links s" "po_fd (after os q s) = po_fd s"
  "po_evn (after os q s) = po_evn s" "po_udata (after os q s) = po_udata s"
  "po_next (after os q s) = po_next s" "po_head (after os q s) = po_head s"
  by (simp_all add: after_eq poll_links_def)

lemma registered_after [simp]: "poll_registered (after os q s) = poll_registered s"
  by (simp add: poll_registered_def find_node_def fun_eq_iff Let_def)

lemma same_requests_po:
  "same_requests s (put_poll_links L t) = same_requests s t"
  "same_requests s (t\<lparr>po_evn := e, po_udata := d\<rparr>) = same_requests s t"
  "same_requests s (t\<lparr>po_fd := f\<rparr>) = same_requests s t"
  by (simp_all add: same_requests_def same_queues_def req_links_def put_poll_links_def)

text \<open>The new list of nodes, on each path through \<open>setmask\<close>.\<close>

lemma poll_setmask_lists:
  assumes sane: "heap_os H os" and F: "poll_lists s F" "\<forall>q. set (F q) \<subseteq> H (world s)"
    and run: "poll_setmask os q u fd m s = (c, s')"
  obtains (removed) i where "m = 0" "c = YO_OK" "i \<in> set (F q)" "po_fd s i = fd"
      "s' = put_poll_links (yoi_dlist_del i (poll_links s)) s" "poll_lists s' (F(q := remove1 i (F q)))"
  | (absent) "m = 0" "c = YO_OK" "s' = s" "\<forall>i \<in> set (F q). po_fd s i \<noteq> fd"
  | (changed) i where "m \<noteq> 0" "c = YO_OK" "i \<in> set (F q)" "po_fd s i = fd"
      "s' = s\<lparr>po_evn := (po_evn s)(i := m), po_udata := (po_udata s)(i := u)\<rparr>" "poll_lists s' F"
  | (failed) "m \<noteq> 0" "c = YO_ENOMEM" "s' = after os (CMalloc sizeof_poll_node) s"
  | (added) i t where "m \<noteq> 0" "c = YO_OK" "i \<notin> \<Union> (range (\<lambda>q. set (F q)))" "\<forall>i \<in> set (F q). po_fd s i \<noteq> fd"
      "i \<in> H (world s')" "po_fd s' = (po_fd s)(i := fd)" "po_evn s' = (po_evn s)(i := m)"
      "po_udata s' = (po_udata s)(i := u)" "poll_lists s' (F(q := i # F q))" "same_requests s s'"
      "H (world s) \<subseteq> H (world s')" "i \<notin> H (world s)"
proof -
  have dl: "family dlist (poll_links s) UNIV F" and dist: "\<And>q. distinct (map (po_fd s) (F q))"
    using F(1) by (simp_all add: poll_lists_def)
  show thesis
  proof (cases "m = 0")
    case True
    consider (none) "find_node q fd s = NULL" "\<forall>i \<in> set (F q). po_fd s i \<noteq> fd"
      | (some) i where "find_node q fd s = i" "i \<in> set (F q)" "po_fd s i = fd" "i \<noteq> NULL"
      using find_node_cases [OF F(1), of q fd] by blast
    then show thesis
    proof cases
      case none
      with True run absent show thesis by (simp add: poll_setmask_def)
    next
      case (some i)
      have "poll_lists (put_poll_links (yoi_dlist_del i (poll_links s)) s) (F(q := remove1 i (F q)))"
        using dl.family_unlink [OF dl _ some(2)] dist
        by (auto simp: poll_lists_def distinct_map intro: inj_on_subset)
      with some True run removed [of i] show thesis by (auto simp: poll_setmask_def Let_def)
    qed
  next
    case False
    consider (none) "find_node q fd s = NULL" "\<forall>i \<in> set (F q). po_fd s i \<noteq> fd"
      | (some) i where "find_node q fd s = i" "i \<in> set (F q)" "po_fd s i = fd" "i \<noteq> NULL"
      using find_node_cases [OF F(1), of q fd] by blast
    then show thesis
    proof cases
      case (some i)
      have "poll_lists (s\<lparr>po_evn := (po_evn s)(i := m), po_udata := (po_udata s)(i := u)\<rparr>) F"
        using F(1) by (simp add: poll_lists_def)
      with some False run changed [of i] show thesis by (auto simp: poll_setmask_def Let_def)
    next
      case none
      let ?r = "reply_of os (CMalloc sizeof_poll_node) s"
      let ?t = "after os (CMalloc sizeof_poll_node) s"
      show thesis
      proof (cases "ptr ?r = NULL")
        case True
        with none False run failed show thesis by (simp add: poll_setmask_def Let_def sys_simps)
      next
        case nn: False
        let ?i = "ptr ?r"
        have "case os (world s) (CMalloc sizeof_poll_node) of (r, w') \<Rightarrow>
            H (world s) \<subseteq> H w' \<and> (ptr r \<noteq> NULL \<longrightarrow> ptr r \<notin> H (world s) \<and> ptr r \<in> H w')"
          using sane unfolding heap_os_def Let_def by (elim conjE allE)
        then have heap: "H (world s) \<subseteq> H (world ?t)" "?i \<notin> H (world s)" "?i \<in> H (world ?t)"
          using nn by (auto simp: reply_of_def split: prod.splits)
        then have fresh: "?i \<notin> \<Union> (range (\<lambda>q. set (F q)))" using F(2) by blast
        define t where "t = put_poll_links (yoi_dlist_add q ?i (poll_links s)) (?t\<lparr>po_fd := (po_fd s)(?i := fd)\<rparr>)"
        have s': "s' = t\<lparr>po_evn := (po_evn s)(?i := m), po_udata := (po_udata s)(?i := u)\<rparr>" "c = YO_OK"
          using none False nn run by (auto simp: poll_setmask_def Let_def sys_simps t_def)
        have keep: "map ((po_fd s)(?i := fd)) (F p) = map (po_fd s) (F p)" for p
          using fresh by auto
        have "distinct (map ((po_fd s)(?i := fd)) ((F(q := ?i # F q)) p))" for p
        proof (cases "p = q")
          case True
          have "fd \<notin> set (map (po_fd s) (F q))" using none(2) by auto
          with True dist [of q] show ?thesis
            by (simp only: fun_upd_same list.map keep distinct.simps) simp
        next
          case False
          then show ?thesis using dist [of p] by (simp only: fun_upd_other [OF False] keep)
        qed
        moreover have "family dlist (yoi_dlist_add q ?i (poll_links s)) UNIV (F(q := ?i # F q))"
          using fresh nn by (intro dl.family_insert [OF dl]) auto
        ultimately have "poll_lists s' (F(q := ?i # F q))"
          by (simp add: poll_lists_def s' t_def)
        moreover have "same_requests s s'"
          by (simp add: s' t_def same_requests_po same_requests_after)
        ultimately show thesis
          using added [of ?i] False fresh none(2) heap s' by (simp add: t_def)
      qed
    qed
  qed
qed


lemma find_remove1:
  assumes "distinct (map f xs)" and "x \<in> set xs"
  shows "find (\<lambda>i. f i = v) (remove1 x xs) = (if v = f x then None else find (\<lambda>i. f i = v) xs)"
  using assms by (induction xs) (auto simp: find_None_iff image_iff split: if_splits)

interpretation po: poll_backend poll_setmask "poll_sane H" poll_registered for H
proof
  fix os q u fd fd' m s s' c k
  assume sane: "poll_sane H os s"
  then obtain F where law: "heap_os H os" and F: "poll_lists s F" "\<forall>q. set (F q) \<subseteq> H (world s)"
    by (auto simp: poll_sane_def)
  note paths = poll_setmask_lists [OF law F]
  note reg = registered_eq
  have dist: "distinct (map (po_fd s) (F q))" using F(1) by (simp add: poll_lists_def)
  show "poll_registered s' q fd = (if m = 0 then None else Some (m, u))"
    if run: "poll_setmask os q u fd m s = (YO_OK, s')" and "m AND 3 = m"
    using run
  proof (rule paths)
    fix i assume "m = 0" "i \<in> set (F q)" "po_fd s i = fd"
      and s': "s' = put_poll_links (yoi_dlist_del i (poll_links s)) s" "poll_lists s' (F(q := remove1 i (F q)))"
    then show ?thesis using reg [OF s'(2), of q fd] find_remove1 [OF dist, of i fd] by (simp add: s'(1))
  next
    assume "m = 0" "s' = s" "\<forall>i \<in> set (F q). po_fd s i \<noteq> fd"
    then show ?thesis using reg [OF F(1), of q fd] by (auto simp: find_None_iff find_Some_iff split: option.splits)
  next
    fix i assume a: "m \<noteq> 0" "i \<in> set (F q)" "po_fd s i = fd"
      and s': "s' = s\<lparr>po_evn := (po_evn s)(i := m), po_udata := (po_udata s)(i := u)\<rparr>" "poll_lists s' F"
    have "find (\<lambda>i. po_fd s i = fd) (F q) = Some i"
      using find_node_cases [OF F(1), of q fd] a dist by (auto simp: distinct_map inj_on_def)
    with a show ?thesis using reg [OF s'(2), of q fd] by (simp add: s'(1))
  next
    fix i assume a: "m \<noteq> 0" "po_fd s' = (po_fd s)(i := fd)" "po_evn s' = (po_evn s)(i := m)"
      "po_udata s' = (po_udata s)(i := u)" "poll_lists s' (F(q := i # F q))"
    then show ?thesis using reg [OF a(5), of q fd] by simp
  qed simp_all
  show "poll_sane H os s' \<and> same_requests s s'
      \<and> (fd' \<noteq> fd \<longrightarrow> poll_registered s' q fd' = poll_registered s q fd')"
    if run: "poll_setmask os q u fd m s = (c, s')"
    using run
  proof (rule paths)
    fix i assume a: "m = 0" "i \<in> set (F q)" "po_fd s i = fd"
      and s': "s' = put_poll_links (yoi_dlist_del i (poll_links s)) s" "poll_lists s' (F(q := remove1 i (F q)))"
    have "poll_sane H os s'"
      unfolding poll_sane_def using law s' F(2)
      by (intro conjI exI [of _ "F(q := remove1 i (F q))"]) (auto simp: s'(1) dest: notin_set_remove1)
    moreover have "same_requests s s'" by (simp add: s'(1) same_requests_po same_requests_refl)
    ultimately show ?thesis
      using a reg [OF s'(2), of q fd'] reg [OF F(1), of q fd'] find_remove1 [OF dist, of i fd'] by (simp add: s'(1))
  next
    assume "s' = s"
    then show ?thesis using sane by (simp add: same_requests_refl)
  next
    fix i assume a: "m \<noteq> 0" "i \<in> set (F q)" "po_fd s i = fd"
      and s': "s' = s\<lparr>po_evn := (po_evn s)(i := m), po_udata := (po_udata s)(i := u)\<rparr>" "poll_lists s' F"
    have "poll_sane H os s'"
      unfolding poll_sane_def using law s' F(2) by (intro conjI exI [of _ F]) (auto simp: s'(1))
    moreover have "poll_registered s' q fd' = poll_registered s q fd'" if "fd' \<noteq> fd"
      using find_node_cases [OF F(1), of q fd'] a that reg [OF s'(2), of q fd'] reg [OF F(1), of q fd']
      by (auto simp: s'(1))
    ultimately show ?thesis by (simp add: s'(1) same_requests_po same_requests_refl)
  next
    assume s': "s' = after os (CMalloc sizeof_poll_node) s"
    have "H (world s) \<subseteq> H (world s')"
    proof -
      have "case os (world s) (CMalloc sizeof_poll_node) of (r, w') \<Rightarrow>
          H (world s) \<subseteq> H w' \<and> (ptr r \<noteq> NULL \<longrightarrow> ptr r \<notin> H (world s) \<and> ptr r \<in> H w')"
        using law unfolding heap_os_def Let_def by (elim conjE allE)
      then show ?thesis by (auto simp: s' split: prod.splits)
    qed
    then have "poll_sane H os s'"
      unfolding poll_sane_def using law F by (intro conjI exI [of _ F]) (auto simp: s' poll_lists_def)
    then show ?thesis
      by (simp add: s' same_requests_after)
  next
    fix i assume a: "i \<notin> \<Union> (range (\<lambda>q. set (F q)))" "\<forall>i \<in> set (F q). po_fd s i \<noteq> fd"
      "i \<in> H (world s')" "po_fd s' = (po_fd s)(i := fd)" "po_evn s' = (po_evn s)(i := m)"
      "po_udata s' = (po_udata s)(i := u)" "poll_lists s' (F(q := i # F q))" "same_requests s s'"
      "H (world s) \<subseteq> H (world s')"
    have "poll_sane H os s'"
      unfolding poll_sane_def using law a subset_trans [OF F(2) [rule_format] a(9)]
      by (intro conjI exI [of _ "F(q := i # F q)"]) (simp_all only: fun_upd_apply list.set split: if_splits, auto)
    moreover have "poll_registered s' q fd' = poll_registered s q fd'" if "fd' \<noteq> fd"
    proof -
      have "find (\<lambda>x. ((po_fd s)(i := fd)) x = fd') (F q) = find (\<lambda>x. po_fd s x = fd') (F q)"
        using a(1) by (intro find_cong) auto
      then show ?thesis
        using find_node_cases [OF F(1), of q fd'] a(1) that reg [OF a(7), of q fd'] reg [OF F(1), of q fd']
        by (auto simp: a(4,5,6))
    qed
    ultimately show ?thesis using a(8) by simp
  qed
  show "poll_registered s' q = poll_registered s q"
    if run: "poll_setmask os q u fd m s = (c, s')" and "c \<noteq> YO_OK"
    using run by (rule paths) (use that in simp_all)
  show "poll_sane H os (after os k s) \<and> poll_registered (after os k s) = poll_registered s" if "quiet k"
  proof -
    have "H (world s) \<subseteq> H (world (after os k s))" using law that by (simp add: heap_os_def)
    then have "poll_sane H os (after os k s)"
      unfolding poll_sane_def using law F by (intro conjI exI [of _ F]) (auto simp: poll_lists_def)
    then show ?thesis by simp
  qed
next
  fix s s' :: "('a, 'b) po_scheme" and os :: "'a os"
  assume w: "world s' = world s" and m: "pl.more s' = pl.more s"
  then have eq: "po_next s' = po_next s" "po_slot s' = po_slot s" "po_fd s' = po_fd s" "po_head s' = po_head s"
    "po_evn s' = po_evn s" "po_udata s' = po_udata s"
    by (cases s; cases s'; simp)+
  then have "poll_lists s' = poll_lists s"
    by (intro ext) (simp add: poll_lists_def poll_links_def)
  then have "poll_sane H os s' = poll_sane H os s" using w by (simp add: poll_sane_def)
  moreover have "poll_registered s' = poll_registered s"
    by (intro ext) (simp add: poll_registered_def find_node_def eq Let_def)
  ultimately show "poll_sane H os s' = poll_sane H os s \<and> poll_registered s' = poll_registered s" by simp
qed

section \<open>The array and the events\<close>

definition poll_events :: "u32 \<Rightarrow> u32" where
  "poll_events evn =
     (let e = (if evn AND YOI_PL_READABLE \<noteq> 0 then POLLIN else 0)
      in if evn AND YOI_PL_WRITABLE \<noteq> 0 then e OR POLLOUT else e)"

definition entry :: "('w, 'z) po_scheme \<Rightarrow> addr \<Rightarrow> int \<times> u32" where
  "entry s i = (po_fd s i, poll_events (po_evn s i))"

text \<open>What is written over the elements \<open>t\<close> for the nodes \<open>xs\<close>, and their indices.\<close>

fun lay :: "(addr \<Rightarrow> int \<times> u32) \<Rightarrow> addr list \<Rightarrow> (int \<times> u32 \<times> u32) list \<Rightarrow> (int \<times> u32 \<times> u32) list" where
  "lay e [] t = t"
| "lay e (x # xs) t = (fst (e x), snd (e x), snd (snd (hd t))) # lay e xs ((0, 0, 0) # drop 2 t)"

fun number :: "nat \<Rightarrow> addr list \<Rightarrow> (addr \<Rightarrow> nat) \<Rightarrow> addr \<Rightarrow> nat" where
  "number n [] f = f"
| "number n (x # xs) f = number (Suc n) xs (f(x := n))"

lemma length_lay: "length xs < length t \<Longrightarrow> length (lay e xs t) = length t"
  by (induction xs arbitrary: t) auto

lemma take_lay:
  "length xs < length t \<Longrightarrow> map (\<lambda>(fd, ev, _). (fd, ev)) (take (length xs) (lay e xs t)) = map e xs"
  by (induction xs arbitrary: t) (auto simp: split_def)

lemma number_other: "x \<notin> set xs \<Longrightarrow> number n xs f x = f x"
  by (induction xs arbitrary: n f) auto

lemma number_nth: "distinct xs \<Longrightarrow> j < length xs \<Longrightarrow> number n xs f (xs ! j) = n + j"
proof (induction xs arbitrary: n f j)
  case (Cons x xs)
  then show ?case by (cases j) (auto simp: number_other)
qed simp

lemma below_cap: "n < unat (c :: u64) \<Longrightarrow> \<not> c \<le> of_nat n"
proof -
  assume n: "n < unat c"
  then have "n < 2 ^ 64" using unsigned_less [of c, where 'a = nat] by simp
  then have "unat (of_nat n :: u64) = n" by (simp add: unsigned_of_nat take_bit_nat_eq_self)
  with n show ?thesis by (simp add: word_le_nat_alt)
qed

lemma addfd_inside:
  assumes "n < unat (po_cap s q)" and "Suc n < length (po_arr s q)"
  shows "yoi_poll_addfd os q i n s = Some (True, Suc n,
       s\<lparr>po_arr := (po_arr s)(q := (po_arr s q)[Suc n := (0, 0, 0),
              n := (fst (entry s i), snd (entry s i), snd (snd (po_arr s q ! n)))]),
         po_idx := (po_idx s)(i := n)\<rparr>)"
proof -
  have "\<not> po_cap s q \<le> of_nat n" using assms below_cap by blast
  with assms(2) show ?thesis by (auto simp: yoi_poll_addfd_def fds_room_def Let_def poll_events_def entry_def)
qed

lemma addfd_last:
  assumes "n < unat (po_cap s q)" and "length (po_arr s q) \<le> Suc n"
  shows "yoi_poll_addfd os q i n s = None"
proof -
  have "\<not> po_cap s q \<le> of_nat n" using assms below_cap by blast
  with assms(2) show ?thesis by (simp add: yoi_poll_addfd_def fds_room_def)
qed

lemma lay_step:
  assumes "Suc n < length t"
  shows "take (Suc n) (t[Suc n := z, n := y]) @ lay e xs (drop (Suc n) (t[Suc n := z, n := y]))
     = take n t @ y # lay e xs (z # drop 2 (drop n t))"
proof -
  have "t[Suc n := z, n := y] = take n t @ y # z # drop (Suc (Suc n)) t"
    using assms by (simp add: list_update_swap upd_conv_take_nth_drop list_update_append take_Suc_conv_app_nth)
  then show ?thesis using assms by simp
qed

lemma add_all_inside:
  assumes "chain (po_next s) p xs" and "length (po_arr s q) = unat (po_cap s q)"
    and "n + length xs < unat (po_cap s q)"
  shows "add_all os q p n s = Some (True, n + length xs,
     s\<lparr>po_arr := (po_arr s)(q := take n (po_arr s q) @ lay (entry s) xs (drop n (po_arr s q))),
       po_idx := number n xs (po_idx s)\<rparr>)"
  using assms
proof (induction xs arbitrary: p n s)
  case Nil
  then show ?case by (simp add: add_all.simps)
next
  case (Cons x xs)
  then have p: "p = x" "x \<noteq> NULL" "chain (po_next s) (po_next s x) xs" by auto
  let ?y = "(fst (entry s x), snd (entry s x), snd (snd (po_arr s q ! n)))"
  let ?t = "s\<lparr>po_arr := (po_arr s)(q := (po_arr s q)[Suc n := (0, 0, 0), n := ?y]), po_idx := (po_idx s)(x := n)\<rparr>"
  have "yoi_poll_addfd os q x n s = Some (True, Suc n, ?t)"
    using addfd_inside [of n s q os x] Cons.prems by simp
  moreover have "add_all os q (po_next s x) (Suc n) ?t = Some (True, Suc n + length xs,
     ?t\<lparr>po_arr := (po_arr ?t)(q := take (Suc n) (po_arr ?t q) @ lay (entry ?t) xs (drop (Suc n) (po_arr ?t q))),
       po_idx := number (Suc n) xs (po_idx ?t)\<rparr>)"
    using Cons.prems p by (intro Cons.IH) auto
  moreover have "entry ?t = entry s" by (simp add: entry_def fun_eq_iff)
  moreover have "hd (drop n (po_arr s q)) = po_arr s q ! n" using Cons.prems by (simp add: hd_drop_conv_nth)
  ultimately show ?case
    using lay_step [of n "po_arr s q" "(0,0,0)" ?y "entry s" xs] Cons.prems p
    by (subst add_all.simps) simp
qed

lemma add_all_overflow:
  assumes "chain (po_next s) p xs" and "length (po_arr s q) = unat (po_cap s q)"
    and "n < unat (po_cap s q)" and "unat (po_cap s q) \<le> n + length xs"
  shows "add_all os q p n s = None"
  using assms
proof (induction xs arbitrary: p n s)
  case (Cons x xs)
  then have p: "p = x" "x \<noteq> NULL" "chain (po_next s) (po_next s x) xs" by auto
  show ?case
  proof (cases "Suc n < unat (po_cap s q)")
    case True
    let ?y = "(fst (entry s x), snd (entry s x), snd (snd (po_arr s q ! n)))"
    let ?t = "s\<lparr>po_arr := (po_arr s)(q := (po_arr s q)[Suc n := (0, 0, 0), n := ?y]), po_idx := (po_idx s)(x := n)\<rparr>"
    have "yoi_poll_addfd os q x n s = Some (True, Suc n, ?t)"
      using addfd_inside [of n s q os x] Cons.prems True by simp
    moreover have "add_all os q (po_next s x) (Suc n) ?t = None"
      using Cons.prems p True by (intro Cons.IH) auto
    ultimately show ?thesis using p by (subst add_all.simps) simp
  next
    case False
    then have "yoi_poll_addfd os q x n s = None" using Cons.prems by (intro addfd_last) auto
    then show ?thesis using p by (subst add_all.simps) simp
  qed
qed simp

text \<open>The first node that is ready decides the event.\<close>

lemma first_ready_eq:
  assumes "chain (po_next s) p xs" and "\<forall>j < length xs. po_idx s (xs ! j) = k + j"
    and "k + length xs \<le> length (po_arr s q)"
  shows "first_ready q p s = Some (case find (\<lambda>(i, e). poll_ready (snd (snd e)) \<noteq> 0) (zip xs (drop k (po_arr s q)))
     of None \<Rightarrow> (NULL, 0) | Some (i, e) \<Rightarrow> (i, poll_ready (snd (snd e))))"
  using assms
proof (induction xs arbitrary: p k)
  case Nil
  then show ?case by (simp add: first_ready.simps)
next
  case (Cons x xs)
  then have p: "p = x" "x \<noteq> NULL" "chain (po_next s) (po_next s x) xs" by auto
  have k: "k < length (po_arr s q)" "po_idx s x = k" using Cons.prems(2,3) by auto
  have idx: "\<forall>j < length xs. po_idx s (xs ! j) = Suc k + j"
    using Cons.prems(2) by (auto dest: spec [of _ "Suc _"])
  have ih: "first_ready q (po_next s x) s
      = Some (case find (\<lambda>(i, e). poll_ready (snd (snd e)) \<noteq> 0) (zip xs (drop (Suc k) (po_arr s q)))
     of None \<Rightarrow> (NULL, 0) | Some (i, e) \<Rightarrow> (i, poll_ready (snd (snd e))))"
    using Cons.prems(3) p by (intro Cons.IH idx) auto
  have "drop k (po_arr s q) = po_arr s q ! k # drop (Suc k) (po_arr s q)"
    using k(1) by (rule Cons_nth_drop_Suc [symmetric])
  then show ?case using p k ih by (subst first_ready.simps) (simp add: Let_def)
qed

lemma find_ready_map2:
  "length es = length xs \<Longrightarrow> length rs = length xs
     \<Longrightarrow> (case find (\<lambda>(i, e). poll_ready (snd (snd e)) \<noteq> 0)
               (zip xs (map2 (\<lambda>(fd, ev, _) rv. (fd, ev, rv)) es rs @ zs))
          of None \<Rightarrow> (NULL, 0) | Some (i, e) \<Rightarrow> (i, poll_ready (snd (snd e))))
       = (case find (\<lambda>(i, ev). poll_ready ev \<noteq> 0) (zip xs rs)
          of None \<Rightarrow> (NULL, 0) | Some (i, ev) \<Rightarrow> (i, poll_ready ev))"
proof (induction xs arbitrary: es rs)
  case (Cons x xs)
  then obtain e es' r rs' where "es = e # es'" "rs = r # rs'" by (metis length_Suc_conv)
  with Cons show ?case by (simp add: split_def)
qed simp

definition watches :: "('w, 'z) po_scheme \<Rightarrow> addr \<Rightarrow> addr list \<Rightarrow> bool" where
  "watches s q xs \<longleftrightarrow> chain (po_next s) (po_head s q) xs \<and> length (po_arr s q) = unat (po_cap s q)"

text \<open>The system's \<open>poll\<close> may be interrupted any number of times, and is then called again.\<close>

abbreviation world_then :: "'w os \<Rightarrow> call \<Rightarrow> nat \<Rightarrow> 'w \<Rightarrow> 'w" where
  "world_then os c k w \<equiv> ((\<lambda>w. snd (os w c)) ^^ k) w"

definition interrupted :: "'w os \<Rightarrow> call \<Rightarrow> 'w \<Rightarrow> bool" where
  "interrupted os c w \<longleftrightarrow> ret (fst (os w c)) < 0 \<and> eno (fst (os w c)) \<in> {Some EINTR, Some EAGAIN}"

lemma poll_wrapper_repeats:
  assumes "c = CPoll (map (\<lambda>(fd, ev, _). (fd, ev)) (take n (po_arr s q))) None"
    and "\<forall>i < k. interrupted os c (world_then os c i (world s))"
    and "r = fst (os (world_then os c k (world s)) c)" and "0 \<le> ret r"
  shows "\<exists>u. yoi_poll_wrapper os q n None s = Some (ret r, u)
     \<and> po_arr u q = map2 (\<lambda>(fd, ev, _) rv. (fd, ev, rv)) (take n (po_arr s q)) (r_revents r) @ drop n (po_arr s q)
     \<and> po_next u = po_next s \<and> po_head u = po_head s \<and> po_idx u = po_idx s \<and> po_udata u = po_udata s"
  using assms
proof (induction k arbitrary: s)
  case 0
  then show ?case
    by (subst yoi_poll_wrapper.simps) (simp add: poll_once_def Let_def sys_simps reply_of_def after_eq)
next
  case (Suc k)
  let ?t = "after os c s"
  have t: "po_arr ?t = po_arr s" "po_next ?t = po_next s" "po_head ?t = po_head s" "po_idx ?t = po_idx s" "po_udata ?t = po_udata s"
    by (simp_all add: after_eq)
  have "interrupted os c (world s)" using Suc.prems(2) by (auto dest: spec [of _ 0])
  then have "ret (reply_of os c s) < 0" "errno ?t = EINTR \<or> errno ?t = EAGAIN"
    by (auto simp: interrupted_def reply_of_def after_errno)
  then have again: "yoi_poll_wrapper os q n None s = yoi_poll_wrapper os q n None ?t"
    using Suc.prems(1) by (subst yoi_poll_wrapper.simps) (auto simp: poll_once_def Let_def sys_simps)
  have "interrupted os c (world_then os c i (world ?t))" if "i < k" for i
    using spec [OF Suc.prems(2), of "Suc i"] that by (simp del: funpow.simps(2) add: funpow_Suc_right)
  with Suc.IH [of ?t] Suc.prems t show ?case unfolding again by (simp del: funpow.simps(2) add: funpow_Suc_right)
qed

lemma poll_poll_eq:
  fixes s :: "('w, 'z) po_scheme"
  assumes w: "watches s q xs" and len: "length xs < unat (po_cap s q)" and c: "c = CPoll (map (entry s) xs) None"
    and k: "\<forall>i < k. interrupted os c (world_then os c i (world s))"
    and r: "r = fst (os (world_then os c k (world s)) c)" "0 \<le> ret r" "length (r_revents r) = length xs"
  shows "\<exists>s'. poll_poll os q None s = Some
     (case find (\<lambda>(i, ev). poll_ready ev \<noteq> 0) (zip xs (r_revents r)) of
        None \<Rightarrow> (YO_ETIMEOUT, NULL, 0, s')
      | Some (i, ev) \<Rightarrow> (YO_OK, po_udata s i, poll_ready ev, s'))"
proof -
  have ch: "chain (po_next s) (po_head s q) xs" and arr: "length (po_arr s q) = unat (po_cap s q)"
    using w by (simp_all add: watches_def)
  let ?A = "lay (entry s) xs (po_arr s q)"
  let ?t = "s\<lparr>po_arr := (po_arr s)(q := ?A), po_idx := number 0 xs (po_idx s)\<rparr>"
  have add: "add_all os q (po_head s q) 0 s = Some (True, length xs, ?t)"
    using add_all_inside [OF ch arr, of 0 os] len by simp
  have A: "length ?A = length (po_arr s q)" "map (\<lambda>(fd, ev, _). (fd, ev)) (take (length xs) ?A) = map (entry s) xs"
    using len arr by (simp_all add: length_lay take_lay)
  let ?B = "map2 (\<lambda>(fd, ev, _) rv. (fd, ev, rv)) (take (length xs) ?A) (r_revents r) @ drop (length xs) ?A"
  obtain u where wr: "yoi_poll_wrapper os q (length xs) None ?t = Some (ret r, u)"
    and u: "po_arr u q = ?B" "po_next u = po_next s" "po_head u = po_head s" "po_idx u = number 0 xs (po_idx s)"
      "po_udata u = po_udata s"
    using poll_wrapper_repeats [of c "length xs" ?t q k os r] A(2) c k r by auto
  have "first_ready q (po_head u q) u = Some (case find (\<lambda>(i, ev). poll_ready ev \<noteq> 0) (zip xs (r_revents r))
     of None \<Rightarrow> (NULL, 0) | Some (i, ev) \<Rightarrow> (i, poll_ready ev))"
  proof (subst first_ready_eq [where k = 0 and xs = xs])
    show "chain (po_next u) (po_head u q) xs" using ch u by simp
    show "\<forall>j < length xs. po_idx u (xs ! j) = 0 + j"
      using number_nth [OF chain_distinct [OF ch]] by (simp add: u)
    show "0 + length xs \<le> length (po_arr u q)" using r(3) A(1) len arr by (simp add: u)
  qed (use find_ready_map2 [of "take (length xs) ?A" xs "r_revents r"] r(3) A(1) len arr in \<open>simp add: u\<close>)
  moreover have "i \<noteq> NULL" if "find (\<lambda>(i, ev). poll_ready ev \<noteq> 0) (zip xs (r_revents r)) = Some (i, ev)" for i ev
    using that chain_nonnull [OF ch] by (auto simp: find_Some_iff) (metis nth_mem)
  ultimately show ?thesis
    using add wr u by (intro exI [of _ u]) (auto simp: poll_poll_def split: option.splits)
qed

text \<open>A queue that watches nothing does not make its array.\<close>

lemma poll_poll_none:
  fixes s :: "('w, 'z) po_scheme"
  assumes w: "watches s q []" and c: "c = CPoll [] None"
    and k: "\<forall>i < k. interrupted os c (world_then os c i (world s))"
    and r: "r = fst (os (world_then os c k (world s)) c)" "0 \<le> ret r"
  shows "\<exists>s'. poll_poll os q None s = Some (YO_ETIMEOUT, NULL, 0, s')"
proof -
  have head: "po_head s q = NULL" using w by (simp add: watches_def)
  obtain u where "yoi_poll_wrapper os q 0 None s = Some (ret r, u)" "po_head u = po_head s"
    using poll_wrapper_repeats [of c 0 s q k os r] c k r by auto
  with head show ?thesis by (simp add: poll_poll_def add_all.simps first_ready.simps)
qed

text \<open>The array is made when the first node is added.\<close>

definition made :: "'w os \<Rightarrow> addr \<Rightarrow> ('w, 'z) po_scheme \<Rightarrow> ('w, 'z) po_scheme" where
  "made os q s = snd (fds_room os q 0 s)"

lemma fds_room_first:
  assumes "po_cap s q = 0" and "ptr (reply_of os (CRealloc (po_fds s q) 128) s) \<noteq> NULL"
  shows "fds_room os q 0 s = (True, made os q s)"
    and "po_next (made os q s) = po_next s" and "po_head (made os q s) = po_head s"
    and "po_cap (made os q s) q = 16" and "entry (made os q s) = entry s"
    and "po_arr (made os q s) q = grow (po_arr s q) 16" and "po_udata (made os q s) = po_udata s"
proof -
  have "reply_of os c (s\<lparr>po_cap := f\<rparr>) = reply_of os c s" for c f by (simp add: reply_of_def)
  with assms show "fds_room os q 0 s = (True, made os q s)"
    by (simp add: made_def fds_room_def Let_def sys_simps)
  from assms \<open>\<And>f c. reply_of os c (s\<lparr>po_cap := f\<rparr>) = reply_of os c s\<close>
  show "po_next (made os q s) = po_next s" and "po_head (made os q s) = po_head s"
    and "po_cap (made os q s) q = 16" and "entry (made os q s) = entry s"
    and "po_arr (made os q s) q = grow (po_arr s q) 16" and "po_udata (made os q s) = po_udata s"
    by (simp_all add: made_def fds_room_def Let_def sys_simps after_eq entry_def fun_eq_iff)
qed

lemma add_all_first:
  assumes "po_cap s q = 0" and "ptr (reply_of os (CRealloc (po_fds s q) 128) s) \<noteq> NULL" and "p \<noteq> NULL"
  shows "add_all os q p 0 s = add_all os q p 0 (made os q s)"
proof -
  note m = fds_room_first [OF assms(1,2)]
  have "fds_room os q 0 (made os q s) = (True, made os q s)" by (simp add: fds_room_def m)
  then have "yoi_poll_addfd os q p 0 s = yoi_poll_addfd os q p 0 (made os q s)"
    using m(1) by (simp add: yoi_poll_addfd_def)
  then show ?thesis using assms(3) by (subst (1 2) add_all.simps) simp
qed

section \<open>Properties\<close>

text \<open>
  C13: the poll backend meets the contract of \<open>setmask\<close>: when no descriptor is watched twice and
  \<open>malloc\<close> returns memory that is not in use, a mask of 0 removes the descriptor, another mask
  registers or modifies it, a failure changes nothing; other descriptors and the requests are left
  alone.
\<close>

theorem poll_setmask_contract:
  assumes "poll_sane H os s" and "m AND 3 = m"
  shows "case poll_setmask os q u fd m s of (c, s') \<Rightarrow>
     poll_sane H os s' \<and> same_requests s s'
   \<and> (\<forall>fd'. fd' \<noteq> fd \<longrightarrow> poll_registered s' q fd' = poll_registered s q fd')
   \<and> poll_registered s' q fd =
       (if c = YO_OK then if m = 0 then None else Some (m, u) else poll_registered s q fd)"
proof -
  obtain c s' where run: "poll_setmask os q u fd m s = (c, s')" by fastforce
  have frame: "poll_sane H os s' \<and> same_requests s s'
      \<and> (fd' \<noteq> fd \<longrightarrow> poll_registered s' q fd' = poll_registered s q fd')" for fd'
    using po.setmask_frame [OF assms(1) run, of fd'] by blast
  have "poll_registered s' q fd =
       (if c = YO_OK then if m = 0 then None else Some (m, u) else poll_registered s q fd)"
    using po.setmask_sets [OF assms(1) _ assms(2)] po.setmask_error [OF assms(1) run] run
    by (cases "c = YO_OK") auto
  with frame run show ?thesis by auto
qed

text \<open>
  C14: the array of a queue holds all watched descriptors when it has room for one more than
  there are, and otherwise filling it writes outside it: the element after the last is cleared
  before the array grows. A queue without an array makes one of 16 elements, so 16 descriptors
  are enough.
\<close>

theorem poll_array_overflow:
  assumes "watches s q xs" and "xs \<noteq> []" and "N = (if po_cap s q = 0 then 16 else unat (po_cap s q))"
    and "po_cap s q = 0 \<longrightarrow> ptr (reply_of os (CRealloc (po_fds s q) 128) s) \<noteq> NULL"
  shows "(length xs < N \<longrightarrow> (\<exists>s'. add_all os q (po_head s q) 0 s = Some (True, length xs, s')
       \<and> map (\<lambda>(fd, ev, _). (fd, ev)) (take (length xs) (po_arr s' q)) = map (entry s) xs))
   \<and> (N \<le> length xs \<longrightarrow> poll_poll os q deadline s = None)"
proof -
  define t where "t = (if po_cap s q = 0 then made os q s else s)"
  have head: "po_head s q \<noteq> NULL" using assms(1,2) by (cases xs) (auto simp: watches_def)
  have same: "add_all os q (po_head s q) 0 s = add_all os q (po_head s q) 0 t"
    using add_all_first [of s q os, OF _ _ head] assms(4) by (simp add: t_def)
  have t: "chain (po_next t) (po_head s q) xs" "length (po_arr t q) = unat (po_cap t q)"
    "unat (po_cap t q) = N" "entry t = entry s" "0 < N"
    using assms fds_room_first(2-) [of s q os]
    by (auto simp: t_def watches_def grow_def word_gt_0 unat_gt_0)
  have "\<exists>s'. add_all os q (po_head s q) 0 t = Some (True, length xs, s')
      \<and> map (\<lambda>(fd, ev, _). (fd, ev)) (take (length xs) (po_arr s' q)) = map (entry s) xs" if "length xs < N"
    using add_all_inside [OF t(1,2), of 0 os] that t by (simp add: take_lay)
  moreover have "poll_poll os q deadline s = None" if "N \<le> length xs"
    using add_all_overflow [OF t(1,2), of 0 os] that t same by (simp add: poll_poll_def)
  ultimately show ?thesis using same by simp
qed

text \<open>
  C15: without a deadline \<open>yoi_pl_impl_poll\<close> passes every watched descriptor with its events to the system, again whenever that call is
  interrupted, and when the call succeeds it reports the first node, in the order of the list, that the reply makes
  ready, a hang-up or an error counting as ready in both directions; when none is ready it reports a timeout. This holds when the
  array has room for one descriptor more than are watched (otherwise see C14), and also for the first call of a new queue, which
  makes an array of 16 elements if there is memory for it.
\<close>

theorem poll_reports_first_ready:
  assumes "watches s q xs" and "length xs < (if po_cap s q = 0 then 16 else unat (po_cap s q))"
    and "po_cap s q = 0 \<and> xs \<noteq> [] \<longrightarrow> ptr (reply_of os (CRealloc (po_fds s q) 128) s) \<noteq> NULL"
    and "w = world (if po_cap s q = 0 \<and> xs \<noteq> [] then made os q s else s)"
    and "c = CPoll (map (entry s) xs) None" and "\<forall>i < k. interrupted os c (world_then os c i w)"
    and "r = fst (os (world_then os c k w) c)" and "0 \<le> ret r" and "length (r_revents r) = length xs"
  shows "\<exists>s'. poll_poll os q None s = Some
     (case find (\<lambda>(i, ev). poll_ready ev \<noteq> 0) (zip xs (r_revents r)) of
        None \<Rightarrow> (YO_ETIMEOUT, NULL, 0, s')
      | Some (i, ev) \<Rightarrow> (YO_OK, po_udata s i, poll_ready ev, s'))"
proof -
  consider "xs = []" | "xs \<noteq> []" "po_cap s q = 0" | "xs \<noteq> []" "po_cap s q \<noteq> 0" by blast
  then show ?thesis
  proof cases
    case 1
    with poll_poll_none [of s q c k os r] assms show ?thesis by auto
  next
    case 2
    let ?t = "made os q s"
    note m = fds_room_first [OF 2(2), of os] and head = add_all_first [OF 2(2), of os]
    have nn: "ptr (reply_of os (CRealloc (po_fds s q) 128) s) \<noteq> NULL" "po_head s q \<noteq> NULL"
      using assms(1,3) 2 by (cases xs; simp add: watches_def)+
    have same: "poll_poll os q None s = poll_poll os q None ?t"
      using head [OF nn] m(3) [OF nn(1)] by (simp add: poll_poll_def)
    have t: "watches ?t q xs" "length xs < unat (po_cap ?t q)"
      using assms(1,2) 2 m(2-4,6) [OF nn(1)] by (simp_all add: watches_def grow_def)
    have w: "w = world ?t" "c = CPoll (map (entry ?t) xs) None" using assms(4,5) 2 m(5) [OF nn(1)] by simp_all
    show ?thesis
      using poll_poll_eq [OF t w(2) _ _ assms(8,9)] assms(6,7) unfolding same w(1) m(7) [OF nn(1)] by blast
  next
    case 3
    with poll_poll_eq [of s q xs c k os r] assms show ?thesis by simp
  qed
qed

text \<open>
  A queue of the poll backend is made without the pipe that completions are announced on:
  nothing but its memory is taken, and the descriptor that \<open>yoi_queue_impl_notify\<close> writes to keeps
  whatever value it had.
\<close>

theorem poll_queue_without_pipe:
  "case yo_queue_new os poll_impl_init s of (q, s') \<Rightarrow>
     notify_read s' = notify_read s \<and> notify_write s' = notify_write s
   \<and> (if q \<noteq> NULL then ready s' q [] \<and> po_head s' q = NULL \<and> gained [Mem q] s s' else gained [] s s')"
  unfolding yo_queue_new_def poll_impl_init_def
  by (intro sat_case paths) (auto simp: outcome_simps ready_def)

section \<open>A concrete queue\<close>

text \<open>
  The world are the addresses in use. The allocator has memory for one node, every polled
  descriptor has input, and the array is at 8192. The queue is at 64; its \<open>n\<close> nodes are at 16, 32
  and so on, for the descriptors 1, 2 and so on, and wait for input.
\<close>

definition heap_kernel :: "addr set os" where
  "heap_kernel w q = (case q of
     CMalloc n \<Rightarrow> if 4096 \<in> w then (failed 0 ENOMEM, w) else (returns 4096, insert 4096 w)
   | CRealloc p n \<Rightarrow> (returns 8192, w)
   | CPoll fds t \<Rightarrow> ((returns (int (length fds)))\<lparr>r_revents := map (\<lambda>_. POLLIN) fds\<rparr>, w)
   | _ \<Rightarrow> (returns 0, w))"

definition nodes :: "nat \<Rightarrow> addr list" where
  "nodes n = map (\<lambda>k. 16 * of_nat k) [1..<Suc n]"

definition polled :: "nat \<Rightarrow> u64 \<Rightarrow> addr set po" where
  "polled n cap = \<lparr>world = set (nodes n), errno = 0, trace = [], m_byte = (\<lambda>_. 0), m_size = (\<lambda>_. 4),
     m_ptr = (\<lambda>_. NULL), m_int = (\<lambda>_. 0), m_u16 = (\<lambda>_. 0), m_addr = m_addr (idle ({} :: addr set)), m_stat = m_stat (idle ({} :: addr set)),
     fd_head = (\<lambda>_. NULL), fd_owned = (\<lambda>_. True), fd_fd = (\<lambda>_. 5),
     fd_read_n = (\<lambda>_. 0), fd_write_n = (\<lambda>_. 0), dir_dir = (\<lambda>_. 7), tty_fd = (\<lambda>_. 0),
     tty_mode = tty_mode (idle ({} :: addr set)), proc_pid = (\<lambda>_. 0),
     rq_queue = (\<lambda>_. 64), rq_cell = (\<lambda>_. Cancel PlCancelCb), rq_word = (\<lambda>_. 0), q_head = (\<lambda>_. NULL),
     q_pool = (\<lambda>_. NULL), m_code = (\<lambda>_. YO_OK),
     ioq_next = (\<lambda>_. NULL), ioq_slot = (\<lambda>_. HeadSlot 4096), ioq_fd = (\<lambda>_. 4096), ioq_kind = (\<lambda>_. YOI_PL_READ),
     ioq_buff = (\<lambda>_. 100), ioq_pn = (\<lambda>_. 200), ioq_ptr = (\<lambda>_. 0), ioq_pclient = (\<lambda>_. 0), ioq_paddr = (\<lambda>_. 0),
     ioq_pport = (\<lambda>_. 0), notify_read = (\<lambda>_. 12), notify_write = (\<lambda>_. 13),
     po_next = (\<lambda>i. if i = 16 * of_nat n then NULL else i + 16), po_slot = (\<lambda>_. HeadSlot 64),
     po_fd = (\<lambda>i. int (unat i div 16)), po_udata = (\<lambda>i. i + 65536), po_evn = (\<lambda>_. YOI_PL_READABLE), po_idx = (\<lambda>_. 0),
     po_head = (\<lambda>_. NULL)(64 := if n = 0 then NULL else 16), po_fds = (\<lambda>_. NULL), po_cap = (\<lambda>_. cap),
     po_arr = (\<lambda>_. replicate (unat cap) (0, 0, 0))\<rparr>"

lemma sane_polled: "poll_sane id heap_kernel (polled 0 0)"
proof -
  have "heap_os id heap_kernel"
    by (auto simp: heap_os_def heap_kernel_def quiet_def returns_def failed_def split: call.splits)
  moreover have "poll_lists (polled 0 0) (\<lambda>_. [])"
    by (simp add: poll_lists_def family_def dlist_def poll_links_def polled_def)
  ultimately show ?thesis unfolding poll_sane_def by (intro conjI exI) auto
qed

lemma watches_polled: "watches (polled 16 0) 64 (nodes 16)" "watches (polled 3 0) 64 (nodes 3)"
  by (simp_all add: watches_def polled_def nodes_def upt_rec)

lemma poll_setmask_contract_witness:
  "case poll_setmask heap_kernel 64 70000 5 1 (polled 0 0) of (c, s') \<Rightarrow>
     c = YO_OK \<and> poll_registered s' 64 5 = Some (1, 70000)"
proof -
  have "find_node 64 5 (polled 0 0) = NULL"
    using find_node_eq [of "polled 0 0" "\<lambda>_. []" 64 5]
    by (simp add: poll_lists_def family_def dlist_def poll_links_def polled_def)
  then have "fst (poll_setmask heap_kernel 64 70000 5 1 (polled 0 0)) = YO_OK"
    by (simp add: poll_setmask_def sys_simps Let_def reply_of_def heap_kernel_def polled_def nodes_def)
  with poll_setmask_contract [OF sane_polled, where m = 1 and q = 64 and u = 70000 and fd = 5]
  show ?thesis by (auto split: prod.splits)
qed

lemma poll_array_overflow_witness: "poll_poll heap_kernel 64 None (polled 16 0) = None"
  using poll_array_overflow [OF watches_polled(1), of 16 heap_kernel None]
  by (simp add: polled_def nodes_def reply_of_def heap_kernel_def)

text \<open>A new queue, and a queue with an array.\<close>

lemma poll_reports_first_ready_witness:
  "\<exists>s'. poll_poll heap_kernel 64 None (polled 3 0) = Some (YO_OK, 65552, YOI_PL_READABLE, s')"
proof -
  let ?s = "polled 3 0" let ?w = "world (made heap_kernel 64 ?s)" let ?c = "CPoll (map (entry ?s) (nodes 3)) None"
  let ?r = "fst (heap_kernel ?w ?c)"
  have r: "0 \<le> ret ?r" "length (r_revents ?r) = length (nodes 3)" "r_revents ?r = [1, 1, 1]"
    by (simp_all add: heap_kernel_def nodes_def upt_rec)
  have cap: "po_cap ?s 64 = 0" "nodes 3 \<noteq> []" "length (nodes 3) < 16" by (simp_all add: nodes_def polled_def)
  have mem: "ptr (reply_of heap_kernel (CRealloc (po_fds ?s 64) 128) ?s) \<noteq> NULL" by (simp add: reply_of_def heap_kernel_def)
  have ns: "nodes 3 = [16, 32, 48]" by (simp add: nodes_def upt_rec)
  have u: "po_udata ?s 16 = 65552" by (simp add: polled_def)
  have "\<exists>s'. poll_poll heap_kernel 64 None ?s = Some
     (case find (\<lambda>(i, ev). poll_ready ev \<noteq> 0) (zip (nodes 3) (r_revents ?r)) of
        None \<Rightarrow> (YO_ETIMEOUT, NULL, 0, s')
      | Some (i, ev) \<Rightarrow> (YO_OK, po_udata ?s i, poll_ready ev, s'))"
    by (rule poll_reports_first_ready [where k = 0 and w = ?w and c = ?c, OF watches_polled(2)]) (use r(1,2) cap mem in simp_all)
  then show ?thesis unfolding r(3) unfolding ns by (simp add: poll_ready_def u)
qed

end
