(* ===== verification/Signals.thy ===== *)
theory Signals
  imports UnixIO
begin

text \<open>
  Signals, from \<open>src/unix/impl.c\<close>: \<open>yo_sig_on\<close> and \<open>yo_sig_off\<close> count for each kind of signal how
  often it was asked for, and keep the process-wide mask equal to the signals of the kinds with a
  positive count; \<open>yo_sig_wait\<close> waits for one. The static variables \<open>_core_sig_...\<close> are fields of
  the state. Signal numbers are those of Linux.
\<close>

section \<open>Kinds of signals\<close>

datatype yo_signo = YO_SIGINT | YO_SIGQUIT | YO_SIGABRT | YO_SIGTERM | YO_SIGBADMEM | YO_SIGBADOP
  | YO_SIGBADPIPE | YO_SIGTSIZE | YO_SIGTLOST | YO_SIGUSR1 | YO_SIGUSR2

abbreviation (input) SIGHUP :: int where "SIGHUP \<equiv> 1"
abbreviation (input) SIGINT :: int where "SIGINT \<equiv> 2"
abbreviation (input) SIGQUIT :: int where "SIGQUIT \<equiv> 3"
abbreviation (input) SIGILL :: int where "SIGILL \<equiv> 4"
abbreviation (input) SIGABRT :: int where "SIGABRT \<equiv> 6"
abbreviation (input) SIGBUS :: int where "SIGBUS \<equiv> 7"
abbreviation (input) SIGFPE :: int where "SIGFPE \<equiv> 8"
abbreviation (input) SIGUSR1 :: int where "SIGUSR1 \<equiv> 10"
abbreviation (input) SIGSEGV :: int where "SIGSEGV \<equiv> 11"
abbreviation (input) SIGUSR2 :: int where "SIGUSR2 \<equiv> 12"
abbreviation (input) SIGPIPE :: int where "SIGPIPE \<equiv> 13"
abbreviation (input) SIGTERM :: int where "SIGTERM \<equiv> 15"
abbreviation (input) SIGSTKFLT :: int where "SIGSTKFLT \<equiv> 16"
abbreviation (input) SIGWINCH :: int where "SIGWINCH \<equiv> 28"
abbreviation (input) SIGPWR :: int where "SIGPWR \<equiv> 30"
abbreviation (input) SIGSYS :: int where "SIGSYS \<equiv> 31"

text \<open>The \<open>-1\<close> of the source is \<open>None\<close>.\<close>

definition yoi_unix_conv_signal :: "int \<Rightarrow> yo_signo option" where
  "yoi_unix_conv_signal sig = map_of
     [(SIGHUP, YO_SIGTLOST), (SIGINT, YO_SIGINT), (SIGQUIT, YO_SIGQUIT), (SIGILL, YO_SIGBADOP),
      (SIGABRT, YO_SIGABRT), (SIGBUS, YO_SIGBADMEM), (SIGFPE, YO_SIGBADOP), (SIGUSR1, YO_SIGUSR1),
      (SIGSEGV, YO_SIGBADMEM), (SIGUSR2, YO_SIGUSR2), (SIGPIPE, YO_SIGBADPIPE), (SIGTERM, YO_SIGTERM),
      (SIGSTKFLT, YO_SIGBADMEM), (SIGWINCH, YO_SIGTSIZE), (SIGSYS, YO_SIGBADOP)] sig"

text \<open>The \<open>switch\<close> of \<open>yo_sig_on\<close> and the one of \<open>yo_sig_off\<close>.\<close>

fun sig_add :: "yo_signo \<Rightarrow> int set \<Rightarrow> int set" where
  "sig_add YO_SIGINT m = insert SIGINT m"
| "sig_add YO_SIGQUIT m = insert SIGQUIT m"
| "sig_add YO_SIGABRT m = insert SIGABRT m"
| "sig_add YO_SIGTERM m = insert SIGTERM m"
| "sig_add YO_SIGBADMEM m = insert SIGSTKFLT (insert SIGBUS (insert SIGSEGV m))"
| "sig_add YO_SIGBADOP m = insert SIGSYS (insert SIGFPE (insert SIGILL m))"
| "sig_add YO_SIGBADPIPE m = insert SIGPIPE m"
| "sig_add YO_SIGTSIZE m = insert SIGWINCH m"
| "sig_add YO_SIGTLOST m = insert SIGHUP m"
| "sig_add YO_SIGUSR1 m = insert SIGUSR1 m"
| "sig_add YO_SIGUSR2 m = insert SIGUSR2 m"

fun sig_del :: "yo_signo \<Rightarrow> int set \<Rightarrow> int set" where
  "sig_del YO_SIGINT m = m - {SIGINT}"
| "sig_del YO_SIGQUIT m = m - {SIGQUIT}"
| "sig_del YO_SIGABRT m = m - {SIGABRT}"
| "sig_del YO_SIGTERM m = m - {SIGTERM}"
| "sig_del YO_SIGBADMEM m = m - {SIGSEGV} - {SIGBUS} - {SIGSTKFLT}"
| "sig_del YO_SIGBADOP m = m - {SIGILL} - {SIGFPE} - {SIGSYS}"
| "sig_del YO_SIGBADPIPE m = m - {SIGPIPE}"
| "sig_del YO_SIGTSIZE m = m - {SIGWINCH}"
| "sig_del YO_SIGTLOST m = m - {SIGHUP}"
| "sig_del YO_SIGUSR1 m = m - {SIGUSR1}"
| "sig_del YO_SIGUSR2 m = m - {SIGUSR2}"

section \<open>Operations\<close>

text \<open>\<open>sig_mut\<close> is the address of the lock, \<open>m_signo\<close> the memory of the callers.\<close>

record 'w sg = "'w io" +
  sig_inited :: bool
  sig_mut :: addr
  sig_counts :: "yo_signo \<Rightarrow> u64"
  sig_set :: "int set"
  m_signo :: "addr \<Rightarrow> yo_signo"

definition yoi_sig_init :: "'w os \<Rightarrow> ('w, 'z) sg_scheme \<Rightarrow> ('w, 'z) sg_scheme" where
  "yoi_sig_init os s =
     (if \<not> sig_inited s then
        let s = s\<lparr>sig_inited := True\<rparr>;
            s = ignore os (CMutexNew (sig_mut s)) s;
            s = s\<lparr>sig_counts := (\<lambda>_. 0)\<rparr>
        in s\<lparr>sig_set := {}\<rparr>
      else s)"

definition yo_sig_on :: "'w os \<Rightarrow> yo_signo \<Rightarrow> ('w, 'z) sg_scheme \<Rightarrow> yo_code \<times> ('w, 'z) sg_scheme" where
  "yo_sig_on os sig s =
     (let s = yoi_sig_init os s;
          s = ignore os (CLock (sig_mut s)) s;
          (ok, s) =
            (if sig_counts s sig = 0 then
               let old_set = sig_set s;
                   s = s\<lparr>sig_set := sig_add sig (sig_set s)\<rparr>;
                   (r, s) = syscall os (CSetmask (sig_set s)) s
               in if ret r < 0 then (False, s\<lparr>sig_set := old_set\<rparr>) else (True, s)
             else (True, s))
      in if \<not> ok then
           let s = ignore os (CUnlock (sig_mut s)) s in return_errno s
         else
           let s = s\<lparr>sig_counts := (sig_counts s)(sig := sig_counts s sig + 1)\<rparr>;
               s = ignore os (CUnlock (sig_mut s)) s
           in (YO_OK, s))"

definition yo_sig_off :: "'w os \<Rightarrow> yo_signo \<Rightarrow> ('w, 'z) sg_scheme \<Rightarrow> yo_code \<times> ('w, 'z) sg_scheme" where
  "yo_sig_off os sig s =
     (let s = yoi_sig_init os s;
          s = ignore os (CLock (sig_mut s)) s;
          (ok, s) =
            (if sig_counts s sig = 1 then
               let old_set = sig_set s;
                   s = s\<lparr>sig_set := sig_del sig (sig_set s)\<rparr>;
                   (r, s) = syscall os (CSetmask (sig_set s)) s
               in if ret r < 0 then (False, s\<lparr>sig_set := old_set\<rparr>) else (True, s)
             else (True, s))
      in if \<not> ok then
           let s = ignore os (CUnlock (sig_mut s)) s in return_errno s
         else
           let s = (if sig_counts s sig \<noteq> 0
                    then s\<lparr>sig_counts := (sig_counts s)(sig := sig_counts s sig - 1)\<rparr> else s);
               s = ignore os (CUnlock (sig_mut s)) s
           in (YO_OK, s))"

text \<open>
  \<open>sigwait\<close> replies with its result and, as the first of \<open>r_pair\<close>, the signal. \<open>None\<close> when no
  signal ends the loop.
\<close>

partial_function (option) sigwait_loop ::
  "'w os \<Rightarrow> int set \<Rightarrow> addr \<Rightarrow> ('w, 'z) sg_scheme \<Rightarrow> (yo_code \<times> ('w, 'z) sg_scheme) option" where
  "sigwait_loop os old pres s =
     (let (r, s) = syscall os CSigwait s; res = fst (r_pair r)
      in if ret r < 0 then let s = ignore os (CSetmask old) s in Some (return_errno s)
         else if res = SIGPWR then let s = ignore os (CSetmask old) s in Some (YO_ECANCELED, s)
         else case yoi_unix_conv_signal res of
                None \<Rightarrow> sigwait_loop os old pres s
              | Some sig \<Rightarrow>
                  let s = s\<lparr>m_signo := (m_signo s)(pres := sig)\<rparr>;
                      s = ignore os (CSetmask old) s
                  in Some (YO_OK, s))"

definition yo_sig_wait :: "'w os \<Rightarrow> addr \<Rightarrow> ('w, 'z) sg_scheme \<Rightarrow> (yo_code \<times> ('w, 'z) sg_scheme) option" where
  "yo_sig_wait os pres s =
     (let s = yoi_sig_init os s;
          (r, s) = syscall os (CBlock {SIGPWR}) s
      in if ret r < 0 then Some (return_errno s)
         else sigwait_loop os (r_mask r) pres s)"

section \<open>The groups\<close>

text \<open>The numbers that belong to a kind, in both directions.\<close>

definition sig_group :: "yo_signo \<Rightarrow> int set" where
  "sig_group sig = {n. yoi_unix_conv_signal n = Some sig}"

lemma group_member [simp]: "n \<in> sig_group sig \<longleftrightarrow> yoi_unix_conv_signal n = Some sig"
  by (simp add: sig_group_def)

lemma sig_add_eq: "sig_add sig m = m \<union> sig_group sig"
  by (cases sig) (auto simp: yoi_unix_conv_signal_def split: if_splits)

lemma sig_del_eq: "sig_del sig m = m - sig_group sig"
  by (cases sig) (auto simp: yoi_unix_conv_signal_def split: if_splits)

section \<open>Counting\<close>

text \<open>
  What the two operations promise: a kind of signal is blocked while a call that switched it on is outstanding. A call that switches
  it off undoes one that is outstanding, and has no effect when there is none; \<open>io.h\<close> asks the client not to make such a call.
\<close>

datatype sig_call = On yo_signo | Off yo_signo

fun sig_run :: "'w os \<Rightarrow> sig_call list \<Rightarrow> ('w, 'z) sg_scheme \<Rightarrow> yo_code list \<times> ('w, 'z) sg_scheme" where
  "sig_run os [] s = ([], s)"
| "sig_run os (x # xs) s =
     (let (c, s) = (case x of On sig \<Rightarrow> yo_sig_on os sig s | Off sig \<Rightarrow> yo_sig_off os sig s);
          (cs, s) = sig_run os xs s
      in (c # cs, s))"

fun outstanding :: "sig_call list \<Rightarrow> (yo_signo \<Rightarrow> nat) \<Rightarrow> yo_signo \<Rightarrow> nat" where
  "outstanding [] b = b"
| "outstanding (On g # xs) b = outstanding xs (b(g := b g + 1))"
| "outstanding (Off g # xs) b = outstanding xs (b(g := b g - 1))"

text \<open>Calls in pairs, as \<open>io.h\<close> requires: at no moment more often off than on.\<close>

definition paired :: "sig_call list \<Rightarrow> bool" where
  "paired xs \<longleftrightarrow> (\<forall>g. \<forall>k\<le>length xs. count_list (take k xs) (Off g) \<le> count_list (take k xs) (On g))"

lemma outstanding_counts:
  "\<forall>k\<le>length xs. count_list (take k xs) (Off g) \<le> b g + count_list (take k xs) (On g) \<Longrightarrow>
     outstanding xs b g + count_list xs (Off g) = b g + count_list xs (On g)"
proof (induction xs b rule: outstanding.induct)
  case (2 h xs b)
  have "\<forall>k\<le>length xs. count_list (take k xs) (Off g) \<le> (b(h := b h + 1)) g + count_list (take k xs) (On g)"
  proof (intro allI impI)
    fix k assume "k \<le> length xs"
    then show "count_list (take k xs) (Off g) \<le> (b(h := b h + 1)) g + count_list (take k xs) (On g)"
      using spec [OF "2.prems", of "Suc k"] by (cases "g = h") auto
  qed
  from "2.IH" [OF this] show ?case
    by (cases "g = h") (simp_all del: fun_upd_apply add: fun_upd_same fun_upd_other)
next
  case (3 h xs b)
  have "\<forall>k\<le>length xs. count_list (take k xs) (Off g) \<le> (b(h := b h - 1)) g + count_list (take k xs) (On g)"
  proof (intro allI impI)
    fix k assume "k \<le> length xs"
    then show "count_list (take k xs) (Off g) \<le> (b(h := b h - 1)) g + count_list (take k xs) (On g)"
      using spec [OF "3.prems", of "Suc k"] by (cases "g = h") auto
  qed
  moreover have "g = h \<Longrightarrow> 0 < b g" using spec [OF "3.prems", of 1] by simp
  ultimately show ?case using "3.IH"
    by (cases "g = h") (simp_all del: fun_upd_apply add: fun_upd_same fun_upd_other)
qed simp

lemma outstanding_paired:
  assumes "paired xs"
  shows "0 < outstanding xs (\<lambda>_. 0) g \<longleftrightarrow> count_list xs (Off g) < count_list xs (On g)"
proof -
  have "outstanding xs (\<lambda>_. 0) g + count_list xs (Off g) = count_list xs (On g)"
    using outstanding_counts [of xs g "\<lambda>_. 0"] assms by (simp add: paired_def)
  then show ?thesis by linarith
qed

definition blocked :: "(yo_signo \<Rightarrow> nat) \<Rightarrow> int set" where
  "blocked b = {n. \<exists>g. yoi_unix_conv_signal n = Some g \<and> 0 < b g}"

text \<open>The kernel's mask: \<open>pthread_sigmask\<close> sets it, the calls on locks do not touch it.\<close>

definition mask_os :: "('w \<Rightarrow> int set) \<Rightarrow> 'w os \<Rightarrow> bool" where
  "mask_os M os \<longleftrightarrow>
     (\<forall>w m. ret (fst (os w (CSetmask m))) = 0 \<and> M (snd (os w (CSetmask m))) = m)
   \<and> (\<forall>w a. M (snd (os w (CLock a))) = M w \<and> M (snd (os w (CUnlock a))) = M w
        \<and> M (snd (os w (CMutexNew a))) = M w)"

definition counted :: "('w \<Rightarrow> int set) \<Rightarrow> (yo_signo \<Rightarrow> nat) \<Rightarrow> ('w, 'z) sg_scheme \<Rightarrow> bool" where
  "counted M b s \<longleftrightarrow> M (world s) = blocked b
     \<and> (if sig_inited s then (\<forall>g. unat (sig_counts s g) = b g) \<and> sig_set s = blocked b else b = (\<lambda>_. 0))"

lemma sg_after_simps [simp]:
  "sig_inited (after os q s) = sig_inited s" "sig_counts (after os q s) = sig_counts s"
  "sig_set (after os q s) = sig_set s" "sig_mut (after os q s) = sig_mut s"
  "m_signo (after os q s) = m_signo s"
  by (simp_all add: after_eq)

lemma blocked_up: "blocked (b(g := Suc n)) = blocked b \<union> sig_group g"
  by (auto simp: blocked_def)

lemma blocked_down: "blocked (b(g := 0)) = blocked b - sig_group g"
  by (auto simp: blocked_def)

lemma blocked_same: "0 < b g \<Longrightarrow> 0 < n \<Longrightarrow> blocked (b(g := n)) = blocked b"
  by (auto simp: blocked_def)

lemma blocked_none: "blocked (\<lambda>_. 0) = {}"
  by (simp add: blocked_def)

lemma counted_init:
  assumes "mask_os M os" and "counted M b s"
  shows "counted M b (yoi_sig_init os s) \<and> sig_inited (yoi_sig_init os s)"
  using assms
  by (auto simp: counted_def yoi_sig_init_def sys_simps Let_def mask_os_def blocked_none)

lemma counted_on:
  assumes law: "mask_os M os" and c: "counted M b s" and bound: "b sig + 1 < 2 ^ 64"
  shows "case yo_sig_on os sig s of (c, s') \<Rightarrow> c = YO_OK \<and> counted M (b(sig := b sig + 1)) s'"
proof -
  define t where "t = yoi_sig_init os s"
  have t: "M (world t) = blocked b" "\<And>g. unat (sig_counts t g) = b g" "sig_set t = blocked b" "sig_inited t"
    using counted_init [OF law c] by (auto simp: t_def counted_def)
  have zero: "sig_counts t sig = 0 \<longleftrightarrow> b sig = 0" using t(2) [of sig] by (simp add: word_unat_eq_iff)
  have up: "unat (sig_counts t sig + 1) = Suc (b sig)"
    using bound t(2) [of sig] by (simp add: unat_word_ariths)
  note laws = law [unfolded mask_os_def, THEN conjunct1, rule_format]
    law [unfolded mask_os_def, THEN conjunct2, rule_format]
  show ?thesis
  proof (cases "b sig = 0")
    case True
    then have "blocked (b(sig := Suc 0)) = blocked b \<union> sig_group sig" by (rule_tac blocked_up)
    with True zero up t laws show ?thesis
      by (auto simp: yo_sig_on_def t_def [symmetric] sys_simps Let_def counted_def sig_add_eq reply_of_def)
  next
    case False
    then have "blocked (b(sig := Suc (b sig))) = blocked b" by (intro blocked_same) simp_all
    with False zero up t laws show ?thesis
      by (auto simp: yo_sig_on_def t_def [symmetric] sys_simps Let_def counted_def)
  qed
qed

lemma counted_off:
  assumes law: "mask_os M os" and c: "counted M b s"
  shows "case yo_sig_off os sig s of (c, s') \<Rightarrow> c = YO_OK \<and> counted M (b(sig := b sig - 1)) s'"
proof -
  define t where "t = yoi_sig_init os s"
  have t: "M (world t) = blocked b" "\<And>g. unat (sig_counts t g) = b g" "sig_set t = blocked b" "sig_inited t"
    using counted_init [OF law c] by (auto simp: t_def counted_def)
  have zero: "sig_counts t sig = 0 \<longleftrightarrow> b sig = 0" "sig_counts t sig = 1 \<longleftrightarrow> b sig = 1"
    using t(2) [of sig] by (simp_all add: word_unat_eq_iff)
  have down: "0 < b sig \<Longrightarrow> unat (sig_counts t sig - 1) = b sig - 1"
    using t(2) [of sig] by (metis One_nat_def unat_0 unat_minus_one less_numeral_extra(3))
  note laws = law [unfolded mask_os_def, THEN conjunct1, rule_format]
    law [unfolded mask_os_def, THEN conjunct2, rule_format]
  consider "b sig = 0" | "b sig = 1" | "1 < b sig" by linarith
  then show ?thesis
  proof cases
    case 1
    then have "b(sig := b sig - 1) = b" by auto
    with 1 zero t laws show ?thesis
      by (auto simp: yo_sig_off_def t_def [symmetric] sys_simps Let_def counted_def)
  next
    case 2
    then have "blocked (b(sig := 0)) = blocked b - sig_group sig" by (rule_tac blocked_down)
    with 2 zero down t laws show ?thesis
      by (auto simp: yo_sig_off_def t_def [symmetric] sys_simps Let_def counted_def sig_del_eq reply_of_def)
  next
    case 3
    then have "blocked (b(sig := b sig - 1)) = blocked b" by (intro blocked_same) simp_all
    with 3 zero down t laws show ?thesis
      by (auto simp: yo_sig_off_def t_def [symmetric] sys_simps Let_def counted_def)
  qed
qed

lemma outstanding_step: "outstanding (On g # xs) b = outstanding xs (b(g := b g + 1))" "outstanding (Off g # xs) b = outstanding xs (b(g := b g - 1))"
  by simp_all

lemma counted_run:
  assumes law: "mask_os M os" and "counted M b s" and "\<forall>g. b g + length xs < 2 ^ 64"
  shows "case sig_run os xs s of (cs, s') \<Rightarrow> set cs \<subseteq> {YO_OK} \<and> counted M (outstanding xs b) s'"
  using assms(2,3)
proof (induction xs arbitrary: b s)
  case (Cons x xs)
  have one: "\<forall>h. (b(g := b g + 1)) h + length xs < 2 ^ 64" "\<forall>h. (b(g := b g - 1)) h + length xs < 2 ^ 64" for g
  proof -
    show "\<forall>h. (b(g := b g + 1)) h + length xs < 2 ^ 64"
      using spec [OF Cons.prems(2), of g] Cons.prems(2) by (auto intro: Suc_lessD)
    show "\<forall>h. (b(g := b g - 1)) h + length xs < 2 ^ 64"
    proof
      fix h show "(b(g := b g - 1)) h + length xs < 2 ^ 64"
        using spec [OF Cons.prems(2), of h] by (cases "h = g") auto
    qed
  qed
  show ?case
  proof (cases x)
    case (On g)
    have "b g + 1 < 2 ^ 64" using spec [OF Cons.prems(2), of g] by simp
    moreover obtain c t where run: "yo_sig_on os g s = (c, t)" by fastforce
    ultimately have "c = YO_OK" "counted M (b(g := b g + 1)) t"
      using counted_on [OF law Cons.prems(1), of g] by auto
    with Cons.IH [OF this(2) one(1)] On run show ?thesis
      by (auto split: prod.splits simp del: fun_upd_apply)
  next
    case (Off g)
    obtain c t where run: "yo_sig_off os g s = (c, t)" by fastforce
    then have "c = YO_OK" "counted M (b(g := b g - 1)) t"
      using counted_off [OF law Cons.prems(1), of g] by auto
    with Cons.IH [OF this(2) one(2)] Off run show ?thesis
      by (auto split: prod.splits simp del: fun_upd_apply)
  qed
qed simp

lemma sig_run_length: "length (fst (sig_run os xs s)) = length xs"
proof (induction xs arbitrary: s)
  case (Cons x xs)
  obtain c t where "(case x of On sig \<Rightarrow> yo_sig_on os sig s | Off sig \<Rightarrow> yo_sig_off os sig s) = (c, t)" by fastforce
  with Cons [of t] show ?case by (simp add: split_beta)
qed simp

section \<open>Properties\<close>

text \<open>
  C23: reference counting of signals. Let a process that blocks nothing make any sequence of fewer than \<open>2 ^ 64\<close> calls of
  \<open>yo_sig_on\<close> and \<open>yo_sig_off\<close>, where the kernel accepts every mask. Every call succeeds, and at the end the kernel blocks exactly
  the signals of the kinds for which a call of \<open>yo_sig_on\<close> is outstanding. When \<open>yo_sig_off\<close> is at no moment called more often than
  \<open>yo_sig_on\<close>, which \<open>io.h\<close> requires of the client, these are the kinds that were switched on more often than off.
  The signals of a kind are those that \<open>yoi_unix_conv_signal\<close> maps to it; so \<open>YO_SIGBADOP\<close> includes \<open>SIGFPE\<close>, which \<open>signo.h\<close> does
  not list.
\<close>

theorem sig_refcounts:
  assumes "mask_os M os" and "\<not> sig_inited s" and "M (world s) = {}" and "length xs < 2 ^ 64"
  shows "case sig_run os xs s of (cs, s') \<Rightarrow>
     set cs \<subseteq> {YO_OK} \<and> length cs = length xs \<and> M (world s') = blocked (outstanding xs (\<lambda>_. 0))
     \<and> (paired xs \<longrightarrow> M (world s') = \<Union> {sig_group g | g. count_list xs (Off g) < count_list xs (On g)})"
proof -
  have "counted M (\<lambda>_. 0) s" using assms by (simp add: counted_def blocked_none)
  from counted_run [OF assms(1) this, of xs] assms(4)
  have run: "case sig_run os xs s of (cs, s') \<Rightarrow> set cs \<subseteq> {YO_OK} \<and> M (world s') = blocked (outstanding xs (\<lambda>_. 0))"
    by (auto simp: counted_def)
  have "blocked (outstanding xs (\<lambda>_. 0)) = \<Union> {sig_group g | g. count_list xs (Off g) < count_list xs (On g)}" if "paired xs"
    using outstanding_paired [OF that] by (auto simp: blocked_def)
  with run sig_run_length [of os xs s] show ?thesis by (auto split: prod.splits)
qed

text \<open>
  \<open>pthread_sigmask\<close> reports an error by a positive number, which the test for a negative one
  does not see: \<open>yo_sig_on\<close> then succeeds and counts the signal although the mask was not changed.
\<close>

theorem sig_on_unnoticed:
  fixes s :: "('w, 'z) sg_scheme"
  assumes "\<forall>w m. 0 < ret (fst (os w (CSetmask m))) \<and> M (snd (os w (CSetmask m))) = M w"
    and "\<forall>w a. M (snd (os w (CLock a))) = M w \<and> M (snd (os w (CUnlock a))) = M w"
    and "sig_inited s" and "sig_counts s sig = 0"
  shows "case yo_sig_on os sig s of (c, s') \<Rightarrow>
     c = YO_OK \<and> sig_counts s' sig = 1 \<and> sig_group sig \<subseteq> sig_set s' \<and> M (world s') = M (world s)"
proof -
  have "\<not> ret (reply_of os (CSetmask m) t) < 0" for m and t :: "('w, 'z) sg_scheme"
    using assms(1) by (simp add: reply_of_def not_less less_imp_le)
  with assms show ?thesis
    by (auto simp: yo_sig_on_def yoi_sig_init_def sys_simps Let_def sig_add_eq)
qed

text \<open>
  What Linux documents of \<open>sigwait\<close> for a blocked signal: it waits until one is pending and takes it. \<open>P\<close> are the signals that become
  pending, in this order, and \<open>M\<close> is the mask. Nothing is said of a call for a signal that is not blocked: POSIX leaves it undefined.
\<close>

definition delivers :: "('w \<Rightarrow> int list) \<Rightarrow> ('w \<Rightarrow> int set) \<Rightarrow> 'w os \<Rightarrow> bool" where
  "delivers P M os \<longleftrightarrow>
     (\<forall>w. P w \<noteq> [] \<and> hd (P w) \<in> M w \<longrightarrow> ret (fst (os w CSigwait)) = 0 \<and> fst (r_pair (fst (os w CSigwait))) = hd (P w)
        \<and> P (snd (os w CSigwait)) = tl (P w) \<and> M (snd (os w CSigwait)) = M w)
   \<and> (\<forall>w m. ret (fst (os w (CBlock m))) = 0 \<and> r_mask (fst (os w (CBlock m))) = M w
        \<and> M (snd (os w (CBlock m))) = M w \<union> m \<and> P (snd (os w (CBlock m))) = P w)
   \<and> (\<forall>w m. M (snd (os w (CSetmask m))) = m \<and> P (snd (os w (CSetmask m))) = P w)
   \<and> (\<forall>w a. M (snd (os w (CMutexNew a))) = M w \<and> P (snd (os w (CMutexNew a))) = P w)"

lemma delivers_laws:
  assumes "delivers P M os"
  shows "P (world s) = x # xs \<Longrightarrow> x \<in> M (world s) \<Longrightarrow> ret (reply_of os CSigwait s) = 0
      \<and> fst (r_pair (reply_of os CSigwait s)) = x
      \<and> P (world (after os CSigwait s)) = xs \<and> M (world (after os CSigwait s)) = M (world s)"
    and "ret (reply_of os (CBlock m) s) = 0" and "r_mask (reply_of os (CBlock m) s) = M (world s)"
    and "P (world (after os (CBlock m) s)) = P (world s)"
    and "M (world (after os (CSetmask m) s)) = m" and "P (world (after os (CSetmask m) s)) = P (world s)"
    and "M (world (after os (CBlock m) s)) = M (world s) \<union> m"
    and "M (world (after os (CMutexNew a) s)) = M (world s)" and "P (world (after os (CMutexNew a) s)) = P (world s)"
  using assms unfolding delivers_def by (simp_all add: reply_of_def)

definition foreign :: "int \<Rightarrow> bool" where
  "foreign n \<longleftrightarrow> n \<noteq> SIGPWR \<and> yoi_unix_conv_signal n = None"

lemma pwr_unknown: "yoi_unix_conv_signal SIGPWR = None"
  by (simp add: yoi_unix_conv_signal_def)

lemma sigwait_walk:
  assumes law: "delivers P M os" and "P (world s) = ys @ x # xs" and "list_all foreign ys" and "\<not> foreign x"
    and "insert x (set ys) \<subseteq> M (world s)"
  shows "\<exists>s'. sigwait_loop os old pres s = Some (if x = SIGPWR then YO_ECANCELED else YO_OK, s')
     \<and> M (world s') = old \<and> P (world s') = xs
     \<and> (if x = SIGPWR then m_signo s' = m_signo s
        else \<exists>g. x \<in> sig_group g \<and> m_signo s' = (m_signo s)(pres := g))"
  using assms(2-)
proof (induction ys arbitrary: s)
  case Nil
  have step: "ret (reply_of os CSigwait s) = 0" "fst (r_pair (reply_of os CSigwait s)) = x"
    "P (world (after os CSigwait s)) = xs"
    using delivers_laws(1) [OF law, where s = s and x = x and xs = xs] Nil.prems(1,4) by auto
  note set = delivers_laws(5,6) [OF law]
  show ?case
  proof (cases "x = SIGPWR")
    case True
    with step show ?thesis
      by (subst sigwait_loop.simps) (simp add: sys_simps Let_def set del: world_after)
  next
    case other: False
    then obtain g where g: "yoi_unix_conv_signal x = Some g" using Nil.prems(3) by (auto simp: foreign_def)
    with other step show ?thesis
      by (subst sigwait_loop.simps) (simp add: sys_simps Let_def set del: world_after)
  qed
next
  case (Cons y ys)
  have step: "ret (reply_of os CSigwait s) = 0" "fst (r_pair (reply_of os CSigwait s)) = y"
    "P (world (after os CSigwait s)) = ys @ x # xs" "M (world (after os CSigwait s)) = M (world s)"
    using delivers_laws(1) [OF law, where s = s and x = y and xs = "ys @ x # xs"] Cons.prems(1,4) by auto
  have "list_all foreign ys" "foreign y" using Cons.prems(2) by simp_all
  moreover from this(2) have "y \<noteq> SIGPWR" "yoi_unix_conv_signal y = None" by (simp_all add: foreign_def)
  moreover have "insert x (set ys) \<subseteq> M (world (after os CSigwait s))" using Cons.prems(4) step(4) by auto
  ultimately show ?case
    using Cons.IH [OF step(3) _ Cons.prems(3)] step(1,2)
    by (subst sigwait_loop.simps) (auto simp: sys_simps Let_def simp del: world_after)
qed

text \<open>Kinds that are switched on.\<close>

definition switched_on :: "('w, 'z) sg_scheme \<Rightarrow> int \<Rightarrow> bool" where
  "switched_on s x \<longleftrightarrow> sig_inited s \<and> (\<exists>g. x \<in> sig_group g \<and> sig_counts s g \<noteq> 0)"

text \<open>
  C24: Let signals become pending that the process blocks: first any number that belong to no kind, then \<open>SIGPWR\<close> or a signal of a
  kind that is switched on. \<open>yo_sig_wait\<close> returns with this one: it has skipped the others, reports a cancellation for \<open>SIGPWR\<close> and
  otherwise the kind whose group contains the signal, takes no further signal, and leaves the mask of the process as it was.
\<close>

theorem sig_wait_reports:
  assumes "delivers P M os" and "P (world s) = skipped @ x # xs" and "list_all foreign skipped"
    and "x = SIGPWR \<or> switched_on s x" and "insert x (set skipped) \<subseteq> M (world s) \<union> {SIGPWR}"
  shows "\<exists>c s'. yo_sig_wait os pres s = Some (c, s') \<and> M (world s') = M (world s) \<and> P (world s') = xs
     \<and> (if x = SIGPWR then c = YO_ECANCELED \<and> m_signo s' = m_signo s
        else c = YO_OK \<and> x \<in> sig_group (m_signo s' pres) \<and> (\<forall>a. a \<noteq> pres \<longrightarrow> m_signo s' a = m_signo s a))"
proof -
  have x: "\<not> foreign x" using assms(4) by (auto simp: foreign_def switched_on_def)
  define t where "t = yoi_sig_init os s"
  have t: "M (world t) = M (world s)" "P (world t) = P (world s)" "m_signo t = m_signo s"
    by (auto simp: t_def yoi_sig_init_def sys_simps Let_def delivers_laws [OF assms(1)] simp del: world_after)
  let ?b = "CBlock {SIGPWR}"
  have b: "ret (reply_of os ?b t) = 0" "r_mask (reply_of os ?b t) = M (world s)" "P (world (after os ?b t)) = skipped @ x # xs"
    "insert x (set skipped) \<subseteq> M (world (after os ?b t))"
    using t assms(2,5) by (simp_all add: delivers_laws [OF assms(1)] del: world_after)
  from sigwait_walk [OF assms(1) b(3) assms(3) x b(4), of "M (world s)" pres] b t show ?thesis
    by (auto simp: yo_sig_wait_def t_def [symmetric] sys_simps Let_def simp del: world_after split: if_splits)
qed

section \<open>A concrete kernel\<close>

text \<open>The world is the list of the signals to come and the mask.\<close>

definition signal_kernel :: "(int list \<times> int set) os" where
  "signal_kernel w q = (case q of
     CSigwait \<Rightarrow> ((returns 0)\<lparr>r_pair := (hd (fst w), 0)\<rparr>, (tl (fst w), snd w))
   | CBlock m \<Rightarrow> ((returns 0)\<lparr>r_mask := snd w\<rparr>, (fst w, snd w \<union> m))
   | CSetmask m \<Rightarrow> (returns 0, (fst w, m))
   | _ \<Rightarrow> (returns 0, w))"

definition failing_kernel :: "(int list \<times> int set) os" where
  "failing_kernel w q = (case q of CSetmask m \<Rightarrow> (returns EINVAL, w) | _ \<Rightarrow> (returns 0, w))"

definition sig_state :: "bool \<Rightarrow> int list \<Rightarrow> (int list \<times> int set) sg" where
  "sig_state b xs = io.extend (idle (xs, {}))
     \<lparr>sig_inited = b, sig_mut = 64, sig_counts = (\<lambda>_. 0), sig_set = {}, m_signo = (\<lambda>_. YO_SIGINT)\<rparr>"

lemma sig_state_simps [simp]:
  "world (sig_state b xs) = (xs, {})" "sig_inited (sig_state b xs) = b" "sig_counts (sig_state b xs) = (\<lambda>_. 0)"
  by (simp_all add: sig_state_def io.defs idle_def)

lemma sig_refcounts_witness:
  "case sig_run signal_kernel [On YO_SIGBADMEM, On YO_SIGINT, On YO_SIGINT, Off YO_SIGBADMEM, Off YO_SIGINT] (sig_state False []) of
     (cs, s') \<Rightarrow> set cs \<subseteq> {YO_OK} \<and> snd (world s') = sig_group YO_SIGINT"
proof -
  let ?xs = "[On YO_SIGBADMEM, On YO_SIGINT, On YO_SIGINT, Off YO_SIGBADMEM, Off YO_SIGINT]"
  have "mask_os snd signal_kernel" by (simp add: mask_os_def signal_kernel_def)
  moreover have "blocked (outstanding ?xs (\<lambda>_. 0)) = sig_group YO_SIGINT"
    by (auto simp: blocked_def split: if_splits)
  ultimately show ?thesis
    using sig_refcounts [of snd signal_kernel "sig_state False []" ?xs]
    by (auto simp del: sig_run.simps outstanding.simps)
qed

lemma sig_on_unnoticed_witness:
  "case yo_sig_on failing_kernel YO_SIGTERM (sig_state True []) of (c, s') \<Rightarrow>
     c = YO_OK \<and> sig_counts s' YO_SIGTERM = 1 \<and> snd (world s') = {}"
proof -
  have "\<forall>w m. 0 < ret (fst (failing_kernel w (CSetmask m))) \<and> snd (snd (failing_kernel w (CSetmask m))) = snd w"
    "\<forall>w a. snd (snd (failing_kernel w (CLock a))) = snd w \<and> snd (snd (failing_kernel w (CUnlock a))) = snd w"
    by (simp_all add: failing_kernel_def)
  from sig_on_unnoticed [OF this, of "sig_state True []" YO_SIGTERM] show ?thesis
    by (auto split: prod.splits)
qed

text \<open>\<open>YO_SIGBADMEM\<close> is switched on, and the process blocks \<open>SIGCHLD\<close> for itself.\<close>

definition watching_state :: "(int list \<times> int set) sg" where
  "watching_state = (sig_state True [])\<lparr>world := ([17, SIGBUS, SIGINT], {17, SIGSEGV, SIGBUS, SIGSTKFLT}),
     sig_counts := (\<lambda>_. 0)(YO_SIGBADMEM := 1), sig_set := {SIGSEGV, SIGBUS, SIGSTKFLT}\<rparr>"

lemma sig_wait_reports_witness:
  "\<exists>s'. yo_sig_wait signal_kernel 8 watching_state = Some (YO_OK, s')
     \<and> SIGBUS \<in> sig_group (m_signo s' 8) \<and> world s' = ([SIGINT], {17, SIGSEGV, SIGBUS, SIGSTKFLT})"
proof -
  have law: "delivers fst snd signal_kernel" by (auto simp: delivers_def signal_kernel_def)
  have "switched_on watching_state SIGBUS"
    by (simp add: switched_on_def watching_state_def yoi_unix_conv_signal_def)
  moreover have "list_all foreign [17]" by (simp add: foreign_def yoi_unix_conv_signal_def)
  moreover have "fst (world watching_state) = [17] @ SIGBUS # [SIGINT]"
    "snd (world watching_state) = {17, SIGSEGV, SIGBUS, SIGSTKFLT}" by (simp_all add: watching_state_def)
  ultimately show ?thesis
    using sig_wait_reports [OF law, where s = watching_state and pres = 8 and skipped = "[17]" and x = SIGBUS and xs = "[SIGINT]"]
    by (auto simp: prod_eq_iff)
qed

end
