(* ===== verification/Env.thy ===== *)
theory Env
  imports UnixIO
begin

text \<open>
  Environment variables and well-known paths, from \<open>src/unix/impl.c\<close>: \<open>yo_getpath\<close>, \<open>yo_env_get\<close>,
  \<open>yo_env_set\<close> and the iterator over \<open>environ\<close>. A result of type \<open>option\<close> is \<open>None\<close> when
  the code writes through a null pointer or its loop does not end.
\<close>

section \<open>Operations\<close>

abbreviation (input) PATH_MAX :: u64 where "PATH_MAX \<equiv> 4096"

text \<open>
  \<open>getpwuid_r\<close> replies with the home directory of the entry, which lies in the buffer, or with
  none. The outcome of the loop is \<open>NULL\<close>, or the last buffer and the directory.
\<close>

partial_function (option) pw_loop ::
  "'w os \<Rightarrow> addr \<Rightarrow> u64 \<Rightarrow> ('w, 'z) sys_scheme \<Rightarrow> ((addr \<times> string) option \<times> ('w, 'z) sys_scheme) option" where
  "pw_loop os buff buffn s =
     (let (r, s) = syscall os (CGetpwuid buffn) s
      in case r_text r of
           Some dir \<Rightarrow> Some (Some (buff, dir), s)
         | None \<Rightarrow>
             if errno s = ERANGE then
               let buffn = buffn * 2;
                   s = free os buff s;
                   (buff, s) = malloc os buffn s
               in if buff = NULL then Some (None, s) else pw_loop os buff buffn s
             else let s = free os buff s in Some (None, s))"

text \<open>The result is the block with the path, NULL on failure.\<close>

definition yoi_generic_getenvpath ::
  "'w os \<Rightarrow> string option \<Rightarrow> ('w, 'z) sys_scheme \<Rightarrow> (addr \<times> ('w, 'z) sys_scheme) option" where
  "yoi_generic_getenvpath os suffix s =
     (let (buff, s) = malloc os PATH_MAX s
      in if buff = NULL then Some (NULL, s)
         else do {
           (pw, s) \<leftarrow> pw_loop os buff PATH_MAX s;
           case pw of
             None \<Rightarrow> Some (NULL, s)
           | Some (buff, pw_dir) \<Rightarrow>
               (case suffix of
                  Some suffix \<Rightarrow>
                    let (res, s) = malloc os (of_nat (length pw_dir) + of_nat (length suffix) + 1) s
                    in if res = NULL then Some (NULL, s)
                       else
                         let s = store_bytes res (cstr (pw_dir @ suffix)) s;
                             s = free os buff s
                         in Some (res, s)
                | None \<Rightarrow>
                    let (res, s) = malloc os (of_nat (length pw_dir) + 1) s
                    in if res = NULL then None
                       else
                         let s = store_bytes res (cstr pw_dir) s;
                             s = free os buff s
                         in Some (res, s))
         })"

definition yoi_unix_getpath ::
  "'w os \<Rightarrow> string \<Rightarrow> string \<Rightarrow> ('w, 'z) sys_scheme \<Rightarrow> (addr \<times> ('w, 'z) sys_scheme) option" where
  "yoi_unix_getpath os envname suffix s =
     (let (r, s) = syscall os (CGetenv envname) s
      in case r_text r of
           Some (c # cs) \<Rightarrow>
             let (res, s) = malloc os (of_nat (length (c # cs)) + 1) s
             in if res = NULL then Some (NULL, s)
                else Some (res, store_bytes res (cstr (c # cs)) s)
         | _ \<Rightarrow> yoi_generic_getenvpath os (Some suffix) s)"

text \<open>\<open>realloc\<close> moves the first \<open>n\<close> bytes of the block.\<close>

definition realloc :: "'w os \<Rightarrow> addr \<Rightarrow> u64 \<Rightarrow> ('w, 'z) sys_scheme \<Rightarrow> addr \<times> ('w, 'z) sys_scheme" where
  "realloc os p n s =
     (let bs = load_bytes p n s;
          (r, s) = syscall os (CRealloc p n) s
      in if ptr r = NULL then (NULL, s) else (ptr r, store_bytes (ptr r) bs s))"

partial_function (option) cwd_loop ::
  "'w os \<Rightarrow> addr \<Rightarrow> u64 \<Rightarrow> addr \<Rightarrow> ('w, 'z) sys_scheme \<Rightarrow> (yo_code \<times> ('w, 'z) sys_scheme) option" where
  "cwd_loop os buff buffn pres s =
     (let s = s\<lparr>errno := 0\<rparr>;
          (r, s) = syscall os (CGetcwd buffn) s
      in if ptr r \<noteq> NULL then
           let path = the (r_text r);
               s = store_bytes buff (cstr path) s;
               (p, s) = realloc os buff (of_nat (length path) + 1) s
           in Some (YO_OK, set_ptr pres p s)
         else if errno s \<noteq> ERANGE then let s = free os buff s in Some (return_errno s)
         else
           let buffn = buffn * 2;
               s = free os buff s;
               (buff, s) = malloc os buffn s
           in if buff = NULL then Some (YO_ENOMEM, s) else cwd_loop os buff buffn pres s)"

datatype yo_path_type = YO_PATH_HOME | YO_PATH_CONFIG | YO_PATH_DATA | YO_PATH_CACHE
  | YO_PATH_RUNTIME | YO_PATH_CWD | YO_PATH_OTHER int

definition path_result :: "addr \<Rightarrow> (addr \<times> ('w, 'z) sys_scheme) option
     \<Rightarrow> (yo_code \<times> ('w, 'z) sys_scheme) option" where
  "path_result pres x = do {
     (res, s) \<leftarrow> x;
     if res = NULL then Some (return_errno s) else Some (YO_OK, set_ptr pres res s) }"

definition yo_getpath ::
  "'w os \<Rightarrow> yo_path_type \<Rightarrow> addr \<Rightarrow> ('w, 'z) sys_scheme \<Rightarrow> (yo_code \<times> ('w, 'z) sys_scheme) option" where
  "yo_getpath os typ pres s =
     (case typ of
        YO_PATH_HOME \<Rightarrow> path_result pres (yoi_generic_getenvpath os None s)
      | YO_PATH_CACHE \<Rightarrow> path_result pres (yoi_unix_getpath os ''XDG_CACHE_HOME'' ''/.cache'' s)
      | YO_PATH_CONFIG \<Rightarrow> path_result pres (yoi_unix_getpath os ''XDG_CONFIG_HOME'' ''/.config'' s)
      | YO_PATH_DATA \<Rightarrow> path_result pres (yoi_unix_getpath os ''XDG_DATA_HOME'' ''/.local/share'' s)
      | YO_PATH_RUNTIME \<Rightarrow>
          let (r, s) = syscall os (CGetenv ''XDG_RUNTIME_DIR'') s;
              res = (case r_text r of Some (c # cs) \<Rightarrow> c # cs | _ \<Rightarrow> ''/tmp'');
              (p, s) = malloc os (of_nat (length res) + 1) s;
              s = set_ptr pres p s
          in if p = NULL then Some (return_errno s)
             else Some (YO_OK, store_bytes p (cstr res) s)
      | YO_PATH_CWD \<Rightarrow>
          let (buff, s) = malloc os PATH_MAX s
          in if buff = NULL then Some (YO_ENOMEM, s) else cwd_loop os buff PATH_MAX pres s
      | YO_PATH_OTHER _ \<Rightarrow> Some (YO_EINVAL, s))"

definition yo_env_get :: "'w os \<Rightarrow> string \<Rightarrow> addr \<Rightarrow> ('w, 'z) sys_scheme \<Rightarrow> yo_code \<times> ('w, 'z) sys_scheme" where
  "yo_env_get os nam pres s =
     (let (r, s) = syscall os (CGetenv nam) s
      in case r_text r of
           None \<Rightarrow> (YO_OK, set_ptr pres NULL s)
         | Some val \<Rightarrow>
             let (res, s) = malloc os (of_nat (length val) + 1) s
             in if res = NULL then (YO_ENOMEM, s)
                else
                  let s = store_bytes res (cstr val) s
                  in (YO_OK, set_ptr pres res s))"

definition yo_env_set :: "'w os \<Rightarrow> string \<Rightarrow> string option \<Rightarrow> ('w, 'z) sys_scheme \<Rightarrow> yo_code \<times> ('w, 'z) sys_scheme" where
  "yo_env_set os nam val s =
     (case val of
        None \<Rightarrow>
          let (r, s) = syscall os (CUnsetenv nam) s
          in if ret r < 0 then return_errno s else (YO_OK, s)
      | Some v \<Rightarrow>
          let (r, s) = syscall os (CSetenv nam v) s
          in if ret r < 0 then return_errno s else (YO_OK, s))"

text \<open>\<open>environ\<close> is the address of a NULL-terminated array of pointers.\<close>

record 'w en = "'w io" +
  environ :: addr
  enviter :: "addr \<Rightarrow> addr"

abbreviation (input) sizeof_yo_enviter :: u64 where "sizeof_yo_enviter \<equiv> 8"

definition yo_enviter_new :: "'w os \<Rightarrow> ('w, 'z) en_scheme \<Rightarrow> addr \<times> ('w, 'z) en_scheme" where
  "yo_enviter_new os s =
     (let (res, s) = malloc os sizeof_yo_enviter s
      in if res = NULL then (NULL, s)
         else (res, s\<lparr>enviter := (enviter s)(res := environ s)\<rparr>))"

definition yo_enviter_next :: "addr \<Rightarrow> addr \<Rightarrow> ('w, 'z) en_scheme \<Rightarrow> yo_code \<times> ('w, 'z) en_scheme" where
  "yo_enviter_next iter pres s =
     (let pair = m_ptr s (enviter s iter);
          s = (if pair \<noteq> NULL then s\<lparr>enviter := (enviter s)(iter := enviter s iter + 8)\<rparr> else s)
      in (YO_OK, set_ptr pres pair s))"

definition yo_enviter_close :: "'w os \<Rightarrow> addr \<Rightarrow> ('w, 'z) en_scheme \<Rightarrow> ('w, 'z) en_scheme" where
  "yo_enviter_close os iter s = free os iter s"

section \<open>A system with a user, a directory and an environment\<close>

definition string_at :: "('w, 'z) sys_scheme \<Rightarrow> addr \<Rightarrow> string \<Rightarrow> bool" where
  "string_at s p str \<longleftrightarrow> map (\<lambda>i. m_byte s (p + of_nat i)) [0..<length str + 1] = cstr str"

text \<open>
  \<open>E\<close> is the environment. \<open>malloc\<close> and \<open>realloc\<close> have memory. The user has an entry, which needs a buffer of \<open>n\<close> bytes, and the
  working directory needs one of \<open>k\<close> bytes. When the buffer is too small, \<open>getcwd\<close> sets \<open>errno\<close>, while \<open>getpwuid_r\<close> is documented to
  return \<open>ERANGE\<close>; what it does to \<open>errno\<close> is left open.
\<close>

definition user_os :: "('w \<Rightarrow> string \<Rightarrow> string option) \<Rightarrow> string \<Rightarrow> nat \<Rightarrow> string \<Rightarrow> nat \<Rightarrow> 'w os \<Rightarrow> bool" where
  "user_os E home n cwd k os \<longleftrightarrow>
     (\<forall>w m. ptr (fst (os w (CMalloc m))) \<noteq> NULL \<and> E (snd (os w (CMalloc m))) = E w)
   \<and> (\<forall>w p m. ptr (fst (os w (CRealloc p m))) \<noteq> NULL)
   \<and> (\<forall>w p. eno (fst (os w (CFree p))) = None \<and> E (snd (os w (CFree p))) = E w)
   \<and> (\<forall>w x. r_text (fst (os w (CGetenv x))) = E w x \<and> E (snd (os w (CGetenv x))) = E w)
   \<and> (\<forall>w m. if n \<le> unat m then r_text (fst (os w (CGetpwuid m))) = Some home
            else r_text (fst (os w (CGetpwuid m))) = None \<and> ret (fst (os w (CGetpwuid m))) = ERANGE)
   \<and> (\<forall>w m. if k \<le> unat m then ptr (fst (os w (CGetcwd m))) \<noteq> NULL \<and> r_text (fst (os w (CGetcwd m))) = Some cwd
            else ptr (fst (os w (CGetcwd m))) = NULL \<and> eno (fst (os w (CGetcwd m))) = Some ERANGE)"

text \<open>Two kinds of systems: one that sets \<open>errno\<close> as well, and one where the calls below leave it alone.\<close>

definition sets_erange :: "nat \<Rightarrow> 'w os \<Rightarrow> bool" where
  "sets_erange n os \<longleftrightarrow> (\<forall>w m. unat m < n \<longrightarrow> eno (fst (os w (CGetpwuid m))) = Some ERANGE)"

definition spares_errno :: "'w os \<Rightarrow> bool" where
  "spares_errno os \<longleftrightarrow> (\<forall>w m p x. eno (fst (os w (CGetpwuid m))) = None \<and> eno (fst (os w (CMalloc m))) = None
     \<and> eno (fst (os w (CFree p))) = None \<and> eno (fst (os w (CGetenv x))) = None)"

lemma sets_erangeD: "sets_erange n os \<Longrightarrow> \<not> n \<le> unat m \<Longrightarrow> errno (after os (CGetpwuid m) s) = ERANGE"
  by (simp add: sets_erange_def after_errno reply_of_def)

lemma spares_errnoD:
  assumes "spares_errno os"
  shows "errno (after os (CGetpwuid m) s) = errno s" and "errno (after os (CMalloc m) s) = errno s"
    and "errno (after os (CFree p) s) = errno s" and "errno (after os (CGetenv x) s) = errno s"
  using assms by (simp_all add: spares_errno_def after_errno reply_of_def)

lemma user_laws:
  assumes "user_os E home n cwd k os"
  shows "ptr (reply_of os (CMalloc m) s) \<noteq> NULL" and "ptr (reply_of os (CRealloc p m) s) \<noteq> NULL"
    and "r_text (reply_of os (CGetenv x) s) = E (world s) x"
    and "n \<le> unat m \<Longrightarrow> r_text (reply_of os (CGetpwuid m) s) = Some home"
    and "\<not> n \<le> unat m \<Longrightarrow> r_text (reply_of os (CGetpwuid m) s) = None"
    and "k \<le> unat m \<Longrightarrow> ptr (reply_of os (CGetcwd m) s) \<noteq> NULL \<and> r_text (reply_of os (CGetcwd m) s) = Some cwd"
    and "\<not> k \<le> unat m \<Longrightarrow> ptr (reply_of os (CGetcwd m) s) = NULL \<and> errno (after os (CGetcwd m) s) = ERANGE"
  using assms unfolding user_os_def by (simp_all add: reply_of_def after_errno)

text \<open>A buffer that is too small is replaced by one of twice the size.\<close>

definition swapped :: "addr \<Rightarrow> addr \<Rightarrow> ('w, 'z) sys_scheme \<Rightarrow> ('w, 'z) sys_scheme \<Rightarrow> bool" where
  "swapped p p' s s' \<longleftrightarrow> (\<forall>x. held (trace s') x + int (count_list [Mem p] x) = held (trace s) x + int (count_list [Mem p'] x))"

lemma swapped_refl: "swapped p p s s"
  by (simp add: swapped_def)

lemma swapped_trans: "swapped p q s t \<Longrightarrow> swapped q r t u \<Longrightarrow> swapped p r s u"
  unfolding swapped_def by (smt (verit))

lemma unat_double:
  assumes "unat m < n" and "n \<le> 2 ^ 63"
  shows "unat (m * 2 :: u64) = 2 * unat m"
  using assms by (simp add: unat_word_ariths)

lemma pw_loop_finds:
  assumes law: "user_os E home n cwd k os" and n: "n \<le> 2 ^ 63"
  shows "0 < unat m \<Longrightarrow> n \<le> unat m \<or> sets_erange n os \<Longrightarrow> buff \<noteq> NULL \<Longrightarrow>
     \<exists>b s'. pw_loop os buff m s = Some (Some (b, home), s') \<and> b \<noteq> NULL \<and> swapped buff b s s'"
proof (induction "n - unat m" arbitrary: m buff s rule: less_induct)
  case less
  show ?case
  proof (cases "n \<le> unat m")
    case True
    with less.prems user_laws(4) [OF law True, of s] show ?thesis
      by (subst pw_loop.simps) (simp add: sys_simps swapped_def delta_def)
  next
    case False
    let ?t1 = "after os (CFree buff) (after os (CGetpwuid m) s)"
    let ?q = "CMalloc (m * 2)" let ?b = "ptr (reply_of os ?q ?t1)"
    have m: "unat (m * 2) = 2 * unat m" using False n by (intro unat_double) simp_all
    have nn: "?b \<noteq> NULL" by (rule user_laws(1) [OF law])
    have se: "sets_erange n os" using False less.prems(2) by simp
    have "n - unat (m * 2) < n - unat m" "0 < unat (m * 2)" using m False less.prems(1) by linarith+
    from less.hyps [OF this _ nn] se obtain b s' where
      b: "pw_loop os ?b (m * 2) (after os ?q ?t1) = Some (Some (b, home), s')" "b \<noteq> NULL"
        "swapped ?b b (after os ?q ?t1) s'" by blast
    have "swapped buff ?b s (after os ?q ?t1)" using nn less.prems(3) by (simp add: swapped_def delta_def)
    from swapped_trans [OF this b(3)] b(1,2) user_laws(5) [OF law False, of s] sets_erangeD [OF se False, of s] nn show ?thesis
      by (subst pw_loop.simps) (simp add: sys_simps Let_def)
  qed
qed

lemma string_at_store: "length str < 2 ^ 32 \<Longrightarrow> string_at (store_bytes p (cstr str) s) p str"
  using load_store_bytes [of "cstr str" "m_byte s" p] by (simp add: string_at_def cstr_def del: upt_Suc)

lemma string_at_simps [simp]:
  "string_at (after os q s) p str = string_at s p str" "string_at (set_ptr a b s) p str = string_at s p str"
  by (simp_all add: string_at_def set_ptr_def)

lemma sys_set_ptr [simp]:
  fixes s :: "('w, 'z) sys_scheme"
  shows "trace (set_ptr p a s) = trace s" "m_ptr (set_ptr p a s) = (m_ptr s)(p := a)" "m_byte (set_ptr p a s) = m_byte s"
    "m_ptr (store_bytes p bs s) = m_ptr s"
  by (simp_all add: set_ptr_def store_bytes_def)

lemma generic_path:
  assumes law: "user_os E home n cwd k os" and n: "n \<le> 2 ^ 63" and room: "n \<le> 4096 \<or> sets_erange n os"
    and len: "length (home @ (case suffix of None \<Rightarrow> [] | Some x \<Rightarrow> x)) < 2 ^ 32"
  shows "\<exists>p s'. yoi_generic_getenvpath os suffix s = Some (p, s') \<and> p \<noteq> NULL \<and> gained [Mem p] s s'
     \<and> string_at s' p (home @ (case suffix of None \<Rightarrow> [] | Some x \<Rightarrow> x))"
proof -
  let ?q = "CMalloc PATH_MAX" let ?buff = "ptr (reply_of os ?q s)"
  have nn: "?buff \<noteq> NULL" by (rule user_laws(1) [OF law])
  obtain b s1 where pw: "pw_loop os ?buff PATH_MAX (after os ?q s) = Some (Some (b, home), s1)"
    "b \<noteq> NULL" "swapped ?buff b (after os ?q s) s1"
    using pw_loop_finds [OF law n, of PATH_MAX ?buff "after os ?q s"] nn room by auto
  have grow: "\<forall>x. held (trace s1) x = held (trace s) x + int (count_list [Mem b] x)"
    using pw(3) nn by (auto simp: swapped_def delta_def algebra_simps split: if_splits)
  show ?thesis
  proof (cases suffix)
    case None
    with pw nn grow user_laws(1) [OF law, of "of_nat (length home) + 1" s1] len show ?thesis
      by (auto simp: yoi_generic_getenvpath_def sys_simps Let_def string_at_store ledger_simps)
  next
    case (Some x)
    with pw nn grow user_laws(1) [OF law, of "of_nat (length home) + of_nat (length x) + 1" s1] len show ?thesis
      by (auto simp: yoi_generic_getenvpath_def sys_simps Let_def string_at_store ledger_simps)
  qed
qed

text \<open>A failure of \<open>getpwuid_r\<close> that does not show in \<open>errno\<close>.\<close>

lemma generic_fails:
  assumes law: "user_os E home n cwd k os" and n: "4096 < n" and spares: "spares_errno os" and e: "errno s \<noteq> ERANGE"
  shows "\<exists>s'. yoi_generic_getenvpath os suffix s = Some (NULL, s') \<and> errno s' = errno s \<and> m_ptr s' = m_ptr s \<and> gained [] s s'"
proof -
  let ?q = "CMalloc PATH_MAX" let ?buff = "ptr (reply_of os ?q s)" let ?t = "after os (CGetpwuid PATH_MAX) (after os ?q s)"
  have nn: "?buff \<noteq> NULL" by (rule user_laws(1) [OF law])
  have "\<not> n \<le> unat PATH_MAX" using n by simp
  from user_laws(5) [OF law this, of "after os ?q s"] e
  have "pw_loop os ?buff PATH_MAX (after os ?q s) = Some (None, after os (CFree ?buff) ?t)"
    by (subst pw_loop.simps) (simp add: sys_simps spares_errnoD [OF spares])
  with nn show ?thesis
    by (simp add: yoi_generic_getenvpath_def sys_simps spares_errnoD [OF spares] ledger_simps)
qed

lemma xdg_path:
  assumes law: "user_os E home n cwd k os" and n: "n \<le> 2 ^ 63"
    and room: "(\<exists>c cs. E (world s) x = Some (c # cs)) \<or> n \<le> 4096 \<or> sets_erange n os" and len: "length (home @ suffix) < 2 ^ 32"
    and env: "\<forall>v. E (world s) x = Some v \<longrightarrow> length v < 2 ^ 32"
  shows "\<exists>p s'. yoi_unix_getpath os x suffix s = Some (p, s') \<and> p \<noteq> NULL \<and> gained [Mem p] s s'
     \<and> string_at s' p (case E (world s) x of Some (c # cs) \<Rightarrow> c # cs | _ \<Rightarrow> home @ suffix)"
proof -
  let ?t = "after os (CGetenv x) s"
  have env': "r_text (reply_of os (CGetenv x) s) = E (world s) x" by (rule user_laws(3) [OF law])
  show ?thesis
  proof (cases "\<exists>c cs. E (world s) x = Some (c # cs)")
    case True
    then obtain c cs where v: "E (world s) x = Some (c # cs)" by blast
    then have "length (c # cs) < 2 ^ 32" using env by blast
    from string_at_store [OF this] v env' user_laws(1) [OF law, of "of_nat (length (c # cs)) + 1" ?t] show ?thesis
      by (simp add: yoi_unix_getpath_def sys_simps ledger_simps)
  next
    case False
    have "n \<le> 4096 \<or> sets_erange n os" using room False by blast
    then have "\<exists>p s'. yoi_generic_getenvpath os (Some suffix) ?t = Some (p, s') \<and> p \<noteq> NULL \<and> gained [Mem p] ?t s'
        \<and> string_at s' p (home @ suffix)"
      using generic_path [OF law n, of "Some suffix" ?t] len by simp
    moreover have "gained [Mem p] ?t s' = gained [Mem p] s s'" for p s'
      by (simp add: ledger_simps)
    ultimately show ?thesis
      using False env' by (auto simp: yoi_unix_getpath_def sys_simps split: option.splits list.splits)
  qed
qed

lemma cwd_loop_finds:
  assumes law: "user_os E home n cwd k os" and k: "k \<le> 2 ^ 63" and len: "length cwd < 2 ^ 32"
  shows "0 < unat m \<Longrightarrow> buff \<noteq> NULL \<Longrightarrow>
     \<exists>s'. cwd_loop os buff m pres s = Some (YO_OK, s') \<and> m_ptr s' pres \<noteq> NULL
       \<and> swapped buff (m_ptr s' pres) s s' \<and> string_at s' (m_ptr s' pres) cwd"
proof (induction "k - unat m" arbitrary: m buff s rule: less_induct)
  case less
  let ?s = "s\<lparr>errno := 0\<rparr>" let ?t = "after os (CGetcwd m) ?s"
  show ?case
  proof (cases "k \<le> unat m")
    case True
    let ?u = "store_bytes buff (cstr cwd) ?t" let ?q = "CRealloc buff (of_nat (length cwd) + 1)"
    have "unat (of_nat (length cwd) + 1 :: u64) = Suc (length cwd)"
      using len by (simp add: unat_word_ariths unsigned_of_nat take_bit_nat_eq_self)
    then have "load_bytes buff (of_nat (length cwd) + 1) ?u = cstr cwd"
      using string_at_store [OF len, of buff ?t] by (simp add: load_bytes_def string_at_def del: upt_Suc)
    moreover have "ptr (reply_of os ?q ?u) \<noteq> NULL" by (rule user_laws(2) [OF law])
    ultimately show ?thesis
      using less.prems user_laws(6) [OF law True, of ?s] string_at_store [OF len]
      by (subst cwd_loop.simps) (simp add: sys_simps Let_def realloc_def swapped_def delta_def)
  next
    case False
    let ?t1 = "after os (CFree buff) ?t"
    let ?q = "CMalloc (m * 2)" let ?b = "ptr (reply_of os ?q ?t1)"
    have m: "unat (m * 2) = 2 * unat m" using False k by (intro unat_double) simp_all
    have nn: "?b \<noteq> NULL" by (rule user_laws(1) [OF law])
    have "k - unat (m * 2) < k - unat m" "0 < unat (m * 2)" using m False less.prems(1) by linarith+
    from less.hyps [OF this nn] obtain s' where
      b: "cwd_loop os ?b (m * 2) pres (after os ?q ?t1) = Some (YO_OK, s')" "m_ptr s' pres \<noteq> NULL"
        "swapped ?b (m_ptr s' pres) (after os ?q ?t1) s'" "string_at s' (m_ptr s' pres) cwd" by blast
    have "swapped buff ?b s (after os ?q ?t1)" using nn less.prems(2) by (simp add: swapped_def delta_def)
    from swapped_trans [OF this b(3)] b(1,2,4) user_laws(7) [OF law False, of ?s] nn show ?thesis
      by (subst cwd_loop.simps) (simp add: sys_simps Let_def)
  qed
qed

section \<open>Properties\<close>

text \<open>What the documentation promises for each kind of path.\<close>

definition xdg :: "(string \<Rightarrow> string option) \<Rightarrow> string \<Rightarrow> string \<Rightarrow> string" where
  "xdg env x dflt = (case env x of Some (c # cs) \<Rightarrow> c # cs | _ \<Rightarrow> dflt)"

definition path_of :: "(string \<Rightarrow> string option) \<Rightarrow> string \<Rightarrow> string \<Rightarrow> yo_path_type \<Rightarrow> string" where
  "path_of env home cwd typ = (case typ of
     YO_PATH_HOME \<Rightarrow> home
   | YO_PATH_CACHE \<Rightarrow> xdg env ''XDG_CACHE_HOME'' (home @ ''/.cache'')
   | YO_PATH_CONFIG \<Rightarrow> xdg env ''XDG_CONFIG_HOME'' (home @ ''/.config'')
   | YO_PATH_DATA \<Rightarrow> xdg env ''XDG_DATA_HOME'' (home @ ''/.local/share'')
   | YO_PATH_RUNTIME \<Rightarrow> xdg env ''XDG_RUNTIME_DIR'' ''/tmp''
   | YO_PATH_CWD \<Rightarrow> cwd
   | YO_PATH_OTHER _ \<Rightarrow> [])"

text \<open>Whether the entry of the user is read.\<close>

definition reads_entry :: "(string \<Rightarrow> string option) \<Rightarrow> yo_path_type \<Rightarrow> bool" where
  "reads_entry env typ \<longleftrightarrow> (case typ of
     YO_PATH_HOME \<Rightarrow> True
   | YO_PATH_CACHE \<Rightarrow> env ''XDG_CACHE_HOME'' \<in> {None, Some []}
   | YO_PATH_CONFIG \<Rightarrow> env ''XDG_CONFIG_HOME'' \<in> {None, Some []}
   | YO_PATH_DATA \<Rightarrow> env ''XDG_DATA_HOME'' \<in> {None, Some []}
   | _ \<Rightarrow> False)"

lemma set_not_empty: "x \<notin> {None, Some []} \<longleftrightarrow> (\<exists>c cs. x = Some (c # cs))"
  by (cases x) (auto simp: neq_Nil_conv)

lemma path_found:
  assumes law: "user_os E home n cwd k os" and sizes: "n \<le> 2 ^ 63" "k \<le> 2 ^ 63"
    and len: "length home + 16 < 2 ^ 32" "length cwd < 2 ^ 32" "\<forall>x v. E (world s) x = Some v \<longrightarrow> length v < 2 ^ 32"
    and kind: "\<nexists>i. ty = YO_PATH_OTHER i" and room: "\<not> reads_entry (E (world s)) ty \<or> n \<le> 4096 \<or> sets_erange n os"
  shows "\<exists>s'. yo_getpath os ty pres s = Some (YO_OK, s')
     \<and> string_at s' (m_ptr s' pres) (path_of (E (world s)) home cwd ty) \<and> gained [Mem (m_ptr s' pres)] s s'"
proof -
  have packed: "\<exists>s'. path_result pres x = Some (YO_OK, s') \<and> string_at s' (m_ptr s' pres) str
      \<and> gained [Mem (m_ptr s' pres)] s s'"
    if "\<exists>p s'. x = Some (p, s') \<and> p \<noteq> NULL \<and> gained [Mem p] s s' \<and> string_at s' p str" for x str
    using that by (auto simp: path_result_def set_ptr_def gained_def string_at_def)
  have env: "\<forall>v. E (world s) x = Some v \<longrightarrow> length v < 2 ^ 32" for x using len(3) by blast
  note xdg = xdg_path [OF law sizes(1) _ _ env]
  show ?thesis
  proof (cases ty)
    case YO_PATH_HOME
    with packed [OF generic_path [OF law sizes(1), of None s, simplified]] len room show ?thesis
      by (simp add: yo_getpath_def path_of_def reads_entry_def)
  next
    case YO_PATH_CACHE
    then have "(\<exists>c cs. E (world s) ''XDG_CACHE_HOME'' = Some (c # cs)) \<or> n \<le> 4096 \<or> sets_erange n os"
      using room by (simp add: reads_entry_def flip: set_not_empty)
    with YO_PATH_CACHE packed [OF xdg [of "''XDG_CACHE_HOME''" "''/.cache''"]] len show ?thesis
      by (simp add: yo_getpath_def path_of_def xdg_def)
  next
    case YO_PATH_CONFIG
    then have "(\<exists>c cs. E (world s) ''XDG_CONFIG_HOME'' = Some (c # cs)) \<or> n \<le> 4096 \<or> sets_erange n os"
      using room by (simp add: reads_entry_def flip: set_not_empty)
    with YO_PATH_CONFIG packed [OF xdg [of "''XDG_CONFIG_HOME''" "''/.config''"]] len show ?thesis
      by (simp add: yo_getpath_def path_of_def xdg_def)
  next
    case YO_PATH_DATA
    then have "(\<exists>c cs. E (world s) ''XDG_DATA_HOME'' = Some (c # cs)) \<or> n \<le> 4096 \<or> sets_erange n os"
      using room by (simp add: reads_entry_def flip: set_not_empty)
    with YO_PATH_DATA packed [OF xdg [of "''XDG_DATA_HOME''" "''/.local/share''"]] len show ?thesis
      by (simp add: yo_getpath_def path_of_def xdg_def)
  next
    case YO_PATH_CWD
    let ?q = "CMalloc PATH_MAX" let ?b = "ptr (reply_of os ?q s)"
    have nn: "?b \<noteq> NULL" by (rule user_laws(1) [OF law])
    obtain s' where s': "cwd_loop os ?b PATH_MAX pres (after os ?q s) = Some (YO_OK, s')"
      "swapped ?b (m_ptr s' pres) (after os ?q s) s'" "string_at s' (m_ptr s' pres) cwd"
      using cwd_loop_finds [OF law sizes(2) len(2), of PATH_MAX ?b pres "after os ?q s"] nn by auto
    have "gained [Mem (m_ptr s' pres)] s s'"
      using s'(2) nn by (auto simp: swapped_def gained_def delta_def algebra_simps split: if_splits)
    with s' YO_PATH_CWD nn show ?thesis by (simp add: yo_getpath_def sys_simps path_of_def)
  next
    case YO_PATH_RUNTIME
    let ?x = "''XDG_RUNTIME_DIR''" let ?t = "after os (CGetenv ?x) s"
    let ?str = "case r_text (reply_of os (CGetenv ?x) s) of Some (c # cs) \<Rightarrow> c # cs | _ \<Rightarrow> ''/tmp''"
    have str: "?str = path_of (E (world s)) home cwd ty"
      using YO_PATH_RUNTIME by (simp add: path_of_def xdg_def user_laws(3) [OF law])
    have short: "length (path_of (E (world s)) home cwd ty) < 2 ^ 32"
      using YO_PATH_RUNTIME env [of ?x] by (auto simp: path_of_def xdg_def split: option.splits list.splits)
    show ?thesis
      using str YO_PATH_RUNTIME short
      by (simp add: yo_getpath_def sys_simps Let_def ledger_simps string_at_store user_laws(1) [OF law])
  qed (use kind in simp)
qed

lemma path_not_found:
  assumes law: "user_os E home n cwd k os" and entry: "reads_entry (E (world s)) ty" "4096 < n"
    and spares: "spares_errno os" and e: "errno s \<noteq> ERANGE"
  shows "\<exists>s'. yo_getpath os ty pres s = Some (yoi_unix_conv_errno (errno s), s') \<and> m_ptr s' = m_ptr s \<and> gained [] s s'"
proof -
  have home: "\<exists>s'. path_result pres (yoi_generic_getenvpath os suffix s) = Some (yoi_unix_conv_errno (errno s), s')
      \<and> m_ptr s' = m_ptr s \<and> gained [] s s'" for suffix
    using generic_fails [OF law entry(2) spares e, of suffix] by (auto simp: path_result_def return_errno_def)
  have var: "\<exists>s'. path_result pres (yoi_unix_getpath os x suffix s) = Some (yoi_unix_conv_errno (errno s), s')
      \<and> m_ptr s' = m_ptr s \<and> gained [] s s'" if "E (world s) x \<in> {None, Some []}" for x suffix
  proof -
    let ?t = "after os (CGetenv x) s"
    have "errno ?t = errno s" by (rule spares_errnoD [OF spares])
    with generic_fails [OF law entry(2) spares, of ?t "Some suffix"] e obtain s' where
      "yoi_generic_getenvpath os (Some suffix) ?t = Some (NULL, s')" "errno s' = errno s" "m_ptr s' = m_ptr s" "gained [] s s'"
      by (auto simp: ledger_simps)
    with that user_laws(3) [OF law, of x s] show ?thesis
      by (auto simp: yoi_unix_getpath_def sys_simps path_result_def return_errno_def)
  qed
  show ?thesis
    using entry(1) home [of None] var [of "''XDG_CACHE_HOME''" "''/.cache''"] var [of "''XDG_CONFIG_HOME''" "''/.config''"]
      var [of "''XDG_DATA_HOME''" "''/.local/share''"]
    by (cases ty) (simp_all add: reads_entry_def yo_getpath_def)
qed


text \<open>What \<open>setenv\<close>, \<open>unsetenv\<close> and \<open>getenv\<close> do to an environment \<open>E\<close>.\<close>

definition keeps_env :: "('w \<Rightarrow> string \<Rightarrow> string option) \<Rightarrow> 'w os \<Rightarrow> bool" where
  "keeps_env E os \<longleftrightarrow>
     (\<forall>w x v. ret (fst (os w (CSetenv x v))) = 0 \<longrightarrow> E (snd (os w (CSetenv x v))) = (E w)(x := Some v))
   \<and> (\<forall>w x. ret (fst (os w (CUnsetenv x))) = 0 \<longrightarrow> E (snd (os w (CUnsetenv x))) = (E w)(x := None))
   \<and> (\<forall>w x. r_text (fst (os w (CGetenv x))) = E w x)
   \<and> (\<forall>w x v. ret (fst (os w (CSetenv x v))) \<le> 0 \<and> ret (fst (os w (CUnsetenv x))) \<le> 0)"

text \<open>
  C26: the environment keeps what is put into it: after \<open>yo_env_set\<close> succeeded with a value,
  \<open>yo_env_get\<close> for the name produces that value in a fresh block or runs out of memory; after it
  succeeded without one, \<open>yo_env_get\<close> produces NULL; another name has the value it had.
\<close>

theorem env_set_get:
  assumes posix: "posix_os os" and env: "keeps_env E os" and set: "yo_env_set os x val s = (YO_OK, t)"
  shows "case yo_env_get os y pres t of (c, s') \<Rightarrow>
     (case (if y = x then val else E (world s) y) of
        None \<Rightarrow> c = YO_OK \<and> m_ptr s' pres = NULL
      | Some v \<Rightarrow> c = YO_ENOMEM \<or> c = YO_OK \<and> gained [Mem (m_ptr s' pres)] t s'
           \<and> (length v < 2 ^ 32 \<longrightarrow> string_at s' (m_ptr s' pres) v))"
proof -
  have le: "ret (reply_of os (CSetenv x v) s) \<le> 0" "ret (reply_of os (CUnsetenv x) s) \<le> 0" for v
    using env by (simp_all add: keeps_env_def reply_of_def)
  have neg: "ret (reply_of os q s) = 0" if "ret (reply_of os q s) \<le> 0" "\<not> ret (reply_of os q s) < 0" for q
    using that by simp
  have "E (world t) = (E (world s))(x := val)"
  proof (cases val)
    case None
    then have "t = after os (CUnsetenv x) s" "\<not> ret (reply_of os (CUnsetenv x) s) < 0"
      using set by (auto simp: yo_env_set_def sys_simps posix split: if_splits)
    with neg [OF le(2)] None env show ?thesis by (simp add: keeps_env_def reply_of_def)
  next
    case (Some v)
    then have "t = after os (CSetenv x v) s" "\<not> ret (reply_of os (CSetenv x v) s) < 0"
      using set by (auto simp: yo_env_set_def sys_simps posix split: if_splits)
    with neg [OF le(1)] Some env show ?thesis by (simp add: keeps_env_def reply_of_def)
  qed
  then have "r_text (reply_of os (CGetenv y) t) = (if y = x then val else E (world s) y)"
    using env by (simp add: keeps_env_def reply_of_def)
  then show ?thesis
    by (auto simp: yo_env_get_def sys_simps Let_def ledger_simps string_at_store split: option.splits)
qed

text \<open>
  Walking the environment: the iterator reports the pointers of the array \<open>environ\<close> one by one,
  and then NULL for ever.
\<close>

fun env_walk :: "nat \<Rightarrow> addr \<Rightarrow> addr \<Rightarrow> ('w, 'z) en_scheme \<Rightarrow> addr list" where
  "env_walk 0 iter pres s = []"
| "env_walk (Suc n) iter pres s =
     (let s' = snd (yo_enviter_next iter pres s) in m_ptr s' pres # env_walk n iter pres s')"

lemma env_walk_from:
  assumes "\<forall>i < length ps. m_ptr s (enviter s iter + 8 * of_nat i) = ps ! i" and "NULL \<notin> set ps"
    and "m_ptr s (enviter s iter + 8 * of_nat (length ps)) = NULL"
    and "\<forall>i \<le> length ps. pres \<noteq> enviter s iter + 8 * of_nat i"
  shows "env_walk n iter pres s = take n (ps @ replicate n NULL)"
  using assms
proof (induction n arbitrary: s ps)
  case (Suc n)
  show ?case
  proof (cases ps)
    case Nil
    define s' where "s' = set_ptr pres NULL s"
    have nxt: "yo_enviter_next iter pres s = (YO_OK, s')" using Suc.prems Nil by (simp add: yo_enviter_next_def s'_def)
    have "env_walk n iter pres s' = take n ([] @ replicate n NULL)"
      using Suc.prems Nil by (intro Suc.IH) (simp_all add: s'_def set_ptr_def)
    with Nil nxt show ?thesis by (simp add: s'_def)
  next
    case (Cons p qs)
    define s' where "s' = set_ptr pres p (s\<lparr>enviter := (enviter s)(iter := enviter s iter + 8)\<rparr>)"
    have p: "m_ptr s (enviter s iter) = p" "p \<noteq> NULL"
      using spec [OF Suc.prems(1), of 0] Suc.prems(2) Cons by auto
    have nxt: "yo_enviter_next iter pres s = (YO_OK, s')" using p by (simp add: yo_enviter_next_def s'_def)
    have shift: "enviter s iter + 8 * of_nat (Suc i) = enviter s iter + 8 + 8 * of_nat i" for i
      by (simp add: algebra_simps)
    have "env_walk n iter pres s' = take n (qs @ replicate n NULL)"
    proof (rule Suc.IH)
      show "\<forall>i < length qs. m_ptr s' (enviter s' iter + 8 * of_nat i) = qs ! i"
      proof (intro allI impI)
        fix i assume "i < length qs"
        with spec [OF Suc.prems(1), of "Suc i"] spec [OF Suc.prems(4), of "Suc i"] Cons
        show "m_ptr s' (enviter s' iter + 8 * of_nat i) = qs ! i"
          unfolding shift by (simp add: s'_def set_ptr_def)
      qed
      show "NULL \<notin> set qs" using Suc.prems(2) Cons by simp
      show "m_ptr s' (enviter s' iter + 8 * of_nat (length qs)) = NULL"
        using Suc.prems(3) spec [OF Suc.prems(4), of "length ps"] unfolding Cons list.size shift
        by (simp add: s'_def set_ptr_def add.assoc)
      show "\<forall>i \<le> length qs. pres \<noteq> enviter s' iter + 8 * of_nat i"
      proof (intro allI impI)
        fix i assume "i \<le> length qs"
        with spec [OF Suc.prems(4), of "Suc i"] Cons show "pres \<noteq> enviter s' iter + 8 * of_nat i"
          unfolding shift by (simp add: s'_def set_ptr_def)
      qed
    qed
    moreover have "take n (qs @ replicate (Suc n) NULL) = take n (qs @ replicate n NULL)"
      by (simp del: replicate_Suc)
    ultimately show ?thesis using Cons nxt by (simp add: s'_def del: replicate_Suc)
  qed
qed simp

section \<open>A concrete system\<close>

text \<open>
  The world is the environment. The entry of the user needs 10000 bytes, so the buffer is
  enlarged twice. The second system is like the first, but \<open>getpwuid_r\<close> does not set \<open>errno\<close>.
\<close>

definition env_kernel :: "(string \<Rightarrow> string option) os" where
  "env_kernel w q = (case q of
     CMalloc m \<Rightarrow> (returns 4096, w)
   | CRealloc p m \<Rightarrow> (returns 65536, w)
   | CGetenv x \<Rightarrow> ((returns 0)\<lparr>r_text := w x\<rparr>, w)
   | CSetenv x v \<Rightarrow> (returns 0, w(x := Some v))
   | CUnsetenv x \<Rightarrow> (returns 0, w(x := None))
   | CGetpwuid m \<Rightarrow> if 10000 \<le> unat m then ((returns 0)\<lparr>r_text := Some ''/root''\<rparr>, w) else (failed 34 ERANGE, w)
   | CGetcwd m \<Rightarrow> if 100 \<le> unat m then ((returns 4096)\<lparr>r_text := Some ''/''\<rparr>, w) else (failed 0 ERANGE, w)
   | _ \<Rightarrow> (returns 1, w))"

definition quiet_kernel :: "(string \<Rightarrow> string option) os" where
  "quiet_kernel w q = (case q of
     CGetpwuid m \<Rightarrow> if 10000 \<le> unat m then ((returns 0)\<lparr>r_text := Some ''/root''\<rparr>, w) else (returns ERANGE, w)
   | _ \<Rightarrow> env_kernel w q)"

definition env_at :: "(string \<times> string) list \<Rightarrow> (string \<Rightarrow> string option) io" where
  "env_at xs = idle (map_of xs)"

lemma user_env_kernel: "user_os id ''/root'' 10000 ''/'' 100 env_kernel"
  unfolding user_os_def by (intro conjI allI) (simp_all add: env_kernel_def failed_def returns_def)

lemma user_quiet_kernel: "user_os id ''/root'' 10000 ''/'' 100 quiet_kernel"
  unfolding user_os_def by (intro conjI allI) (simp_all add: env_kernel_def quiet_kernel_def failed_def returns_def)


lemma env_set_get_witness:
  "case yo_env_get env_kernel ''K'' 8 (snd (yo_env_set env_kernel ''K'' (Some ''v'') (env_at []))) of (c, s') \<Rightarrow>
     c = YO_OK \<and> string_at s' (m_ptr s' 8) ''v''"
proof -
  have posix: "posix_os env_kernel"
    unfolding posix_os_def
  proof (intro allI)
    fix w q show "let r = fst (env_kernel w q) in (fails q r \<longrightarrow> eno r \<noteq> None) \<and> (\<forall>e. eno r = Some e \<longrightarrow> 0 < e)"
      by (cases q) (auto simp: env_kernel_def fails_def returns_pointer_def Let_def returns_def failed_def)
  qed
  have keeps: "keeps_env id env_kernel" by (simp add: keeps_env_def env_kernel_def)
  have set: "yo_env_set env_kernel ''K'' (Some ''v'') (env_at []) =
      (YO_OK, snd (yo_env_set env_kernel ''K'' (Some ''v'') (env_at [])))"
    by (simp add: yo_env_set_def sys_simps reply_of_def env_kernel_def)
  have "fst (yo_env_get env_kernel ''K'' 8 t) \<noteq> YO_ENOMEM" for t :: "(string \<Rightarrow> string option) io"
    by (auto simp: yo_env_get_def sys_simps Let_def reply_of_def env_kernel_def split: option.splits)
  note this [of "snd (yo_env_set env_kernel ''K'' (Some ''v'') (env_at []))"]
  with env_set_get [OF posix keeps set, where y = "''K''" and pres = 8] show ?thesis
    by (cases "yo_env_get env_kernel ''K'' 8 (snd (yo_env_set env_kernel ''K'' (Some ''v'') (env_at [])))") simp
qed

end
