(* ===== verification/Dns.thy ===== *)
theory Dns
  imports UnixIO
begin

text \<open>
  Name resolution, \<open>yo_dns_getaddrinfo\<close> of \<open>src/unix/impl.c\<close>. The resolver is the system call
  \<open>getaddrinfo\<close>; the library chooses the hints, converts the addresses and drops repeated ones
  (the resolver reports an address once for each kind of socket). The code of \<open>#ifdef EAI_NODATA\<close> is
  taken as compiled, that is for headers that define this name.
\<close>

section \<open>The operation\<close>

text \<open>The structure \<open>yo_addrinfo_t\<close>: the number of addresses and the elements of the array.\<close>

record 'w ai = "'w io" +
  ai_n :: "addr \<Rightarrow> u64"
  ai_addr :: "addr \<Rightarrow> nat \<Rightarrow> yo_addr"

abbreviation (input) sizeof_yo_addrinfo :: u64 where "sizeof_yo_addrinfo \<equiv> 8"
abbreviation (input) sizeof_yo_addr :: u64 where "sizeof_yo_addr \<equiv> 20"
abbreviation (input) YO_AI_IPV4 :: int where "YO_AI_IPV4 \<equiv> 1"
abbreviation (input) YO_AI_IPV6 :: int where "YO_AI_IPV6 \<equiv> 2"
abbreviation (input) YO_AI_IPV4_MAPPED :: int where "YO_AI_IPV4_MAPPED \<equiv> 4"
abbreviation (input) YO_AI_BIND :: int where "YO_AI_BIND \<equiv> 8"
abbreviation (input) YO_AI_NODNS :: int where "YO_AI_NODNS \<equiv> 16"
abbreviation (input) AI_PASSIVE :: int where "AI_PASSIVE \<equiv> 1"
abbreviation (input) AI_NUMERICHOST :: int where "AI_NUMERICHOST \<equiv> 4"
abbreviation (input) AI_V4MAPPED :: int where "AI_V4MAPPED \<equiv> 8"

text \<open>The hints: \<open>ai_flags\<close> and \<open>ai_family\<close>.\<close>

definition ai_hints :: "int \<Rightarrow> int \<times> int" where
  "ai_hints flags =
     (let ai_flags = 0;
          ai_flags = (if flags AND YO_AI_IPV4_MAPPED \<noteq> 0 then ai_flags OR YO_AI_IPV4_MAPPED else ai_flags);
          ai_family = (if flags AND YO_AI_IPV6 \<noteq> 0 then AF_INET6
                       else if flags AND YO_AI_IPV4 \<noteq> 0 then AF_INET
                       else AF_UNSPEC);
          ai_flags = (if flags AND YO_AI_BIND \<noteq> 0 then ai_flags OR AI_PASSIVE else ai_flags);
          ai_flags = (if flags AND YO_AI_NODNS \<noteq> 0 then ai_flags OR AI_NUMERICHOST else ai_flags)
      in (ai_flags, ai_family))"

text \<open>The loop over the list, with \<open>i\<close> addresses stored so far in \<open>arr\<close>.\<close>

fun ai_loop :: "sockaddr list \<Rightarrow> nat \<Rightarrow> (nat \<Rightarrow> yo_addr) \<Rightarrow> nat \<times> (nat \<Rightarrow> yo_addr)" where
  "ai_loop [] i arr = (i, arr)"
| "ai_loop (it # its) i arr =
     (let (a, port) = yoi_unix_conv_sockaddr it;
          found = list_ex (\<lambda>j. yo_addrcmp a (arr j)) [0..<i]
      in if \<not> found then ai_loop its (i + 1) (arr(i := a)) else ai_loop its i arr)"

definition yo_dns_getaddrinfo ::
  "'w os \<Rightarrow> addr \<Rightarrow> string option \<Rightarrow> int \<Rightarrow> ('w, 'z) ai_scheme \<Rightarrow> yo_code \<times> ('w, 'z) ai_scheme" where
  "yo_dns_getaddrinfo os pres nam flags s =
     (let (ai_flags, ai_family) = ai_hints flags;
          (r, s) = syscall os (CGetaddrinfo nam ai_flags ai_family) s; code = ret r
      in if code \<noteq> 0 \<and> code \<noteq> EAI_NODATA \<and> code \<noteq> EAI_NONAME then (yoi_unix_conv_aierr code, s)
         else
           let lst = (if code = 0 then r_socks r else []);
               n = length lst;
               (res, s) = malloc os (sizeof_yo_addrinfo + sizeof_yo_addr * of_nat n) s
           in if res = NULL then (YO_RAW ENOMEM, s)
              else
                let (i, arr) = ai_loop lst 0 (ai_addr s res);
                    s = s\<lparr>ai_addr := (ai_addr s)(res := arr), ai_n := (ai_n s)(res := of_nat i)\<rparr>;
                    s = (if lst \<noteq> [] then ignore os CFreeaddrinfo s else s)
                in (YO_OK, set_ptr pres res s))"

section \<open>Dropping repetitions\<close>

definition conv :: "sockaddr \<Rightarrow> yo_addr" where
  "conv sa = fst (yoi_unix_conv_sockaddr sa)"

text \<open>The first occurrences, in order.\<close>

definition firsts :: "'a list \<Rightarrow> 'a list" where
  "firsts xs = rev (remdups (rev xs))"

lemma addrcmp_eq: "yo_addrcmp a b \<longleftrightarrow> a = b"
  by (cases a; cases b) (simp_all add: yo_addrcmp_def)

lemma firsts_snoc: "firsts (xs @ [x]) = (if x \<in> set xs then firsts xs else firsts xs @ [x])"
  by (simp add: firsts_def)

lemma set_firsts [simp]: "set (firsts xs) = set xs"
  by (simp add: firsts_def)

lemma distinct_firsts [simp]: "distinct (firsts xs)"
  by (simp add: firsts_def)

lemma length_firsts: "length (firsts xs) \<le> length xs"
  using length_remdups_leq [of "rev xs"] by (simp add: firsts_def)

lemma ai_loop_firsts:
  assumes "ys = firsts xs" and "map arr [0..<length ys] = ys"
  shows "case ai_loop its (length ys) arr of (i, arr') \<Rightarrow>
     i = length (firsts (xs @ map conv its)) \<and> map arr' [0..<i] = firsts (xs @ map conv its)"
  using assms
proof (induction its arbitrary: xs ys arr)
  case (Cons it its)
  let ?a = "conv it"
  have found: "list_ex (\<lambda>j. yo_addrcmp ?a (arr j)) [0..<length ys] \<longleftrightarrow> ?a \<in> set xs"
  proof -
    have "list_ex (\<lambda>j. yo_addrcmp ?a (arr j)) [0..<length ys] \<longleftrightarrow> ?a \<in> set (map arr [0..<length ys])"
      by (auto simp: list_ex_iff addrcmp_eq)
    also have "map arr [0..<length ys] = firsts xs" using Cons.prems by simp
    finally show ?thesis by simp
  qed
  obtain port where conv: "yoi_unix_conv_sockaddr it = (?a, port)"
    unfolding conv_def by (cases "yoi_unix_conv_sockaddr it") auto
  show ?case
  proof (cases "?a \<in> set xs")
    case True
    then have "ys = firsts (xs @ [?a])" using Cons.prems(1) by (simp add: firsts_snoc)
    from Cons.IH [OF this Cons.prems(2)] True found conv show ?thesis by (simp add: Let_def)
  next
    case False
    have "ys @ [?a] = firsts (xs @ [?a])" using False Cons.prems(1) by (simp add: firsts_snoc)
    moreover have "map (arr(length ys := ?a)) [0..<length (ys @ [?a])] = ys @ [?a]"
      using Cons.prems(2) by simp
    ultimately have "case ai_loop its (length (ys @ [?a])) (arr(length ys := ?a)) of (i, arr') \<Rightarrow>
        i = length (firsts ((xs @ [?a]) @ map conv its)) \<and> map arr' [0..<i] = firsts ((xs @ [?a]) @ map conv its)"
      by (rule Cons.IH)
    with False found conv show ?thesis by (simp add: Let_def)
  qed
qed simp

lemma ai_simps [simp]:
  "ai_n (after os q s) = ai_n s" "ai_addr (after os q s) = ai_addr s"
  "ai_n (set_ptr p a s) = ai_n s" "ai_addr (set_ptr p a s) = ai_addr s"
  by (simp_all add: after_eq set_ptr_def)

section \<open>Properties\<close>

text \<open>
  C25: what resolution produces. On success \<open>*pres\<close> is a fresh block with the addresses that the
  resolver reported, each once and in the order of their first occurrence, and nothing else is held.
  An answer without addresses is an empty result, another failure is converted. When the result
  cannot be allocated the resolver's list is leaked, and the number returned is the system's
  \<open>ENOMEM\<close>, which is not a code of the library.
\<close>

theorem getaddrinfo_result:
  fixes s :: "('w, 'z) ai_scheme"
  defines "q \<equiv> \<lambda>nam flags. CGetaddrinfo nam (fst (ai_hints flags)) (snd (ai_hints flags))"
  assumes r: "r = reply_of os (q nam flags) s" and resolver: "ret r = 0 \<longrightarrow> r_socks r \<noteq> []"
    and bound: "length (r_socks r) < 2 ^ 32"
  shows "case yo_dns_getaddrinfo os pres nam flags s of (c, s') \<Rightarrow>
     if ret r \<notin> {0, EAI_NODATA, EAI_NONAME} then c = yoi_unix_conv_aierr (ret r) \<and> gained [] s s'
     else if c = YO_OK then
       (let res = m_ptr s' pres; n = unat (ai_n s' res)
        in map (ai_addr s' res) [0..<n] = firsts (if ret r = 0 then map conv (r_socks r) else [])
         \<and> gained [Mem res] s s')
     else c = YO_RAW ENOMEM \<and> gained (if ret r = 0 then [AddrList] else []) s s'"
proof -
  let ?l = "if ret r = 0 then r_socks r else []"
  let ?t = "after os (q nam flags) s"
  obtain fl fam where h: "ai_hints flags = (fl, fam)" by fastforce
  have q: "q nam flags = CGetaddrinfo nam fl fam" by (simp add: q_def h)
  show ?thesis
  proof (cases "ret r \<in> {0, EAI_NODATA, EAI_NONAME}")
    case False
    then show ?thesis
      using r by (auto simp: yo_dns_getaddrinfo_def h q sys_simps Let_def ledger_simps)
  next
    case True
    let ?m = "CMalloc (sizeof_yo_addrinfo + sizeof_yo_addr * of_nat (length ?l))"
    let ?res = "ptr (reply_of os ?m ?t)" let ?u = "after os ?m ?t"
    obtain i arr where loop: "ai_loop ?l 0 (ai_addr ?u ?res) = (i, arr)" by fastforce
    then have i: "i = length (firsts (map conv ?l))" "map arr [0..<i] = firsts (map conv ?l)"
      using ai_loop_firsts [of "[]" "[]" "ai_addr ?u ?res" ?l] by (auto simp: firsts_def)
    have "i < 2 ^ 64"
      using i(1) length_firsts [of "map conv ?l"] bound by (auto split: if_splits)
    then have n: "unat (of_nat i :: u64) = i" by (simp add: unsigned_of_nat take_bit_nat_eq_self)
    have code: "ret r = 0 \<or> ret r = EAI_NODATA \<or> ret r = EAI_NONAME" using True by simp
    then show ?thesis
      using r loop i n resolver
      by (auto simp: yo_dns_getaddrinfo_def h q sys_simps Let_def ledger_simps firsts_def)
  qed
qed

text \<open>
  The flag for mapped addresses is passed on with the library's value, which is that of
  \<open>AI_NUMERICHOST\<close>: it turns name resolution off, as \<open>YO_AI_NODNS\<close> does, and the system's flag
  for mapping is never set.
\<close>

theorem ai_hints_flags:
  "(fst (ai_hints flags) AND AI_NUMERICHOST \<noteq> 0 \<longleftrightarrow> flags AND YO_AI_NODNS \<noteq> 0 \<or> flags AND YO_AI_IPV4_MAPPED \<noteq> 0)
   \<and> fst (ai_hints flags) AND AI_V4MAPPED = 0
   \<and> (fst (ai_hints flags) AND AI_PASSIVE \<noteq> 0 \<longleftrightarrow> flags AND YO_AI_BIND \<noteq> 0)
   \<and> snd (ai_hints flags) =
       (if flags AND YO_AI_IPV6 \<noteq> 0 then AF_INET6 else if flags AND YO_AI_IPV4 \<noteq> 0 then AF_INET else AF_UNSPEC)"
  by (simp add: ai_hints_def Let_def)

section \<open>A concrete resolver\<close>

text \<open>A name with two addresses, one of which is reported for two kinds of socket.\<close>

definition resolver_os :: "unit os" where
  "resolver_os w q = (case q of
     CGetaddrinfo nam fl fam \<Rightarrow> ((returns 0)\<lparr>r_socks :=
       [\<lparr>ss_family = AF_INET, sin_port = 0, sin_addr = [1, 1, 1, 1]\<rparr>, \<lparr>ss_family = AF_INET, sin_port = 0, sin_addr = [1, 1, 1, 1]\<rparr>,
        \<lparr>ss_family = AF_INET, sin_port = 0, sin_addr = [8, 8, 8, 8]\<rparr>]\<rparr>, w)
   | CMalloc n \<Rightarrow> (returns 4096, w)
   | _ \<Rightarrow> (returns 0, w))"

definition ai_state :: "unit ai" where
  "ai_state = io.extend (idle ()) \<lparr>ai_n = (\<lambda>_. 0), ai_addr = (\<lambda>_ _. YO_ADDR_IPV4 [0, 0, 0, 0])\<rparr>"

lemma getaddrinfo_result_witness:
  "case yo_dns_getaddrinfo resolver_os 8 (Some ''one'') YO_AI_IPV4 ai_state of (c, s') \<Rightarrow>
     c = YO_OK \<and> map (ai_addr s' (m_ptr s' 8)) [0..<unat (ai_n s' (m_ptr s' 8))]
       = [YO_ADDR_IPV4 [1, 1, 1, 1], YO_ADDR_IPV4 [8, 8, 8, 8]]"
proof -
  let ?r = "reply_of resolver_os (CGetaddrinfo (Some ''one'') (fst (ai_hints YO_AI_IPV4)) (snd (ai_hints YO_AI_IPV4))) ai_state"
  have r: "ret ?r = 0" "firsts (map conv (r_socks ?r)) = [YO_ADDR_IPV4 [1, 1, 1, 1], YO_ADDR_IPV4 [8, 8, 8, 8]]"
    "r_socks ?r \<noteq> []" "length (r_socks ?r) < 2 ^ 32"
    by (simp_all add: reply_of_def resolver_os_def firsts_def conv_def yoi_unix_conv_sockaddr_def)
  have "fst (yo_dns_getaddrinfo resolver_os 8 (Some ''one'') YO_AI_IPV4 ai_state) = YO_OK"
    by (simp add: yo_dns_getaddrinfo_def sys_simps Let_def reply_of_def resolver_os_def split: prod.splits)
  with getaddrinfo_result [OF refl _ r(4), of 8] r show ?thesis
    by (auto simp: Let_def split: prod.splits if_splits)
qed

end
