(* ===== verification/Spawn.thy ===== *)
theory Spawn
  imports UnixIO
begin

text \<open>
  Processes, from \<open>src/unix/impl.c\<close>: \<open>yo_proc_spawn\<close>, \<open>yo_proc_wait\<close> and \<open>yo_proc_disown\<close>.
  \<open>fork\<close> returns in two processes; the model runs the one that the reply selects. The child reports
  an error to the parent through a pipe that a successful \<open>execve\<close> closes.
\<close>

section \<open>The helper for one standard stream\<close>

text \<open>The outcome is the end of the parent, the end of the child and the handle, or \<open>None\<close> for \<open>-1\<close>.\<close>

definition yoi_unix_mkstd ::
  "'w os \<Rightarrow> bool \<Rightarrow> ('w, 'z) io_scheme \<Rightarrow> (int \<times> int \<times> addr) option \<times> ('w, 'z) io_scheme" where
  "yoi_unix_mkstd os inp s =
     (let (res, s) = malloc os sizeof_yo_fd s
      in if res = NULL then (None, s)
         else
           let (r, s) = syscall os CPipe s
           in if ret r < 0 then let s = free os res s in (None, s)
              else
                let (a, b) = r_pair r
                in (Some (if inp then (b, a, res) else (a, b, res)), s))"

text \<open>A stream that is not asked for keeps the initial values.\<close>

definition mkstd_if ::
  "'w os \<Rightarrow> bool \<Rightarrow> bool \<Rightarrow> ('w, 'z) io_scheme \<Rightarrow> (int \<times> int \<times> addr) option \<times> ('w, 'z) io_scheme" where
  "mkstd_if os wanted inp s = (if wanted then yoi_unix_mkstd os inp s else (Some (-1, -1, NULL), s))"

definition close_if :: "'w os \<Rightarrow> int \<Rightarrow> ('w, 'z) sys_scheme \<Rightarrow> ('w, 'z) sys_scheme" where
  "close_if os fd s = (if fd \<noteq> -1 then ignore os (CClose fd) s else s)"

section \<open>The child\<close>

text \<open>An \<open>int\<close> in memory.\<close>

definition int_bytes :: "int \<Rightarrow> byte list" where
  "int_bytes i = map (\<lambda>k. ucast (drop_bit (8 * k) (of_int i :: u32))) [0, 1, 2, 3]"

definition bytes_int :: "byte list \<Rightarrow> int" where
  "bytes_int bs = sint (foldr (\<lambda>b w. ucast b OR push_bit 8 w) bs (0 :: u32))"

text \<open>What becomes of the process that runs \<open>yo_proc_spawn\<close>.\<close>

datatype 's fate = Returns yo_code 's | Replaced 's | Exited 's

abbreviation (input) STDIN_FILENO :: int where "STDIN_FILENO \<equiv> 0"
abbreviation (input) STDOUT_FILENO :: int where "STDOUT_FILENO \<equiv> 1"
abbreviation (input) STDERR_FILENO :: int where "STDERR_FILENO \<equiv> 2"

definition err_child :: "'w os \<Rightarrow> int \<times> int \<Rightarrow> int \<Rightarrow> int \<Rightarrow> int \<Rightarrow> ('w, 'z) io_scheme \<Rightarrow> ('w, 'z) io_scheme fate" where
  "err_child os status_pipe in_child out_child err_ch s =
     (let err = errno s;
          s = ignore os (CWrite (snd status_pipe) (int_bytes err)) s;
          s = close_if os in_child s;
          s = close_if os out_child s;
          s = close_if os err_ch s;
          s = ignore os (CClose (fst status_pipe)) s;
          s = ignore os (CExit 127) s
      in Exited s)"

text \<open>\<open>dup2\<close> for a stream that is redirected.\<close>

definition dup_if :: "'w os \<Rightarrow> int \<Rightarrow> int \<Rightarrow> ('w, 'z) sys_scheme \<Rightarrow> bool \<times> ('w, 'z) sys_scheme" where
  "dup_if os fd target s =
     (if fd \<noteq> -1 then let (r, s) = syscall os (CDup2 fd target) s in (0 \<le> ret r, s) else (True, s))"

definition spawn_child ::
  "'w os \<Rightarrow> string list \<Rightarrow> string list \<Rightarrow> string option \<Rightarrow> int \<times> int
     \<Rightarrow> int \<times> int \<times> addr \<Rightarrow> int \<times> int \<times> addr \<Rightarrow> int \<times> int \<times> addr \<Rightarrow> ('w, 'z) io_scheme \<Rightarrow> ('w, 'z) io_scheme fate" where
  "spawn_child os argv env cwd status_pipe std_in std_out std_err s =
     (let (in_parent, in_child, _) = std_in; (out_parent, out_child, _) = std_out; (err_parent, err_ch, _) = std_err;
          s = ignore os (CClose (fst status_pipe)) s;
          (ok, s) = dup_if os in_child STDIN_FILENO s
      in if \<not> ok then err_child os status_pipe in_child out_child err_ch s
         else
           let (ok, s) = dup_if os out_child STDOUT_FILENO s
           in if \<not> ok then err_child os status_pipe in_child out_child err_ch s
              else
                let (ok, s) = dup_if os err_ch STDERR_FILENO s
                in if \<not> ok then err_child os status_pipe in_child out_child err_ch s
                   else
                     let s = close_if os in_parent s;
                         s = close_if os out_parent s;
                         s = close_if os err_parent s;
                         s = close_if os in_child s;
                         s = close_if os out_child s;
                         s = close_if os err_ch s;
                         (ok, s) = (case cwd of
                            None \<Rightarrow> (True, s)
                          | Some d \<Rightarrow> let (r, s) = syscall os (CChdir d) s in (0 \<le> ret r, s))
                     in if \<not> ok then err_child os status_pipe (-1) (-1) (-1) s
                        else
                          let (r, s) = syscall os (CSetmask {}) s
                          in if ret r < 0 then err_child os status_pipe (-1) (-1) (-1) s
                             else
                               let s = s\<lparr>errno := 0\<rparr>;
                                   (r, s) = syscall os (CExecve argv env) s
                               in if 0 \<le> ret r then Replaced s
                                  else err_child os status_pipe (-1) (-1) (-1) s)"

section \<open>The parent\<close>

text \<open>The labels at the end of the function, from the last one up.\<close>

definition err_fcntl :: "'w os \<Rightarrow> int \<times> int \<Rightarrow> ('w, 'z) io_scheme \<Rightarrow> ('w, 'z) io_scheme fate" where
  "err_fcntl os st s =
     (let s = close_if os (fst st) s;
          s = close_if os (snd st) s;
          (c, s) = return_errno s
      in Returns c s)"

definition err_mkstd_out :: "'w os \<Rightarrow> int \<times> int \<Rightarrow> int \<times> int \<Rightarrow> ('w, 'z) io_scheme \<Rightarrow> ('w, 'z) io_scheme fate" where
  "err_mkstd_out os st i s = (let s = close_if os (fst i) s; s = close_if os (snd i) s in err_fcntl os st s)"

definition err_mkstd_err ::
  "'w os \<Rightarrow> int \<times> int \<Rightarrow> int \<times> int \<Rightarrow> int \<times> int \<Rightarrow> ('w, 'z) io_scheme \<Rightarrow> ('w, 'z) io_scheme fate" where
  "err_mkstd_err os st i t s = (let s = close_if os (fst t) s; s = close_if os (snd t) s in err_mkstd_out os st i s)"

definition err_fork ::
  "'w os \<Rightarrow> int \<times> int \<Rightarrow> int \<times> int \<Rightarrow> int \<times> int \<Rightarrow> int \<times> int \<Rightarrow> ('w, 'z) io_scheme \<Rightarrow> ('w, 'z) io_scheme fate" where
  "err_fork os st i t e s = (let s = close_if os (fst e) s; s = close_if os (snd e) s in err_mkstd_err os st i t s)"

definition give_handle :: "addr \<Rightarrow> addr \<Rightarrow> int \<Rightarrow> ('w, 'z) io_scheme \<Rightarrow> ('w, 'z) io_scheme" where
  "give_handle pstd res parent s =
     (if parent \<noteq> -1 then let s = yoi_unix_mkfd res parent s in set_ptr pstd res s else s)"

text \<open>\<open>None\<close> when \<open>res\<close>, which is not tested, is NULL at the end.\<close>

definition spawn_parent ::
  "'w os \<Rightarrow> int \<Rightarrow> addr \<Rightarrow> addr \<Rightarrow> addr \<Rightarrow> addr \<Rightarrow> addr \<Rightarrow> int \<times> int
     \<Rightarrow> int \<times> int \<times> addr \<Rightarrow> int \<times> int \<times> addr \<Rightarrow> int \<times> int \<times> addr \<Rightarrow> ('w, 'z) io_scheme \<Rightarrow> ('w, 'z) io_scheme fate option" where
  "spawn_parent os pid res pres pin pout perr status_pipe std_in std_out std_err s =
     (let (in_parent, in_child, res_in) = std_in; (out_parent, out_child, res_out) = std_out;
          (err_parent, err_ch, res_err) = std_err;
          s = close_if os in_child s;
          s = close_if os out_child s;
          s = close_if os err_ch s;
          s = ignore os (CClose (snd status_pipe)) s;
          (r, s) = syscall os (CRead (fst status_pipe) 4) s; read_n = ret r;
          s = ignore os (CClose (fst status_pipe)) s;
          err_read_status = (\<lambda>s.
            let s = (if pid \<noteq> 0 then ignore os (CWaitpid pid) s else s)
            in err_fork os (-1, -1) (in_parent, -1) (out_parent, -1) (err_parent, -1) s)
      in if read_n < 0 then Some (err_read_status s)
         else if read_n = 4 then Some (err_read_status (s\<lparr>errno := bytes_int (r_bytes r)\<rparr>))
         else if read_n \<noteq> 0 then Some (err_read_status (s\<lparr>errno := EPIPE\<rparr>))
         else
           let s = give_handle pin res_in in_parent s;
               s = give_handle pout res_out out_parent s;
               s = give_handle perr res_err err_parent s
           in if res = NULL then None
              else
                let s = s\<lparr>proc_pid := (proc_pid s)(res := pid)\<rparr>;
                    s = set_ptr pres res s
                in Some (Returns YO_OK s))"

text \<open>The streams and the \<open>fork\<close>, once the pipe for the status is there.\<close>

definition spawn_streams ::
  "'w os \<Rightarrow> int \<times> int \<Rightarrow> addr \<Rightarrow> addr \<Rightarrow> string list \<Rightarrow> string list \<Rightarrow> string option \<Rightarrow> addr \<Rightarrow> addr \<Rightarrow> addr
     \<Rightarrow> ('w, 'z) io_scheme \<Rightarrow> ('w, 'z) io_scheme fate option" where
  "spawn_streams os st res pres argv env cwd pin pout perr s =
     (let (x, s) = mkstd_if os (pin \<noteq> NULL) True s
      in case x of
           None \<Rightarrow> Some (err_fcntl os st s)
         | Some (in_parent, in_child, res_in) \<Rightarrow>
             let (y, s) = mkstd_if os (pout \<noteq> NULL) False s; i = (in_parent, in_child)
             in case y of
                  None \<Rightarrow> Some (err_mkstd_out os st i s)
                | Some (out_parent, out_child, res_out) \<Rightarrow>
                    let (z, s) = mkstd_if os (perr \<noteq> NULL) False s; t = (out_parent, out_child)
                    in case z of
                         None \<Rightarrow> Some (err_mkstd_err os st i t s)
                       | Some (err_parent, err_ch, res_err) \<Rightarrow>
                           let (r, s) = syscall os CFork s; pid = ret r; e = (err_parent, err_ch)
                           in if pid < 0 then Some (err_fork os st i t e s)
                              else if pid = 0 then
                                Some (spawn_child os argv env cwd st (in_parent, in_child, res_in)
                                  (out_parent, out_child, res_out) (err_parent, err_ch, res_err) s)
                              else
                                spawn_parent os pid res pres pin pout perr st (in_parent, in_child, res_in)
                                  (out_parent, out_child, res_out) (err_parent, err_ch, res_err) s)"

definition yo_proc_spawn ::
  "'w os \<Rightarrow> addr \<Rightarrow> string list \<Rightarrow> string list \<Rightarrow> string option \<Rightarrow> addr \<Rightarrow> addr \<Rightarrow> addr
     \<Rightarrow> ('w, 'z) io_scheme \<Rightarrow> ('w, 'z) io_scheme fate option" where
  "yo_proc_spawn os pres argv env cwd pin pout perr s =
     (let (res, s) = malloc os sizeof_yo_proc s;
          (r, s) = syscall os CPipe s; st = r_pair r
      in if ret r < 0 then let (c, s) = return_errno s in Some (Returns c s)
         else
           let (r, s) = syscall os (CCloexec (fst st)) s
           in if ret r < 0 then Some (err_fcntl os st s)
              else
                let (r, s) = syscall os (CCloexec (snd st)) s
                in if ret r < 0 then Some (err_fcntl os st s)
                   else
                     let (r, s) = syscall os (CNonblock (snd st)) s
                     in if ret r < 0 then Some (err_fcntl os st s)
                        else spawn_streams os st res pres argv env cwd pin pout perr s)"

section \<open>Waiting\<close>

definition WIFEXITED :: "u32 \<Rightarrow> bool" where
  "WIFEXITED status \<longleftrightarrow> status AND 127 = 0"

definition WEXITSTATUS :: "u32 \<Rightarrow> int" where
  "WEXITSTATUS status = uint (drop_bit 8 (status AND 65280))"

definition WTERMSIG :: "u32 \<Rightarrow> int" where
  "WTERMSIG status = uint (status AND 127)"

definition WIFSIGNALED :: "u32 \<Rightarrow> bool" where
  "WIFSIGNALED status \<longleftrightarrow> status AND 127 \<noteq> 0 \<and> status AND 127 \<noteq> 127"

definition yo_proc_wait :: "'w os \<Rightarrow> addr \<Rightarrow> addr \<Rightarrow> addr \<Rightarrow> ('w, 'z) io_scheme \<Rightarrow> yo_code \<times> ('w, 'z) io_scheme" where
  "yo_proc_wait os p psig pcode s =
     (let (r, s) = syscall os (CWaitpid (proc_pid s p)) s; status = r_status r
      in if ret r < 0 then return_errno s
         else
           let s = set_int pcode (-1) s;
               s = set_int psig (-1) s;
               s = (if WIFEXITED status then set_int pcode (WEXITSTATUS status) s else s);
               s = (if WIFSIGNALED status then set_int pcode (WTERMSIG status) s else s);
               s = free os p s
           in (YO_OK, s))"

definition yo_proc_disown :: "'w os \<Rightarrow> addr \<Rightarrow> ('w, 'z) io_scheme \<Rightarrow> yo_code \<times> ('w, 'z) io_scheme" where
  "yo_proc_disown os p s = (YO_OK, free os p s)"

section \<open>What each part takes and gives back\<close>

definition fds :: "int list \<Rightarrow> resource list" where
  "fds xs = map Fd (filter (\<lambda>fd. fd \<noteq> -1) xs)"

definition mems :: "addr list \<Rightarrow> resource list" where
  "mems hs = map Mem (filter (\<lambda>h. h \<noteq> NULL) hs)"

text \<open>Membership is counted element by element, which keeps the terms linear.\<close>

lemma fds_simps [simp]: "fds [] = []" "fds (xs @ ys) = fds xs @ fds ys"
  by (simp_all add: fds_def)

lemma mems_simps [simp]: "mems [] = []" "mems (xs @ ys) = mems xs @ mems ys"
  by (simp_all add: mems_def)

lemma count_fds [simp]: "count_list (fds (fd # xs)) r = (if fd \<noteq> -1 \<and> r = Fd fd then 1 else 0) + count_list (fds xs) r"
  by (auto simp: fds_def)

lemma count_mems [simp]: "count_list (mems (h # hs)) r = (if h \<noteq> NULL \<and> r = Mem h then 1 else 0) + count_list (mems hs) r"
  by (auto simp: mems_def)

text \<open>Of the system: \<open>pipe\<close> makes two descriptors, and error numbers are values of type \<open>int\<close>.\<close>

definition spawn_os :: "'w os \<Rightarrow> bool" where
  "spawn_os os \<longleftrightarrow> posix_os os
   \<and> (\<forall>w. 0 \<le> ret (fst (os w CPipe)) \<longrightarrow> 0 \<le> fst (r_pair (fst (os w CPipe))) \<and> 0 \<le> snd (r_pair (fst (os w CPipe))))
   \<and> (\<forall>w q x. eno (fst (os w q)) = Some x \<longrightarrow> x < 2 ^ 31)"

lemma spawn_laws:
  assumes "spawn_os os"
  shows "posix_os os"
    and "0 \<le> ret (reply_of os CPipe s) \<Longrightarrow> fst (r_pair (reply_of os CPipe s)) \<noteq> -1"
    and "0 \<le> ret (reply_of os CPipe s) \<Longrightarrow> snd (r_pair (reply_of os CPipe s)) \<noteq> -1"
    and "eno (fst (os w q)) = Some x \<Longrightarrow> x < 2 ^ 31"
  using assms by (auto simp: spawn_os_def reply_of_def)

section \<open>What the child reports\<close>

lemma int_bytes_word: "foldr (\<lambda>b w. ucast b OR push_bit 8 w) (int_bytes i) 0 = (of_int i :: u32)"
proof (rule bit_word_eqI)
  fix n assume "n < LENGTH(32)"
  then have n: "n < 32" by simp
  have "bit (foldr (\<lambda>b w. ucast b OR push_bit 8 w) (int_bytes i) (0 :: u32)) n \<longleftrightarrow>
     (n < 8 \<and> bit i n) \<or> (8 \<le> n \<and> ((n - 8 < 8 \<and> bit i (8 + (n - 8))) \<or> (8 \<le> n - 8
       \<and> ((n - 16 < 8 \<and> bit i (16 + (n - 16))) \<or> (8 \<le> n - 16 \<and> n - 24 < 8 \<and> bit i (24 + (n - 24)))))))"
    using n by (auto simp: int_bytes_def bit_simps)
  also have "\<dots> \<longleftrightarrow> bit i n" using n by auto
  finally show "bit (foldr (\<lambda>b w. ucast b OR push_bit 8 w) (int_bytes i) (0 :: u32)) n \<longleftrightarrow> bit (of_int i :: u32) n"
    using n by (simp add: bit_simps)
qed

lemma bytes_int_bytes: "0 \<le> e \<Longrightarrow> e < 2 ^ 31 \<Longrightarrow> bytes_int (int_bytes e) = e"
  by (simp add: bytes_int_def int_bytes_word signed_of_int signed_take_bit_int_eq_self)

text \<open>Calls between two states of which none writes.\<close>

definition no_write :: "call \<times> reply \<Rightarrow> bool" where
  "no_write ev = (case fst ev of CWrite _ _ \<Rightarrow> False | _ \<Rightarrow> True)"

definition silent :: "('w, 'z) sys_scheme \<Rightarrow> ('w, 'z) sys_scheme \<Rightarrow> bool" where
  "silent s t \<longleftrightarrow> (\<exists>pre. trace t = trace s @ pre \<and> (\<forall>ev \<in> set pre. no_write ev))"

lemma silent_trans: "silent s t \<Longrightarrow> silent t u \<Longrightarrow> silent s u"
  unfolding silent_def by fastforce

lemma silent_refl [simp]: "silent s s"
  by (simp add: silent_def)

lemma silent_after: "no_write (q, r) \<Longrightarrow> silent s (after os q s)"
  by (simp add: silent_def no_write_def)

lemma silent_close_if: "silent s (close_if os fd s)"
  by (simp add: close_if_def sys_simps silent_after [where r = undefined] no_write_def)

text \<open>The child leaves through the error label with the error of a call that failed.\<close>

definition failed_child :: "'w os \<Rightarrow> int \<times> int \<Rightarrow> ('w, 'z) io_scheme \<Rightarrow> ('w, 'z) io_scheme fate \<Rightarrow> bool" where
  "failed_child os st s x \<longleftrightarrow> (\<exists>t q i o' e. silent s t \<and> no_write (q, undefined) \<and> ret (reply_of os q t) < 0
     \<and> x = err_child os st i o' e (after os q t))"

lemma dup_if_fails:
  assumes "dup_if os fd target s = (False, t)"
  shows "\<exists>q. no_write (q, undefined) \<and> ret (reply_of os q s) < 0 \<and> t = after os q s"
  using assms by (intro exI [of _ "CDup2 fd target"]) (auto simp: dup_if_def sys_simps no_write_def split: if_splits)

lemma dup_if_silent: "dup_if os fd target s = (b, t) \<Longrightarrow> silent s t"
  by (auto simp: dup_if_def sys_simps no_write_def intro: silent_after [where r = undefined] split: if_splits)

lemma child_path:
  assumes "spawn_child os argv env cwd st (pi, ci, hi) (po, co, ho) (pe, ce, he) s = Exited s1"
  shows "failed_child os st s (Exited s1)"
proof -
  let ?s0 = "after os (CClose (fst st)) s"
  have s0: "silent s ?s0" by (rule silent_after [where r = undefined]) (simp add: no_write_def)
  have leave: "failed_child os st s (Exited s1)"
    if "silent s t" "no_write (q, undefined)" "ret (reply_of os q t) < 0" "err_child os st i o' e (after os q t) = Exited s1"
    for t q i o' e
    unfolding failed_child_def using that by (metis (no_types))
  obtain b1 t1 where d1: "dup_if os ci STDIN_FILENO ?s0 = (b1, t1)" by fastforce
  obtain b2 t2 where d2: "dup_if os co STDOUT_FILENO t1 = (b2, t2)" by fastforce
  obtain b3 t3 where d3: "dup_if os ce STDERR_FILENO t2 = (b3, t3)" by fastforce
  have s1: "silent s t1" "silent s t2" "silent s t3"
    using silent_trans [OF s0 dup_if_silent [OF d1]] dup_if_silent [OF d2] dup_if_silent [OF d3]
    by (blast intro: silent_trans)+
  define t4 where "t4 = close_if os ce (close_if os co (close_if os ci (close_if os pe (close_if os po (close_if os pi t3)))))"
  have s4: "silent s t4" unfolding t4_def by (intro silent_trans [OF _ silent_close_if] s1(3))
  define t5 where "t5 = (case cwd of None \<Rightarrow> t4 | Some d \<Rightarrow> after os (CChdir d) t4)"
  have s5: "silent s t5"
    using s4 silent_trans [OF s4 silent_after [where r = undefined]]
    by (simp add: t5_def no_write_def split: option.splits)
  let ?m = "CSetmask {}" let ?t6 = "after os ?m t5" let ?x = "CExecve argv env" let ?t7 = "?t6\<lparr>errno := 0\<rparr>"
  have s6: "silent s ?t7"
  proof -
    have "silent t5 ?t6" by (rule silent_after [where r = undefined]) (simp add: no_write_def)
    then have "silent s ?t6" by (rule silent_trans [OF s5])
    then show ?thesis by (simp add: silent_def)
  qed
  note run = assms [unfolded spawn_child_def Let_def prod.case ignore_eq d1]
  consider (one) "\<not> b1" | (two) "b1" "\<not> b2" | (three) "b1" "b2" "\<not> b3"
    | (chdir) d where "b1" "b2" "b3" "cwd = Some d" "ret (reply_of os (CChdir d) t4) < 0"
    | (mask) "b1" "b2" "b3" "\<forall>d. cwd = Some d \<longrightarrow> 0 \<le> ret (reply_of os (CChdir d) t4)" "ret (reply_of os ?m t5) < 0"
    | (exec) "b1" "b2" "b3" "\<forall>d. cwd = Some d \<longrightarrow> 0 \<le> ret (reply_of os (CChdir d) t4)" "0 \<le> ret (reply_of os ?m t5)"
    by force
  then show ?thesis
  proof cases
    case one
    with dup_if_fails [of os ci 0 ?s0 t1] d1 run s0 leave show ?thesis by auto
  next
    case two
    with dup_if_fails [of os co 1 t1 t2] d1 d2 run s1 leave show ?thesis by auto
  next
    case three
    with dup_if_fails [of os ce 2 t2 t3] d1 d2 d3 run s1 leave show ?thesis by auto
  next
    case chdir
    with d1 d2 d3 run s4 leave [of t4 "CChdir d"] show ?thesis
      by (simp add: sys_simps t4_def [symmetric] no_write_def)
  next
    case mask
    with d1 d2 d3 run s5 leave [of t5 ?m] show ?thesis
      by (cases cwd) (simp_all add: sys_simps t5_def t4_def [symmetric] no_write_def split: if_splits)
  next
    case exec
    with d1 d2 d3 run s6 leave [of ?t7 ?x] show ?thesis
      by (cases cwd) (simp_all add: sys_simps t5_def t4_def [symmetric] no_write_def split: if_splits)
  qed
qed

lemma failed_child_reports:
  assumes posix: "posix_os os" and "failed_child os st s (Exited s1)"
  shows "\<exists>q r e. (q, r) \<in> set (news s s1) \<and> ret r < 0 \<and> eno r = Some e \<and> (\<exists>w. r = fst (os w q))
     \<and> (\<forall>fd bs w. (CWrite fd bs, w) \<in> set (news s s1) \<longrightarrow> fd = snd st \<and> bs = int_bytes e)"
proof -
  obtain t q i o' e where c: "silent s t" "no_write (q, undefined)" "ret (reply_of os q t) < 0"
    "err_child os st i o' e (after os q t) = Exited s1"
    using assms(2) unfolding failed_child_def by metis
  let ?r = "reply_of os q t" let ?u = "after os q t"
  obtain x where x: "eno ?r = Some x"
    using reply_failure [OF posix fails_ret [OF c(3)]] by blast
  let ?w = "after os (CWrite (snd st) (int_bytes (errno ?u))) ?u"
  obtain post where post: "trace s1 = trace ?w @ post" "\<forall>ev \<in> set post. no_write ev"
  proof -
    let ?v = "close_if os e (close_if os o' (close_if os i ?w))"
    have "s1 = after os (CExit 127) (after os (CClose (fst st)) ?v)"
      using c(4) by (simp add: err_child_def sys_simps Let_def)
    moreover have "silent ?w ?v" by (intro silent_trans [OF _ silent_close_if] silent_refl)
    ultimately show thesis
      using that by (auto simp: silent_def no_write_def)
  qed
  obtain pre where pre: "trace t = trace s @ pre" "\<forall>ev \<in> set pre. no_write ev"
    using c(1) by (auto simp: silent_def)
  let ?wr = "(CWrite (snd st) (int_bytes (errno ?u)), reply_of os (CWrite (snd st) (int_bytes (errno ?u))) ?u)"
  have news: "news s s1 = pre @ [(q, ?r), ?wr] @ post"
    using post(1) pre(1) by (simp add: news_def)
  have "errno ?u = x" using x by (simp add: after_errno)
  then have "fd = snd st \<and> bs = int_bytes x" if "(CWrite fd bs, w) \<in> set (news s s1)" for fd bs w
    using that pre(2) post(2) c(2) unfolding news by (auto simp: no_write_def split: call.splits)
  moreover have "(q, ?r) \<in> set (news s s1)" by (simp add: news)
  ultimately show ?thesis using c(3) x unfolding reply_of_def by blast
qed

text \<open>
  The pipe for the status connects the two processes: \<open>st\<close> are its ends. What the parent reads from it was written by the child, which
  runs the code above under the same system, in some state \<open>cs\<close> and with some streams.
\<close>

definition status_pipe :: "'w os \<Rightarrow> ('w, 'z) sys_scheme \<Rightarrow> int \<times> int" where
  "status_pipe os s = r_pair (reply_of os CPipe (after os (CMalloc sizeof_yo_proc) s))"

definition child_writes :: "'w os \<Rightarrow> string list \<Rightarrow> string list \<Rightarrow> string option \<Rightarrow> int \<times> int \<Rightarrow> bool" where
  "child_writes os argv env cwd st \<longleftrightarrow> (\<forall>w. let r = fst (os w (CRead (fst st) 4)) in ret r = 4 \<longrightarrow>
     (\<exists>i t e (cs :: 'w io) s1 r'. spawn_child os argv env cwd st i t e cs = Exited s1
        \<and> (CWrite (snd st) (r_bytes r), r') \<in> set (news cs s1)))"

text \<open>The error \<open>e\<close> of a call that failed in the child.\<close>

definition child_error :: "'w os \<Rightarrow> string list \<Rightarrow> string list \<Rightarrow> string option \<Rightarrow> int \<times> int \<Rightarrow> int \<Rightarrow> bool" where
  "child_error os argv env cwd st e \<longleftrightarrow>
     (\<exists>i t er (cs :: 'w io) s1 q r. spawn_child os argv env cwd st i t er cs = Exited s1
        \<and> (q, r) \<in> set (news cs s1) \<and> ret r < 0 \<and> eno r = Some e)"

lemma child_read:
  assumes law: "spawn_os os" and "child_writes os argv env cwd st" and "ret (fst (os w (CRead (fst st) 4))) = 4"
  shows "\<exists>e. child_error os argv env cwd st e \<and> r_bytes (fst (os w (CRead (fst st) 4))) = int_bytes e \<and> 0 < e \<and> e < 2 ^ 31"
proof -
  obtain i t er and cs :: "'a io" and s1 r' where c: "spawn_child os argv env cwd st i t er cs = Exited s1"
    "(CWrite (snd st) (r_bytes (fst (os w (CRead (fst st) 4)))), r') \<in> set (news cs s1)"
    using assms(2,3) unfolding child_writes_def Let_def by blast
  have "failed_child os st cs (Exited s1)"
    using c(1) by (cases i; cases t; cases er) (auto intro: child_path)
  from failed_child_reports [OF spawn_laws(1) [OF law] this] obtain q r e where
    e: "(q, r) \<in> set (news cs s1)" "ret r < 0" "eno r = Some e" "\<exists>v. r = fst (os v q)"
      "\<And>fd bs v. (CWrite fd bs, v) \<in> set (news cs s1) \<Longrightarrow> fd = snd st \<and> bs = int_bytes e" by blast
  have "0 < e" "e < 2 ^ 31" using e(3,4) posix_errno [OF spawn_laws(1) [OF law]] spawn_laws(4) [OF law] by blast+
  with e(1-3) e(5) [OF c(2)] c(1) show ?thesis unfolding child_error_def by blast
qed

definition reads_error :: "'w os \<Rightarrow> int \<times> int \<Rightarrow> bool" where
  "reads_error os st \<longleftrightarrow> (\<forall>w. ret (fst (os w (CRead (fst st) 4))) = 4 \<longrightarrow> 0 < bytes_int (r_bytes (fst (os w (CRead (fst st) 4)))))"

lemma child_reads_error: "spawn_os os \<Longrightarrow> child_writes os argv env cwd st \<Longrightarrow> reads_error os st"
  unfolding reads_error_def using child_read [of os argv env cwd st] by (metis bytes_int_bytes less_imp_le)

lemma reads_errorD:
  "reads_error os st \<Longrightarrow> ret (reply_of os (CRead (fst st) 4) s) = 4 \<Longrightarrow> 0 < bytes_int (r_bytes (reply_of os (CRead (fst st) 4) s))"
  by (simp add: reads_error_def reply_of_def)

section \<open>The ledger of the parent\<close>

text \<open>The pipes that were made, in order.\<close>

definition pipes :: "(call \<times> reply) list \<Rightarrow> (int \<times> int) list" where
  "pipes tr = map (\<lambda>ev. r_pair (snd ev)) (filter (\<lambda>ev. fst ev = CPipe) tr)"

lemma pipes_simps [simp]: "pipes [] = []" "pipes (tr @ tr') = pipes tr @ pipes tr'"
  "pipes ((q, r) # tr) = (if q = CPipe then [r_pair r] else []) @ pipes tr"
  by (simp_all add: pipes_def)

lemma pipes_close_if [simp]: "pipes (trace (close_if os fd s)) = pipes (trace s)"
  by (simp add: close_if_def sys_simps)

lemma fd_close_if [simp]: "fd_fd (close_if os fd s) = fd_fd s"
  by (simp add: close_if_def sys_simps)

text \<open>\<open>lost xs s s'\<close>: between the states exactly the resources \<open>xs\<close> were given back.\<close>

definition lost :: "resource list \<Rightarrow> ('w, 'z) sys_scheme \<Rightarrow> ('w, 'z) sys_scheme \<Rightarrow> bool" where
  "lost xs s s' \<longleftrightarrow> (\<forall>x. held (trace s') x + int (count_list xs x) = held (trace s) x)"

lemma lost_trans: "lost xs s t \<Longrightarrow> lost ys t u \<Longrightarrow> lost (xs @ ys) s u"
  unfolding lost_def by (auto simp: algebra_simps)

lemma lost_close_if: "lost (fds [fd]) s (close_if os fd s)"
  by (simp add: lost_def close_if_def sys_simps delta_def)

lemma errno_close_if: "posix_os os \<Longrightarrow> 0 < errno s \<Longrightarrow> 0 < errno (close_if os fd s)"
  by (simp add: close_if_def sys_simps)

lemma close_if_simps [simp]:
  "m_ptr (close_if os fd s) = m_ptr s"
  by (simp add: close_if_def sys_simps)

text \<open>A label: it closes \<open>xs\<close> and returns the error.\<close>

definition cleans :: "'w os \<Rightarrow> int list \<Rightarrow> ('w, 'z) io_scheme \<Rightarrow> ('w, 'z) io_scheme fate \<Rightarrow> bool" where
  "cleans os xs s x \<longleftrightarrow> (\<exists>c s'. x = Returns c s' \<and> lost (fds xs) s s' \<and> (posix_os os \<longrightarrow> 0 < errno s \<longrightarrow> c \<noteq> YO_OK))"

lemma cleans_step:
  assumes "cleans os xs (close_if os b (close_if os a s)) x"
  shows "cleans os (a # b # xs) s x"
proof -
  from assms obtain c s' where x: "x = Returns c s'" "lost (fds xs) (close_if os b (close_if os a s)) s'"
    "posix_os os \<longrightarrow> 0 < errno (close_if os b (close_if os a s)) \<longrightarrow> c \<noteq> YO_OK" by (auto simp: cleans_def)
  have "lost (fds (a # b # xs)) s s'"
    using lost_trans [OF lost_close_if lost_trans [OF lost_close_if x(2)]]
    by (simp only: fds_simps(2) [symmetric] append.simps)
  with x show ?thesis
    unfolding cleans_def by (intro exI [of _ c] exI [of _ s']) (auto simp: errno_close_if split: if_splits)
qed

lemma err_fcntl_cleans: "cleans os [fst st, snd st] s (err_fcntl os st s)"
  unfolding err_fcntl_def Let_def return_errno_def prod.case
  by (rule cleans_step) (auto simp: cleans_def lost_def conv_positive)

lemma err_mkstd_out_cleans: "cleans os [fst i, snd i, fst st, snd st] s (err_mkstd_out os st i s)"
  unfolding err_mkstd_out_def Let_def by (intro cleans_step err_fcntl_cleans)

lemma err_mkstd_err_cleans: "cleans os [fst t, snd t, fst i, snd i, fst st, snd st] s (err_mkstd_err os st i t s)"
  unfolding err_mkstd_err_def Let_def by (intro cleans_step err_mkstd_out_cleans)

lemma err_fork_cleans:
  "cleans os [fst e, snd e, fst t, snd t, fst i, snd i, fst st, snd st] s (err_fork os st i t e s)"
  unfolding err_fork_def Let_def by (intro cleans_step err_mkstd_err_cleans)

lemma mkstd_path:
  assumes "spawn_os os"
  shows "case mkstd_if os wanted inp s of (x, s') \<Rightarrow> (case x of
       None \<Rightarrow> wanted \<and> gained [] s s' \<and> 0 < errno s'
     | Some (p, c, h) \<Rightarrow> gained (mems [h] @ fds [p, c]) s s' \<and> (wanted \<longleftrightarrow> h \<noteq> NULL) \<and> (wanted \<longleftrightarrow> p \<noteq> -1)
         \<and> pipes (trace s') = pipes (trace s) @ (if wanted then [if inp then (c, p) else (p, c)] else []))"
proof -
  let ?q = "CMalloc sizeof_yo_fd" let ?t = "after os ?q s" let ?r = "reply_of os CPipe ?t"
  have posix: "posix_os os" by (rule spawn_laws [OF assms])
  consider "\<not> wanted" | "wanted" "ptr (reply_of os ?q s) = NULL"
    | "wanted" "ptr (reply_of os ?q s) \<noteq> NULL" "ret ?r < 0"
    | "wanted" "ptr (reply_of os ?q s) \<noteq> NULL" "0 \<le> ret ?r" by linarith
  then show ?thesis
  proof cases
    case 4
    obtain a b where ab: "r_pair ?r = (a, b)" by fastforce
    with spawn_laws(2,3) [OF assms 4(3)] have "a \<noteq> -1" "b \<noteq> -1" by simp_all
    with 4 ab show ?thesis
      by (auto simp: mkstd_if_def yoi_unix_mkstd_def sys_simps Let_def ledger_simps)
  qed (simp_all add: mkstd_if_def yoi_unix_mkstd_def sys_simps Let_def ledger_simps posix returns_pointer_def)
qed

text \<open>An operation that ends at a label has failed, and holds memory only.\<close>

lemma fails_at_label:
  assumes "gained (mems hs @ zs) s t" and "cleans os xs t x" and "\<And>r. count_list zs r = count_list (fds xs) r"
    and "posix_os os" and "0 < errno t"
  obtains c s' where "x = Returns c s'" "c \<noteq> YO_OK" "gained (mems hs) s s'"
proof -
  from assms(2,4,5) obtain c s' where x: "x = Returns c s'" "lost (fds xs) t s'" "c \<noteq> YO_OK"
    by (auto simp: cleans_def)
  have "gained (mems hs) s s'"
    unfolding gained_def
  proof
    fix r
    have "held (trace t) r = held (trace s) r + int (count_list (mems hs) r) + int (count_list (fds xs) r)"
      using assms(1,3) by (simp add: gained_def)
    with x(2) show "held (trace s') r = held (trace s) r + int (count_list (mems hs) r)"
      unfolding lost_def by (metis add_right_imp_eq)
  qed
  with x that show thesis by blast
qed

lemma give_handle_simps [simp]:
  "trace (give_handle p h fd s) = trace s"
  "m_ptr (give_handle p h fd s) = (if fd = -1 then m_ptr s else (m_ptr s)(p := h))"
  "fd_fd (give_handle p h fd s) = (if fd = -1 then fd_fd s else (fd_fd s)(h := fd))"
  by (simp_all add: give_handle_def yoi_unix_mkfd_def yoi_fd_ioq_init_def set_ptr_def)

lemma held_close_if: "held (trace (close_if os fd s)) x = held (trace s) x - int (count_list (fds [fd]) x)"
  using lost_close_if [of fd s os] by (simp add: lost_def algebra_simps)

lemma pos_choice:
  "(a < 0 \<Longrightarrow> 0 < x) \<Longrightarrow> (a = 4 \<Longrightarrow> 0 < y) \<Longrightarrow> 0 < z \<Longrightarrow> 0 < (if a < 0 then x else if a = (4 :: int) then y else (z :: int))"
  by simp

lemma parent_outcome:
  assumes law: "spawn_os os" and rd: "reads_error os st" and st: "fst st \<noteq> -1" "snd st \<noteq> -1" and pid: "0 < pid"
  shows "case spawn_parent os pid res pres pin pout perr st (pi, ci, hi) (po, co, ho) (pe, ce, he) s of
     None \<Rightarrow> res = NULL
   | Some x \<Rightarrow> \<exists>c s'. x = Returns c s' \<and>
       (if c = YO_OK then lost (fds [ci, co, ce, snd st, fst st]) s s' \<and> res \<noteq> NULL \<and> pipes (trace s') = pipes (trace s)
          \<and> fd_fd s' = fd_fd (give_handle perr he pe (give_handle pout ho po (give_handle pin hi pi s)))
          \<and> m_ptr s' = (m_ptr (give_handle perr he pe (give_handle pout ho po (give_handle pin hi pi s))))(pres := res)
        else lost (fds [ci, co, ce, snd st, fst st, pe, po, pi]) s s')"
proof -
  let ?t1 = "after os (CClose (snd st)) (close_if os ce (close_if os co (close_if os ci s)))"
  let ?r = "reply_of os (CRead (fst st) 4) ?t1"
  let ?t2 = "after os (CClose (fst st)) (after os (CRead (fst st) 4) ?t1)"
  have lost2: "lost (fds [ci, co, ce, snd st, fst st]) s ?t2"
    using st by (simp add: lost_def held_close_if delta_def)
  have ptr: "m_ptr ?t2 = m_ptr s" "fd_fd ?t2 = fd_fd s" "pipes (trace ?t2) = pipes (trace s)" by simp_all
  have fail: "\<exists>c s'. err_fork os (-1, -1) (pi, -1) (po, -1) (pe, -1) (after os (CWaitpid pid) (?t2\<lparr>errno := e\<rparr>))
        = Returns c s' \<and> c \<noteq> YO_OK \<and> lost (fds [ci, co, ce, snd st, fst st, pe, po, pi]) s s'"
    if e: "0 < e" for e
  proof -
    let ?u = "after os (CWaitpid pid) (?t2\<lparr>errno := e\<rparr>)"
    have "0 < errno ?u" using e spawn_laws(1) [OF law] by (simp add: sys_simps)
    moreover have "fds [pe, -1, po, -1, pi, -1, -1, -1] = fds [pe, po, pi]" by (simp add: fds_def)
    then have "cleans os [pe, po, pi] ?u (err_fork os (-1, -1) (pi, -1) (po, -1) (pe, -1) ?u)"
      using err_fork_cleans [of os "(pe, -1)" "(po, -1)" "(pi, -1)" "(-1, -1)" ?u] by (simp add: cleans_def)
    ultimately obtain c s' where "err_fork os (-1, -1) (pi, -1) (po, -1) (pe, -1) ?u = Returns c s'" "c \<noteq> YO_OK"
      "lost (fds [pe, po, pi]) ?u s'" using spawn_laws(1) [OF law] unfolding cleans_def by blast
    moreover have "lost (fds [pe, po, pi]) ?t2 s'"
      using \<open>lost (fds [pe, po, pi]) ?u s'\<close> by (simp add: lost_def delta_def)
    from lost_trans [OF lost2 this] have "lost (fds [ci, co, ce, snd st, fst st, pe, po, pi]) s s'"
      by (simp only: fds_simps(2) [symmetric] append.simps)
    ultimately show ?thesis by blast
  qed
  have same: "?t2\<lparr>errno := errno ?t2\<rparr> = ?t2" by simp
  have neg: "0 < errno ?t2" if "ret ?r < 0" using that spawn_laws(1) [OF law] by (simp add: sys_simps)
  show ?thesis
  proof (cases "ret ?r = 0")
    case True
    then show ?thesis
      using pid lost2 ptr by (simp add: spawn_parent_def sys_simps Let_def lost_def)
  next
    case False
    define e where "e = (if ret ?r < 0 then errno ?t2 else if ret ?r = 4 then bytes_int (r_bytes ?r) else EPIPE)"
    have "spawn_parent os pid res pres pin pout perr st (pi, ci, hi) (po, co, ho) (pe, ce, he) s
        = Some (err_fork os (-1, -1) (pi, -1) (po, -1) (pe, -1) (after os (CWaitpid pid) (?t2\<lparr>errno := e\<rparr>)))"
      using False pid by (simp add: spawn_parent_def sys_simps Let_def e_def same)
    moreover have "0 < e" unfolding e_def by (rule pos_choice [OF neg reads_errorD [OF rd]]) simp_all
    ultimately show ?thesis using fail [of e] by auto
  qed
qed

section \<open>Properties\<close>

definition stream :: "addr \<Rightarrow> addr \<Rightarrow> int \<Rightarrow> resource list" where
  "stream pstd h p = (if pstd = NULL then [] else [Mem h, Fd p])"

lemma stream_eq: "(pstd \<noteq> NULL \<longleftrightarrow> h \<noteq> NULL) \<Longrightarrow> (pstd \<noteq> NULL \<longleftrightarrow> p \<noteq> -1) \<Longrightarrow> stream pstd h p = mems [h] @ fds [p]"
  by (simp add: stream_def mems_def fds_def)

lemma fds_split: "fds (a # b # xs) = fds [a] @ fds (b # xs)"
  by (simp add: fds_def)

lemma mems_split: "mems (a # b # xs) = mems [a] @ mems (b # xs)"
  by (simp add: mems_def)

lemma child_never_returns:
  "case spawn_child os argv env cwd st a b c s of Returns _ _ \<Rightarrow> False | Replaced _ \<Rightarrow> True | Exited _ \<Rightarrow> True"
  by (simp add: spawn_child_def err_child_def Let_def split: prod.splits)

text \<open>
  The three streams, one after the other; a failure leaves their handles and nothing else. \<open>i\<close>, \<open>t\<close> and \<open>e\<close> are the ends of the parent:
  the end for writing of the pipe for the standard input, and the ends for reading of the others.
\<close>

definition on_pipe :: "('w, 'z) io_scheme \<Rightarrow> addr \<Rightarrow> int \<Rightarrow> bool" where
  "on_pipe s pstd fd \<longleftrightarrow> (pstd \<noteq> NULL \<longrightarrow> fd_fd s (m_ptr s pstd) = fd)"

definition stream_pipes :: "addr \<Rightarrow> addr \<Rightarrow> addr \<Rightarrow> int \<times> int \<Rightarrow> int \<times> int \<Rightarrow> int \<times> int \<Rightarrow> (int \<times> int) list" where
  "stream_pipes pin pout perr i t e = (if pin \<noteq> NULL then [i] else []) @ (if pout \<noteq> NULL then [t] else []) @ (if perr \<noteq> NULL then [e] else [])"

definition spawned :: "('w, 'z) io_scheme \<Rightarrow> int \<times> int \<Rightarrow> addr \<Rightarrow> addr \<Rightarrow> addr \<Rightarrow> addr \<Rightarrow> addr \<Rightarrow> ('w, 'z) io_scheme fate option \<Rightarrow> bool" where
  "spawned s st res pres pin pout perr x \<longleftrightarrow> (case x of
     None \<Rightarrow> res = NULL
   | Some (Returns c s') \<Rightarrow>
       if c = YO_OK then \<exists>i t e ci ct ce. m_ptr s' pres = res \<and> res \<noteq> NULL
         \<and> gained (mems [res] @ stream pin (m_ptr s' pin) i @ stream pout (m_ptr s' pout) t @ stream perr (m_ptr s' perr) e) s s'
         \<and> pipes (trace s') = pipes (trace s) @ st # stream_pipes pin pout perr (ci, i) (t, ct) (e, ce)
         \<and> (distinct (map (m_ptr s') (filter (\<lambda>p. p \<noteq> NULL) [pin, pout, perr])) \<longrightarrow>
              on_pipe s' pin i \<and> on_pipe s' pout t \<and> on_pipe s' perr e)
       else \<exists>hs. gained (mems (res # hs)) s s'
   | Some _ \<Rightarrow> True)"

lemma spawned_label:
  assumes "gained (mems (res # hs) @ zs) s t" and "cleans os xs t x" and "\<And>r. count_list zs r = count_list (fds xs) r"
    and "posix_os os" and "0 < errno t"
  shows "spawned s st res pres pin pout perr (Some x)"
proof -
  obtain c s' where "x = Returns c s'" "c \<noteq> YO_OK" "gained (mems (res # hs)) s s'"
    by (rule fails_at_label [OF assms])
  then show ?thesis by (auto simp: spawned_def)
qed

lemma spawned_fork:
  assumes law: "spawn_os os" and rd: "reads_error os st" and st: "fst st \<noteq> -1" "snd st \<noteq> -1"
    and own: "gained (mems [res, hi, ho, he] @ fds [fst st, snd st, pi, ci, po, co, pe, ce]) s t"
    and i: "pin \<noteq> NULL \<longleftrightarrow> hi \<noteq> NULL" "pin \<noteq> NULL \<longleftrightarrow> pi \<noteq> -1" and o: "pout \<noteq> NULL \<longleftrightarrow> ho \<noteq> NULL" "pout \<noteq> NULL \<longleftrightarrow> po \<noteq> -1"
    and e: "perr \<noteq> NULL \<longleftrightarrow> he \<noteq> NULL" "perr \<noteq> NULL \<longleftrightarrow> pe \<noteq> -1"
    and apart: "pin \<noteq> NULL \<longrightarrow> pin \<notin> {pout, perr, pres}" "pout \<noteq> NULL \<longrightarrow> pout \<notin> {perr, pres}" "perr \<noteq> NULL \<longrightarrow> perr \<noteq> pres"
    and made: "pipes (trace t) = pipes (trace s) @ st # stream_pipes pin pout perr (ci, pi) (po, co) (pe, ce)"
    and pid: "0 < pid"
  shows "spawned s st res pres pin pout perr (spawn_parent os pid res pres pin pout perr st (pi, ci, hi) (po, co, ho) (pe, ce, he) t)"
proof (cases "spawn_parent os pid res pres pin pout perr st (pi, ci, hi) (po, co, ho) (pe, ce, he) t")
  case None
  with parent_outcome [OF law rd st pid, where res = res and pres = pres and pin = pin and pout = pout and perr = perr and pi = pi
      and ci = ci and hi = hi and po = po and co = co and ho = ho and pe = pe and ce = ce and he = he and s = t] show ?thesis
    by (simp add: spawned_def)
next
  case (Some x)
  with parent_outcome [OF law rd st pid, where res = res and pres = pres and pin = pin and pout = pout and perr = perr and pi = pi
      and ci = ci and hi = hi and po = po and co = co and ho = ho and pe = pe and ce = ce and he = he and s = t]
  obtain c s' where x: "x = Returns c s'"
    and ok: "c = YO_OK \<Longrightarrow> lost (fds [ci, co, ce, snd st, fst st]) t s'"
      "c = YO_OK \<Longrightarrow> m_ptr s' = (m_ptr (give_handle perr he pe (give_handle pout ho po (give_handle pin hi pi t))))(pres := res)"
      "c = YO_OK \<Longrightarrow> res \<noteq> NULL \<and> pipes (trace s') = pipes (trace t)"
      "c = YO_OK \<Longrightarrow> fd_fd s' = fd_fd (give_handle perr he pe (give_handle pout ho po (give_handle pin hi pi t)))"
    and bad: "c \<noteq> YO_OK \<Longrightarrow> lost (fds [ci, co, ce, snd st, fst st, pe, po, pi]) t s'" by (auto split: if_splits)
  have own': "held (trace t) r = held (trace s) r + int (count_list (mems [res, hi, ho, he]) r)
      + int (count_list (fds [fst st, snd st, pi, ci, po, co, pe, ce]) r)" for r
    using own by (simp add: gained_def)
  show ?thesis
  proof (cases "c = YO_OK")
    case True
    have ptr: "m_ptr s' pres = res" "pin \<noteq> NULL \<Longrightarrow> m_ptr s' pin = hi" "pout \<noteq> NULL \<Longrightarrow> m_ptr s' pout = ho"
      "perr \<noteq> NULL \<Longrightarrow> m_ptr s' perr = he"
      using ok(2) [OF True] i o e apart by auto
    have pipe: "distinct (map (m_ptr s') (filter (\<lambda>p. p \<noteq> NULL) [pin, pout, perr])) \<longrightarrow>
        on_pipe s' pin pi \<and> on_pipe s' pout po \<and> on_pipe s' perr pe"
      using ptr(2-4) ok(4) [OF True] i(2) o(2) e(2)
      by (cases "pin = NULL"; cases "pout = NULL"; cases "perr = NULL"; simp add: on_pipe_def)
    have own: "gained (mems [res] @ stream pin hi pi @ stream pout ho po @ stream perr he pe) s s'"
      unfolding gained_def
    proof
      fix r
      have "held (trace s') r + int (count_list (fds [ci, co, ce, snd st, fst st]) r) = held (trace t) r"
        using ok(1) [OF True] by (simp add: lost_def)
      with own' [of r] show "held (trace s') r = held (trace s) r
          + int (count_list (mems [res] @ stream pin hi pi @ stream pout ho po @ stream perr he pe) r)"
        unfolding stream_eq [OF i] stream_eq [OF o] stream_eq [OF e]
        by (simp add: fds_split mems_split del: count_fds count_mems)
    qed
    have stream: "stream pin (m_ptr s' pin) pi = stream pin hi pi" "stream pout (m_ptr s' pout) po = stream pout ho po"
      "stream perr (m_ptr s' perr) pe = stream perr he pe" using ptr(2-4) by (simp_all add: stream_def)
    have "m_ptr s' pres = res \<and> res \<noteq> NULL \<and> gained (mems [res] @ stream pin (m_ptr s' pin) pi
        @ stream pout (m_ptr s' pout) po @ stream perr (m_ptr s' perr) pe) s s'
        \<and> pipes (trace s') = pipes (trace s) @ st # stream_pipes pin pout perr (ci, pi) (po, co) (pe, ce)
        \<and> (distinct (map (m_ptr s') (filter (\<lambda>p. p \<noteq> NULL) [pin, pout, perr])) \<longrightarrow>
              on_pipe s' pin pi \<and> on_pipe s' pout po \<and> on_pipe s' perr pe)"
      using own ok(3) [OF True] made pipe
      unfolding stream ptr(1) by (simp only: simp_thms)
    with True Some x show ?thesis unfolding spawned_def by (simp only: option.case fate.case True refl if_True) blast
  next
    case False
    have "gained (mems [res, hi, ho, he]) s s'"
      unfolding gained_def
    proof
      fix r
      have "held (trace s') r + int (count_list (fds [ci, co, ce, snd st, fst st, pe, po, pi]) r) = held (trace t) r"
        using bad [OF False] by (simp add: lost_def)
      moreover have "count_list (fds [ci, co, ce, snd st, fst st, pe, po, pi]) r
          = count_list (fds [fst st, snd st, pi, ci, po, co, pe, ce]) r"
        by (simp add: fds_split del: count_fds)
      ultimately show "held (trace s') r = held (trace s) r + int (count_list (mems [res, hi, ho, he]) r)"
        using own' [of r] by linarith
    qed
    with False Some x show ?thesis by (auto simp: spawned_def)
  qed
qed

text \<open>One stream more.\<close>

lemma mkstd_own:
  assumes "spawn_os os" and "gained (mems hs @ fds xs) s t" and "mkstd_if os wanted inp t = (x, t')"
  shows "case x of None \<Rightarrow> gained (mems hs @ fds xs) s t' \<and> 0 < errno t'
     | Some (p, c, h) \<Rightarrow> gained (mems (hs @ [h]) @ fds (xs @ [p, c])) s t' \<and> (wanted \<longleftrightarrow> h \<noteq> NULL) \<and> (wanted \<longleftrightarrow> p \<noteq> -1)
         \<and> pipes (trace t') = pipes (trace t) @ (if wanted then [if inp then (c, p) else (p, c)] else [])"
proof (cases x)
  case None
  with mkstd_path [OF assms(1), where wanted = wanted and inp = inp and s = t] assms(2,3) show ?thesis by (simp add: gained_def)
next
  case (Some y)
  obtain p c h where y: "y = (p, c, h)" by (metis prod_cases3)
  have "gained (mems [h] @ fds [p, c]) t t' \<and> (wanted \<longleftrightarrow> h \<noteq> NULL) \<and> (wanted \<longleftrightarrow> p \<noteq> -1)
      \<and> pipes (trace t') = pipes (trace t) @ (if wanted then [if inp then (c, p) else (p, c)] else [])"
    using mkstd_path [OF assms(1), where wanted = wanted and inp = inp and s = t]
    unfolding assms(3) Some y prod.case option.case .
  then have g: "gained (mems [h] @ fds [p, c]) t t'" "wanted \<longleftrightarrow> h \<noteq> NULL" "wanted \<longleftrightarrow> p \<noteq> -1"
    "pipes (trace t') = pipes (trace t) @ (if wanted then [if inp then (c, p) else (p, c)] else [])" by blast+
  have "gained (mems (hs @ [h]) @ fds (xs @ [p, c])) s t'"
    using gained_trans [OF assms(2) g(1)] by (simp add: gained_def algebra_simps del: count_fds count_mems)
  with g(2-4) show ?thesis unfolding Some y option.case prod.case by blast
qed

lemma streams_outcome:
  assumes law: "spawn_os os" and rd: "reads_error os st" and st: "fst st \<noteq> -1" "snd st \<noteq> -1"
    and own: "gained (mems [res] @ fds [fst st, snd st]) s t" and made: "pipes (trace t) = pipes (trace s) @ [st]"
    and apart: "pin \<noteq> NULL \<longrightarrow> pin \<notin> {pout, perr, pres}" "pout \<noteq> NULL \<longrightarrow> pout \<notin> {perr, pres}" "perr \<noteq> NULL \<longrightarrow> perr \<noteq> pres"
  shows "spawned s st res pres pin pout perr (spawn_streams os st res pres argv env cwd pin pout perr t)"
proof -
  have posix: "posix_os os" by (rule spawn_laws(1) [OF law])
  note label = spawned_label [OF _ _ _ posix, where res = res and s = s and pres = pres and pin = pin
      and pout = pout and perr = perr]
  obtain x t1 where x: "mkstd_if os (pin \<noteq> NULL) True t = (x, t1)" by fastforce
  note own1 = mkstd_own [OF law own x]
  show ?thesis
  proof (cases x)
    case None
    with own1 have g: "gained (mems [res] @ fds [fst st, snd st]) s t1" "0 < errno t1" by simp_all
    have "spawned s st res pres pin pout perr (Some (err_fcntl os st t1))"
      by (rule label [where hs = "[]", OF g(1) err_fcntl_cleans _ g(2)]) simp
    with x None show ?thesis by (simp add: spawn_streams_def)
  next
    case (Some x')
    obtain pi ci hi where i: "x' = (pi, ci, hi)" by (metis prod_cases3)
    obtain y t2 where y: "mkstd_if os (pout \<noteq> NULL) False t1 = (y, t2)" by fastforce
    have own1': "gained (mems [res, hi] @ fds [fst st, snd st, pi, ci]) s t1" "pin \<noteq> NULL \<longleftrightarrow> hi \<noteq> NULL" "pin \<noteq> NULL \<longleftrightarrow> pi \<noteq> -1"
      "pipes (trace t1) = pipes (trace t) @ (if pin \<noteq> NULL then [if True then (ci, pi) else (pi, ci)] else [])"
      using own1 unfolding Some i by (simp_all only: option.case prod.case append.simps) blast+
    note own2 = mkstd_own [OF law own1'(1) y]
    show ?thesis
    proof (cases y)
      case None
      with own2 have g: "gained (mems [res, hi] @ fds [fst st, snd st, pi, ci]) s t2" "0 < errno t2" by simp_all
      have "spawned s st res pres pin pout perr (Some (err_mkstd_out os st (pi, ci) t2))"
        by (rule label [where hs = "[hi]", OF g(1) err_mkstd_out_cleans _ g(2)]) (simp add: fds_split del: count_fds)
      with x y None Some i show ?thesis by (simp add: spawn_streams_def)
    next
      case (Some y')
      obtain po co ho where o: "y' = (po, co, ho)" by (metis prod_cases3)
      obtain z t3 where z: "mkstd_if os (perr \<noteq> NULL) False t2 = (z, t3)" by fastforce
      have own2': "gained (mems [res, hi, ho] @ fds [fst st, snd st, pi, ci, po, co]) s t2"
        "pout \<noteq> NULL \<longleftrightarrow> ho \<noteq> NULL" "pout \<noteq> NULL \<longleftrightarrow> po \<noteq> -1"
        "pipes (trace t2) = pipes (trace t1) @ (if pout \<noteq> NULL then [if False then (co, po) else (po, co)] else [])"
        using own2 unfolding Some o by (simp_all only: option.case prod.case append.simps) blast+
      note own3 = mkstd_own [OF law own2'(1) z]
      note eqs = x y z \<open>x = Some x'\<close> i Some o
      show ?thesis
      proof (cases z)
        case None
        with own3 have g: "gained (mems [res, hi, ho] @ fds [fst st, snd st, pi, ci, po, co]) s t3" "0 < errno t3" by simp_all
        have "spawned s st res pres pin pout perr (Some (err_mkstd_err os st (pi, ci) (po, co) t3))"
          by (rule label [where hs = "[hi, ho]", OF g(1) err_mkstd_err_cleans _ g(2)]) (simp add: fds_split del: count_fds)
        with eqs None show ?thesis by (simp add: spawn_streams_def)
      next
        case (Some z')
        obtain pe ce he where e: "z' = (pe, ce, he)" by (metis prod_cases3)
        let ?f = "reply_of os CFork t3" let ?t4 = "after os CFork t3"
        have own3': "gained (mems [res, hi, ho, he] @ fds [fst st, snd st, pi, ci, po, co, pe, ce]) s ?t4"
          "perr \<noteq> NULL \<longleftrightarrow> he \<noteq> NULL" "perr \<noteq> NULL \<longleftrightarrow> pe \<noteq> -1"
          "pipes (trace ?t4) = pipes (trace t2) @ (if perr \<noteq> NULL then [if False then (ce, pe) else (pe, ce)] else [])"
          using own3 unfolding Some e
          by (simp_all only: option.case prod.case append.simps gained_def after_simps held_append held_Cons held_Nil)
            (simp_all add: delta_def, blast+)
        consider "ret ?f < 0" | "ret ?f = 0" | "0 < ret ?f" by linarith
        then show ?thesis
        proof cases
          case 1
          then have g: "0 < errno ?t4" using posix by (simp add: sys_simps)
          have "spawned s st res pres pin pout perr (Some (err_fork os st (pi, ci) (po, co) (pe, ce) ?t4))"
            by (rule label [where hs = "[hi, ho, he]", OF own3'(1) err_fork_cleans _ g]) (simp add: fds_split del: count_fds)
          with 1 eqs Some e show ?thesis by (simp add: spawn_streams_def sys_simps)
        next
          case 2
          with eqs Some e show ?thesis
            using child_never_returns [of os argv env cwd st "(pi, ci, hi)" "(po, co, ho)" "(pe, ce, he)" ?t4]
            by (simp add: spawn_streams_def sys_simps Let_def spawned_def split: fate.splits)
        next
          case 3
          have "pipes (trace ?t4) = pipes (trace s) @ st # stream_pipes pin pout perr (ci, pi) (po, co) (pe, ce)"
            using made own1'(4) own2'(4) own3'(4) by (simp add: stream_pipes_def)
          from spawned_fork [OF law rd st own3'(1) own1'(2,3) own2'(2,3) own3'(2,3) apart this 3] 3 eqs Some e show ?thesis
            by (simp add: spawn_streams_def sys_simps Let_def)
        qed
      qed
    qed
  qed
qed

text \<open>
  C21: starting a process, whose error report comes from the child. When \<open>yo_proc_spawn\<close> succeeds, the caller holds the process handle in
  \<open>*pres\<close> and, for each stream it asked for, a handle and the parent's end of the pipe that was made for the stream, and nothing else:
  the end for writing for the standard input, the end for reading for the others. Each handle has the descriptor of its own pipe
  (the handles being different blocks, as \<open>malloc\<close> makes them). When it fails, no descriptor stays open, but the process handle and the
  handles of the streams are leaked. If the process handle could not be allocated, which is not
  tested, the call never succeeds: it fails, or the parent writes through NULL in the end; it writes through NULL in no other case.
\<close>

theorem spawn_outcome:
  assumes "spawn_os os" and "child_writes os argv env cwd (status_pipe os s)"
    and "pin \<noteq> NULL \<longrightarrow> pin \<notin> {pout, perr, pres}" "pout \<noteq> NULL \<longrightarrow> pout \<notin> {perr, pres}" "perr \<noteq> NULL \<longrightarrow> perr \<noteq> pres"
  shows "case yo_proc_spawn os pres argv env cwd pin pout perr s of
     None \<Rightarrow> ptr (reply_of os (CMalloc sizeof_yo_proc) s) = NULL
   | Some (Returns c s') \<Rightarrow>
       if c = YO_OK then \<exists>i t e ci ct ce. m_ptr s' pres = ptr (reply_of os (CMalloc sizeof_yo_proc) s) \<and> m_ptr s' pres \<noteq> NULL
         \<and> gained ([Mem (m_ptr s' pres)] @ stream pin (m_ptr s' pin) i @ stream pout (m_ptr s' pout) t
             @ stream perr (m_ptr s' perr) e) s s'
         \<and> pipes (trace s') = pipes (trace s) @ status_pipe os s # stream_pipes pin pout perr (ci, i) (t, ct) (e, ce)
         \<and> (distinct (map (m_ptr s') (filter (\<lambda>p. p \<noteq> NULL) [pin, pout, perr])) \<longrightarrow>
              on_pipe s' pin i \<and> on_pipe s' pout t \<and> on_pipe s' perr e)
       else \<exists>hs. gained (mems (ptr (reply_of os (CMalloc sizeof_yo_proc) s) # hs)) s s'
   | Some (Replaced _) \<Rightarrow> True
   | Some (Exited _) \<Rightarrow> True"
proof -
  note law = assms(1) and apart = assms(3-5)
  note rd = child_reads_error [OF law assms(2)]
  let ?q = "CMalloc sizeof_yo_proc" let ?res = "ptr (reply_of os ?q s)" let ?t0 = "after os ?q s"
  let ?st = "status_pipe os s" let ?t1 = "after os CPipe ?t0"
  let ?t2 = "after os (CCloexec (fst ?st)) ?t1" let ?t3 = "after os (CCloexec (snd ?st)) ?t2"
  let ?t4 = "after os (CNonblock (snd ?st)) ?t3"
  have st_eq: "r_pair (reply_of os CPipe ?t0) = ?st" by (simp add: status_pipe_def)
  have posix: "posix_os os" by (rule spawn_laws(1) [OF law])
  note label = spawned_label [OF _ _ _ posix, where res = ?res and s = s and pres = pres and pin = pin
      and pout = pout and perr = perr]
  have "spawned s ?st ?res pres pin pout perr (yo_proc_spawn os pres argv env cwd pin pout perr s)"
  proof (cases "ret (reply_of os CPipe ?t0) < 0")
    case True
    then have "spawned s ?st ?res pres pin pout perr (Some (Returns (yoi_unix_conv_errno (errno ?t1)) ?t1))"
      by (intro label [where hs = "[]" and zs = "[]" and xs = "[]" and t = ?t1])
        (auto simp: ledger_simps cleans_def lost_def conv_positive sys_simps posix)
    with True show ?thesis by (simp add: yo_proc_spawn_def sys_simps Let_def)
  next
    case False
    have st: "fst ?st \<noteq> -1" "snd ?st \<noteq> -1" using False spawn_laws(2,3) [OF law, of ?t0] by (simp_all add: st_eq)
    have made: "pipes (trace ?t4) = pipes (trace s) @ [?st]" by (simp add: st_eq)
    have own: "gained (mems [?res] @ fds [fst ?st, snd ?st]) s ?t4" "gained (mems [?res] @ fds [fst ?st, snd ?st]) s ?t3"
      "gained (mems [?res] @ fds [fst ?st, snd ?st]) s ?t2"
      using False st by (simp_all add: ledger_simps st_eq)
    have label': "spawned s ?st ?res pres pin pout perr (Some (err_fcntl os ?st t))"
      if "gained (mems [?res] @ fds [fst ?st, snd ?st]) s t" "0 < errno t" for t
      by (rule label [where hs = "[]", OF that(1) err_fcntl_cleans]) (use that in simp_all)
    show ?thesis
      using False label' [OF own(1)] label' [OF own(2)] label' [OF own(3)] streams_outcome [OF law rd st own(1) made apart] posix
      by (simp add: yo_proc_spawn_def sys_simps Let_def st_eq)
  qed
  moreover have "mems [?res] = [Mem ?res]" if "?res \<noteq> NULL" using that by (simp add: mems_def)
  ultimately show ?thesis unfolding spawned_def by (fastforce split: option.splits fate.splits if_splits)
qed

section \<open>The error of the child\<close>

text \<open>Nothing is read between two states.\<close>

definition no_read :: "call \<times> reply \<Rightarrow> bool" where
  "no_read ev = (case fst ev of CRead _ _ \<Rightarrow> False | _ \<Rightarrow> True)"

definition unread :: "('w, 'z) sys_scheme \<Rightarrow> ('w, 'z) sys_scheme \<Rightarrow> bool" where
  "unread s t \<longleftrightarrow> (\<exists>pre. trace t = trace s @ pre \<and> (\<forall>ev \<in> set pre. no_read ev))"

lemma unread_trans: "unread s t \<Longrightarrow> unread t u \<Longrightarrow> unread s u"
  unfolding unread_def by fastforce

lemma unread_refl [simp]: "unread s s"
  by (simp add: unread_def)

lemma unread_after: "unread s t \<Longrightarrow> no_read (q, undefined) \<Longrightarrow> unread s (after os q t)"
  by (auto simp: unread_def no_read_def)

lemma unread_close_if: "unread s (close_if os fd s)"
  by (simp add: close_if_def sys_simps no_read_def unread_after)

lemma unread_mkstd: "mkstd_if os wanted inp s = (x, t) \<Longrightarrow> unread s t"
  by (auto simp: mkstd_if_def yoi_unix_mkstd_def sys_simps Let_def no_read_def intro!: unread_after split: if_splits prod.splits)

text \<open>What the calls of the cleanup leave in \<open>errno\<close>.\<close>

definition errno_after :: "int \<Rightarrow> (call \<times> reply) list \<Rightarrow> int" where
  "errno_after e evs = fold (\<lambda>ev e. case eno (snd ev) of None \<Rightarrow> e | Some x \<Rightarrow> x) evs e"

lemma errno_after_simps [simp]: "errno_after e [] = e" "errno_after e (xs @ ys) = errno_after (errno_after e xs) ys"
  "errno_after e ((q, r) # xs) = errno_after (case eno r of None \<Rightarrow> e | Some x \<Rightarrow> x) xs"
  by (simp_all add: errno_after_def)

definition cleanup :: "'w os \<Rightarrow> call \<times> reply \<Rightarrow> bool" where
  "cleanup os ev \<longleftrightarrow> (case fst ev of CClose _ \<Rightarrow> True | CWaitpid _ \<Rightarrow> True | _ \<Rightarrow> False) \<and> (\<exists>w. snd ev = fst (os w (fst ev)))"

lemma cleanup_no_read: "cleanup os ev \<Longrightarrow> no_read ev"
  by (auto simp: cleanup_def no_read_def split: call.splits)

lemma errno_after_pos:
  assumes "posix_os os" and "\<forall>ev \<in> set evs. cleanup os ev" and "0 < e"
  shows "0 < errno_after e evs"
  using assms(2,3)
proof (induction evs arbitrary: e)
  case (Cons ev evs)
  obtain q r where ev: "ev = (q, r)" by fastforce
  have "0 < x" if "eno r = Some x" for x
    using Cons.prems(1) that posix_errno [OF assms(1)] by (auto simp: ev cleanup_def)
  with Cons ev show ?case by (auto split: option.split)
qed simp

text \<open>A label closes and returns the error that is then in \<open>errno\<close>.\<close>

definition tails :: "'w os \<Rightarrow> ('w, 'z) io_scheme \<Rightarrow> ('w, 'z) io_scheme fate \<Rightarrow> bool" where
  "tails os s x \<longleftrightarrow> (\<exists>s' post. trace s' = trace s @ post \<and> (\<forall>ev \<in> set post. cleanup os ev)
     \<and> x = Returns (yoi_unix_conv_errno (errno_after (errno s) post)) s')"

lemma tails_after:
  assumes "tails os (after os q s) x" and "case q of CClose _ \<Rightarrow> True | CWaitpid _ \<Rightarrow> True | _ \<Rightarrow> False"
  shows "tails os s x"
proof -
  obtain s' post where p: "trace s' = trace (after os q s) @ post" "\<forall>ev \<in> set post. cleanup os ev"
    "x = Returns (yoi_unix_conv_errno (errno_after (errno (after os q s)) post)) s'" using assms(1) unfolding tails_def by blast
  have "cleanup os (q, reply_of os q s)" using assms(2) by (auto simp: cleanup_def reply_of_def)
  with p show ?thesis
    unfolding tails_def by (intro exI [of _ s'] exI [of _ "(q, reply_of os q s) # post"]) (auto simp: after_errno)
qed

lemma tails_close_if: "tails os (close_if os fd s) x \<Longrightarrow> tails os s x"
  by (auto simp: close_if_def sys_simps intro: tails_after split: if_splits)

lemma tails_close_two: "tails os (close_if os b (close_if os a s)) x \<Longrightarrow> tails os s x"
  by (rule tails_close_if, rule tails_close_if)

lemma err_fcntl_tails: "tails os s (err_fcntl os st s)"
  unfolding err_fcntl_def Let_def return_errno_def prod.case
  by (rule tails_close_two [of os "snd st" "fst st"]) (simp add: tails_def)

lemma err_mkstd_out_tails: "tails os s (err_mkstd_out os st i s)"
  unfolding err_mkstd_out_def Let_def by (rule tails_close_two [OF err_fcntl_tails])

lemma err_mkstd_err_tails: "tails os s (err_mkstd_err os st i t s)"
  unfolding err_mkstd_err_def Let_def by (rule tails_close_two [OF err_mkstd_out_tails])

lemma err_fork_tails: "tails os s (err_fork os st i t e s)"
  unfolding err_fork_def Let_def by (rule tails_close_two [OF err_mkstd_err_tails])

text \<open>
  What a call that returns has read: nothing, or the status. If these are four bytes, the code is that of the error they hold, or of
  one that the cleanup left in \<open>errno\<close>.
\<close>

definition status_read :: "'w os \<Rightarrow> int \<times> int \<Rightarrow> yo_code \<Rightarrow> (call \<times> reply) list \<Rightarrow> bool" where
  "status_read os st c evs \<longleftrightarrow> (\<exists>pre w r0 post. let r = fst (os w (CRead (fst st) 4)) in
     evs = pre @ (CRead (fst st) 4, r) # (CClose (fst st), r0) # post
     \<and> (\<forall>ev \<in> set pre. no_read ev) \<and> (\<forall>ev \<in> set post. cleanup os ev)
     \<and> (ret r = 4 \<longrightarrow> c = yoi_unix_conv_errno (errno_after (bytes_int (r_bytes r)) post)))"

definition reported :: "'w os \<Rightarrow> int \<times> int \<Rightarrow> ('w, 'z) io_scheme \<Rightarrow> ('w, 'z) io_scheme fate option \<Rightarrow> bool" where
  "reported os st s x \<longleftrightarrow> (\<forall>c s'. x = Some (Returns c s') \<longrightarrow> unread s s'
     \<or> (\<exists>evs. trace s' = trace s @ evs \<and> status_read os st c evs))"

lemma status_read_prefix:
  assumes "status_read os st c evs" and "\<forall>ev \<in> set pre. no_read ev"
  shows "status_read os st c (pre @ evs)"
proof -
  obtain pre' w r0 post where p: "evs = pre' @ (CRead (fst st) 4, fst (os w (CRead (fst st) 4))) # (CClose (fst st), r0) # post"
    "\<forall>ev \<in> set pre'. no_read ev" "\<forall>ev \<in> set post. cleanup os ev"
    "ret (fst (os w (CRead (fst st) 4))) = 4 \<longrightarrow> c = yoi_unix_conv_errno (errno_after (bytes_int (r_bytes (fst (os w (CRead (fst st) 4))))) post)"
    using assms(1) unfolding status_read_def Let_def by blast
  show ?thesis
    unfolding status_read_def Let_def
    by (intro exI [of _ "pre @ pre'"] exI [of _ w] exI [of _ r0] exI [of _ post]) (use p assms(2) in auto)
qed

lemma reported_trans:
  assumes "unread s t" and "reported os st t x"
  shows "reported os st s x"
proof -
  obtain pre where pre: "trace t = trace s @ pre" "\<forall>ev \<in> set pre. no_read ev" using assms(1) by (auto simp: unread_def)
  have "unread s s' \<or> (\<exists>evs. trace s' = trace s @ evs \<and> status_read os st c evs)" if "x = Some (Returns c s')" for c s'
  proof -
    from assms(2) that consider "unread t s'" | evs where "trace s' = trace t @ evs" "status_read os st c evs"
      unfolding reported_def by blast
    then show ?thesis
    proof cases
      case 1
      then show ?thesis using unread_trans [OF assms(1)] by blast
    next
      case (2 evs)
      with status_read_prefix [OF 2(2) pre(2)] pre(1) show ?thesis by (intro disjI2 exI [of _ "pre @ evs"]) simp
    qed
  qed
  then show ?thesis unfolding reported_def by blast
qed

lemma reported_label:
  assumes "tails os s x"
  shows "reported os st s (Some x)"
proof -
  obtain s' post where "trace s' = trace s @ post" "\<forall>ev \<in> set post. cleanup os ev"
    and x: "x = Returns (yoi_unix_conv_errno (errno_after (errno s) post)) s'"
    using assms unfolding tails_def by blast
  then have "unread s s'" using cleanup_no_read unfolding unread_def by blast
  then show ?thesis by (simp add: reported_def x)
qed

lemma parent_reported:
  "reported os st s (spawn_parent os pid res pres pin pout perr st (pi, ci, hi) (po, co, ho) (pe, ce, he) s)"
proof -
  let ?t0 = "close_if os ce (close_if os co (close_if os ci s))"
  define t1 where "t1 = after os (CClose (snd st)) ?t0"
  let ?rd = "CRead (fst st) 4" let ?r = "reply_of os ?rd t1" let ?c = "CClose (fst st)"
  let ?t2 = "after os ?c (after os ?rd t1)"
  let ?rc = "reply_of os ?c (after os ?rd t1)"
  have req: "fst (os (world t1) ?rd) = ?r" by (simp add: reply_of_def)
  have "unread s ?t0" by (intro unread_trans [OF unread_close_if unread_trans [OF unread_close_if unread_close_if]])
  then have "unread s t1" unfolding t1_def by (rule unread_after) (simp add: no_read_def)
  then obtain pre where pre: "trace t1 = trace s @ pre" "\<forall>ev \<in> set pre. no_read ev" by (auto simp: unread_def)
  have found: "reported os st s (Some (Returns c s'))"
    if "trace s' = trace ?t2 @ post" "\<forall>ev \<in> set post. cleanup os ev"
      "ret ?r = 4 \<longrightarrow> c = yoi_unix_conv_errno (errno_after (bytes_int (r_bytes ?r)) post)" for c s' post
  proof -
    have "status_read os st c (pre @ (?rd, ?r) # (?c, ?rc) # post)"
      unfolding status_read_def Let_def
      by (intro exI [of _ pre] exI [of _ "world t1"] exI [of _ ?rc] exI [of _ post] conjI) (use that(2,3) pre in \<open>simp_all add: req\<close>)
    moreover have "trace s' = trace s @ (pre @ (?rd, ?r) # (?c, ?rc) # post)" using that(1) pre(1) by simp
    ultimately show ?thesis unfolding reported_def by blast
  qed
  let ?w = "\<lambda>u. if pid \<noteq> 0 then after os (CWaitpid pid) u else u"
  let ?err = "\<lambda>u. err_fork os (-1, -1) (pi, -1) (po, -1) (pe, -1) (?w u)"
  have tail: "tails os u (?err u)" for u
    using err_fork_tails [of os u] tails_after [OF err_fork_tails, where q = "CWaitpid pid" and s = u] by simp
  have fail: "reported os st s (Some (?err (?t2\<lparr>errno := e\<rparr>)))" if "ret ?r = 4 \<Longrightarrow> e = bytes_int (r_bytes ?r)" for e
  proof -
    obtain s' post where p: "trace s' = trace ?t2 @ post" "\<forall>ev \<in> set post. cleanup os ev"
      "?err (?t2\<lparr>errno := e\<rparr>) = Returns (yoi_unix_conv_errno (errno_after e post)) s'"
      using tail [of "?t2\<lparr>errno := e\<rparr>"] unfolding tails_def by auto
    show ?thesis unfolding p(3) by (rule found [OF p(1,2)]) (use that in simp)
  qed
  let ?g = "give_handle perr he pe (give_handle pout ho po (give_handle pin hi pi ?t2))"
  have ok: "ret ?r = 0 \<Longrightarrow> reported os st s (Some (Returns YO_OK (set_ptr pres res (?g\<lparr>proc_pid := (proc_pid ?g)(res := pid)\<rparr>))))"
    by (rule found [where post = "[]"]) simp_all
  have run: "spawn_parent os pid res pres pin pout perr st (pi, ci, hi) (po, co, ho) (pe, ce, he) s =
     (if ret ?r < 0 then Some (?err (?t2\<lparr>errno := errno ?t2\<rparr>))
      else if ret ?r = 4 then Some (?err (?t2\<lparr>errno := bytes_int (r_bytes ?r)\<rparr>))
      else if ret ?r \<noteq> 0 then Some (?err (?t2\<lparr>errno := EPIPE\<rparr>))
      else if res = NULL then None
      else Some (Returns YO_OK (set_ptr pres res (?g\<lparr>proc_pid := (proc_pid ?g)(res := pid)\<rparr>))))"
    by (simp add: spawn_parent_def sys_simps Let_def t1_def)
  consider "ret ?r < 0" | "ret ?r = 4" | "0 \<le> ret ?r" "ret ?r \<noteq> 4" "ret ?r \<noteq> 0" | "ret ?r = 0" by linarith
  then show ?thesis
  proof cases
    case 1 then show ?thesis unfolding run using fail [of "errno ?t2"] by simp
  next
    case 2 then show ?thesis unfolding run using fail [of "bytes_int (r_bytes ?r)"] by simp
  next
    case 3 then show ?thesis unfolding run using fail [of EPIPE] by simp
  next
    case 4 then show ?thesis unfolding run using ok by (simp add: reported_def)
  qed
qed

lemma child_reported: "reported os st s (Some (spawn_child os argv env cwd st i t e u))"
  using child_never_returns [of os argv env cwd st i t e u] by (auto simp: reported_def)

lemma streams_reported: "reported os st s (spawn_streams os st res pres argv env cwd pin pout perr s)"
proof -
  obtain x t1 where x: "mkstd_if os (pin \<noteq> NULL) True s = (x, t1)" by fastforce
  obtain y t2 where y: "mkstd_if os (pout \<noteq> NULL) False t1 = (y, t2)" by fastforce
  obtain z t3 where z: "mkstd_if os (perr \<noteq> NULL) False t2 = (z, t3)" by fastforce
  have s1: "unread s t1" and s2: "unread s t2" and s3: "unread s t3"
    using unread_mkstd [OF x] unread_mkstd [OF y] unread_mkstd [OF z] by (blast intro: unread_trans)+
  have s4: "unread s (after os CFork t3)" by (rule unread_after [OF s3]) (simp add: no_read_def)
  note err = reported_trans [OF s1 reported_label [OF err_fcntl_tails]] reported_trans [OF s2 reported_label [OF err_mkstd_out_tails]]
    reported_trans [OF s3 reported_label [OF err_mkstd_err_tails]] reported_trans [OF s4 reported_label [OF err_fork_tails]]
    reported_trans [OF s4 parent_reported] child_reported
  show ?thesis
    by (simp add: spawn_streams_def x y z sys_simps Let_def err split: option.split prod.split)
qed

lemma spawn_reported: "reported os (status_pipe os s) s (yo_proc_spawn os pres argv env cwd pin pout perr s)"
proof -
  let ?t0 = "after os (CMalloc sizeof_yo_proc) s"
  let ?st = "status_pipe os s" let ?t1 = "after os CPipe ?t0"
  let ?t2 = "after os (CCloexec (fst ?st)) ?t1" let ?t3 = "after os (CCloexec (snd ?st)) ?t2"
  let ?t4 = "after os (CNonblock (snd ?st)) ?t3"
  have st_eq: "r_pair (reply_of os CPipe ?t0) = ?st" by (simp add: status_pipe_def)
  have un: "unread s ?t1" "unread s ?t2" "unread s ?t3" "unread s ?t4" by (intro unread_after; simp add: no_read_def)+
  note label = un(2-4) [THEN reported_trans, OF reported_label [OF err_fcntl_tails]]
  show ?thesis
    using un(1) label reported_trans [OF un(4) streams_reported]
    by (simp add: yo_proc_spawn_def sys_simps Let_def return_errno_def st_eq) (simp add: reported_def)
qed

text \<open>
  C22: what went wrong in the child reaches the caller. If the parent reads four bytes from the status pipe, they are the error number \<open>e\<close>
  of a call that failed in the child, and \<open>yo_proc_spawn\<close> fails. It returns the conversion of \<open>e\<close>, unless the calls that
  clean up after the read (the parent waits for the child and closes its descriptors) set \<open>errno\<close>, as an interrupted \<open>waitpid\<close>
  does; then it returns the conversion of the last error that they set.
\<close>

theorem child_error_reported:
  assumes law: "spawn_os os" and writes: "child_writes os argv env cwd (status_pipe os s)"
    and run: "yo_proc_spawn os pres argv env cwd pin pout perr s = Some (Returns c s')"
    and read: "(CRead fd n, r) \<in> set (news s s')" "ret r = 4"
  shows "\<exists>e before r' cleaning. child_error os argv env cwd (status_pipe os s) e \<and> r_bytes r = int_bytes e
     \<and> news s s' = before @ (CRead fd n, r) # (CClose fd, r') # cleaning \<and> (\<forall>ev \<in> set cleaning. cleanup os ev)
     \<and> c = yoi_unix_conv_errno (errno_after e cleaning) \<and> c \<noteq> YO_OK"
proof -
  let ?st = "status_pipe os s"
  have "\<not> unread s s'" using read(1) by (force simp: unread_def news_def no_read_def)
  then obtain evs where evs: "trace s' = trace s @ evs" "status_read os ?st c evs"
    using spawn_reported [of os s pres argv env cwd pin pout perr] run unfolding reported_def by blast
  then have news: "news s s' = evs" by (simp add: news_def)
  obtain pre w r0 post where p: "evs = pre @ (CRead (fst ?st) 4, fst (os w (CRead (fst ?st) 4))) # (CClose (fst ?st), r0) # post"
    "\<forall>ev \<in> set pre. no_read ev" "\<forall>ev \<in> set post. cleanup os ev"
    "ret (fst (os w (CRead (fst ?st) 4))) = 4 \<longrightarrow> c = yoi_unix_conv_errno (errno_after (bytes_int (r_bytes (fst (os w (CRead (fst ?st) 4))))) post)"
    using evs(2) unfolding status_read_def Let_def by blast
  have "\<not> no_read (CRead fd n, r)" by (simp add: no_read_def)
  then have "(CRead fd n, r) \<notin> set pre" "(CRead fd n, r) \<notin> set post" using p(2,3) cleanup_no_read by blast+
  then have r: "fd = fst ?st" "n = 4" "r = fst (os w (CRead (fst ?st) 4))"
    using read(1) p(1) unfolding news by auto
  obtain e where e: "child_error os argv env cwd ?st e" "r_bytes r = int_bytes e" "0 < e" "e < 2 ^ 31"
    using child_read [OF law writes] read(2) unfolding r(3) by blast
  have "c = yoi_unix_conv_errno (errno_after e post)"
    using p(4) read(2) e(2-4) unfolding r(3) by (simp add: bytes_int_bytes)
  moreover have "0 < errno_after e post" by (rule errno_after_pos [OF spawn_laws(1) [OF law] p(3) e(3)])
  ultimately show ?thesis using e p(1,3) r news conv_positive by blast
qed
text \<open>
  A child that was killed by a signal is reported as if it had exited with the number of the signal:
  \<open>yo_proc_wait\<close> stores the signal in \<open>*pcode\<close>, and \<open>*psig\<close> is -1 in all cases.
\<close>

theorem proc_wait_status:
  assumes "0 \<le> ret (reply_of os (CWaitpid (proc_pid s p)) s)" and "psig \<noteq> pcode"
  shows "case yo_proc_wait os p psig pcode s of (c, s') \<Rightarrow>
     c = YO_OK \<and> m_int s' psig = -1
   \<and> m_int s' pcode = (let w = r_status (reply_of os (CWaitpid (proc_pid s p)) s) in
        if WIFEXITED w then WEXITSTATUS w else if WIFSIGNALED w then WTERMSIG w else -1)"
  using assms
  by (auto simp: yo_proc_wait_def sys_simps Let_def set_int_def WIFEXITED_def WIFSIGNALED_def)

section \<open>A concrete system\<close>

text \<open>Pipes have the ends 10 and 11; the child has the number 77 and finds no program.\<close>

definition parent_kernel :: "unit os" where
  "parent_kernel w q = (case q of
     CPipe \<Rightarrow> ((returns 0)\<lparr>r_pair := (10, 11)\<rparr>, w)
   | CFork \<Rightarrow> (returns 77, w)
   | CWaitpid p \<Rightarrow> ((returns 77)\<lparr>r_status := 9\<rparr>, w)
   | _ \<Rightarrow> (returns (if returns_pointer q then 4096 else 0), w))"

definition child_kernel :: "unit os" where
  "child_kernel w q = (case q of
     CExecve argv env \<Rightarrow> (failed (-1) ENOENT, w)
   | CRead fd n \<Rightarrow> ((returns 4)\<lparr>r_bytes := int_bytes ENOENT\<rparr>, w)
   | CWaitpid p \<Rightarrow> (failed (-1) EINTR, w)
   | _ \<Rightarrow> parent_kernel w q)"

lemma parent_law: "spawn_os parent_kernel"
proof -
  have "posix_os parent_kernel"
    unfolding posix_os_def
  proof (intro allI)
    fix w q show "let r = fst (parent_kernel w q) in (fails q r \<longrightarrow> eno r \<noteq> None) \<and> (\<forall>e. eno r = Some e \<longrightarrow> 0 < e)"
      by (cases q) (auto simp: parent_kernel_def fails_def returns_pointer_def Let_def returns_def)
  qed
  moreover have "eno (fst (parent_kernel w q)) = None" for w q
    by (cases q) (simp_all add: parent_kernel_def returns_def)
  ultimately show ?thesis
    by (simp add: spawn_os_def parent_kernel_def returns_pointer_def)
qed

lemma child_law: "spawn_os child_kernel"
proof -
  have "posix_os child_kernel"
    unfolding posix_os_def
  proof (intro allI)
    fix w q show "let r = fst (child_kernel w q) in (fails q r \<longrightarrow> eno r \<noteq> None) \<and> (\<forall>e. eno r = Some e \<longrightarrow> 0 < e)"
      by (cases q) (auto simp: child_kernel_def parent_kernel_def fails_def returns_pointer_def Let_def returns_def failed_def)
  qed
  moreover have "x < 2 ^ 31" if "eno (fst (child_kernel w q)) = Some x" for w q x
    using that by (cases q) (auto simp: child_kernel_def parent_kernel_def returns_def failed_def)
  ultimately show ?thesis
    by (simp add: spawn_os_def child_kernel_def parent_kernel_def)
qed

lemma spawn_outcome_witness:
  "case yo_proc_spawn parent_kernel 8 [''ls''] [] None 16 NULL NULL (idle ()) of
     Some (Returns c s') \<Rightarrow> c = YO_OK \<and> gained [Mem 4096, Mem (m_ptr s' 16), Fd 11] (idle ()) s' \<and> fd_fd s' (m_ptr s' 16) = 11
   | _ \<Rightarrow> False"
proof -
  have ok: "case yo_proc_spawn parent_kernel 8 [''ls''] [] None 16 NULL NULL (idle ()) of
     Some (Returns c s') \<Rightarrow> c = YO_OK \<and> pipes (trace s') = [(10, 11), (10, 11)] | _ \<Rightarrow> False"
    by (simp add: yo_proc_spawn_def spawn_streams_def mkstd_if_def yoi_unix_mkstd_def spawn_parent_def sys_simps Let_def
        reply_of_def parent_kernel_def returns_pointer_def close_if_def give_handle_def idle_def)
  have "ptr (reply_of parent_kernel (CMalloc sizeof_yo_proc) (idle ())) = 4096"
    by (simp add: reply_of_def parent_kernel_def returns_pointer_def)
  moreover have "child_writes parent_kernel [''ls''] [] None st" for st
    by (simp add: child_writes_def parent_kernel_def returns_pointer_def)
  moreover have "trace (idle ()) = []" by (simp add: idle_def)
  ultimately show ?thesis
    using ok spawn_outcome [OF parent_law, where pres = 8 and pin = 16 and pout = NULL and perr = NULL
      and s = "idle ()" and argv = "[''ls'']" and env = "[]" and cwd = None]
    by (auto simp: stream_def stream_pipes_def on_pipe_def split: option.splits fate.splits)
qed

text \<open>The program is not found, and the wait of the parent is interrupted: the caller learns of the interruption.\<close>

lemma child_error_reported_witness:
  "\<exists>e s' cleaning. yo_proc_spawn child_kernel 8 [''ls''] [] None NULL NULL NULL (idle ()) = Some (Returns YO_ECANCELED s')
     \<and> child_error child_kernel [''ls''] [] None (10, 11) e \<and> YO_ECANCELED = yoi_unix_conv_errno (errno_after e cleaning)"
proof -
  let ?st = "(10, 11)" let ?none = "(-1, -1, NULL)"
  have st: "status_pipe child_kernel (idle ()) = ?st"
    by (simp add: status_pipe_def reply_of_def child_kernel_def parent_kernel_def)
  obtain s1 where "spawn_child child_kernel [''ls''] [] None ?st ?none ?none ?none (idle ()) = Exited s1"
    "(CWrite 11 (int_bytes ENOENT), returns 0) \<in> set (news (idle ()) s1)"
    by (simp add: spawn_child_def dup_if_def close_if_def err_child_def sys_simps Let_def reply_of_def child_kernel_def parent_kernel_def
        returns_pointer_def news_def after_errno failed_def returns_def)
  then have writes: "child_writes child_kernel [''ls''] [] None ?st"
    unfolding child_writes_def Let_def by (fastforce simp: child_kernel_def)
  have e: "bytes_int (int_bytes ENOENT) = ENOENT" by (rule bytes_int_bytes) simp_all
  have "case yo_proc_spawn child_kernel 8 [''ls''] [] None NULL NULL NULL (idle ()) of
     Some (Returns c s') \<Rightarrow> c = YO_ECANCELED \<and> (CRead 10 4, (returns 4)\<lparr>r_bytes := int_bytes ENOENT\<rparr>) \<in> set (news (idle ()) s')
   | _ \<Rightarrow> False"
    by (simp add: yo_proc_spawn_def spawn_streams_def mkstd_if_def spawn_parent_def sys_simps Let_def news_def after_errno e
        reply_of_def child_kernel_def parent_kernel_def returns_pointer_def close_if_def err_fork_def err_mkstd_err_def
        err_mkstd_out_def err_fcntl_def return_errno_def failed_def returns_def yoi_unix_conv_errno_def unix_errno_cases_def)
  then obtain s' where run: "yo_proc_spawn child_kernel 8 [''ls''] [] None NULL NULL NULL (idle ()) = Some (Returns YO_ECANCELED s')"
    and read: "(CRead 10 4, (returns 4)\<lparr>r_bytes := int_bytes ENOENT\<rparr>) \<in> set (news (idle ()) s')"
    by (auto split: option.splits fate.splits)
  from child_error_reported [OF child_law _ run read] writes st show ?thesis
    unfolding st by (fastforce simp: run)
qed

lemma proc_wait_status_witness:
  "case yo_proc_wait parent_kernel 4096 16 24 (idle ()) of (c, s') \<Rightarrow> m_int s' 16 = -1 \<and> m_int s' 24 = 9"
  using proc_wait_status [of parent_kernel "idle ()" 4096 16 24]
  by (simp add: reply_of_def parent_kernel_def idle_def WIFEXITED_def WIFSIGNALED_def WTERMSIG_def Let_def
      split: prod.splits)

end
