(* ===== verification/Pool.thy ===== *)
theory Pool
  imports ReqQueue "HOL-Library.Multiset"
begin

text \<open>
  The thread pool, \<open>src/pool.c\<close>, with the parts of \<open>src/queue.c\<close> that its threads run
  concurrently. One client thread uses the queue (\<open>yo_req_exec\<close>, \<open>yo_queue_poll\<close>,
  \<open>yo_queue_free\<close>); each worker thread runs \<open>yoi_pool_worker_entry\<close>. A thread is a program counter, and a step is
  one access to shared state or one operation on a lock or condition. What is done
  under a lock between two such operations is one step where no other thread can see the states between.
\<close>

section \<open>State\<close>

text \<open>The points of \<open>yoi_pool_worker_entry\<close> and of the \<open>yoi_req_end\<close> that it calls.\<close>

datatype wpc =
    Absent                    \<comment> \<open>no such thread\<close>
  | Locking                   \<comment> \<open>before taking its own lock, at the start or after a wait\<close>
  | Checking                  \<comment> \<open>at the head of the inner loop, with its lock\<close>
  | Running addr              \<comment> \<open>in the callback, without a lock\<close>
  | Ending addr yo_code       \<comment> \<open>before taking the lock of the queue\<close>
  | Linking addr yo_code      \<comment> \<open>with the lock of the queue\<close>
  | Linked                    \<comment> \<open>the request is ready, the lock is still held\<close>
  | Relocking                 \<comment> \<open>before taking its own lock again\<close>
  | Clearing                  \<comment> \<open>with its lock, the three fields not reset yet\<close>
  | Waiting                   \<comment> \<open>in \<open>yo_cond_wait\<close>\<close>
  | Exited

text \<open>The points of the client.\<close>

datatype cpc =
    Idle
  | Scan addr "nat list"      \<comment> \<open>\<open>yo_req_exec\<close>: the request and the workers not looked at yet\<close>
  | Found addr nat "nat list" \<comment> \<open>with the lock of a worker\<close>
  | Assigned addr nat         \<comment> \<open>the fields are set\<close>
  | Signalled addr nat        \<comment> \<open>after the broadcast\<close>
  | Created addr nat          \<comment> \<open>a thread was made and is not in the list yet\<close>
  | Popping                   \<comment> \<open>\<open>yoi_queue_pop\<close>, with the lock of the queue\<close>
  | Closing                   \<comment> \<open>\<open>yo_queue_free\<close>, at the head of the loop of \<open>yoi_pool_free\<close>\<close>
  | CloseLock nat
  | CloseHeld nat
  | CloseSet nat
  | CloseSignalled nat
  | Joining nat
  | Freed

datatype who = Client | Worker nat

text \<open>
  \<open>w_task w\<close> are the fields \<open>worker\<close>, \<open>args\<close> and \<open>req\<close> of the structure, which are set and reset
  together. \<open>submitted\<close>, \<open>delivered\<close> and \<open>made\<close> record what has happened: the requests that \<open>yo_req_exec\<close>
  accepted, the completions that the client got, the threads that were made.
\<close>

record pool =
  q_lock :: "who option"
  q_ready :: "(addr \<times> yo_code) list"
  worker_list :: "nat list"
  w_lock :: "nat \<Rightarrow> who option"
  w_task :: "nat \<Rightarrow> addr option"
  w_kys :: "nat \<Rightarrow> bool"
  w_pc :: "nat \<Rightarrow> wpc"
  c_pc :: cpc
  submitted :: "addr multiset"
  delivered :: "(addr \<times> yo_code) list"
  made :: "nat set"

abbreviation go :: "nat \<Rightarrow> wpc \<Rightarrow> pool \<Rightarrow> pool" where
  "go w p s \<equiv> s\<lparr>w_pc := (w_pc s)(w := p)\<rparr>"

abbreviation lock :: "nat \<Rightarrow> who \<Rightarrow> pool \<Rightarrow> pool" where
  "lock w x s \<equiv> s\<lparr>w_lock := (w_lock s)(w := Some x)\<rparr>"

abbreviation unlock :: "nat \<Rightarrow> pool \<Rightarrow> pool" where
  "unlock w s \<equiv> s\<lparr>w_lock := (w_lock s)(w := None)\<rparr>"

abbreviation at :: "cpc \<Rightarrow> pool \<Rightarrow> pool" where
  "at p s \<equiv> s\<lparr>c_pc := p\<rparr>"

section \<open>The steps of a worker\<close>

text \<open>The callback may return any code. A wait may end without a signal.\<close>

inductive worker_step :: "nat \<Rightarrow> pool \<Rightarrow> pool \<Rightarrow> bool" where
  take_own: "w_pc s w = Locking \<Longrightarrow> w_lock s w = None \<Longrightarrow>
     worker_step w s (go w Checking (lock w (Worker w) s))"
| take_task: "w_pc s w = Checking \<Longrightarrow> w_task s w = Some r \<Longrightarrow> \<not> w_kys s w \<Longrightarrow>
     worker_step w s (go w (Running r) (unlock w s))"
| leave: "w_pc s w = Checking \<Longrightarrow> w_kys s w \<Longrightarrow>
     worker_step w s (go w Exited (unlock w s))"
| wait: "w_pc s w = Checking \<Longrightarrow> w_task s w = None \<Longrightarrow> \<not> w_kys s w \<Longrightarrow>
     worker_step w s (go w Waiting (unlock w s))"
| wake_up: "w_pc s w = Waiting \<Longrightarrow> worker_step w s (go w Locking s)"
| finish: "w_pc s w = Running r \<Longrightarrow> worker_step w s (go w (Ending r c) s)"
| reclaim: "w_pc s w = Relocking \<Longrightarrow> w_lock s w = None \<Longrightarrow>
     worker_step w s (go w Clearing (lock w (Worker w) s))"
| clear: "w_pc s w = Clearing \<Longrightarrow>
     worker_step w s (go w Checking (s\<lparr>w_task := (w_task s)(w := None)\<rparr>))"

text \<open>\<open>yoi_req_end\<close>, run by a worker.\<close>

inductive end_step :: "nat \<Rightarrow> pool \<Rightarrow> pool \<Rightarrow> bool" where
  take_queue: "w_pc s w = Ending r c \<Longrightarrow> q_lock s = None \<Longrightarrow>
     end_step w s (go w (Linking r c) (s\<lparr>q_lock := Some (Worker w)\<rparr>))"
| link: "w_pc s w = Linking r c \<Longrightarrow>
     end_step w s (go w Linked (s\<lparr>q_ready := (r, c) # q_ready s\<rparr>))"
| release: "w_pc s w = Linked \<Longrightarrow>
     end_step w s (go w Relocking (s\<lparr>q_lock := None\<rparr>))"

section \<open>The steps of the client\<close>

definition signal :: "nat \<Rightarrow> pool \<Rightarrow> pool" where
  "signal w s = (if w_pc s w = Waiting then go w Locking s else s)"

text \<open>
  \<open>yo_req_exec\<close>. It refuses when there is no memory, or when \<open>yo_thread_new\<close> is negative. On Unix a failure
  of \<open>pthread_create\<close> is a positive number, so the code goes on with a worker that has no thread (\<open>no_thread\<close>).
\<close>

inductive exec_step :: "pool \<Rightarrow> pool \<Rightarrow> bool" where
  exec: "c_pc s = Idle \<Longrightarrow> exec_step s (at (Scan r (worker_list s)) s)"
| look: "c_pc s = Scan r (w # ws) \<Longrightarrow> w_lock s w = None \<Longrightarrow>
     exec_step s (at (Found r w ws) (lock w Client s))"
| assign: "c_pc s = Found r w ws \<Longrightarrow> w_task s w = None \<Longrightarrow> \<not> w_kys s w \<Longrightarrow>
     exec_step s (at (Assigned r w) (s\<lparr>w_task := (w_task s)(w := Some r), submitted := add_mset r (submitted s)\<rparr>))"
| pass: "c_pc s = Found r w ws \<Longrightarrow> w_task s w \<noteq> None \<or> w_kys s w \<Longrightarrow>
     exec_step s (at (Scan r ws) (unlock w s))"
| wake: "c_pc s = Assigned r w \<Longrightarrow> exec_step s (at (Signalled r w) (signal w s))"
| let_go: "c_pc s = Signalled r w \<Longrightarrow> exec_step s (at Idle (unlock w s))"
| create: "c_pc s = Scan r [] \<Longrightarrow> w \<notin> made s \<Longrightarrow>
     exec_step s (at (Created r w) (go w Locking (s\<lparr>w_task := (w_task s)(w := Some r), w_kys := (w_kys s)(w := False),
       w_lock := (w_lock s)(w := None), submitted := add_mset r (submitted s), made := insert w (made s)\<rparr>)))"
| no_thread: "c_pc s = Scan r [] \<Longrightarrow> w \<notin> made s \<Longrightarrow>
     exec_step s (at (Created r w) (s\<lparr>w_task := (w_task s)(w := Some r), w_kys := (w_kys s)(w := False),
       w_lock := (w_lock s)(w := None), submitted := add_mset r (submitted s), made := insert w (made s)\<rparr>))"
| refuse: "c_pc s = Scan r [] \<Longrightarrow> exec_step s (at Idle s)"
| enlist: "c_pc s = Created r w \<Longrightarrow> exec_step s (at Idle (s\<lparr>worker_list := w # worker_list s\<rparr>))"

text \<open>\<open>yoi_queue_pop\<close>.\<close>

inductive pop_step :: "pool \<Rightarrow> pool \<Rightarrow> bool" where
  pop_lock: "c_pc s = Idle \<Longrightarrow> q_lock s = None \<Longrightarrow> pop_step s (at Popping (s\<lparr>q_lock := Some Client\<rparr>))"
| pop_none: "c_pc s = Popping \<Longrightarrow> q_ready s = [] \<Longrightarrow> pop_step s (at Idle (s\<lparr>q_lock := None\<rparr>))"
| pop_one: "c_pc s = Popping \<Longrightarrow> q_ready s = x # xs \<Longrightarrow>
     pop_step s (at Idle (s\<lparr>q_lock := None, q_ready := xs, delivered := x # delivered s\<rparr>))"

text \<open>\<open>yo_queue_free\<close> around \<open>yoi_pool_free\<close>.\<close>

inductive free_step :: "pool \<Rightarrow> pool \<Rightarrow> bool" where
  close: "c_pc s = Idle \<Longrightarrow> q_lock s = None \<Longrightarrow> free_step s (at Closing (s\<lparr>q_lock := Some Client\<rparr>))"
| next_worker: "c_pc s = Closing \<Longrightarrow> worker_list s = w # ws \<Longrightarrow>
     free_step s (at (CloseLock w) (s\<lparr>worker_list := ws\<rparr>))"
| close_lock: "c_pc s = CloseLock w \<Longrightarrow> w_lock s w = None \<Longrightarrow>
     free_step s (at (CloseHeld w) (lock w Client s))"
| close_set: "c_pc s = CloseHeld w \<Longrightarrow> free_step s (at (CloseSet w) (s\<lparr>w_kys := (w_kys s)(w := True)\<rparr>))"
| close_signal: "c_pc s = CloseSet w \<Longrightarrow> free_step s (at (CloseSignalled w) (signal w s))"
| close_unlock: "c_pc s = CloseSignalled w \<Longrightarrow> free_step s (at (Joining w) (unlock w s))"
| join: "c_pc s = Joining w \<Longrightarrow> w_pc s w = Exited \<Longrightarrow> free_step s (at Closing s)"
| freed: "c_pc s = Closing \<Longrightarrow> worker_list s = [] \<Longrightarrow> free_step s (at Freed s)"

inductive pool_step :: "pool \<Rightarrow> pool \<Rightarrow> bool" where
  by_worker: "worker_step w s t \<Longrightarrow> pool_step s t"
| by_end: "end_step w s t \<Longrightarrow> pool_step s t"
| by_exec: "exec_step s t \<Longrightarrow> pool_step s t"
| by_pop: "pop_step s t \<Longrightarrow> pool_step s t"
| by_free: "free_step s t \<Longrightarrow> pool_step s t"

lemma signal_simps [simp]:
  "w_pc (signal w s) v = (if v = w \<and> w_pc s w = Waiting then Locking else w_pc s v)"
  "q_lock (signal w s) = q_lock s" "q_ready (signal w s) = q_ready s"
  "worker_list (signal w s) = worker_list s" "w_lock (signal w s) = w_lock s"
  "w_task (signal w s) = w_task s" "w_kys (signal w s) = w_kys s" "c_pc (signal w s) = c_pc s"
  "submitted (signal w s) = submitted s" "delivered (signal w s) = delivered s" "made (signal w s) = made s"
  by (simp_all add: signal_def)

text \<open>\<open>yoi_pool_init\<close> on a new queue.\<close>

definition yoi_pool_init :: pool where
  "yoi_pool_init = \<lparr>q_lock = None, q_ready = [], worker_list = [], w_lock = (\<lambda>_. None), w_task = (\<lambda>_. None),
     w_kys = (\<lambda>_. False), w_pc = (\<lambda>_. Absent), c_pc = Idle, submitted = {#}, delivered = [], made = {}\<rparr>"

inductive reaches :: "pool \<Rightarrow> pool \<Rightarrow> bool" where
  here: "reaches s s"
| there: "reaches s t \<Longrightarrow> pool_step t u \<Longrightarrow> reaches s u"

inductive_cases worker_stepE: "worker_step w s t"
inductive_cases end_stepE: "end_step w s t"
inductive_cases exec_stepE: "exec_step s t"
inductive_cases pop_stepE: "pop_step s t"
inductive_cases free_stepE: "free_step s t"
inductive_cases pool_stepE: "pool_step s t"

lemmas step_elims = pool_stepE worker_stepE end_stepE exec_stepE pop_stepE free_stepE

lemma reaches_trans:
  assumes "reaches s t" and "reaches t u"
  shows "reaches s u"
  using assms(2,1) by induction (auto intro: reaches.intros)

lemma reaches_step: "pool_step s t \<Longrightarrow> reaches t u \<Longrightarrow> reaches s u"
  using reaches_trans [OF there [OF here]] .

lemma kept_reaches:
  assumes "reaches s t" and "I s" and "\<And>u v. I u \<Longrightarrow> pool_step u v \<Longrightarrow> I v"
  shows "I t"
  using assms(1,2) by induction (auto intro: assms(3))

section \<open>Who holds which lock\<close>

fun holds_own :: "wpc \<Rightarrow> bool" where
  "holds_own p \<longleftrightarrow> p = Checking \<or> p = Clearing"

fun holds_queue :: "wpc \<Rightarrow> bool" where
  "holds_queue (Linking r c) = True"
| "holds_queue Linked = True"
| "holds_queue _ = False"

fun client_holds :: "cpc \<Rightarrow> nat option" where
  "client_holds (Found r w ws) = Some w"
| "client_holds (Assigned r w) = Some w"
| "client_holds (Signalled r w) = Some w"
| "client_holds (CloseHeld w) = Some w"
| "client_holds (CloseSet w) = Some w"
| "client_holds (CloseSignalled w) = Some w"
| "client_holds _ = None"

fun freeing :: "cpc \<Rightarrow> nat option" where
  "freeing (CloseLock w) = Some w"
| "freeing (CloseHeld w) = Some w"
| "freeing (CloseSet w) = Some w"
| "freeing (CloseSignalled w) = Some w"
| "freeing (Joining w) = Some w"
| "freeing _ = None"

fun client_queue :: "cpc \<Rightarrow> bool" where
  "client_queue Popping = True"
| "client_queue Closing = True"
| "client_queue Freed = True"
| "client_queue p = (freeing p \<noteq> None)"

text \<open>The client is in \<open>yo_queue_free\<close>, or has left it.\<close>

definition in_free :: "cpc \<Rightarrow> bool" where
  "in_free p \<longleftrightarrow> p = Closing \<or> p = Freed \<or> freeing p \<noteq> None"

definition own_ok :: "pool \<Rightarrow> nat \<Rightarrow> bool" where
  "own_ok s w \<longleftrightarrow>
    (w_lock s w = Some (Worker w) \<longleftrightarrow> holds_own (w_pc s w)) \<and>
    (w_lock s w = Some Client \<longleftrightarrow> client_holds (c_pc s) = Some w) \<and>
    (\<forall>v. w_lock s w = Some (Worker v) \<longrightarrow> v = w)"

definition queue_ok :: "pool \<Rightarrow> nat \<Rightarrow> bool" where
  "queue_ok s w \<longleftrightarrow>
    (q_lock s = Some (Worker w) \<longleftrightarrow> holds_queue (w_pc s w)) \<and>
    (q_lock s = Some Client \<longleftrightarrow> client_queue (c_pc s))"

definition locks_ok :: "pool \<Rightarrow> bool" where
  "locks_ok s \<longleftrightarrow> (\<forall>w. own_ok s w \<and> queue_ok s w \<and> (w \<notin> made s \<longrightarrow> w_pc s w = Absent))"

lemma locks_okI:
  assumes "\<And>w. own_ok s w" and "\<And>w. queue_ok s w" and "\<And>w. w \<notin> made s \<Longrightarrow> w_pc s w = Absent"
  shows "locks_ok s"
  using assms by (simp add: locks_ok_def)

lemma locks_okD:
  assumes "locks_ok s"
  shows "own_ok s w" and "queue_ok s w" and "w \<notin> made s \<Longrightarrow> w_pc s w = Absent"
  using assms by (simp_all add: locks_ok_def)

lemmas locks_simps = own_ok_def queue_ok_def

lemma locks_ok_worker:
  assumes ok: "locks_ok s" and step: "worker_step w s t"
  shows "locks_ok t"
proof (rule locks_okI)
  fix v
  show "own_ok t v"
    using step locks_okD(1) [OF ok, of w] locks_okD(1) [OF ok, of v]
    by cases (auto simp: locks_simps)
  show "queue_ok t v"
    using step locks_okD(2) [OF ok, of w] locks_okD(2) [OF ok, of v]
    by cases (auto simp: locks_simps)
  show "v \<notin> made t \<Longrightarrow> w_pc t v = Absent"
    using step locks_okD(3) [OF ok, of w] locks_okD(3) [OF ok, of v]
    by cases (auto simp: locks_simps)
qed

lemma locks_ok_end:
  assumes ok: "locks_ok s" and step: "end_step w s t"
  shows "locks_ok t"
proof (rule locks_okI)
  fix v
  show "own_ok t v"
    using step locks_okD(1) [OF ok, of w] locks_okD(1) [OF ok, of v]
    by cases (auto simp: locks_simps)
  show "queue_ok t v"
    using step locks_okD(2) [OF ok, of w] locks_okD(2) [OF ok, of v]
    by cases (auto simp: locks_simps)
  show "v \<notin> made t \<Longrightarrow> w_pc t v = Absent"
    using step locks_okD(3) [OF ok, of w] locks_okD(3) [OF ok, of v]
    by cases (auto simp: locks_simps)
qed

lemma locks_ok_exec:
  assumes ok: "locks_ok s" and step: "exec_step s t"
  shows "locks_ok t"
proof (rule locks_okI)
  fix v
  show "own_ok t v"
    using step locks_okD(1,3) [OF ok, of v]
    by cases (auto simp: locks_simps split: if_splits)
  show "queue_ok t v"
    using step locks_okD(2,3) [OF ok, of v]
    by cases (auto simp: locks_simps split: if_splits)
  show "v \<notin> made t \<Longrightarrow> w_pc t v = Absent"
    using step locks_okD(3) [OF ok, of v]
    by cases (auto simp: locks_simps split: if_splits)
qed

lemma locks_ok_pop:
  assumes ok: "locks_ok s" and step: "pop_step s t"
  shows "locks_ok t"
proof (rule locks_okI)
  fix v
  show "own_ok t v"
    using step locks_okD(1) [OF ok, of v]
    by cases (auto simp: locks_simps split: if_splits)
  show "queue_ok t v"
    using step locks_okD(2) [OF ok, of v]
    by cases (auto simp: locks_simps split: if_splits)
  show "v \<notin> made t \<Longrightarrow> w_pc t v = Absent"
    using step locks_okD(3) [OF ok, of v]
    by cases (auto simp: locks_simps split: if_splits)
qed

lemma locks_ok_free:
  assumes ok: "locks_ok s" and step: "free_step s t"
  shows "locks_ok t"
proof (rule locks_okI)
  fix v
  show "own_ok t v"
    using step locks_okD(1) [OF ok, of v]
    by cases (auto simp: locks_simps split: if_splits)
  show "queue_ok t v"
    using step locks_okD(2) [OF ok, of v]
    by cases (auto simp: locks_simps split: if_splits)
  show "v \<notin> made t \<Longrightarrow> w_pc t v = Absent"
    using step locks_okD(3) [OF ok, of v]
    by cases (auto simp: locks_simps split: if_splits)
qed

lemma locks_ok_step: "locks_ok s \<Longrightarrow> pool_step s t \<Longrightarrow> locks_ok t"
  by (elim pool_stepE; erule (1) locks_ok_worker locks_ok_end locks_ok_exec locks_ok_pop locks_ok_free)

lemma locks_ok_init: "locks_ok yoi_pool_init"
  by (simp add: locks_ok_def own_ok_def queue_ok_def yoi_pool_init_def)

lemma locks_ok_reaches: "reaches yoi_pool_init s \<Longrightarrow> locks_ok s"
  by (rule kept_reaches [of _ _ locks_ok]) (auto intro: locks_ok_init locks_ok_step)

section \<open>What the client knows and what the workers hold\<close>

fun client_knows :: "cpc \<Rightarrow> nat set" where
  "client_knows (Scan r ws) = set ws"
| "client_knows (Found r w ws) = insert w (set ws)"
| "client_knows (Assigned r w) = {w}"
| "client_knows (Signalled r w) = {w}"
| "client_knows (Created r w) = {w}"
| "client_knows p = (case freeing p of None \<Rightarrow> {} | Some w \<Rightarrow> {w})"

text \<open>What the point of a worker says of its fields.\<close>

fun holds_task :: "wpc \<Rightarrow> addr option \<Rightarrow> bool" where
  "holds_task (Running r) t = (t = Some r)"
| "holds_task (Ending r c) t = (t = Some r)"
| "holds_task (Linking r c) t = (t = Some r)"
| "holds_task Linked t = (t \<noteq> None)"
| "holds_task Relocking t = (t \<noteq> None)"
| "holds_task Clearing t = (t \<noteq> None)"
| "holds_task _ t = True"

lemma idle_holds: "holds_task p None \<Longrightarrow> holds_task p (Some r)"
  by (cases p) auto

definition fields_ok :: "pool \<Rightarrow> nat \<Rightarrow> bool" where
  "fields_ok s w \<longleftrightarrow> holds_task (w_pc s w) (w_task s w) \<and> (w \<notin> made s \<longrightarrow> w_pc s w = Absent) \<and>
     (w \<in> set (worker_list s) \<union> client_knows (c_pc s) \<longrightarrow> w \<in> made s)"

definition known_ok :: "pool \<Rightarrow> bool" where
  "known_ok s \<longleftrightarrow> finite (made s) \<and> (\<forall>w. fields_ok s w)"

lemma known_okI: "finite (made s) \<Longrightarrow> (\<And>w. fields_ok s w) \<Longrightarrow> known_ok s"
  by (simp add: known_ok_def)

lemma known_okD:
  assumes "known_ok s"
  shows "finite (made s)" and "fields_ok s w"
  using assms by (simp_all add: known_ok_def)

lemma known_ok_worker:
  assumes ok: "known_ok s" and step: "worker_step w s t"
  shows "known_ok t"
proof (rule known_okI)
  show "finite (made t)"
    using step known_okD(1) [OF ok] by cases auto
  show "fields_ok t v" for v
    using step known_okD(2) [OF ok, of w] known_okD(2) [OF ok, of v]
    by cases (auto simp: fields_ok_def)
qed

lemma known_ok_end:
  assumes ok: "known_ok s" and step: "end_step w s t"
  shows "known_ok t"
proof (rule known_okI)
  show "finite (made t)"
    using step known_okD(1) [OF ok] by cases auto
  show "fields_ok t v" for v
    using step known_okD(2) [OF ok, of w] known_okD(2) [OF ok, of v]
    by cases (auto simp: fields_ok_def)
qed

lemma known_ok_exec:
  assumes ok: "known_ok s" and step: "exec_step s t"
  shows "known_ok t"
proof (rule known_okI)
  show "finite (made t)"
    using step known_okD(1) [OF ok] by cases (auto simp:)
  show "fields_ok t v" for v
    using step known_okD(2) [OF ok, of v]
    by cases (auto simp: fields_ok_def idle_holds split: if_splits)
qed

lemma known_ok_pop:
  assumes ok: "known_ok s" and step: "pop_step s t"
  shows "known_ok t"
proof (rule known_okI)
  show "finite (made t)"
    using step known_okD(1) [OF ok] by cases (auto simp:)
  show "fields_ok t v" for v
    using step known_okD(2) [OF ok, of v]
    by cases (auto simp: fields_ok_def idle_holds split: if_splits)
qed

lemma known_ok_free:
  assumes ok: "known_ok s" and step: "free_step s t"
  shows "known_ok t"
proof (rule known_okI)
  show "finite (made t)"
    using step known_okD(1) [OF ok] by cases (auto simp:)
  show "fields_ok t v" for v
    using step known_okD(2) [OF ok, of v]
    by cases (auto simp: fields_ok_def idle_holds split: if_splits)
qed

lemma known_ok_step: "known_ok s \<Longrightarrow> pool_step s t \<Longrightarrow> known_ok t"
  by (elim pool_stepE; erule (1) known_ok_worker known_ok_end known_ok_exec known_ok_pop known_ok_free)

lemma known_ok_init: "known_ok yoi_pool_init"
  by (simp add: known_ok_def fields_ok_def yoi_pool_init_def)

section \<open>Where every request is\<close>

text \<open>The request that a worker still has to complete.\<close>

definition in_hand :: "pool \<Rightarrow> nat \<Rightarrow> addr multiset" where
  "in_hand s w = (if w_pc s w \<in> {Linked, Relocking, Clearing} then {#}
     else case w_task s w of None \<Rightarrow> {#} | Some r \<Rightarrow> {#r#})"

definition in_flight :: "pool \<Rightarrow> addr multiset" where
  "in_flight s = (\<Sum>w\<in>made s. in_hand s w)"

definition completed :: "pool \<Rightarrow> addr multiset" where
  "completed s = image_mset fst (mset (q_ready s)) + image_mset fst (mset (delivered s))"

definition accounted :: "pool \<Rightarrow> bool" where
  "accounted s \<longleftrightarrow> submitted s = in_flight s + completed s"

lemma in_flight_change:
  assumes "finite (made s)" and "w \<in> made s" and "made t = made s"
    and "\<And>v. v \<noteq> w \<Longrightarrow> in_hand t v = in_hand s v"
  shows "in_flight t + in_hand s w = in_flight s + in_hand t w"
proof -
  have "in_flight u = in_hand u w + (\<Sum>v\<in>made s - {w}. in_hand u v)" if "made u = made s" for u
    using sum.remove [OF assms(1,2)] that by (simp add: in_flight_def)
  moreover have "(\<Sum>v\<in>made s - {w}. in_hand t v) = (\<Sum>v\<in>made s - {w}. in_hand s v)"
    by (rule sum.cong) (auto simp: assms(4))
  ultimately show ?thesis
    using assms(3) by (simp add: add_ac)
qed

lemma accounted_change:
  assumes "accounted s" and "known_ok s" and "w \<in> made s" and "made t = made s"
    and "\<And>v. v \<noteq> w \<Longrightarrow> in_hand t v = in_hand s v"
    and "submitted t + (in_hand s w + completed s) = submitted s + (in_hand t w + completed t)"
  shows "accounted t"
proof -
  have "submitted t + (in_hand s w + completed s) = (in_flight s + in_hand t w) + (completed s + completed t)"
    using assms(1,6) by (simp add: accounted_def add_ac)
  also have "\<dots> = (in_flight t + in_hand s w) + (completed s + completed t)"
    by (simp add: in_flight_change [OF known_okD(1) [OF assms(2)] assms(3-5)])
  also have "\<dots> = (in_flight t + completed t) + (in_hand s w + completed s)"
    by (simp add: add_ac)
  finally show ?thesis by (simp add: accounted_def)
qed

lemma accounted_same:
  assumes "accounted s" and "made t = made s" and "\<And>v. in_hand t v = in_hand s v"
    and "submitted t = submitted s" and "completed t = completed s"
  shows "accounted t"
  using assms by (simp add: accounted_def in_flight_def)

lemma accounted_worker:
  assumes a: "accounted s" and k: "known_ok s" and step: "worker_step w s t"
  shows "accounted t"
proof -
  have f: "fields_ok s w" by (rule known_okD(2) [OF k])
  have made: "w \<in> made s" using step f by cases (auto simp: fields_ok_def)
  have "in_hand t w + completed t = in_hand s w + completed s"
    and "made t = made s" and "submitted t = submitted s" 
    and "\<And>v. v \<noteq> w \<Longrightarrow> in_hand t v = in_hand s v"
    using step f by (cases; auto simp: fields_ok_def in_hand_def completed_def split: option.splits)+
  then show ?thesis
    by (intro accounted_change [OF a k made]) auto
qed

lemma accounted_end:
  assumes a: "accounted s" and k: "known_ok s" and step: "end_step w s t"
  shows "accounted t"
proof -
  have f: "fields_ok s w" by (rule known_okD(2) [OF k])
  have made: "w \<in> made s" using step f by cases (auto simp: fields_ok_def)
  have "in_hand t w + completed t = in_hand s w + completed s"
    and "made t = made s" and "submitted t = submitted s" 
    and "\<And>v. v \<noteq> w \<Longrightarrow> in_hand t v = in_hand s v"
    using step f by (cases; auto simp: fields_ok_def in_hand_def completed_def split: option.splits)+
  then show ?thesis
    by (intro accounted_change [OF a k made]) auto
qed

lemma in_hand_signal: "in_hand (at p (signal w s)) v = in_hand s v"
  by (auto simp: in_hand_def)

lemma accounted_new:
  assumes a: "accounted s" and k: "known_ok s" and w: "w \<notin> made s"
    and t: "made t = insert w (made s)" "submitted t = add_mset r (submitted s)" "completed t = completed s"
      "in_hand t w = {#r#}" "\<And>v. v \<noteq> w \<Longrightarrow> in_hand t v = in_hand s v"
  shows "accounted t"
proof -
  have "(\<Sum>v\<in>made s. in_hand t v) = (\<Sum>v\<in>made s. in_hand s v)"
    by (rule sum.cong) (use w in \<open>auto intro!: t(5)\<close>)
  then show ?thesis
    using a w known_okD(1) [OF k] by (simp add: accounted_def in_flight_def t)
qed

lemma accounted_exec:
  assumes a: "accounted s" and k: "known_ok s" and step: "exec_step s t"
  shows "accounted t"
  using step
proof cases
  case (assign r w ws)
  have f: "fields_ok s w" by (rule known_okD(2) [OF k])
  show ?thesis
    by (rule accounted_change [OF a k, of w])
      (use f assign in \<open>auto simp: fields_ok_def in_hand_def completed_def\<close>)
next
  case (create r w)
  show ?thesis
    by (rule accounted_new [OF a k, of w _ r])
      (use create in \<open>auto simp: in_hand_def completed_def\<close>)
next
  case (no_thread r w)
  have f: "fields_ok s w" by (rule known_okD(2) [OF k])
  show ?thesis
    by (rule accounted_new [OF a k, of w _ r])
      (use f no_thread in \<open>auto simp: fields_ok_def in_hand_def completed_def\<close>)
qed (rule accounted_same [OF a]; auto simp: in_hand_def completed_def split: if_splits)+

lemma accounted_pop:
  assumes a: "accounted s" and step: "pop_step s t"
  shows "accounted t"
  using step by cases (rule accounted_same [OF a]; auto simp: in_hand_def completed_def)+

lemma accounted_free:
  assumes a: "accounted s" and step: "free_step s t"
  shows "accounted t"
  using step by cases (rule accounted_same [OF a]; auto simp: in_hand_def completed_def split: if_splits)+

lemma accounted_step:
  assumes "known_ok s \<and> accounted s" and "pool_step s t"
  shows "known_ok t \<and> accounted t"
proof
  show "known_ok t" using assms known_ok_step by blast
  show "accounted t" using assms(2)
    by (elim pool_stepE) (use assms(1) in \<open>blast intro: accounted_worker accounted_end accounted_exec
      accounted_pop accounted_free\<close>)+
qed

lemma accounted_init: "known_ok yoi_pool_init \<and> accounted yoi_pool_init"
  using known_ok_init by (simp add: accounted_def in_flight_def completed_def yoi_pool_init_def)

text \<open>
  Not every request in hand is going to be completed. A worker abandons its request when its thread was never made, or when \<open>kys\<close>
  is set before it took the request: the inner loop tests \<open>kys\<close>, and the worker leaves.
\<close>

definition abandons :: "pool \<Rightarrow> nat \<Rightarrow> bool" where
  "abandons s w \<longleftrightarrow> w_pc s w \<in> {Absent, Exited} \<or> (w_kys s w \<and> w_pc s w \<in> {Locking, Checking, Waiting})"

definition working :: "pool \<Rightarrow> nat \<Rightarrow> addr multiset" where
  "working s w = (if abandons s w then {#} else in_hand s w)"

definition stranded :: "pool \<Rightarrow> nat \<Rightarrow> addr multiset" where
  "stranded s w = (if abandons s w then in_hand s w else {#})"

lemma in_hand_parts: "in_hand s w = working s w + stranded s w"
  by (simp add: working_def stranded_def)

text \<open>\<open>kys\<close> is set by \<open>yo_queue_free\<close> only, and no thread ends without it.\<close>

definition kys_ok :: "pool \<Rightarrow> bool" where
  "kys_ok s \<longleftrightarrow> (\<forall>w. (w_kys s w \<longrightarrow> in_free (c_pc s)) \<and> (w_pc s w = Exited \<longrightarrow> w_kys s w) \<and> (w \<notin> made s \<longrightarrow> w_pc s w = Absent))"

lemma kys_okI:
  assumes "\<And>w. w_kys s w \<Longrightarrow> in_free (c_pc s)" and "\<And>w. w_pc s w = Exited \<Longrightarrow> w_kys s w" and "\<And>w. w \<notin> made s \<Longrightarrow> w_pc s w = Absent"
  shows "kys_ok s"
  using assms by (simp add: kys_ok_def)

lemma kys_okD:
  assumes "kys_ok s"
  shows "w_kys s w \<Longrightarrow> in_free (c_pc s)" and "w_pc s w = Exited \<Longrightarrow> w_kys s w" and "w \<notin> made s \<Longrightarrow> w_pc s w = Absent"
  using assms by (simp_all add: kys_ok_def)

lemma kys_ok_worker:
  assumes ok: "kys_ok s" and step: "worker_step w s t"
  shows "kys_ok t"
proof (rule kys_okI)
  fix v
  show "w_kys t v \<Longrightarrow> in_free (c_pc t)" using step kys_okD(1) [OF ok, of v] by cases auto
  show "w_pc t v = Exited \<Longrightarrow> w_kys t v" using step kys_okD(2) [OF ok, of v] by cases (auto split: if_splits)
  show "v \<notin> made t \<Longrightarrow> w_pc t v = Absent" using step kys_okD(3) [OF ok, of v] kys_okD(3) [OF ok, of w] by cases auto
qed

lemma kys_ok_end:
  assumes ok: "kys_ok s" and step: "end_step w s t"
  shows "kys_ok t"
proof (rule kys_okI)
  fix v
  show "w_kys t v \<Longrightarrow> in_free (c_pc t)" using step kys_okD(1) [OF ok, of v] by cases auto
  show "w_pc t v = Exited \<Longrightarrow> w_kys t v" using step kys_okD(2) [OF ok, of v] by cases (auto split: if_splits)
  show "v \<notin> made t \<Longrightarrow> w_pc t v = Absent" using step kys_okD(3) [OF ok, of v] kys_okD(3) [OF ok, of w] by cases auto
qed

lemma kys_ok_client:
  assumes ok: "kys_ok s" and step: "exec_step s t \<or> pop_step s t \<or> free_step s t"
  shows "kys_ok t"
proof (rule kys_okI)
  fix v
  show "w_kys t v \<Longrightarrow> in_free (c_pc t)"
    using step kys_okD(1) [OF ok, of v] by (auto elim!: exec_stepE pop_stepE free_stepE simp: in_free_def split: if_splits)
  show "w_pc t v = Exited \<Longrightarrow> w_kys t v"
    using step kys_okD(2,3) [OF ok, of v] by (auto elim!: exec_stepE pop_stepE free_stepE split: if_splits)
  show "v \<notin> made t \<Longrightarrow> w_pc t v = Absent"
    using step kys_okD(3) [OF ok, of v] by (auto elim!: exec_stepE pop_stepE free_stepE split: if_splits)
qed

lemma kys_ok_step: "kys_ok s \<Longrightarrow> pool_step s t \<Longrightarrow> kys_ok t"
  by (elim pool_stepE) (blast intro: kys_ok_worker kys_ok_end kys_ok_client)+

lemma kys_ok_init: "kys_ok yoi_pool_init"
  by (simp add: kys_ok_def yoi_pool_init_def)

lemma kys_ok_reaches: "reaches yoi_pool_init s \<Longrightarrow> kys_ok s"
  by (rule kept_reaches [of _ _ kys_ok, OF _ kys_ok_init kys_ok_step])

text \<open>A request that is stranded stays where it is.\<close>

definition strands :: "addr \<Rightarrow> nat \<Rightarrow> pool \<Rightarrow> bool" where
  "strands r w s \<longleftrightarrow> abandons s w \<and> w_task s w = Some r \<and> w \<in> made s"

lemma strands_worker:
  assumes "strands r w s" and "worker_step v s t"
  shows "strands r w t"
  using assms(2,1) by (cases; cases "v = w") (auto simp: strands_def abandons_def)

lemma strands_end:
  assumes "strands r w s" and "end_step v s t"
  shows "strands r w t"
  using assms(2,1) by (cases; cases "v = w") (auto simp: strands_def abandons_def)

lemma strands_exec:
  assumes "kys_ok s" and "strands r w s" and "exec_step s t"
  shows "strands r w t"
  using assms(3,2) by cases (auto simp: strands_def abandons_def)

lemma strands_cong:
  assumes "strands r w s" and "made t = made s" "w_task t = w_task s" and "w_kys s w \<Longrightarrow> w_kys t w"
    and "w_pc t w = w_pc s w \<or> w_pc s w = Waiting \<and> w_pc t w = Locking"
  shows "strands r w t"
  using assms by (auto simp: strands_def abandons_def)

lemma strands_rest:
  assumes "strands r w s" and "pop_step s t \<or> free_step s t"
  shows "strands r w t"
  by (rule strands_cong [OF assms(1)]) (use assms(2) in \<open>auto elim!: pop_stepE free_stepE split: if_splits\<close>)

lemma strands_step:
  assumes "kys_ok s \<and> strands r w s" and "pool_step s t"
  shows "kys_ok t \<and> strands r w t"
  using assms(2) assms(1) kys_ok_step [OF _ assms(2)]
  by cases (blast intro: strands_worker strands_end strands_exec strands_rest)+

lemma stranded_stays:
  assumes "kys_ok s" and "w \<in> made s" and "reaches s t"
  shows "stranded s w \<subseteq># stranded t w"
proof (cases "w_task s w")
  case (Some r)
  show ?thesis
  proof (cases "abandons s w")
    case True
    then have "strands r w s" using Some assms(2) by (simp add: strands_def)
    with assms(1) have "kys_ok t \<and> strands r w t"
      by (intro kept_reaches [OF assms(3), of "\<lambda>s. kys_ok s \<and> strands r w s", OF _ strands_step]) simp
    then have "stranded t w = {#r#}" by (auto simp: stranded_def strands_def in_hand_def abandons_def)
    with True Some show ?thesis by (simp add: stranded_def in_hand_def)
  qed (simp add: stranded_def)
qed (simp add: stranded_def in_hand_def)

text \<open>
  C8: Every request that \<open>yo_req_exec\<close> accepted is, at every moment of every run of the client and the workers,
  in exactly one place: with one worker whose thread has still to complete it, in the list of ready requests, delivered to the
  client, or stranded. So none is completed twice or delivered twice. A request is stranded only with a worker whose thread was
  never made (a failure of \<open>pthread_create\<close> goes unnoticed), or, once the client is in \<open>yo_queue_free\<close>, with a worker that was
  told to end before it took the request; such a request is lost: it stays with that worker in every later state.
\<close>

theorem pool_exactly_once:
  assumes "reaches yoi_pool_init s"
  shows "submitted s = (\<Sum>w\<in>made s. working s w) + (\<Sum>w\<in>made s. stranded s w)
      + image_mset fst (mset (q_ready s)) + image_mset fst (mset (delivered s))
    \<and> (\<forall>w. stranded s w \<noteq> {#} \<longrightarrow> w_pc s w = Absent \<or> (w_kys s w \<and> in_free (c_pc s)))
    \<and> (\<forall>w\<in>made s. \<forall>t. reaches s t \<longrightarrow> stranded s w \<subseteq># stranded t w)"
proof -
  have a: "known_ok s \<and> accounted s"
    by (rule kept_reaches [OF assms, of "\<lambda>s. known_ok s \<and> accounted s", OF accounted_init accounted_step])
  note k = kys_ok_reaches [OF assms]
  have "submitted s = (\<Sum>w\<in>made s. working s w) + (\<Sum>w\<in>made s. stranded s w)
      + image_mset fst (mset (q_ready s)) + image_mset fst (mset (delivered s))"
    using a by (simp add: accounted_def in_flight_def completed_def in_hand_parts sum.distrib add.assoc)
  moreover have "w_pc s w = Absent \<or> (w_kys s w \<and> in_free (c_pc s))" if "stranded s w \<noteq> {#}" for w
    using that kys_okD(1,2) [OF k, of w] by (auto simp: stranded_def abandons_def split: if_splits)
  ultimately show ?thesis using stranded_stays [OF k] a by blast
qed

section \<open>Locks and conditions\<close>

text \<open>
  C12: The locks do their work: while a worker reads or resets its three fields the client is not between the
  lock and the unlock of that worker, while a worker links its request the client is not
  in \<open>yoi_queue_pop\<close> or \<open>yo_queue_free\<close>, and no two workers link at the same time.
\<close>

theorem pool_mutual_exclusion:
  assumes "reaches yoi_pool_init s"
  shows "(w_pc s w \<in> {Checking, Clearing} \<longrightarrow> client_holds (c_pc s) \<noteq> Some w)
    \<and> (holds_queue (w_pc s w) \<longrightarrow> \<not> client_queue (c_pc s) \<and> (\<forall>v. holds_queue (w_pc s v) \<longrightarrow> v = w))"
proof -
  note ok = locks_ok_reaches [OF assms]
  have q: "q_lock s = Some (Worker v) \<longleftrightarrow> holds_queue (w_pc s v)" for v
    using locks_okD(2) [OF ok, of v] by (simp add: queue_ok_def)
  show ?thesis
    using locks_okD(1) [OF ok, of w] locks_okD(2) [OF ok, of w]
    by (auto simp: own_ok_def queue_ok_def simp flip: q)
qed

text \<open>A worker that waits has nothing to do, or the broadcast is the next step of the client.\<close>

definition wake_ok :: "pool \<Rightarrow> nat \<Rightarrow> bool" where
  "wake_ok s w \<longleftrightarrow> (w_pc s w = Waiting \<longrightarrow>
     (w_task s w \<noteq> None \<longrightarrow> (\<exists>r. c_pc s = Assigned r w)) \<and> (w_kys s w \<longrightarrow> c_pc s = CloseSet w))"

definition wakes_ok :: "pool \<Rightarrow> bool" where
  "wakes_ok s \<longleftrightarrow> (\<forall>w. wake_ok s w \<and> (w \<notin> made s \<longrightarrow> w_pc s w = Absent))"

lemma wakes_ok_step:
  assumes "wakes_ok s" and "pool_step s t"
  shows "wakes_ok t"
proof -
  have ok: "wake_ok s v" "v \<notin> made s \<longrightarrow> w_pc s v = Absent" for v using assms(1) by (simp_all add: wakes_ok_def)
  have "wake_ok t v \<and> (v \<notin> made t \<longrightarrow> w_pc t v = Absent)" for v
    using assms(2)
  proof cases
    case (by_worker w)
    then show ?thesis using ok [of v] ok [of w] by cases (auto simp: wake_ok_def)
  next
    case (by_end w)
    then show ?thesis using ok [of v] ok [of w] by cases (auto simp: wake_ok_def)
  next
    case by_exec
    then show ?thesis
    proof cases
      case (wake r w)
      then show ?thesis using ok [of v] by (cases "v = w") (simp_all add: wake_ok_def)
    qed (use ok [of v] in \<open>auto simp: wake_ok_def\<close>)
  next
    case by_pop
    then show ?thesis using ok [of v] by cases (auto simp: wake_ok_def)
  next
    case by_free
    then show ?thesis
    proof cases
      case (close_signal w)
      then show ?thesis using ok [of v] by (cases "v = w") (simp_all add: wake_ok_def)
    qed (use ok [of v] in \<open>auto simp: wake_ok_def\<close>)
  qed
  then show ?thesis by (simp add: wakes_ok_def)
qed

lemma wakes_ok_init: "wakes_ok yoi_pool_init"
  by (simp add: wakes_ok_def wake_ok_def yoi_pool_init_def)

lemma wakes_ok_reaches: "reaches yoi_pool_init s \<Longrightarrow> wakes_ok s"
  by (rule kept_reaches [of _ _ wakes_ok, OF _ wakes_ok_init wakes_ok_step])

text \<open>
  C9: No wakeup is lost: in every reachable state a worker that waits on its condition has no request,
  unless the client has just set it and its next step is the broadcast, and likewise for \<open>kys\<close>.
\<close>

theorem pool_no_lost_wakeup:
  assumes "reaches yoi_pool_init s" and "w_pc s w = Waiting"
  shows "(w_task s w = None \<or> (\<exists>r. c_pc s = Assigned r w)) \<and> (\<not> w_kys s w \<or> c_pc s = CloseSet w)"
  using wakes_ok_reaches [OF assms(1)] assms(2) by (auto simp: wakes_ok_def wake_ok_def)

section \<open>Freeing the queue\<close>

text \<open>
  \<open>yo_queue_free\<close> takes the lock of the queue and keeps it while it joins the workers, and a worker needs that
  lock to complete its request.
\<close>

definition busy :: "pool \<Rightarrow> nat \<Rightarrow> bool" where
  "busy s w \<longleftrightarrow> (\<exists>r c. w_pc s w = Running r \<or> w_pc s w = Ending r c)"

definition stuck :: "nat \<Rightarrow> pool \<Rightarrow> bool" where
  "stuck w s \<longleftrightarrow> q_lock s = Some Client \<and> busy s w \<and>
     (freeing (c_pc s) = Some w \<or> (w \<in> set (worker_list s) \<and> (c_pc s = Closing \<or> freeing (c_pc s) \<noteq> None)))"

lemma stuck_worker: "stuck w s \<Longrightarrow> worker_step v s t \<Longrightarrow> stuck w t"
  by (erule worker_stepE; cases "v = w") (auto simp: stuck_def busy_def)

lemma stuck_end: "stuck w s \<Longrightarrow> end_step v s t \<Longrightarrow> locks_ok s \<Longrightarrow> stuck w t"
  using locks_okD(2) [of s v] by (cases "v = w"; elim end_stepE) (auto simp: stuck_def busy_def queue_ok_def)

lemma stuck_client: "stuck w s \<Longrightarrow> exec_step s t \<or> pop_step s t \<Longrightarrow> stuck w t"
  by (auto elim!: exec_stepE pop_stepE simp: stuck_def)

lemma stuck_free:
  assumes "stuck w s" and "free_step s t"
  shows "stuck w t"
  using assms(2)
proof cases
  case (close_signal v)
  then show ?thesis using assms(1) by (cases "v = w") (auto simp: stuck_def busy_def)
qed (use assms(1) in \<open>auto simp: stuck_def busy_def\<close>)

lemma stuck_step:
  assumes "locks_ok s \<and> stuck w s" and "pool_step s t"
  shows "locks_ok t \<and> stuck w t"
  using assms(2) assms(1) locks_ok_step [OF _ assms(2)]
  by cases (blast intro: stuck_worker stuck_end stuck_client stuck_free)+

text \<open>
  C10: If a worker of the pool is running a request (or has not linked it yet) at the moment when
  \<open>yo_queue_free\<close> starts to close the workers, the call never returns and the request is never completed,
  whatever is scheduled from then on.
\<close>

theorem queue_free_deadlock:
  assumes "reaches yoi_pool_init s" and "c_pc s = Closing"
    and "w \<in> set (worker_list s)" and "w_pc s w = Running r \<or> w_pc s w = Ending r c"
    and "reaches s t"
  shows "c_pc t \<noteq> Freed \<and> (\<exists>r c. w_pc t w = Running r \<or> w_pc t w = Ending r c)"
proof -
  note ok = locks_ok_reaches [OF assms(1)]
  have "stuck w s"
    using locks_okD(2) [OF ok, of w] assms(2-4) by (auto simp: stuck_def busy_def queue_ok_def)
  then have "locks_ok t \<and> stuck w t"
    using ok by (intro kept_reaches [OF assms(5), of "\<lambda>s. locks_ok s \<and> stuck w s", OF _ stuck_step]) simp
  then show ?thesis by (auto simp: stuck_def busy_def)
qed

text \<open>
  When the workers that are left have no request, the call can always still return. \<open>calm\<close> is the state of such
  a worker.
\<close>

definition calm :: "pool \<Rightarrow> nat \<Rightarrow> bool" where
  "calm s w \<longleftrightarrow> w_pc s w \<in> {Locking, Checking, Waiting, Exited} \<and> w_task s w = None"

fun told :: "cpc \<Rightarrow> nat option" where
  "told (CloseSet w) = Some w"
| "told (CloseSignalled w) = Some w"
| "told (Joining w) = Some w"
| "told _ = None"

definition closes :: "pool \<Rightarrow> bool" where
  "closes s \<longleftrightarrow> in_free (c_pc s) \<and> (\<forall>w \<in> set (worker_list s) \<union> set_option (freeing (c_pc s)). calm s w) \<and>
     (\<forall>w. told (c_pc s) = Some w \<longrightarrow> w_kys s w)"

lemma told_freeing: "told p = Some w \<Longrightarrow> freeing p = Some w"
  by (cases p) auto

lemma closes_worker:
  assumes "closes s" and "worker_step w s t"
  shows "closes t"
proof -
  have same: "worker_list t = worker_list s" "c_pc t = c_pc s" "w_kys t = w_kys s"
    using assms(2) by (cases; simp)+
  have "calm t v" if "calm s v" for v
    using assms(2) that by cases (auto simp: calm_def)
  then show ?thesis using assms(1) by (auto simp: closes_def same)
qed

lemma closes_end:
  assumes "closes s" and "end_step w s t"
  shows "closes t"
proof -
  have same: "worker_list t = worker_list s" "c_pc t = c_pc s" "w_kys t = w_kys s"
    using assms(2) by (cases; simp)+
  have "calm t v" if "calm s v" for v
    using assms(2) that by cases (auto simp: calm_def)
  then show ?thesis using assms(1) by (auto simp: closes_def same)
qed

lemma calm_cong: "w_pc t w = w_pc s w \<Longrightarrow> w_task t w = w_task s w \<Longrightarrow> calm t w = calm s w"
  by (simp add: calm_def)

lemma calm_signal: "calm s v \<Longrightarrow> calm (at p (signal w s)) v"
  by (simp add: calm_def)

lemma closes_free:
  assumes "closes s" and "free_step s t"
  shows "closes t"
  using assms(2)
proof cases
  case (close_signal w)
  then show ?thesis using assms(1) calm_signal by (auto simp: closes_def in_free_def)
qed (use assms(1) in \<open>auto simp: closes_def in_free_def calm_def split: option.splits\<close>)

lemma closes_client: "closes s \<Longrightarrow> exec_step s t \<or> pop_step s t \<Longrightarrow> closes t"
  by (auto elim!: exec_stepE pop_stepE simp: closes_def in_free_def)

definition closes_ok :: "pool \<Rightarrow> bool" where
  "closes_ok s \<longleftrightarrow> locks_ok s \<and> wakes_ok s \<and> closes s"

lemma closes_ok_step: "closes_ok s \<Longrightarrow> pool_step s t \<Longrightarrow> closes_ok t"
  using locks_ok_step wakes_ok_step unfolding closes_ok_def
  by (metis pool_stepE closes_worker closes_end closes_free closes_client)

fun steps_left :: "cpc \<Rightarrow> nat" where
  "steps_left (CloseLock w) = 6"
| "steps_left (CloseHeld w) = 5"
| "steps_left (CloseSet w) = 4"
| "steps_left (CloseSignalled w) = 3"
| "steps_left (Joining w) = 2"
| "steps_left Closing = 1"
| "steps_left _ = 0"

definition rank :: "pool \<Rightarrow> nat" where
  "rank s = 7 * length (worker_list s) + steps_left (c_pc s)"

lemma free_once: "free_step s t \<Longrightarrow> rank t < rank s \<Longrightarrow> \<exists>t. reaches s t \<and> rank t < rank s"
  by (blast intro: reaches_step here by_free)

lemma by_worker_then:
  assumes "worker_step w s u" and "worker_list u = worker_list s" and "c_pc u = c_pc s"
    and "\<exists>t. reaches u t \<and> rank t < rank u"
  shows "\<exists>t. reaches s t \<and> rank t < rank s"
  using assms by (auto simp: rank_def intro: reaches_step by_worker)

lemma join_exited:
  assumes "c_pc s = Joining w" and "w_pc s w = Exited"
  shows "\<exists>t. reaches s t \<and> rank t < rank s"
  by (rule free_once [OF join [OF assms]]) (simp add: rank_def assms)

lemma join_checking:
  assumes "c_pc s = Joining w" and "w_pc s w = Checking" and "w_kys s w"
  shows "\<exists>t. reaches s t \<and> rank t < rank s"
  by (rule by_worker_then [OF leave [OF assms(2,3)]]) (simp_all add: assms join_exited)

lemma join_locking:
  assumes "c_pc s = Joining w" and "w_pc s w = Locking" and "w_lock s w = None" and "w_kys s w"
  shows "\<exists>t. reaches s t \<and> rank t < rank s"
  by (rule by_worker_then [OF take_own [OF assms(2,3)]]) (simp_all add: assms join_checking)

lemma close_unlocked:
  assumes "c_pc s = CloseLock w" and "w_lock s w = None"
  shows "\<exists>t. reaches s t \<and> rank t < rank s"
  by (rule free_once [OF close_lock [OF assms]]) (simp add: rank_def assms)

lemma close_checking:
  assumes c: "c_pc s = CloseLock w" and p: "w_pc s w = Checking" and t: "w_task s w = None"
  shows "\<exists>t. reaches s t \<and> rank t < rank s"
proof (cases "w_kys s w")
  case True
  show ?thesis
    by (rule by_worker_then [OF leave [OF p True]]) (simp_all add: c close_unlocked)
next
  case False
  show ?thesis
    by (rule by_worker_then [OF wait [OF p t False]]) (simp_all add: c close_unlocked)
qed

lemma joining_progress:
  assumes ok: "closes_ok s" and c: "c_pc s = Joining w"
  shows "\<exists>t. reaches s t \<and> rank t < rank s"
proof -
  have kys: "w_kys s w" and calm: "w_pc s w \<in> {Locking, Checking, Waiting, Exited}"
    and own: "own_ok s w" and wake: "wake_ok s w"
    using ok c by (auto simp: closes_ok_def closes_def calm_def locks_ok_def wakes_ok_def)
  have "w_pc s w = Locking \<Longrightarrow> w_lock s w = None"
    using own c by (cases "w_lock s w"; cases "the (w_lock s w)") (auto simp: own_ok_def)
  moreover have "w_pc s w \<noteq> Waiting"
    using wake kys c by (auto simp: wake_ok_def)
  ultimately show ?thesis
    using calm kys c join_exited join_checking join_locking by auto
qed

lemma close_progress:
  assumes ok: "closes_ok s" and c: "c_pc s = CloseLock w"
  shows "\<exists>t. reaches s t \<and> rank t < rank s"
proof (cases "w_lock s w = None")
  case True
  then show ?thesis by (rule close_unlocked [OF c])
next
  case False
  have calm: "w_pc s w \<in> {Locking, Checking, Waiting, Exited}" "w_task s w = None" and own: "own_ok s w"
    using ok c by (auto simp: closes_ok_def closes_def calm_def locks_ok_def)
  have "w_pc s w = Checking"
    using False own c calm(1) by (cases "the (w_lock s w)") (auto simp: own_ok_def)
  then show ?thesis by (rule close_checking [OF c _ calm(2)])
qed

lemma free_progress:
  assumes ok: "closes_ok s" and "c_pc s \<noteq> Freed"
  shows "\<exists>t. reaches s t \<and> rank t < rank s"
proof -
  have "in_free (c_pc s)" using ok by (simp add: closes_ok_def closes_def)
  then consider "c_pc s = Closing" | w where "c_pc s = CloseLock w" | w where "c_pc s = CloseHeld w"
    | w where "c_pc s = CloseSet w" | w where "c_pc s = CloseSignalled w" | w where "c_pc s = Joining w"
    using assms(2) by (cases "c_pc s") (auto simp: in_free_def)
  then show ?thesis
  proof cases
    case 1
    show ?thesis
    proof (cases "worker_list s")
      case Nil
      show ?thesis by (rule free_once [OF freed [OF 1 Nil]]) (simp add: rank_def 1 Nil)
    next
      case (Cons w ws)
      show ?thesis by (rule free_once [OF next_worker [OF 1 Cons]]) (simp add: rank_def 1 Cons)
    qed
  next
    case 2 then show ?thesis by (rule close_progress [OF ok])
  next
    case 3 show ?thesis by (rule free_once [OF close_set [OF 3]]) (simp add: rank_def 3)
  next
    case 4 show ?thesis by (rule free_once [OF close_signal [OF 4]]) (simp add: rank_def 4)
  next
    case 5 show ?thesis by (rule free_once [OF close_unlock [OF 5]]) (simp add: rank_def 5)
  next
    case 6 then show ?thesis by (rule joining_progress [OF ok])
  qed
qed

lemma closes_ok_frees: "closes_ok s \<Longrightarrow> \<exists>u. reaches s u \<and> c_pc u = Freed"
proof (induction "rank s" arbitrary: s rule: less_induct)
  case less
  show ?case
  proof (cases "c_pc s = Freed")
    case True
    then show ?thesis using here by blast
  next
    case False
    then obtain t where t: "reaches s t" "rank t < rank s"
      using free_progress [OF less.prems] by blast
    have "closes_ok t"
      by (rule kept_reaches [of _ _ closes_ok, OF t(1) less.prems closes_ok_step])
    then show ?thesis using less.hyps [OF t(2)] t(1) reaches_trans by blast
  qed
qed

text \<open>
  C11: When every worker of the pool is between requests at the moment when \<open>yo_queue_free\<close> starts to close
  them, the call can always return: from every state that a schedule leads to, it is still possible to reach its end.
\<close>

theorem queue_free_returns:
  assumes "reaches yoi_pool_init s" and "c_pc s = Closing" and "\<forall>w \<in> set (worker_list s). calm s w"
    and "reaches s t"
  shows "\<exists>u. reaches t u \<and> c_pc u = Freed"
proof -
  have "closes_ok s"
    using locks_ok_reaches [OF assms(1)] wakes_ok_reaches [OF assms(1)] assms(2,3)
    by (simp add: closes_ok_def closes_def in_free_def)
  then have "closes_ok t"
    by (rule kept_reaches [of _ _ closes_ok, OF assms(4) _ closes_ok_step])
  then show ?thesis by (rule closes_ok_frees)
qed

section \<open>Runs\<close>

text \<open>A request, given to a new worker that takes it.\<close>

definition taken_pool :: pool where
  "taken_pool = yoi_pool_init\<lparr>worker_list := [1], w_task := [1 \<mapsto> 5], w_pc := (\<lambda>_. Absent)(1 := Running 5),
     submitted := {#5#}, made := {1}\<rparr>"

text \<open>The same worker after the request, waiting, and after the client got the completion.\<close>

definition served_pool :: pool where
  "served_pool = yoi_pool_init\<lparr>worker_list := [1], w_pc := (\<lambda>_. Absent)(1 := Waiting),
     submitted := {#5#}, delivered := [(5, YO_OK)], made := {1}\<rparr>"

lemma upd_none: "(\<lambda>_. x)(w := x) = (\<lambda>_. x)"
  by auto

lemma reaches_by: "reaches s t \<Longrightarrow> pool_step t u \<Longrightarrow> u = v \<Longrightarrow> reaches s v"
  by (auto intro: reaches.intros)

lemmas pool_run_simps = yoi_pool_init_def taken_pool_def served_pool_def upd_none fun_upd_twist

lemma taken_reachable: "reaches yoi_pool_init taken_pool"
proof -
  let ?n = "\<lambda>_. Absent" and ?i = yoi_pool_init
  have "reaches ?i (?i\<lparr>c_pc := Scan 5 []\<rparr>)"
    by (rule reaches_by [OF here by_exec [OF exec]]) (simp_all add: pool_run_simps)
  then have "reaches ?i (?i\<lparr>c_pc := Created 5 1, w_task := [1 \<mapsto> 5], w_pc := ?n(1 := Locking),
      submitted := {#5#}, made := {1}\<rparr>)"
    by (rule reaches_by [OF _ by_exec [OF create [of _ 5 1]]]) (simp_all add: pool_run_simps)
  then have "reaches ?i (?i\<lparr>worker_list := [1], w_task := [1 \<mapsto> 5], w_pc := ?n(1 := Locking),
      submitted := {#5#}, made := {1}\<rparr>)"
    by (rule reaches_by [OF _ by_exec [OF enlist]]) (simp_all add: pool_run_simps)
  then have "reaches ?i (?i\<lparr>worker_list := [1], w_task := [1 \<mapsto> 5], w_pc := ?n(1 := Checking),
      w_lock := [1 \<mapsto> Worker 1], submitted := {#5#}, made := {1}\<rparr>)"
    by (rule reaches_by [OF _ by_worker [OF take_own [of _ 1]]]) (simp_all add: pool_run_simps)
  then show ?thesis
    by (rule reaches_by [OF _ by_worker [OF take_task [of _ 1]]]) (simp_all add: pool_run_simps)
qed

lemma served_reachable: "reaches taken_pool served_pool"
proof -
  let ?n = "\<lambda>_. Absent" and ?i = taken_pool
  have "reaches ?i (?i\<lparr>w_pc := ?n(1 := Ending 5 YO_OK)\<rparr>)"
    by (rule reaches_by [OF here by_worker [OF finish [of _ 1]]]) (simp_all add: pool_run_simps)
  then have "reaches ?i (?i\<lparr>w_pc := ?n(1 := Linking 5 YO_OK), q_lock := Some (Worker 1)\<rparr>)"
    by (rule reaches_by [OF _ by_end [OF take_queue [of _ 1]]]) (simp_all add: pool_run_simps)
  then have "reaches ?i (?i\<lparr>w_pc := ?n(1 := Linked), q_lock := Some (Worker 1), q_ready := [(5, YO_OK)]\<rparr>)"
    by (rule reaches_by [OF _ by_end [OF link [of _ 1]]]) (simp_all add: pool_run_simps)
  then have "reaches ?i (?i\<lparr>w_pc := ?n(1 := Relocking), q_ready := [(5, YO_OK)]\<rparr>)"
    by (rule reaches_by [OF _ by_end [OF release [of _ 1]]]) (simp_all add: pool_run_simps)
  then have "reaches ?i (?i\<lparr>w_pc := ?n(1 := Clearing), w_lock := [1 \<mapsto> Worker 1], q_ready := [(5, YO_OK)]\<rparr>)"
    by (rule reaches_by [OF _ by_worker [OF reclaim [of _ 1]]]) (simp_all add: pool_run_simps)
  then have "reaches ?i (?i\<lparr>w_pc := ?n(1 := Checking), w_lock := [1 \<mapsto> Worker 1], w_task := (\<lambda>_. None), q_ready := [(5, YO_OK)]\<rparr>)"
    by (rule reaches_by [OF _ by_worker [OF clear [of _ 1]]]) (simp_all add: pool_run_simps)
  then have "reaches ?i (?i\<lparr>w_pc := ?n(1 := Waiting), w_task := (\<lambda>_. None), q_ready := [(5, YO_OK)]\<rparr>)"
    by (rule reaches_by [OF _ by_worker [OF wait [of _ 1]]]) (simp_all add: pool_run_simps)
  then have "reaches ?i (?i\<lparr>w_pc := ?n(1 := Waiting), w_task := (\<lambda>_. None), q_ready := [(5, YO_OK)],
      q_lock := Some Client, c_pc := Popping\<rparr>)"
    by (rule reaches_by [OF _ by_pop [OF pop_lock]]) (simp_all add: pool_run_simps)
  then show ?thesis
    by (rule reaches_by [OF _ by_pop [OF pop_one]]) (simp_all add: pool_run_simps)
qed

lemma closing_reachable:
  assumes "reaches s t" and "c_pc t = Idle" and "q_lock t = None"
  shows "reaches s (t\<lparr>q_lock := Some Client, c_pc := Closing\<rparr>)"
  by (rule there [OF assms(1) by_free [OF close [OF assms(2,3)]]])

lemmas served_from_init = reaches_trans [OF taken_reachable served_reachable]

text \<open>A request whose worker got no thread.\<close>

definition lost_pool :: pool where
  "lost_pool = yoi_pool_init\<lparr>c_pc := Created 5 1, w_task := [1 \<mapsto> 5], submitted := {#5#}, made := {1}\<rparr>"

lemma lost_reachable: "reaches yoi_pool_init lost_pool"
proof -
  have "reaches yoi_pool_init (yoi_pool_init\<lparr>c_pc := Scan 5 []\<rparr>)"
    by (rule reaches_by [OF here by_exec [OF exec]]) (simp_all add: pool_run_simps)
  then show ?thesis
    by (rule reaches_by [OF _ by_exec [OF no_thread [of _ 5 1]]]) (simp_all add: pool_run_simps lost_pool_def)
qed

theorem pool_exactly_once_witness: "delivered served_pool = [(5, YO_OK)] \<and> submitted served_pool = {#5#}
  \<and> (\<Sum>w\<in>made served_pool. working served_pool w) = {#}
  \<and> stranded lost_pool 1 = {#5#} \<and> w_pc lost_pool 1 = Absent \<and> Collect (reaches lost_pool) \<subseteq> {t. {#5#} \<subseteq># stranded t 1}"
proof -
  have lost: "stranded lost_pool 1 = {#5#}"
    by (simp add: pool_run_simps lost_pool_def stranded_def abandons_def in_hand_def)
  show ?thesis
    using pool_exactly_once [OF served_from_init] pool_exactly_once [OF lost_reachable] lost
    by (simp add: pool_run_simps lost_pool_def working_def in_hand_def in_free_def subset_iff)
qed

theorem pool_mutual_exclusion_witness:
  "let s = served_pool\<lparr>w_pc := (\<lambda>_. Absent)(1 := Checking), w_lock := [1 \<mapsto> Worker 1]\<rparr>
   in w_pc s 1 = Checking \<and> client_holds (c_pc s) \<noteq> Some 1"
proof -
  let ?s = "served_pool\<lparr>w_pc := (\<lambda>_. Absent)(1 := Checking), w_lock := [1 \<mapsto> Worker 1]\<rparr>"
  have "reaches yoi_pool_init (served_pool\<lparr>w_pc := (\<lambda>_. Absent)(1 := Locking)\<rparr>)"
    by (rule reaches_by [OF served_from_init by_worker [OF wake_up [of _ 1]]]) (simp_all add: pool_run_simps)
  then have "reaches yoi_pool_init ?s"
    by (rule reaches_by [OF _ by_worker [OF take_own [of _ 1]]]) (simp_all add: pool_run_simps)
  from pool_mutual_exclusion [OF this, of 1] show ?thesis by (simp add: Let_def)
qed

theorem pool_no_lost_wakeup_witness:
  "w_pc served_pool 1 = Waiting \<and> w_task served_pool 1 = None \<and> \<not> w_kys served_pool 1"
proof -
  have "w_pc served_pool 1 = Waiting" by (simp add: pool_run_simps)
  with pool_no_lost_wakeup [OF served_from_init this] show ?thesis by (simp add: pool_run_simps)
qed

theorem queue_free_deadlock_witness:
  "let s = taken_pool\<lparr>q_lock := Some Client, c_pc := Closing\<rparr>
   in c_pc s = Closing \<and> c_pc (s\<lparr>worker_list := [], c_pc := CloseLock 1\<rparr>) \<noteq> Freed"
proof -
  let ?s = "taken_pool\<lparr>q_lock := Some Client, c_pc := Closing\<rparr>"
  have r: "reaches yoi_pool_init ?s"
    by (rule closing_reachable [OF taken_reachable]) (simp_all add: pool_run_simps)
  have t: "reaches ?s (?s\<lparr>worker_list := [], c_pc := CloseLock 1\<rparr>)"
    by (rule reaches_by [OF here by_free [OF next_worker]]) (simp_all add: pool_run_simps)
  show ?thesis
    using queue_free_deadlock [OF r, of 1 5 YO_OK, OF _ _ _ t] by (simp add: pool_run_simps)
qed

theorem queue_free_returns_witness:
  "let s = served_pool\<lparr>q_lock := Some Client, c_pc := Closing\<rparr> in
   reaches yoi_pool_init s \<and> worker_list s = [1] \<and> (\<exists>u. reaches s u \<and> c_pc u = Freed)"
proof -
  let ?s = "served_pool\<lparr>q_lock := Some Client, c_pc := Closing\<rparr>"
  have r: "reaches yoi_pool_init ?s"
    by (rule closing_reachable [OF served_from_init]) (simp_all add: pool_run_simps)
  have "\<exists>u. reaches ?s u \<and> c_pc u = Freed"
    by (rule queue_free_returns [OF r _ _ here]) (simp_all add: pool_run_simps calm_def)
  with r show ?thesis by (simp add: pool_run_simps)
qed

end
