(* ===== verification/Fallback.thy ===== *)
theory Fallback
  imports Clock ReqQueue Signals Dns Spawn
begin

text \<open>
  The fallback backend: the queue of \<open>src/fallback/queue.c\<close>, which waits on a condition (or spins,
  without threads), and the operations of \<open>src/fallback/async.c\<close>, which the macro \<open>YOI_MKFALLBACK\<close>
  builds from the blocking ones. \<open>mt\<close> says whether \<open>YO_USE_MULTITHREAD\<close> is defined. The macro calls \<open>yo_req_exec\<close>, which
  \<open>src/pool.c\<close> defines for builds with threads only; the function that stands in its place otherwise has another name and other
  parameters, so that a build without threads does not link. It is modelled below, and nothing calls it.
\<close>

section \<open>The queue\<close>

definition fb_impl_notify :: "bool \<Rightarrow> 'w os \<Rightarrow> addr \<Rightarrow> ('w, 'z) sys_scheme \<Rightarrow> ('w, 'z) sys_scheme" where
  "fb_impl_notify mt os queue s = (if mt then ignore os (CBroadcast queue) s else s)"

definition fb_impl_init :: "bool \<Rightarrow> 'w os \<Rightarrow> addr \<Rightarrow> ('w, 'z) sys_scheme \<Rightarrow> yo_code \<times> ('w, 'z) sys_scheme" where
  "fb_impl_init mt os queue s = (YO_OK, if mt then ignore os (CCondNew queue) s else s)"

definition fb_impl_free :: "bool \<Rightarrow> 'w os \<Rightarrow> addr \<Rightarrow> ('w, 'z) sys_scheme \<Rightarrow> yo_code \<times> ('w, 'z) sys_scheme" where
  "fb_impl_free mt os queue s = (YO_OK, if mt then ignore os (CCondFree queue) s else s)"

text \<open>One round of \<open>yo_queue_poll\<close>: \<open>Inl\<close> is the code it returns, \<open>Inr\<close> goes round again.\<close>

definition fb_round ::
  "bool \<Rightarrow> 'w os \<Rightarrow> addr \<Rightarrow> yo_time option \<Rightarrow> addr \<Rightarrow> addr \<Rightarrow> ('w, 'z) rq_scheme
     \<Rightarrow> (yo_code \<times> ('w, 'z) rq_scheme + ('w, 'z) rq_scheme) option" where
  "fb_round mt os queue pdeadline preq pcode s =
     do {
       (req, s) \<leftarrow> yoi_queue_pop os queue pcode s;
       if req \<noteq> NULL then Some (Inl (YO_OK, set_ptr preq req s))
       else if mt then
         let s = ignore os (CLock queue) s;
             s = ignore os (CCondWait queue pdeadline) s;
             s = ignore os (CUnlock queue) s
         in Some (Inr s)
       else
         case pdeadline of
           None \<Rightarrow> Some (Inr s)
         | Some d \<Rightarrow>
             do {
               (now, s) \<leftarrow> yo_time_now os YO_CLOCK_MONO s;
               Some (if yo_timecmp now d > 0 then Inl (YO_ETIMEOUT, s) else Inr s)
             }
     }"

partial_function (option) fb_queue_poll ::
  "bool \<Rightarrow> 'w os \<Rightarrow> addr \<Rightarrow> yo_time option \<Rightarrow> addr \<Rightarrow> addr \<Rightarrow> ('w, 'z) rq_scheme
     \<Rightarrow> (yo_code \<times> ('w, 'z) rq_scheme) option" where
  "fb_queue_poll mt os queue pdeadline preq pcode s =
     (case fb_round mt os queue pdeadline preq pcode s of
        None \<Rightarrow> None
      | Some (Inl r) \<Rightarrow> Some r
      | Some (Inr s) \<Rightarrow> fb_queue_poll mt os queue pdeadline preq pcode s)"

lemma rq_upd_same: "same_queues s (s\<lparr>m_ptr := p\<rparr>)"
  by (simp add: same_queues_def)

interpretation fbq: notifier "\<lambda>os. fb_impl_notify mt os"
  by unfold_locales (simp add: fb_impl_notify_def sys_simps same_queues_after same_queues_refl)

text \<open>
  A clock that passes the time \<open>d\<close>: \<open>left\<close> bounds the number of readings that are not later, and the locks
  leave it alone.
\<close>

definition clock_passes :: "'w os \<Rightarrow> yo_time \<Rightarrow> ('w \<Rightarrow> nat) \<Rightarrow> bool" where
  "clock_passes os d left \<longleftrightarrow>
     (\<forall>w. 0 \<le> ret (fst (os w (CClock 1))) \<and>
        (yo_timecmp (timespec_time (r_pair (fst (os w (CClock 1))))) d \<le> 0 \<longrightarrow> left (snd (os w (CClock 1))) < left w)) \<and>
     (\<forall>w q. left (snd (os w (CLock q))) = left w \<and> left (snd (os w (CUnlock q))) = left w)"

lemma world_after_pop:
  assumes "ready s q []"
  shows "yoi_queue_pop os q pcode s = Some (NULL, after os (CUnlock q) (after os (CLock q) s))"
  using assms by (simp add: yoi_queue_pop_def sys_simps Let_def ready_def)

lemma spin_until_deadline:
  assumes "clock_passes os d left" and "ready s queue []"
  shows "\<exists>s'. fb_queue_poll False os queue (Some d) preq pcode s = Some (YO_ETIMEOUT, s') \<and> ready s' queue []"
  using assms(2)
proof (induction "left (world s)" arbitrary: s rule: less_induct)
  case less
  let ?s1 = "after os (CUnlock queue) (after os (CLock queue) s)" let ?s2 = "after os (CClock 1) ?s1"
  let ?now = "timespec_time (r_pair (reply_of os (CClock 1) ?s1))"
  have ok: "\<not> ret (reply_of os (CClock 1) ?s1) < 0"
    using assms(1) by (auto simp: clock_passes_def reply_of_def not_less)
  have round: "fb_round False os queue (Some d) preq pcode s
      = Some (if yo_timecmp ?now d > 0 then Inl (YO_ETIMEOUT, ?s2) else Inr ?s2)"
    using ok by (simp add: fb_round_def world_after_pop [OF less.prems] yo_time_now_def clock_id_def sys_simps)
  show ?case
  proof (cases "yo_timecmp ?now d > 0")
    case True
    then show ?thesis
      using less.prems by (subst fb_queue_poll.simps) (simp add: round)
  next
    case False
    have "left (world ?s1) = left (world s)"
      using assms(1) by (simp add: clock_passes_def)
    moreover have "left (world ?s2) < left (world ?s1)"
      using assms(1) False by (auto simp: clock_passes_def reply_of_def not_less)
    ultimately have "left (world ?s2) < left (world s)" by simp
    from less.hyps [OF this] less.prems False show ?thesis
      by (subst fb_queue_poll.simps) (simp add: round)
  qed
qed


text \<open>Without a deadline and with nothing ready nobody can end the loop.\<close>

lemma spin_forever:
  assumes "ready s queue []"
  shows "fb_queue_poll False os queue None preq pcode s = None"
proof (rule ccontr)
  have diverges: "\<not> mt \<longrightarrow> pdeadline = None \<longrightarrow> \<not> ready s queue []"
    if "fb_queue_poll mt os queue pdeadline preq pcode s = Some r" for mt pdeadline r s
  proof (rule fb_queue_poll.raw_induct [OF _ that,
        where P = "\<lambda>mt os queue pdeadline preq pcode s r. \<not> mt \<longrightarrow> pdeadline = None \<longrightarrow> \<not> ready s queue []"])
    fix f mt os queue pdeadline preq pcode s r
    assume IH: "\<And>mt os queue pdeadline preq pcode s r. f mt os queue pdeadline preq pcode s = Some r \<Longrightarrow>
        \<not> mt \<longrightarrow> pdeadline = None \<longrightarrow> \<not> ready s queue []"
      and body: "(case fb_round mt os queue pdeadline preq pcode s of None \<Rightarrow> None
        | Some (Inl r) \<Rightarrow> Some r | Some (Inr s) \<Rightarrow> f mt os queue pdeadline preq pcode s) = Some r"
    show "\<not> mt \<longrightarrow> pdeadline = None \<longrightarrow> \<not> ready s queue []"
    proof (intro impI notI)
      assume a: "\<not> mt" "pdeadline = None" "ready s queue []"
      then have "f mt os queue pdeadline preq pcode (after os (CUnlock queue) (after os (CLock queue) s)) = Some r"
        using body by (simp add: fb_round_def world_after_pop)
      from IH [OF this] a show False by simp
    qed
  qed
  assume "fb_queue_poll False os queue None preq pcode s \<noteq> None"
  then obtain r where "fb_queue_poll False os queue None preq pcode s = Some r" by auto
  from diverges [OF this] assms show False by simp
qed

text \<open>
  C31: In a build without threads \<open>yo_queue_poll\<close> of the fallback queue returns the newest finished request
  whatever the deadline is, reports \<open>YO_ETIMEOUT\<close> on an empty queue once the clock passes the
  deadline, and does not return on an empty queue without a deadline.
\<close>

theorem fallback_poll_outcome:
  assumes "clock_passes os d left"
  shows "(ready s queue ((x, c) # ys) \<longrightarrow> (\<exists>s'. fb_queue_poll False os queue pdeadline preq pcode s = Some (YO_OK, s')
            \<and> m_ptr s' preq = x \<and> m_code s' pcode = c \<and> ready s' queue ys))
    \<and> (ready s queue [] \<longrightarrow> (\<exists>s'. fb_queue_poll False os queue (Some d) preq pcode s = Some (YO_ETIMEOUT, s')
            \<and> ready s' queue []))
    \<and> (ready s queue [] \<longrightarrow> fb_queue_poll False os queue None preq pcode s = None)"
proof (intro conjI impI)
  assume r: "ready s queue ((x, c) # ys)"
  then obtain s1 where s1: "yoi_queue_pop os queue pcode s = Some (x, s1)" "ready s1 queue ys" "m_code s1 pcode = c"
    using pop_ready_list by blast
  have "x \<noteq> NULL" using r by (auto simp: ready_def)
  then have "fb_round False os queue pdeadline preq pcode s = Some (Inl (YO_OK, set_ptr preq x s1))"
    by (simp add: fb_round_def s1)
  then show "\<exists>s'. fb_queue_poll False os queue pdeadline preq pcode s = Some (YO_OK, s')
      \<and> m_ptr s' preq = x \<and> m_code s' pcode = c \<and> ready s' queue ys"
    using s1 by (subst fb_queue_poll.simps) (auto simp: set_ptr_def ready_def)
qed (auto intro: spin_until_deadline [OF assms] spin_forever)

definition counting_os :: "nat os" where
  "counting_os n q = (case q of
     CMalloc _ \<Rightarrow> (returns 4096, n)
   | CClock i \<Rightarrow> ((returns 0)\<lparr>r_pair := (100 - int n, 0)\<rparr>, n - 1)
   | _ \<Rightarrow> (returns 0, n))"

definition empty_rq :: "'w \<Rightarrow> 'w rq" where
  "empty_rq w = io.extend (idle w) \<lparr>rq_queue = (\<lambda>_. 9), rq_cell = (\<lambda>_. Uninit), rq_word = (\<lambda>_. 0), q_head = (\<lambda>_. NULL),
     q_pool = (\<lambda>_. NULL), m_code = (\<lambda>_. YO_OK)\<rparr>"

lemma fallback_poll_outcome_witness:
  "\<exists>s'. fb_queue_poll False counting_os 9 (Some \<lparr>sec = 99, nsec = 0\<rparr>) 1 2 (empty_rq 7) = Some (YO_ETIMEOUT, s')"
proof -
  have "clock_passes counting_os \<lparr>sec = 99, nsec = 0\<rparr> id"
    unfolding clock_passes_def
  proof (intro conjI allI)
    show "yo_timecmp (timespec_time (r_pair (fst (counting_os w (CClock 1))))) \<lparr>sec = 99, nsec = 0\<rparr> \<le> 0 \<longrightarrow>
        id (snd (counting_os w (CClock 1))) < id w" for w
      by (cases w) (simp_all add: counting_os_def returns_def yo_timecmp_def timespec_time_def)
  qed (simp_all add: counting_os_def)
  from fallback_poll_outcome [OF this, where s = "empty_rq 7" and queue = 9 and preq = 1 and pcode = 2]
  show ?thesis by (auto simp: ready_def empty_rq_def io.defs)
qed

section \<open>The queue with threads\<close>

lemma mt_poll_code:
  assumes "fb_queue_poll True os queue pdeadline preq pcode s = Some r"
  shows "fst r = YO_OK"
proof -
  have "mt \<longrightarrow> fst r = YO_OK"
    if "fb_queue_poll mt os queue pdeadline preq pcode s = Some r" for mt os queue pdeadline preq pcode s r
    by (rule fb_queue_poll.raw_induct [OF _ that, where P = "\<lambda>mt os queue pdeadline preq pcode s r. mt \<longrightarrow> fst r = YO_OK"])
      (auto simp: fb_round_def Let_def split: option.splits sum.splits Option.bind_splits if_splits)
  with assms show ?thesis by blast
qed

text \<open>
  With threads the requests are finished by workers while the client polls. The client is at one of these
  points of a call; \<open>Got\<close> is the end of it.
\<close>

datatype fpc = Popping | Missed | Sleeping | Woken | Got addr yo_code

record fbq =
  fb_pc :: fpc
  fb_ready :: "(addr \<times> yo_code) list"

text \<open>
  The steps of the client. A wait ends early when its deadline passes or by chance (\<open>early\<close>), and the loop goes round.
\<close>

inductive fb_client :: "bool \<Rightarrow> fbq \<Rightarrow> fbq \<Rightarrow> bool" where
  hit: "fb_pc s = Popping \<Longrightarrow> fb_ready s = (x, c) # ys \<Longrightarrow> fb_client e s (s\<lparr>fb_pc := Got x c, fb_ready := ys\<rparr>)"
| miss: "fb_pc s = Popping \<Longrightarrow> fb_ready s = [] \<Longrightarrow> fb_client e s (s\<lparr>fb_pc := Missed\<rparr>)"
| sleep: "fb_pc s = Missed \<Longrightarrow> fb_client e s (s\<lparr>fb_pc := Sleeping\<rparr>)"
| early: "fb_pc s = Sleeping \<Longrightarrow> fb_client True s (s\<lparr>fb_pc := Woken\<rparr>)"
| again: "fb_pc s = Woken \<Longrightarrow> fb_client e s (s\<lparr>fb_pc := Popping\<rparr>)"

text \<open>A worker in \<open>yoi_req_end\<close>: the link and the broadcast are under the lock of the queue.\<close>

definition fb_finish :: "addr \<Rightarrow> yo_code \<Rightarrow> fbq \<Rightarrow> fbq" where
  "fb_finish x c s = s\<lparr>fb_ready := (x, c) # fb_ready s, fb_pc := (if fb_pc s = Sleeping then Woken else fb_pc s)\<rparr>"

inductive fb_reach :: "bool \<Rightarrow> fbq \<Rightarrow> fbq \<Rightarrow> bool" where
  start: "fb_reach e s s"
| client: "fb_reach e s t \<Longrightarrow> fb_client e t u \<Longrightarrow> fb_reach e s u"
| worker: "fb_reach e s t \<Longrightarrow> fb_reach e s (fb_finish x c t)"

inductive_cases fb_clientE: "fb_client e s t"

text \<open>
  C33: The fallback queue can lose a wakeup: a request that is finished between the client's look at
  the empty list and its wait leaves the client asleep with a request that is ready, and then no
  step of the client is possible unless the wait ends early or another request is finished.
\<close>

theorem fallback_lost_wakeup:
  "\<exists>s. fb_reach False \<lparr>fb_pc = Popping, fb_ready = []\<rparr> s \<and> fb_pc s = Sleeping \<and> fb_ready s = [(x, c)]
     \<and> (\<nexists>t. fb_client False s t)"
proof (intro exI conjI)
  let ?s = "\<lparr>fb_pc = Sleeping, fb_ready = [(x, c)]\<rparr>"
  have "fb_reach False \<lparr>fb_pc = Popping, fb_ready = []\<rparr> \<lparr>fb_pc = Missed, fb_ready = []\<rparr>"
    using client [OF start miss [of "\<lparr>fb_pc = Popping, fb_ready = []\<rparr>"]] by simp
  from worker [OF this, of x c]
  have "fb_reach False \<lparr>fb_pc = Popping, fb_ready = []\<rparr> \<lparr>fb_pc = Missed, fb_ready = [(x, c)]\<rparr>"
    by (simp add: fb_finish_def)
  from client [OF this sleep] show "fb_reach False \<lparr>fb_pc = Popping, fb_ready = []\<rparr> ?s" by simp
  show "\<nexists>t. fb_client False ?s t" by (auto elim: fb_clientE)
qed simp_all

section \<open>Asynchronous operations made from blocking ones\<close>

text \<open>
  \<open>YOI_MKFALLBACK(name, args_x)\<close>: the macro makes a structure for the arguments (here the type \<open>'a\<close>, with \<open>m\<close> the
  structures in memory and \<open>len\<close> their size), the function that the pool runs and the function that starts it. \<open>exec\<close> is
  \<open>yo_req_exec\<close> for the request.
\<close>

type_synonym ('a, 's) worker = "addr \<Rightarrow> (addr \<Rightarrow> 'a) \<Rightarrow> 's \<Rightarrow> (yo_code \<times> 's) option"
type_synonym ('a, 's) exec = "('a, 's) worker \<Rightarrow> ('a, 's) worker"

definition fb_worker :: "'w os \<Rightarrow> ('a \<Rightarrow> ('w, 'z) sys_scheme \<Rightarrow> (yo_code \<times> ('w, 'z) sys_scheme) option)
    \<Rightarrow> ('a, ('w, 'z) sys_scheme) worker" where
  "fb_worker os run pargs m s =
     (let args = m pargs;
          s = free os pargs s
      in run args s)"

definition fb_start :: "'w os \<Rightarrow> u64 \<Rightarrow> ('a, ('w, 'z) sys_scheme) exec
    \<Rightarrow> ('a \<Rightarrow> ('w, 'z) sys_scheme \<Rightarrow> (yo_code \<times> ('w, 'z) sys_scheme) option)
    \<Rightarrow> 'a \<Rightarrow> (addr \<Rightarrow> 'a) \<Rightarrow> ('w, 'z) sys_scheme \<Rightarrow> (yo_code \<times> (addr \<Rightarrow> 'a) \<times> ('w, 'z) sys_scheme) option" where
  "fb_start os len exec run args m s =
     (let (pargs, s) = malloc os len s
      in if pargs = NULL then Some (YO_ENOMEM, m, s)
         else
           let m = m(pargs := args)
           in do {
             (e, s) \<leftarrow> exec (fb_worker os run) pargs m s;
             Some (e, m, s)
           })"

text \<open>What a worker of the pool does with a task (\<open>yoi_pool_worker_entry\<close>): it runs the function and finishes the request.\<close>

definition pool_job :: "'w os \<Rightarrow> (addr \<Rightarrow> ('w, 'z) rq_scheme \<Rightarrow> ('w, 'z) rq_scheme) \<Rightarrow> addr
    \<Rightarrow> ('a, ('w, 'z) rq_scheme) worker \<Rightarrow> addr \<Rightarrow> (addr \<Rightarrow> 'a) \<Rightarrow> ('w, 'z) rq_scheme \<Rightarrow> ('w, 'z) rq_scheme option" where
  "pool_job os notify req cb args m s =
     do {
       (c, s) \<leftarrow> cb args m s;
       Some (yoi_req_end os notify req c s)
     }"

text \<open>The pool of a build without threads (\<open>yoi_pool_exec\<close>) runs the worker at once.\<close>

definition yoi_pool_exec :: "'w os \<Rightarrow> (addr \<Rightarrow> ('w, 'z) rq_scheme \<Rightarrow> ('w, 'z) rq_scheme) \<Rightarrow> addr
    \<Rightarrow> ('a, ('w, 'z) rq_scheme) exec" where
  "yoi_pool_exec os notify req worker args m s =
     (let s = yoi_req_begin req NoopCb s
      in do {
        (c, s) \<leftarrow> worker args m s;
        Some (YO_OK, yoi_req_end os notify req c s)
      })"

section \<open>The operations\<close>

definition run_read :: "'w os \<Rightarrow> addr \<times> addr \<times> addr \<Rightarrow> ('w, 'z) io_scheme \<Rightarrow> (yo_code \<times> ('w, 'z) io_scheme) option" where
  "run_read os = (\<lambda>(handle, buff, pn) s. Some (yo_read os handle buff pn s))"

definition fb_yoa_read where
  "fb_yoa_read os exec = fb_start os 24 exec (run_read os)"

definition run_write :: "'w os \<Rightarrow> addr \<times> addr \<times> addr \<Rightarrow> ('w, 'z) io_scheme \<Rightarrow> (yo_code \<times> ('w, 'z) io_scheme) option" where
  "run_write os = (\<lambda>(handle, buff, pn) s. Some (yo_write os handle buff pn s))"

definition fb_yoa_write where
  "fb_yoa_write os exec = fb_start os 24 exec (run_write os)"

definition run_sync :: "'w os \<Rightarrow> addr \<Rightarrow> ('w, 'z) io_scheme \<Rightarrow> (yo_code \<times> ('w, 'z) io_scheme) option" where
  "run_sync os = (\<lambda>fd s. Some (yo_sync os fd s))"

definition yoa_sync where
  "yoa_sync os exec = fb_start os 8 exec (run_sync os)"

definition run_stat :: "'w os \<Rightarrow> addr \<times> addr \<Rightarrow> ('w, 'z) io_scheme \<Rightarrow> (yo_code \<times> ('w, 'z) io_scheme) option" where
  "run_stat os = (\<lambda>(fd, buff) s. Some (yo_stat os fd buff s))"

definition yoa_stat where
  "yoa_stat os exec = fb_start os 16 exec (run_stat os)"

definition run_file_symlink :: "'w os \<Rightarrow> string \<times> string \<Rightarrow> ('w, 'z) io_scheme \<Rightarrow> (yo_code \<times> ('w, 'z) io_scheme) option" where
  "run_file_symlink os = (\<lambda>(path, target) s. Some (yo_file_symlink os path target s))"

definition yoa_file_symlink where
  "yoa_file_symlink os exec = fb_start os 16 exec (run_file_symlink os)"

definition run_file_hardlink :: "'w os \<Rightarrow> string \<times> string \<Rightarrow> ('w, 'z) io_scheme \<Rightarrow> (yo_code \<times> ('w, 'z) io_scheme) option" where
  "run_file_hardlink os = (\<lambda>(path, target) s. Some (yo_file_hardlink os path target s))"

definition yoa_file_hardlink where
  "yoa_file_hardlink os exec = fb_start os 16 exec (run_file_hardlink os)"

definition run_file_readlink :: "'w os \<Rightarrow> string \<times> addr \<Rightarrow> ('w, 'z) io_scheme \<Rightarrow> (yo_code \<times> ('w, 'z) io_scheme) option" where
  "run_file_readlink os = (\<lambda>(path, pres) s. yo_file_readlink os path pres s)"

definition yoa_file_readlink where
  "yoa_file_readlink os exec = fb_start os 16 exec (run_file_readlink os)"

definition run_file_remove :: "'w os \<Rightarrow> string \<Rightarrow> ('w, 'z) io_scheme \<Rightarrow> (yo_code \<times> ('w, 'z) io_scheme) option" where
  "run_file_remove os = (\<lambda>path s. Some (yo_file_remove os path s))"

definition yoa_file_remove where
  "yoa_file_remove os exec = fb_start os 8 exec (run_file_remove os)"

definition run_file_read :: "'w os \<Rightarrow> addr \<times> addr \<times> addr \<times> u64 \<Rightarrow> ('w, 'z) io_scheme \<Rightarrow> (yo_code \<times> ('w, 'z) io_scheme) option" where
  "run_file_read os = (\<lambda>(handle, buff, pn, offset) s. Some (yo_file_read os handle buff pn offset s))"

definition fb_yoa_file_read where
  "fb_yoa_file_read os exec = fb_start os 32 exec (run_file_read os)"

definition run_file_write :: "'w os \<Rightarrow> addr \<times> addr \<times> addr \<times> u64 \<Rightarrow> ('w, 'z) io_scheme \<Rightarrow> (yo_code \<times> ('w, 'z) io_scheme) option" where
  "run_file_write os = (\<lambda>(handle, buff, pn, offset) s. Some (yo_file_write os handle buff pn offset s))"

definition fb_yoa_file_write where
  "fb_yoa_file_write os exec = fb_start os 32 exec (run_file_write os)"

definition run_dir_new :: "'w os \<Rightarrow> string \<times> int \<Rightarrow> ('w, 'z) io_scheme \<Rightarrow> (yo_code \<times> ('w, 'z) io_scheme) option" where
  "run_dir_new os = (\<lambda>(path, mode) s. Some (yo_dir_new os path mode s))"

definition yoa_dir_new where
  "yoa_dir_new os exec = fb_start os 16 exec (run_dir_new os)"

definition run_dir_open :: "'w os \<Rightarrow> addr \<times> string \<Rightarrow> ('w, 'z) io_scheme \<Rightarrow> (yo_code \<times> ('w, 'z) io_scheme) option" where
  "run_dir_open os = (\<lambda>(pres, path) s. Some (yo_dir_open os pres path s))"

definition yoa_dir_open where
  "yoa_dir_open os exec = fb_start os 16 exec (run_dir_open os)"

definition run_dir_next :: "'w os \<Rightarrow> addr \<times> addr \<Rightarrow> ('w, 'z) io_scheme \<Rightarrow> (yo_code \<times> ('w, 'z) io_scheme) option" where
  "run_dir_next os = (\<lambda>(dir, pname) s. yo_dir_next os dir pname s)"

definition yoa_dir_next where
  "yoa_dir_next os exec = fb_start os 16 exec (run_dir_next os)"

definition run_socket_connect :: "'w os \<Rightarrow> addr \<times> yo_proto \<times> yo_addr \<times> u16 \<Rightarrow> ('w, 'z) io_scheme \<Rightarrow> (yo_code \<times> ('w, 'z) io_scheme) option" where
  "run_socket_connect os = (\<lambda>(pres, proto, addr, port) s. Some (yo_socket_connect os pres proto addr port s))"

definition yoa_socket_connect where
  "yoa_socket_connect os exec = fb_start os 40 exec (run_socket_connect os)"

definition run_socket_accept :: "'w os \<Rightarrow> addr \<times> addr \<times> addr \<times> addr \<Rightarrow> ('w, 'z) io_scheme \<Rightarrow> (yo_code \<times> ('w, 'z) io_scheme) option" where
  "run_socket_accept os = (\<lambda>(server, pres, paddr, pport) s. Some (yo_socket_accept os server pres paddr pport s))"

definition fb_yoa_socket_accept where
  "fb_yoa_socket_accept os exec = fb_start os 32 exec (run_socket_accept os)"

text \<open>In the process that \<open>fork\<close> makes, the worker does not return.\<close>

definition run_proc_spawn ::
  "'w os \<Rightarrow> addr \<times> int \<times> string list \<times> string list \<times> string option \<times> addr \<times> addr \<times> addr
     \<Rightarrow> ('w, 'z) io_scheme \<Rightarrow> (yo_code \<times> ('w, 'z) io_scheme) option" where
  "run_proc_spawn os = (\<lambda>(pres, flags, argv, env, cwd, pin, pout, perr) s.
     case yo_proc_spawn os pres argv env cwd pin pout perr s of
       Some (Returns c s) \<Rightarrow> Some (c, s)
     | _ \<Rightarrow> None)"

definition yoa_proc_spawn where
  "yoa_proc_spawn os exec = fb_start os 64 exec (run_proc_spawn os)"

definition run_proc_wait :: "'w os \<Rightarrow> addr \<times> addr \<times> addr \<Rightarrow> ('w, 'z) io_scheme \<Rightarrow> (yo_code \<times> ('w, 'z) io_scheme) option" where
  "run_proc_wait os = (\<lambda>(p, psig, pcode) s. Some (yo_proc_wait os p psig pcode s))"

definition yoa_proc_wait where
  "yoa_proc_wait os exec = fb_start os 24 exec (run_proc_wait os)"

definition run_dns_getaddrinfo :: "'w os \<Rightarrow> addr \<times> string option \<times> int \<Rightarrow> ('w, 'z) ai_scheme \<Rightarrow> (yo_code \<times> ('w, 'z) ai_scheme) option" where
  "run_dns_getaddrinfo os = (\<lambda>(pres, nam, flags) s. Some (yo_dns_getaddrinfo os pres nam flags s))"

definition yoa_dns_getaddrinfo where
  "yoa_dns_getaddrinfo os exec = fb_start os 24 exec (run_dns_getaddrinfo os)"

definition run_sig_wait :: "'w os \<Rightarrow> addr \<Rightarrow> ('w, 'z) sg_scheme \<Rightarrow> (yo_code \<times> ('w, 'z) sg_scheme) option" where
  "run_sig_wait os = (\<lambda>pres s. yo_sig_wait os pres s)"

definition yoa_sig_wait where
  "yoa_sig_wait os exec = fb_start os 8 exec (run_sig_wait os)"

lemmas run_defs = run_read_def run_write_def run_sync_def run_stat_def run_file_symlink_def run_file_hardlink_def run_file_readlink_def run_file_remove_def run_file_read_def run_file_write_def run_dir_new_def run_dir_open_def run_dir_next_def run_socket_connect_def run_socket_accept_def run_proc_wait_def

text \<open>
  What the macro promises of the function \<open>start\<close> that it makes, for the blocking operation \<open>blocking\<close>: without memory it fails and the
  executor is not called. Otherwise it fills a fresh block with the arguments, calls the executor once, with the worker and that
  block, and returns its code. Whenever the worker is run while the block still holds the arguments, it gives the
  block back and does what the blocking operation does when it is called with these arguments.
\<close>

definition dispatches :: "'w os
    \<Rightarrow> (('a, ('w, 'z) sys_scheme) exec \<Rightarrow> 'a \<Rightarrow> (addr \<Rightarrow> 'a) \<Rightarrow> ('w, 'z) sys_scheme \<Rightarrow> (yo_code \<times> (addr \<Rightarrow> 'a) \<times> ('w, 'z) sys_scheme) option)
    \<Rightarrow> ('a \<Rightarrow> ('w, 'z) sys_scheme \<Rightarrow> (yo_code \<times> ('w, 'z) sys_scheme) option)
    \<Rightarrow> ('a, ('w, 'z) sys_scheme) worker \<Rightarrow> u64 \<Rightarrow> bool" where
  "dispatches os start blocking worker len \<longleftrightarrow> (\<forall>args m s.
     let p = ptr (reply_of os (CMalloc len) s); s1 = after os (CMalloc len) s
     in if p = NULL then gained [] s s1 \<and> (\<forall>exec. start exec args m s = Some (YO_ENOMEM, m, s1))
        else gained [Mem p] s s1
          \<and> (\<forall>exec. start exec args m s = map_option (\<lambda>(e, s2). (e, m(p := args), s2)) (exec worker p (m(p := args)) s1))
          \<and> (\<forall>m' t. m' p = args \<longrightarrow> worker p m' t = blocking args (after os (CFree p) t)))"

text \<open>
  For an operation on the state that holds the queues, moreover: when a worker of the pool runs the task, the request becomes the newest
  one on the ready list of its queue, with the code of the operation.
\<close>

definition fallback_op :: "'w os \<Rightarrow> u64
    \<Rightarrow> (('a, ('w, 'z) rq_scheme) exec \<Rightarrow> 'a \<Rightarrow> (addr \<Rightarrow> 'a) \<Rightarrow> ('w, 'z) rq_scheme \<Rightarrow> (yo_code \<times> (addr \<Rightarrow> 'a) \<times> ('w, 'z) rq_scheme) option)
    \<Rightarrow> ('a \<Rightarrow> ('w, 'z) rq_scheme \<Rightarrow> (yo_code \<times> ('w, 'z) rq_scheme) option) \<Rightarrow> bool" where
  "fallback_op os len start blocking \<longleftrightarrow> (\<exists>worker. dispatches os start blocking worker len
     \<and> (\<forall>mt req p m t c u ys. worker p m t = Some (c, u) \<and> ready t (rq_queue t req) ys \<and> req \<noteq> NULL \<and> req \<notin> fst ` set ys \<longrightarrow>
          (\<exists>v. pool_job os (fb_impl_notify mt os) req worker p m t = Some v \<and> ready v (rq_queue t req) ((req, c) # ys))))"

lemma fb_dispatches: "dispatches os (\<lambda>exec. fb_start os len exec run) run (fb_worker os run) len"
proof -
  have "fb_worker os run p m' t = run (m' p) (after os (CFree p) t)" for p m' t
    by (simp add: fb_worker_def sys_simps)
  moreover have "fb_start os len exec run args m s = (let p = ptr (reply_of os (CMalloc len) s); s1 = after os (CMalloc len) s
      in if p = NULL then Some (YO_ENOMEM, m, s1)
         else map_option (\<lambda>(e, s2). (e, m(p := args), s2)) (exec (fb_worker os run) p (m(p := args)) s1))" for exec args m s
    by (auto simp: fb_start_def sys_simps Let_def split: option.splits bind_splits)
  ultimately show ?thesis
    by (simp add: dispatches_def Let_def ledger_simps)
qed

text \<open>What the completion needs of an operation: it leaves the requests and queues alone.\<close>

locale blocking =
  fixes run :: "'w os \<Rightarrow> 'a \<Rightarrow> ('w, 'z) rq_scheme \<Rightarrow> (yo_code \<times> ('w, 'z) rq_scheme) option"
  assumes run_same: "run os args s = Some (c, t) \<Longrightarrow> same_queues s t"
begin

lemma completes:
  assumes "fb_worker os (run os) p m t = Some (c, u)" and "ready t (rq_queue t req) ys" and "req \<noteq> NULL" and "req \<notin> fst ` set ys"
  shows "\<exists>v. pool_job os (fb_impl_notify mt os) req (fb_worker os (run os)) p m t = Some v
     \<and> ready v (rq_queue t req) ((req, c) # ys)"
proof -
  have "run os (m p) (after os (CFree p) t) = Some (c, u)"
    using assms(1) by (simp add: fb_worker_def sys_simps)
  from run_same [OF this] have same: "same_queues t u" by (simp add: same_queues_def)
  have "rq_queue u = rq_queue t" using same by (simp add: same_queues_def)
  moreover have "ready u (rq_queue t req) ys" using assms(2) by (simp add: ready_same [OF same])
  ultimately have "ready (yoi_req_end os (fb_impl_notify mt os) req c u) (rq_queue t req) ((req, c) # ys)"
    using fbq.end_ready [where s = u and req = req and ys = ys and os = os and c = c and mt = mt] assms(3,4) by simp
  with assms(1) show ?thesis by (simp add: pool_job_def)
qed

lemma made: "fallback_op os len (\<lambda>exec. fb_start os len exec (run os)) (run os)"
  unfolding fallback_op_def
  by (intro exI [of _ "fb_worker os (run os)"] conjI fb_dispatches allI impI) (blast intro: completes)

end

lemmas blocking_simps = same_queues_def sys_simps Let_def simple_call_def return_errno_def mem_defs
  yoi_unix_mkfd_def yoi_fd_ioq_init_def yoi_unix_socket_new_def

interpretation b_read: blocking run_read
  by unfold_locales (auto simp: run_read_def yo_read_def blocking_simps split: if_splits prod.splits)

interpretation b_write: blocking run_write
  by unfold_locales (auto simp: run_write_def yo_write_def blocking_simps split: if_splits prod.splits)

interpretation b_sync: blocking run_sync
  by unfold_locales (auto simp: run_sync_def yo_sync_def blocking_simps split: if_splits prod.splits)

interpretation b_stat: blocking run_stat
  by unfold_locales (auto simp: run_stat_def yo_stat_def blocking_simps split: if_splits prod.splits)

interpretation b_file_symlink: blocking run_file_symlink
  by unfold_locales (auto simp: run_file_symlink_def yo_file_symlink_def blocking_simps split: if_splits prod.splits)

interpretation b_file_hardlink: blocking run_file_hardlink
  by unfold_locales (auto simp: run_file_hardlink_def yo_file_hardlink_def blocking_simps split: if_splits prod.splits)

interpretation b_file_remove: blocking run_file_remove
  by unfold_locales (auto simp: run_file_remove_def yo_file_remove_def blocking_simps split: if_splits prod.splits)

interpretation b_file_read: blocking run_file_read
  by unfold_locales (auto simp: run_file_read_def yo_file_read_def blocking_simps split: if_splits prod.splits)

interpretation b_file_write: blocking run_file_write
  by unfold_locales (auto simp: run_file_write_def yo_file_write_def blocking_simps split: if_splits prod.splits)

interpretation b_dir_new: blocking run_dir_new
  by unfold_locales (auto simp: run_dir_new_def yo_dir_new_def blocking_simps split: if_splits prod.splits)

interpretation b_dir_open: blocking run_dir_open
  by unfold_locales (auto simp: run_dir_open_def yo_dir_open_def blocking_simps split: if_splits prod.splits)

interpretation b_socket_connect: blocking run_socket_connect
  by unfold_locales (auto simp: run_socket_connect_def yo_socket_connect_def blocking_simps split: if_splits prod.splits)

interpretation b_socket_accept: blocking run_socket_accept
  by unfold_locales (auto simp: run_socket_accept_def yo_socket_accept_def blocking_simps split: if_splits prod.splits)

interpretation b_proc_wait: blocking run_proc_wait
  by unfold_locales (auto simp: run_proc_wait_def yo_proc_wait_def blocking_simps split: if_splits prod.splits)

lemma dir_entries_same:
  fixes s :: "('w, 'z) rq_scheme"
  assumes "dir_entries os d s = Some (e, t)"
  shows "same_queues s t"
proof -
  let ?P = "\<lambda>(os :: 'w os) d (s :: ('w, 'z) rq_scheme) x. same_queues s (snd x)"
  have step: "?P os d s x"
    if IH: "\<And>os d s x. rep os d s = Some x \<Longrightarrow> ?P os d s x"
      and body: "(let s = s\<lparr>errno := 0\<rparr>; (r, s) = syscall os (CReaddir d) s
        in if errno s \<noteq> 0 then Some (ReadError, s)
           else case r_text r of None \<Rightarrow> Some (EndOfDir, s)
           | Some name \<Rightarrow> if name = ''.'' \<or> name = ''..'' then rep os d s else Some (Entry name, s)) = Some x"
    for rep os d x and s :: "('w, 'z) rq_scheme"
  proof -
    let ?t = "after os (CReaddir d) (s\<lparr>errno := 0\<rparr>)"
    have "same_queues s ?t" by (simp add: same_queues_def)
    moreover from body have "snd x = ?t \<or> rep os d ?t = Some x"
      by (auto simp: sys_simps Let_def split: if_splits option.splits)
    ultimately show ?thesis using IH [of os d ?t x] by (auto intro: same_queues_trans)
  qed
  have "?P os d s (e, t)"
    by (rule dir_entries.raw_induct [OF _ assms, of ?P]) (rule step)
  then show ?thesis by simp
qed

text \<open>\<open>yo_proc_spawn\<close>, where it returns.\<close>

lemma close_if_same: "same_queues s (close_if os fd s)"
  by (simp add: close_if_def sys_simps same_queues_def)

lemma give_handle_same: "same_queues s (give_handle p h fd s)"
  by (simp add: give_handle_def yoi_unix_mkfd_def yoi_fd_ioq_init_def set_ptr_def same_queues_def)

lemma mkstd_if_same: "mkstd_if os wanted inp s = (x, t) \<Longrightarrow> same_queues s t"
  by (auto simp: mkstd_if_def yoi_unix_mkstd_def sys_simps Let_def same_queues_def split: if_splits prod.splits)

definition returns_same :: "('w, 'z) rq_scheme \<Rightarrow> ('w, 'z) rq_scheme fate option \<Rightarrow> bool" where
  "returns_same s x \<longleftrightarrow> (\<forall>c t. x = Some (Returns c t) \<longrightarrow> same_queues s t)"

lemma returns_same_trans: "same_queues s t \<Longrightarrow> returns_same t x \<Longrightarrow> returns_same s x"
  unfolding returns_same_def by (blast intro: same_queues_trans)

lemma returns_same_None [simp]: "returns_same s None"
  by (simp add: returns_same_def)

lemma close_two_same: "returns_same (close_if os b (close_if os a s)) x \<Longrightarrow> returns_same s x"
  by (rule returns_same_trans [OF same_queues_trans [OF close_if_same close_if_same]])

lemma err_fcntl_same: "returns_same s (Some (err_fcntl os st s))"
  unfolding err_fcntl_def Let_def return_errno_def prod.case
  by (rule close_two_same [where os = os and a = "fst st" and b = "snd st"]) (simp add: returns_same_def same_queues_refl)

lemma err_mkstd_out_same: "returns_same s (Some (err_mkstd_out os st i s))"
  unfolding err_mkstd_out_def Let_def by (rule close_two_same [OF err_fcntl_same])

lemma err_mkstd_err_same: "returns_same s (Some (err_mkstd_err os st i t s))"
  unfolding err_mkstd_err_def Let_def by (rule close_two_same [OF err_mkstd_out_same])

lemma err_fork_same: "returns_same s (Some (err_fork os st i t e s))"
  unfolding err_fork_def Let_def by (rule close_two_same [OF err_mkstd_err_same])

lemma child_same: "returns_same s (Some (spawn_child os argv env cwd st i t e u))"
  using child_never_returns [of os argv env cwd st i t e u] by (auto simp: returns_same_def)

lemma parent_same: "returns_same s (spawn_parent os pid res pres pin pout perr st (pi, ci, hi) (po, co, ho) (pe, ce, he) s)"
proof -
  let ?t1 = "after os (CClose (snd st)) (close_if os ce (close_if os co (close_if os ci s)))"
  let ?r = "reply_of os (CRead (fst st) 4) ?t1"
  let ?t2 = "after os (CClose (fst st)) (after os (CRead (fst st) 4) ?t1)"
  have t2: "same_queues s ?t2"
    by (rule same_queues_trans [OF close_if_same same_queues_trans [OF close_if_same same_queues_trans [OF close_if_same]]])
      (simp add: same_queues_def)
  let ?w = "\<lambda>u. if pid \<noteq> 0 then after os (CWaitpid pid) u else u"
  have fail: "returns_same s (Some (err_fork os (-1, -1) (pi, -1) (po, -1) (pe, -1) (?w (?t2\<lparr>errno := e\<rparr>))))" for e
    by (rule returns_same_trans [OF same_queues_trans [OF t2] err_fork_same]) (simp add: same_queues_def)
  have fail': "returns_same s (Some (err_fork os (-1, -1) (pi, -1) (po, -1) (pe, -1) (?w ?t2)))"
    by (rule returns_same_trans [OF same_queues_trans [OF t2] err_fork_same]) (simp add: same_queues_def)
  let ?g = "give_handle perr he pe (give_handle pout ho po (give_handle pin hi pi ?t2))"
  have "same_queues s ?g"
    by (rule same_queues_trans [OF t2 same_queues_trans [OF give_handle_same same_queues_trans [OF give_handle_same give_handle_same]]])
  then have ok: "returns_same s (Some (Returns YO_OK (set_ptr pres res (?g\<lparr>proc_pid := (proc_pid ?g)(res := pid)\<rparr>))))"
    by (simp add: same_queues_def set_ptr_def returns_same_def)
  have "spawn_parent os pid res pres pin pout perr st (pi, ci, hi) (po, co, ho) (pe, ce, he) s =
     (if ret ?r < 0 then Some (err_fork os (-1, -1) (pi, -1) (po, -1) (pe, -1) (?w ?t2))
      else if ret ?r = 4 then Some (err_fork os (-1, -1) (pi, -1) (po, -1) (pe, -1) (?w (?t2\<lparr>errno := bytes_int (r_bytes ?r)\<rparr>)))
      else if ret ?r \<noteq> 0 then Some (err_fork os (-1, -1) (pi, -1) (po, -1) (pe, -1) (?w (?t2\<lparr>errno := EPIPE\<rparr>)))
      else if res = NULL then None
      else Some (Returns YO_OK (set_ptr pres res (?g\<lparr>proc_pid := (proc_pid ?g)(res := pid)\<rparr>))))"
    by (simp add: spawn_parent_def sys_simps Let_def)
  then show ?thesis using fail fail' ok by (auto simp del: set_ptr_def)
qed

lemma streams_same: "returns_same s (spawn_streams os st res pres argv env cwd pin pout perr s)"
proof -
  obtain x t1 where x: "mkstd_if os (pin \<noteq> NULL) True s = (x, t1)" by fastforce
  obtain y t2 where y: "mkstd_if os (pout \<noteq> NULL) False t1 = (y, t2)" by fastforce
  obtain z t3 where z: "mkstd_if os (perr \<noteq> NULL) False t2 = (z, t3)" by fastforce
  have s1: "same_queues s t1" and s2: "same_queues s t2" and s3: "same_queues s t3"
    using mkstd_if_same [OF x] mkstd_if_same [OF y] mkstd_if_same [OF z] by (blast intro: same_queues_trans)+
  have s4: "same_queues s (after os CFork t3)" using s3 by (simp add: same_queues_def)
  note err = returns_same_trans [OF s1 err_fcntl_same] returns_same_trans [OF s2 err_mkstd_out_same]
    returns_same_trans [OF s3 err_mkstd_err_same] returns_same_trans [OF s4 err_fork_same]
    returns_same_trans [OF s4 parent_same] child_same
  show ?thesis
    by (simp add: spawn_streams_def x y z sys_simps Let_def err split: option.split prod.split)
qed

lemma proc_spawn_same: "returns_same s (yo_proc_spawn os pres argv env cwd pin pout perr s)"
proof -
  let ?t0 = "after os (CMalloc sizeof_yo_proc) s"
  let ?st = "r_pair (reply_of os CPipe ?t0)" let ?t1 = "after os CPipe ?t0"
  let ?t2 = "after os (CCloexec (fst ?st)) ?t1" let ?t3 = "after os (CCloexec (snd ?st)) ?t2"
  let ?t4 = "after os (CNonblock (snd ?st)) ?t3"
  have "same_queues s ?t1" "same_queues s ?t2" "same_queues s ?t3" "same_queues s ?t4" by (simp_all add: same_queues_def)
  note err = this(1) this(2-4) [THEN returns_same_trans, OF err_fcntl_same] returns_same_trans [OF this(4) streams_same]
  show ?thesis
    using err by (simp add: yo_proc_spawn_def sys_simps Let_def return_errno_def returns_same_def)
qed

interpretation b_proc_spawn: blocking run_proc_spawn
  using proc_spawn_same by unfold_locales (fastforce simp: run_proc_spawn_def returns_same_def split: option.splits fate.splits)

interpretation b_file_readlink: blocking run_file_readlink
  by unfold_locales (auto simp: run_file_readlink_def yo_file_readlink_def blocking_simps split: if_splits prod.splits)

lemma dir_next_same:
  assumes "yo_dir_next os d pname s = Some (c, t)"
  shows "same_queues s t"
proof -
  obtain e u where u: "dir_entries os (dir_dir s d) s = Some (e, u)"
    using assms by (auto simp: yo_dir_next_def bind_eq_Some_conv)
  have "same_queues u t"
    using assms u by (auto simp: yo_dir_next_def blocking_simps split: if_splits entry.splits)
  with dir_entries_same [OF u] show ?thesis by (rule same_queues_trans)
qed

interpretation b_dir_next: blocking run_dir_next
  using dir_next_same by unfold_locales (auto simp: run_dir_next_def)

lemmas fallback_made = b_read.made [unfolded run_read_def] b_write.made [unfolded run_write_def] b_sync.made [unfolded run_sync_def]
  b_stat.made [unfolded run_stat_def] b_file_symlink.made [unfolded run_file_symlink_def]
  b_file_hardlink.made [unfolded run_file_hardlink_def] b_file_readlink.made [unfolded run_file_readlink_def]
  b_file_remove.made [unfolded run_file_remove_def] b_file_read.made [unfolded run_file_read_def]
  b_file_write.made [unfolded run_file_write_def] b_dir_new.made [unfolded run_dir_new_def]
  b_dir_open.made [unfolded run_dir_open_def] b_dir_next.made [unfolded run_dir_next_def]
  b_socket_connect.made [unfolded run_socket_connect_def] b_socket_accept.made [unfolded run_socket_accept_def]
  b_proc_spawn.made [unfolded run_proc_spawn_def] b_proc_wait.made [unfolded run_proc_wait_def]

lemma fallback_starts:
  "fb_yoa_read os = (\<lambda>exec. fb_start os 24 exec (run_read os))" "fb_yoa_write os = (\<lambda>exec. fb_start os 24 exec (run_write os))"
  "yoa_sync os = (\<lambda>exec. fb_start os 8 exec (run_sync os))" "yoa_stat os = (\<lambda>exec. fb_start os 16 exec (run_stat os))"
  "yoa_file_symlink os = (\<lambda>exec. fb_start os 16 exec (run_file_symlink os))"
  "yoa_file_hardlink os = (\<lambda>exec. fb_start os 16 exec (run_file_hardlink os))"
  "yoa_file_readlink os = (\<lambda>exec. fb_start os 16 exec (run_file_readlink os))"
  "yoa_file_remove os = (\<lambda>exec. fb_start os 8 exec (run_file_remove os))"
  "fb_yoa_file_read os = (\<lambda>exec. fb_start os 32 exec (run_file_read os))"
  "fb_yoa_file_write os = (\<lambda>exec. fb_start os 32 exec (run_file_write os))"
  "yoa_dir_new os = (\<lambda>exec. fb_start os 16 exec (run_dir_new os))" "yoa_dir_open os = (\<lambda>exec. fb_start os 16 exec (run_dir_open os))"
  "yoa_dir_next os = (\<lambda>exec. fb_start os 16 exec (run_dir_next os))"
  "yoa_socket_connect os = (\<lambda>exec. fb_start os 40 exec (run_socket_connect os))"
  "fb_yoa_socket_accept os = (\<lambda>exec. fb_start os 32 exec (run_socket_accept os))"
  "yoa_proc_spawn os = (\<lambda>exec. fb_start os 64 exec (run_proc_spawn os))"
  "yoa_proc_wait os = (\<lambda>exec. fb_start os 24 exec (run_proc_wait os))"
  "yoa_dns_getaddrinfo os = (\<lambda>exec. fb_start os 24 exec (run_dns_getaddrinfo os))"
  "yoa_sig_wait os = (\<lambda>exec. fb_start os 8 exec (run_sig_wait os))"
  by (rule ext, rule fb_yoa_read_def fb_yoa_write_def yoa_sync_def yoa_stat_def yoa_file_symlink_def yoa_file_hardlink_def
    yoa_file_readlink_def yoa_file_remove_def fb_yoa_file_read_def fb_yoa_file_write_def yoa_dir_new_def yoa_dir_open_def
    yoa_dir_next_def yoa_socket_connect_def fb_yoa_socket_accept_def yoa_proc_spawn_def yoa_proc_wait_def
    yoa_dns_getaddrinfo_def yoa_sig_wait_def)+

text \<open>
  C32: The asynchronous operations that the macro makes agree with the blocking ones, whatever the executor. Without memory
  for the arguments the call fails and the executor is not called. Otherwise the executor is called once, with the worker and a fresh
  block that holds the arguments; whenever the worker is run while the block holds them, it gives the block back and then does
  exactly what the blocking operation does with these arguments. For the operations on files, directories, sockets and processes,
  when a thread of the pool runs the task, the request becomes the newest one on the ready list of its queue, with the code of the operation.
\<close>

theorem fallback_async_agrees:
  "fallback_op os 24 (fb_yoa_read os) (\<lambda>(fd, buff, pn) s. Some (yo_read os fd buff pn s))
 \<and> fallback_op os 24 (fb_yoa_write os) (\<lambda>(fd, buff, pn) s. Some (yo_write os fd buff pn s))
 \<and> fallback_op os 8 (yoa_sync os) (\<lambda>fd s. Some (yo_sync os fd s))
 \<and> fallback_op os 16 (yoa_stat os) (\<lambda>(fd, buff) s. Some (yo_stat os fd buff s))
 \<and> fallback_op os 16 (yoa_file_symlink os) (\<lambda>(path, target) s. Some (yo_file_symlink os path target s))
 \<and> fallback_op os 16 (yoa_file_hardlink os) (\<lambda>(path, target) s. Some (yo_file_hardlink os path target s))
 \<and> fallback_op os 16 (yoa_file_readlink os) (\<lambda>(path, pres) s. yo_file_readlink os path pres s)
 \<and> fallback_op os 8 (yoa_file_remove os) (\<lambda>path s. Some (yo_file_remove os path s))
 \<and> fallback_op os 32 (fb_yoa_file_read os) (\<lambda>(fd, buff, pn, off) s. Some (yo_file_read os fd buff pn off s))
 \<and> fallback_op os 32 (fb_yoa_file_write os) (\<lambda>(fd, buff, pn, off) s. Some (yo_file_write os fd buff pn off s))
 \<and> fallback_op os 16 (yoa_dir_new os) (\<lambda>(path, mode) s. Some (yo_dir_new os path mode s))
 \<and> fallback_op os 16 (yoa_dir_open os) (\<lambda>(pres, path) s. Some (yo_dir_open os pres path s))
 \<and> fallback_op os 16 (yoa_dir_next os) (\<lambda>(dir, pname) s. yo_dir_next os dir pname s)
 \<and> fallback_op os 40 (yoa_socket_connect os) (\<lambda>(pres, proto, ad, port) s. Some (yo_socket_connect os pres proto ad port s))
 \<and> fallback_op os 32 (fb_yoa_socket_accept os) (\<lambda>(server, pres, pad, pport) s. Some (yo_socket_accept os server pres pad pport s))
 \<and> fallback_op os 64 (yoa_proc_spawn os) (\<lambda>(pres, flags, argv, env, cwd, pin, pout, perr) s.
       case yo_proc_spawn os pres argv env cwd pin pout perr s of Some (Returns c s) \<Rightarrow> Some (c, s) | _ \<Rightarrow> None)
 \<and> fallback_op os 24 (yoa_proc_wait os) (\<lambda>(p, psig, pcode) s. Some (yo_proc_wait os p psig pcode s))
 \<and> (\<exists>worker. dispatches os (yoa_dns_getaddrinfo os) (\<lambda>(pres, nam, flags) s. Some (yo_dns_getaddrinfo os pres nam flags s)) worker 24)
 \<and> (\<exists>worker. dispatches os (yoa_sig_wait os) (\<lambda>pres s. yo_sig_wait os pres s) worker 8)"
  unfolding fallback_starts run_defs run_proc_spawn_def run_dns_getaddrinfo_def run_sig_wait_def
  by (intro conjI fallback_made; rule exI; rule fb_dispatches)

lemma fallback_async_agrees_witness:
  "\<exists>worker v. (\<forall>exec. yoa_stat counting_os exec (3, 4) (\<lambda>_. (0, 0)) (empty_rq 7)
        = map_option (\<lambda>(e, s). (e, (\<lambda>_. (0, 0))(4096 := (3, 4)), s))
            (exec worker 4096 ((\<lambda>_. (0, 0))(4096 := (3, 4))) (after counting_os (CMalloc 16) (empty_rq 7))))
     \<and> pool_job counting_os (fb_impl_notify True counting_os) 5 worker 4096 ((\<lambda>_. (0, 0))(4096 := (3, 4))) (empty_rq 7) = Some v
     \<and> ready v 9 [(5, fst (yo_stat counting_os 3 4 (after counting_os (CFree 4096) (empty_rq 7))))]"
proof -
  let ?m = "(\<lambda>_. (0, 0))(4096 := (3 :: addr, 4 :: addr))" let ?u = "after counting_os (CFree 4096) (empty_rq 7)"
  have p: "ptr (reply_of counting_os (CMalloc 16) (empty_rq 7)) = 4096" by (simp add: reply_of_def counting_os_def)
  have "fallback_op counting_os 16 (yoa_stat counting_os) (\<lambda>(fd, buff) s. Some (yo_stat counting_os fd buff (s :: nat rq)))"
    using fallback_async_agrees [where os = counting_os] by blast
  then obtain worker where d: "dispatches counting_os (yoa_stat counting_os)
      (\<lambda>(fd, buff) s. Some (yo_stat counting_os fd buff (s :: nat rq))) worker 16"
    and finish: "\<And>mt req p m t c u ys. worker p m t = Some (c, u) \<Longrightarrow> ready t (rq_queue t req) ys \<Longrightarrow> req \<noteq> NULL
      \<Longrightarrow> req \<notin> fst ` set ys \<Longrightarrow> \<exists>v. pool_job counting_os (fb_impl_notify mt counting_os) req worker p m t = Some v
        \<and> ready v (rq_queue t req) ((req, c) # ys)"
    unfolding fallback_op_def by blast
  note law = spec [OF spec [OF spec [OF d [unfolded dispatches_def], of "(3, 4)"], of "\<lambda>_. (0, 0)"], of "empty_rq 7"]
  from law have "\<forall>m' t. m' 4096 = (3, 4) \<longrightarrow> worker 4096 m' t = Some (yo_stat counting_os 3 4 (after counting_os (CFree 4096) t))"
    by (simp add: p Let_def)
  moreover from law have start: "\<forall>exec. yoa_stat counting_os exec (3, 4) (\<lambda>_. (0, 0)) (empty_rq 7)
        = map_option (\<lambda>(e, s). (e, ?m, s)) (exec worker 4096 ?m (after counting_os (CMalloc 16) (empty_rq 7)))"
    by (simp add: p Let_def)
  ultimately have w: "worker 4096 ?m (empty_rq 7) = Some (fst (yo_stat counting_os 3 4 ?u), snd (yo_stat counting_os 3 4 ?u))" by simp
  have "ready (empty_rq (7 :: nat)) (rq_queue (empty_rq 7) 5) []" "rq_queue (empty_rq (7 :: nat)) 5 = 9"
    by (simp_all add: ready_def empty_rq_def io.defs)
  with finish [OF w this(1), of True] start show ?thesis by auto
qed

end
