(* ===== verification/Ansi.thy ===== *)
theory Ansi
  imports Env Signals Fallback "HOL-Library.Signed_Division"
begin

text \<open>
  The backend \<open>src/ansi/impl.c\<close>, which has only the C library underneath. A handle is a stream, or the path of
  a file that was opened for its status. Header constants have their Linux values, so
  \<open>EINTR\<close> exists and \<open>CLOCKS_PER_SEC\<close> is a million. The error table \<open>yoi_ansi_conv_errno\<close> is in
  the theory \<open>Errors\<close>.
\<close>

section \<open>State\<close>

datatype an_kind = YOI_ANSI_FILE | YOI_ANSI_AT

text \<open>
  \<open>an_ptr\<close> is the union of \<open>file\<close> and \<open>at\<close>, \<open>an_text\<close> the string in a block of memory. The streams of the
  process have fixed addresses.
\<close>

record 'w an = "'w rq" +
  an_owned :: "addr \<Rightarrow> bool"
  an_kind :: "addr \<Rightarrow> an_kind"
  an_ptr :: "addr \<Rightarrow> addr"
  an_text :: "addr \<Rightarrow> string"
  an_environ :: addr
  an_enviter :: "addr \<Rightarrow> addr"
  an_stdin :: addr
  an_stdout :: addr
  an_stderr :: addr

abbreviation (input) sizeof_an_fd :: u64 where "sizeof_an_fd \<equiv> 16"
abbreviation (input) SEEK_SET :: int where "SEEK_SET \<equiv> 0"
abbreviation (input) SEEK_END :: int where "SEEK_END \<equiv> 2"

section \<open>Handles\<close>

definition ansi_getenvpath ::
  "'w os \<Rightarrow> string \<Rightarrow> string \<Rightarrow> string option \<Rightarrow> ('w, 'z) sys_scheme \<Rightarrow> (addr \<times> ('w, 'z) sys_scheme) option" where
  "ansi_getenvpath os envname fallback suffix s =
     (let (r, s) = syscall os (CGetenv envname) s;
          home = (case r_text r of None \<Rightarrow> fallback | Some h \<Rightarrow> h)
      in case suffix of
           Some suffix \<Rightarrow>
             let (res, s) = malloc os (of_nat (length home) + of_nat (length suffix) + 1) s
             in if res = NULL then Some (NULL, s)
                else Some (res, store_bytes res (cstr (home @ suffix)) s)
         | None \<Rightarrow>
             let (res, s) = malloc os (of_nat (length home) + 1) s
             in if res = NULL then None
                else Some (res, store_bytes res (cstr home) s))"

definition ansi_mkfd :: "addr \<Rightarrow> addr \<Rightarrow> ('w, 'z) an_scheme \<Rightarrow> ('w, 'z) an_scheme" where
  "ansi_mkfd res f s =
     (let s = s\<lparr>an_owned := (an_owned s)(res := True)\<rparr>;
          s = s\<lparr>an_kind := (an_kind s)(res := YOI_ANSI_FILE)\<rparr>
      in s\<lparr>an_ptr := (an_ptr s)(res := f)\<rparr>)"

definition ansi_mkat :: "'w os \<Rightarrow> addr \<Rightarrow> string \<Rightarrow> ('w, 'z) an_scheme \<Rightarrow> bool \<times> ('w, 'z) an_scheme" where
  "ansi_mkat os res path s =
     (let (p, s) = malloc os (of_nat (length path) + 1) s
      in if p = NULL then (False, s)
         else
           let s = s\<lparr>an_text := (an_text s)(p := path)\<rparr>;
               s = s\<lparr>an_owned := (an_owned s)(res := True)\<rparr>;
               s = s\<lparr>an_kind := (an_kind s)(res := YOI_ANSI_AT)\<rparr>;
               s = s\<lparr>an_ptr := (an_ptr s)(res := p)\<rparr>
           in (True, s))"

definition ansi_isfd :: "addr \<Rightarrow> ('w, 'z) an_scheme \<Rightarrow> bool" where
  "ansi_isfd fd s \<longleftrightarrow> an_kind s fd = YOI_ANSI_FILE"

definition ansi_fd_new :: "'w os \<Rightarrow> addr \<Rightarrow> u64 \<Rightarrow> bool \<Rightarrow> ('w, 'z) an_scheme \<Rightarrow> yo_code \<times> ('w, 'z) an_scheme" where
  "ansi_fd_new os pres fd owned s =
     (let (res, s) = malloc os sizeof_an_fd s
      in if res = NULL then (YO_ENOMEM, s)
         else
           let s = ansi_mkfd res fd s;
               s = s\<lparr>an_owned := (an_owned s)(res := owned)\<rparr>;
               s = set_ptr pres res s
           in (YO_OK, s))"

partial_function (option) fclose_loop :: "'w os \<Rightarrow> addr \<Rightarrow> ('w, 'z) sys_scheme \<Rightarrow> ('w, 'z) sys_scheme option" where
  "fclose_loop os f s =
     (let (r, s) = syscall os (CFclose f) s
      in if ret r < 0 then if errno s \<noteq> EINTR then Some s else fclose_loop os f s
         else Some s)"

definition ansi_fd_close :: "'w os \<Rightarrow> addr \<Rightarrow> ('w, 'z) an_scheme \<Rightarrow> ('w, 'z) an_scheme option" where
  "ansi_fd_close os fd s =
     do {
       s \<leftarrow> (if an_owned s fd then
                if \<not> ansi_isfd fd s then Some (free os (an_ptr s fd) s)
                else fclose_loop os (an_ptr s fd) s
              else Some s);
       Some (free os fd s)
     }"

section \<open>Reading, writing, status\<close>

text \<open>The two tests after a transfer of \<open>n\<close> items, and \<open>*pn = n\<close>.\<close>

definition ansi_finish :: "'w os \<Rightarrow> addr \<Rightarrow> addr \<Rightarrow> u64 \<Rightarrow> ('w, 'z) an_scheme \<Rightarrow> yo_code \<times> ('w, 'z) an_scheme" where
  "ansi_finish os fd pn n s =
     (let (r, s) = syscall os (CFerror (an_ptr s fd)) s
      in if ret r \<noteq> 0 then (YO_EIO, s)
         else
           let (r, s) = syscall os (CFeof (an_ptr s fd)) s
           in if ret r \<noteq> 0 then (YO_EOF, s) else (YO_OK, set_size pn n s))"

definition ansi_read :: "'w os \<Rightarrow> addr \<Rightarrow> addr \<Rightarrow> addr \<Rightarrow> ('w, 'z) an_scheme \<Rightarrow> yo_code \<times> ('w, 'z) an_scheme" where
  "ansi_read os fd buff pn s =
     (if \<not> ansi_isfd fd s then (YO_EBADFD, s)
      else
        let s = ignore os (CClearerr (an_ptr s fd)) s;
            (r, s) = syscall os (CFread (an_ptr s fd) (m_size s pn) 1) s;
            s = store_bytes buff (r_bytes r) s
        in ansi_finish os fd pn (of_int (ret r)) s)"

definition ansi_write :: "'w os \<Rightarrow> addr \<Rightarrow> addr \<Rightarrow> addr \<Rightarrow> ('w, 'z) an_scheme \<Rightarrow> yo_code \<times> ('w, 'z) an_scheme" where
  "ansi_write os fd buff pn s =
     (if \<not> ansi_isfd fd s then (YO_EBADFD, s)
      else
        let s = ignore os (CClearerr fd) s;
            (r, s) = syscall os (CFwrite fd (load_bytes buff (m_size s pn) s) (m_size s pn) 1) s
        in ansi_finish os fd pn (of_int (ret r)) s)"

definition ansi_sync :: "'w os \<Rightarrow> addr \<Rightarrow> ('w, 'z) an_scheme \<Rightarrow> yo_code \<times> ('w, 'z) an_scheme" where
  "ansi_sync os fd s =
     (if \<not> ansi_isfd fd s then (YO_EBADFD, s)
      else
        let (r, s) = syscall os (CFflush (an_ptr s fd)) s
        in if ret r < 0 then (YO_EIO, s) else (YO_OK, s))"

definition ansi_stat_of :: "u64 \<Rightarrow> yo_stat_t" where
  "ansi_stat_of n = \<lparr>type_of = YO_STAT_REG, mode_of = 511, gid_of = 1000, uid_of = 1000,
     atime_of = \<lparr>sec = 0, nsec = 0\<rparr>, mtime_of = \<lparr>sec = 0, nsec = 0\<rparr>, ctime_of = \<lparr>sec = 0, nsec = 0\<rparr>,
     size_of = n, blksize_of = 512, inode_of = -1, links_of = 1\<rparr>"

definition ansi_stat :: "'w os \<Rightarrow> addr \<Rightarrow> addr \<Rightarrow> ('w, 'z) an_scheme \<Rightarrow> yo_code \<times> ('w, 'z) an_scheme" where
  "ansi_stat os fd buff s =
     (let owned = \<not> ansi_isfd fd s;
          (f, s) = (if owned then
                      let (r, s) = syscall os (CFopen (an_text s (an_ptr s fd)) ''r'') s in (ptr r, s)
                    else (an_ptr s fd, s))
      in if owned \<and> f = NULL then (YO_ENOENT, s)
         else
           let (r, s) = syscall os (CFtell f) s;
               pos = of_int (ret r);
               (r, s) = syscall os (CFseek f 0 SEEK_END) s;
               n = of_int (ret r);
               s = ignore os (CFseek f pos SEEK_SET) s;
               s = s\<lparr>m_stat := (m_stat s)(buff := ansi_stat_of n)\<rparr>;
               s = (if owned then ignore os (CFclose f) s else s)
           in (YO_OK, s))"

definition ansi_tty_in :: "'w os \<Rightarrow> addr \<Rightarrow> ('w, 'z) an_scheme \<Rightarrow> yo_code \<times> ('w, 'z) an_scheme" where
  "ansi_tty_in os pres s = ansi_fd_new os pres (an_stdin s) False s"

definition ansi_tty_out :: "'w os \<Rightarrow> addr \<Rightarrow> ('w, 'z) an_scheme \<Rightarrow> yo_code \<times> ('w, 'z) an_scheme" where
  "ansi_tty_out os pres s = ansi_fd_new os pres (an_stdout s) False s"

definition ansi_tty_err :: "'w os \<Rightarrow> addr \<Rightarrow> ('w, 'z) an_scheme \<Rightarrow> yo_code \<times> ('w, 'z) an_scheme" where
  "ansi_tty_err os pres s = ansi_fd_new os pres (an_stderr s) False s"

section \<open>What the backend refuses\<close>

definition ansi_tty_raw :: "addr \<Rightarrow> addr \<Rightarrow> ('w, 'z) an_scheme \<Rightarrow> yo_code \<times> ('w, 'z) an_scheme" where
  "ansi_tty_raw tty pres s = (YO_ENOTSUP, s)"

definition ansi_tty_rawend :: "addr \<Rightarrow> ('w, 'z) an_scheme \<Rightarrow> yo_code \<times> ('w, 'z) an_scheme" where
  "ansi_tty_rawend rawmode s = (YO_ENOTSUP, s)"

definition ansi_file_symlink :: "string \<Rightarrow> string \<Rightarrow> ('w, 'z) an_scheme \<Rightarrow> yo_code \<times> ('w, 'z) an_scheme" where
  "ansi_file_symlink path target s = (YO_ENOTSUP, s)"

definition ansi_file_hardlink :: "string \<Rightarrow> string \<Rightarrow> ('w, 'z) an_scheme \<Rightarrow> yo_code \<times> ('w, 'z) an_scheme" where
  "ansi_file_hardlink path target s = (YO_ENOTSUP, s)"

definition ansi_file_readlink :: "string \<Rightarrow> addr \<Rightarrow> ('w, 'z) an_scheme \<Rightarrow> yo_code \<times> ('w, 'z) an_scheme" where
  "ansi_file_readlink path pres s = (YO_ENOTSUP, s)"

definition ansi_dir_new :: "string \<Rightarrow> int \<Rightarrow> ('w, 'z) an_scheme \<Rightarrow> yo_code \<times> ('w, 'z) an_scheme" where
  "ansi_dir_new path mode s = (YO_ENOTSUP, s)"

definition ansi_dir_open :: "addr \<Rightarrow> string \<Rightarrow> ('w, 'z) an_scheme \<Rightarrow> yo_code \<times> ('w, 'z) an_scheme" where
  "ansi_dir_open pres path s = (YO_ENOTSUP, s)"

definition ansi_dir_next :: "addr \<Rightarrow> addr \<Rightarrow> ('w, 'z) an_scheme \<Rightarrow> yo_code \<times> ('w, 'z) an_scheme" where
  "ansi_dir_next dir pname s = (YO_ENOTSUP, s)"

definition ansi_socket_connect :: "addr \<Rightarrow> yo_proto \<Rightarrow> yo_addr \<Rightarrow> u16 \<Rightarrow> ('w, 'z) an_scheme \<Rightarrow> yo_code \<times> ('w, 'z) an_scheme" where
  "ansi_socket_connect pres proto ad port s = (YO_ENOTSUP, s)"

definition ansi_socket_bind :: "addr \<Rightarrow> yo_proto \<Rightarrow> yo_addr \<Rightarrow> u16 \<Rightarrow> u64 \<Rightarrow> ('w, 'z) an_scheme \<Rightarrow> yo_code \<times> ('w, 'z) an_scheme" where
  "ansi_socket_bind pres proto ad port max_n s = (YO_ENOTSUP, s)"

definition ansi_socket_accept :: "addr \<Rightarrow> addr \<Rightarrow> addr \<Rightarrow> addr \<Rightarrow> ('w, 'z) an_scheme \<Rightarrow> yo_code \<times> ('w, 'z) an_scheme" where
  "ansi_socket_accept server pres paddr pport s = (YO_ENOTSUP, s)"

definition ansi_dns_getaddrinfo :: "addr \<Rightarrow> string option \<Rightarrow> int \<Rightarrow> ('w, 'z) an_scheme \<Rightarrow> yo_code \<times> ('w, 'z) an_scheme" where
  "ansi_dns_getaddrinfo pres nam flags s = (YO_ENOTSUP, s)"

definition ansi_proc_spawn :: "addr \<Rightarrow> int \<Rightarrow> string list \<Rightarrow> string list \<Rightarrow> string option \<Rightarrow> addr \<Rightarrow> addr \<Rightarrow> addr \<Rightarrow> ('w, 'z) an_scheme \<Rightarrow> yo_code \<times> ('w, 'z) an_scheme" where
  "ansi_proc_spawn pres flags argv env cwd pin pout perr s = (YO_ENOTSUP, s)"

definition ansi_proc_wait :: "addr \<Rightarrow> addr \<Rightarrow> addr \<Rightarrow> ('w, 'z) an_scheme \<Rightarrow> yo_code \<times> ('w, 'z) an_scheme" where
  "ansi_proc_wait p psig pcode s = (YO_ENOTSUP, s)"

definition ansi_proc_disown :: "addr \<Rightarrow> ('w, 'z) an_scheme \<Rightarrow> yo_code \<times> ('w, 'z) an_scheme" where
  "ansi_proc_disown p s = (YO_ENOTSUP, s)"

definition evs_dir_close :: "addr \<Rightarrow> ('w, 'z) an_scheme \<Rightarrow> ('w, 'z) an_scheme" where
  "evs_dir_close dir s = s"

section \<open>Files\<close>

definition ansi_file_remove :: "'w os \<Rightarrow> string \<Rightarrow> ('w, 'z) an_scheme \<Rightarrow> yo_code \<times> ('w, 'z) an_scheme" where
  "ansi_file_remove os path s =
     (let (r, s) = syscall os (CRemove path) s
      in if ret r < 0 then (yoi_ansi_conv_errno (errno s) YO_ENOENT, s) else (YO_OK, s))"

text \<open>The mode that the switch of \<open>yo_file_open\<close> chooses for the masked flags.\<close>

definition open_mode :: "int \<Rightarrow> string option" where
  "open_mode flags = map_of
     [(YO_OPEN_READ, ''rb''), (YO_OPEN_READ OR YO_OPEN_WRITE, ''rb+''),
      (YO_OPEN_WRITE OR YO_OPEN_APPEND OR YO_OPEN_CREATE, ''ab''), (YO_OPEN_APPEND OR YO_OPEN_CREATE, ''ab''),
      (YO_OPEN_WRITE OR YO_OPEN_TRUNC, ''wb''), (YO_OPEN_READ OR YO_OPEN_WRITE OR YO_OPEN_TRUNC, ''wb+'')] flags"

definition ansi_file_open ::
  "'w os \<Rightarrow> addr \<Rightarrow> string \<Rightarrow> int \<Rightarrow> int \<Rightarrow> ('w, 'z) an_scheme \<Rightarrow> yo_code \<times> ('w, 'z) an_scheme" where
  "ansi_file_open os pres path flags mode s =
     (let (res, s) = malloc os sizeof_an_fd s
      in if res = NULL then (YO_ENOMEM, s)
         else
           let flags = flags AND NOT (YO_OPEN_SHARED OR YO_OPEN_DIRECT)
           in if flags = YO_OPEN_STAT then
                let (ok, s) = ansi_mkat os res path s
                in if \<not> ok then (YO_ENOMEM, s) else (YO_OK, set_ptr pres res s)
              else
                case open_mode flags of
                  None \<Rightarrow> (YO_ENOTSUP, s)
                | Some m \<Rightarrow>
                    let (r, s) = syscall os (CFopen path m) s
                    in if ptr r = NULL then (YO_ENOENT, s)
                       else
                         let s = ansi_mkfd res (ptr r) s
                         in (YO_OK, set_ptr pres res s))"

text \<open>The tests after a transfer at an offset, with the way back to the old position.\<close>

definition ansi_finish_at ::
  "'w os \<Rightarrow> addr \<Rightarrow> addr \<Rightarrow> u64 \<Rightarrow> u64 \<Rightarrow> ('w, 'z) an_scheme \<Rightarrow> yo_code \<times> ('w, 'z) an_scheme" where
  "ansi_finish_at os fd pn n was s =
     (let (r, s) = syscall os (CFerror (an_ptr s fd)) s
      in if ret r \<noteq> 0 then (YO_EIO, s)
         else
           let (r, s) = syscall os (CFeof (an_ptr s fd)) s
           in if ret r \<noteq> 0 then (YO_EOF, s)
              else
                let (r, s) = syscall os (CFseek (an_ptr s fd) was SEEK_SET) s
                in if ret r < 0 then (YO_EBADOP, s) else (YO_OK, set_size pn n s))"

definition ansi_file_read ::
  "'w os \<Rightarrow> addr \<Rightarrow> addr \<Rightarrow> addr \<Rightarrow> u64 \<Rightarrow> ('w, 'z) an_scheme \<Rightarrow> yo_code \<times> ('w, 'z) an_scheme" where
  "ansi_file_read os fd buff pn offset s =
     (if \<not> ansi_isfd fd s then (YO_EBADFD, s)
      else
        let (r, s) = syscall os (CFtell (an_ptr s fd)) s;
            was = of_int (ret r);
            (r, s) = syscall os (CFseek (an_ptr s fd) offset SEEK_SET) s
        in if ret r < 0 then (YO_EBADOP, s)
           else
             let (r, s) = syscall os (CFread (an_ptr s fd) 1 (m_size s pn)) s;
                 s = store_bytes buff (r_bytes r) s
             in ansi_finish_at os fd pn (of_int (ret r)) was s)"

definition ansi_file_write ::
  "'w os \<Rightarrow> addr \<Rightarrow> addr \<Rightarrow> addr \<Rightarrow> u64 \<Rightarrow> ('w, 'z) an_scheme \<Rightarrow> yo_code \<times> ('w, 'z) an_scheme" where
  "ansi_file_write os fd buff pn offset s =
     (if \<not> ansi_isfd fd s then (YO_EBADFD, s)
      else
        let (r, s) = syscall os (CFtell (an_ptr s fd)) s;
            was = of_int (ret r);
            (r, s) = syscall os (CFseek (an_ptr s fd) offset SEEK_SET) s
        in if ret r < 0 then (YO_EBADOP, s)
           else
             let (r, s) = syscall os (CFwrite (an_ptr s fd) (load_bytes buff (m_size s pn) s) 1 (m_size s pn)) s
             in ansi_finish_at os fd pn (of_int (ret r)) was s)"

definition ansi_file_chmod :: "addr \<Rightarrow> int \<Rightarrow> ('w, 'z) an_scheme \<Rightarrow> yo_code \<times> ('w, 'z) an_scheme" where
  "ansi_file_chmod fd mode s = (YO_OK, s)"

definition ansi_file_chown :: "addr \<Rightarrow> int \<Rightarrow> int \<Rightarrow> ('w, 'z) an_scheme \<Rightarrow> yo_code \<times> ('w, 'z) an_scheme" where
  "ansi_file_chown fd uid gid s = (YO_OK, s)"

section \<open>Signals\<close>

text \<open>\<open>signal(sig, SIG_IGN)\<close> and \<open>signal(sig, SIG_DFL)\<close>, with the constant \<open>ign\<close> true and false.\<close>

definition ansi_signal :: "'w os \<Rightarrow> yo_signo \<Rightarrow> bool \<Rightarrow> ('w, 'z) sys_scheme \<Rightarrow> ('w, 'z) sys_scheme" where
  "ansi_signal os sig ign s =
     (case sig of
        YO_SIGINT \<Rightarrow> ignore os (CSignal SIGINT ign) s
      | YO_SIGABRT \<Rightarrow> ignore os (CSignal SIGABRT ign) s
      | YO_SIGTERM \<Rightarrow> ignore os (CSignal SIGTERM ign) s
      | YO_SIGBADMEM \<Rightarrow> ignore os (CSignal SIGSEGV ign) s
      | YO_SIGBADOP \<Rightarrow> ignore os (CSignal SIGILL ign) s
      | _ \<Rightarrow> s)"

definition ansi_sig_on :: "'w os \<Rightarrow> yo_signo \<Rightarrow> ('w, 'z) sys_scheme \<Rightarrow> yo_code \<times> ('w, 'z) sys_scheme" where
  "ansi_sig_on os sig s = (YO_OK, ansi_signal os sig True s)"

definition ansi_sig_off :: "'w os \<Rightarrow> yo_signo \<Rightarrow> ('w, 'z) sys_scheme \<Rightarrow> yo_code \<times> ('w, 'z) sys_scheme" where
  "ansi_sig_off os sig s = (YO_OK, ansi_signal os sig False s)"

text \<open>\<open>while (true);\<close>\<close>

definition ansi_sig_wait :: "addr \<Rightarrow> ('w, 'z) sys_scheme \<Rightarrow> (yo_code \<times> ('w, 'z) sys_scheme) option" where
  "ansi_sig_wait pres s = None"

definition ansi_yoa_sig_wait :: "addr \<Rightarrow> addr \<Rightarrow> ('w, 'z) rq_scheme \<Rightarrow> yo_code \<times> ('w, 'z) rq_scheme" where
  "ansi_yoa_sig_wait req pres s = (YO_OK, yoi_req_begin req NoopCb s)"

section \<open>Paths and environment\<close>

definition ansi_path ::
  "'w os \<Rightarrow> string \<Rightarrow> string \<Rightarrow> string option \<Rightarrow> addr \<Rightarrow> ('w, 'z) sys_scheme \<Rightarrow> (yo_code \<times> ('w, 'z) sys_scheme) option" where
  "ansi_path os envname fallback suffix pres s =
     do {
       (p, s) \<leftarrow> ansi_getenvpath os envname fallback suffix s;
       let s = set_ptr pres p s in
       Some (if p = NULL then YO_ENOMEM else YO_OK, s)
     }"

definition ansi_getpath ::
  "'w os \<Rightarrow> yo_path_type \<Rightarrow> addr \<Rightarrow> ('w, 'z) sys_scheme \<Rightarrow> (yo_code \<times> ('w, 'z) sys_scheme) option" where
  "ansi_getpath os kind pres s =
     (case kind of
        YO_PATH_HOME \<Rightarrow> ansi_path os ''HOME'' ''.'' None pres s
      | YO_PATH_CACHE \<Rightarrow> ansi_path os ''XDG_CACHE_HOME'' ''.'' (Some ''/.cache'') pres s
      | YO_PATH_CONFIG \<Rightarrow> ansi_path os ''XDG_CONFIG_HOME'' ''.'' (Some ''/.config'') pres s
      | YO_PATH_DATA \<Rightarrow> ansi_path os ''XDG_DATA_HOME'' ''.'' (Some ''/.local/share'') pres s
      | YO_PATH_RUNTIME \<Rightarrow> ansi_path os ''XDG_DATA_HOME'' ''/tmp'' None pres s
      | YO_PATH_CWD \<Rightarrow> ansi_path os ''PWD'' ''.'' None pres s
      | YO_PATH_OTHER _ \<Rightarrow> Some (YO_EINVAL, s))"

definition ansi_env_get :: "'w os \<Rightarrow> string \<Rightarrow> addr \<Rightarrow> ('w, 'z) sys_scheme \<Rightarrow> yo_code \<times> ('w, 'z) sys_scheme" where
  "ansi_env_get os nam pres s =
     (let (r, s) = syscall os (CGetenv nam) s
      in case r_text r of
           None \<Rightarrow> (YO_OK, set_ptr pres NULL s)
         | Some val \<Rightarrow>
             let (res, s) = malloc os (of_nat (length val) + 1) s
             in if res = NULL then (YO_ENOMEM, s)
                else
                  let s = store_bytes res (cstr val) s
                  in (YO_OK, set_ptr pres res s))"

definition ansi_env_set :: "'w os \<Rightarrow> string \<Rightarrow> string option \<Rightarrow> ('w, 'z) sys_scheme \<Rightarrow> yo_code \<times> ('w, 'z) sys_scheme" where
  "ansi_env_set os nam val s =
     (case val of
        None \<Rightarrow> let (r, s) = syscall os (CUnsetenv nam) s in if ret r < 0 then (YO_ENOMEM, s) else (YO_OK, s)
      | Some v \<Rightarrow> let (r, s) = syscall os (CSetenv nam v) s in if ret r < 0 then (YO_ENOMEM, s) else (YO_OK, s))"

definition ansi_nextenv :: "addr \<Rightarrow> addr \<Rightarrow> ('w, 'z) sys_scheme \<Rightarrow> yo_code \<times> ('w, 'z) sys_scheme" where
  "ansi_nextenv pit ppair s = (YO_OK, set_ptr ppair NULL s)"

definition ansi_enviter_new :: "'w os \<Rightarrow> ('w, 'z) an_scheme \<Rightarrow> addr \<times> ('w, 'z) an_scheme" where
  "ansi_enviter_new os s =
     (let (res, s) = malloc os sizeof_yo_enviter s
      in if res = NULL then (NULL, s)
         else (res, s\<lparr>an_enviter := (an_enviter s)(res := an_environ s)\<rparr>))"

definition ansi_enviter_next :: "addr \<Rightarrow> addr \<Rightarrow> ('w, 'z) an_scheme \<Rightarrow> yo_code \<times> ('w, 'z) an_scheme" where
  "ansi_enviter_next iter pres s =
     (let pair = m_ptr s (an_enviter s iter);
          s = (if pair \<noteq> NULL then s\<lparr>an_enviter := (an_enviter s)(iter := an_enviter s iter + 8)\<rparr> else s)
      in (YO_OK, set_ptr pres pair s))"

definition ansi_enviter_close :: "'w os \<Rightarrow> addr \<Rightarrow> ('w, 'z) an_scheme \<Rightarrow> ('w, 'z) an_scheme" where
  "ansi_enviter_close os iter s = free os iter s"

section \<open>Time\<close>

abbreviation (input) CLOCKS_PER_SEC :: int where "CLOCKS_PER_SEC \<equiv> 1000000"

definition ansi_time :: "'w os \<Rightarrow> yo_clock_t \<Rightarrow> ('w, 'z) sys_scheme \<Rightarrow> yo_time \<times> ('w, 'z) sys_scheme" where
  "ansi_time os kind s =
     (case kind of
        YO_CLOCK_REAL \<Rightarrow> let (r, s) = syscall os CTime s in (\<lparr>sec = of_int (ret r), nsec = 0\<rparr>, s)
      | _ \<Rightarrow>
          let (r, s) = syscall os CTicks s;
              now = ret r
          in (\<lparr>sec = of_int (now sdiv CLOCKS_PER_SEC), nsec = of_int (now smod CLOCKS_PER_SEC * 1000)\<rparr>, s))"

partial_function (option) spin :: "'w os \<Rightarrow> int \<Rightarrow> ('w, 'z) sys_scheme \<Rightarrow> ('w, 'z) sys_scheme option" where
  "spin os until s =
     (let (r, s) = syscall os CTicks s
      in if ret r < until then spin os until s else Some s)"

definition ansi_timesleep :: "'w os \<Rightarrow> yo_time \<Rightarrow> ('w, 'z) sys_scheme \<Rightarrow> ('w, 'z) sys_scheme option" where
  "ansi_timesleep os time s =
     (let until = sint (sec time * of_int CLOCKS_PER_SEC + ucast (nsec time div 1000))
      in spin os until s)"

section \<open>Streams\<close>

lemma an_after_simps [simp]:
  "an_owned (after os q s) = an_owned s" "an_kind (after os q s) = an_kind s"
  "an_ptr (after os q s) = an_ptr s" "an_text (after os q s) = an_text s"
  by (simp_all add: after_eq)

lemma an_store_simps [simp]:
  "an_ptr (store_bytes p bs s) = an_ptr s" "an_kind (store_bytes p bs s) = an_kind s"
  by (simp_all add: store_bytes_def)

lemmas ansi_simps = sys_simps Let_def ansi_isfd_def ansi_finish_def ansi_finish_at_def ansi_mkfd_def ansi_mkat_def
  set_size_def set_ptr_def

text \<open>
  What the C library promises of the streams: \<open>pos\<close> is the position of a stream. \<open>ftell\<close> reports it,
  \<open>fseek\<close> sets it, a transfer of bytes moves it on, and the tests do not.
\<close>

definition streams :: "'w os \<Rightarrow> ('w \<Rightarrow> addr \<Rightarrow> nat) \<Rightarrow> bool" where
  "streams os pos \<longleftrightarrow> (\<forall>w f. pos w f < 2 ^ 63
     \<and> ret (fst (os w (CFtell f))) = int (pos w f) \<and> pos (snd (os w (CFtell f))) = pos w
     \<and> (\<forall>n. 0 \<le> ret (fst (os w (CFseek f n SEEK_SET))) \<longrightarrow> pos (snd (os w (CFseek f n SEEK_SET))) f = unat n)
     \<and> (\<forall>n. let (r, w') = os w (CFread f 1 n) in 0 \<le> ret r \<and> pos w' f = pos w f + nat (ret r))
     \<and> pos (snd (os w (CFerror f))) = pos w \<and> pos (snd (os w (CFeof f))) = pos w)"

lemma streamsD:
  assumes "streams os pos"
  shows "pos w f < 2 ^ 63" "ret (fst (os w (CFtell f))) = int (pos w f)" "pos (snd (os w (CFtell f))) = pos w"
    "0 \<le> ret (fst (os w (CFseek f n SEEK_SET))) \<Longrightarrow> pos (snd (os w (CFseek f n SEEK_SET))) f = unat n"
    "0 \<le> ret (fst (os w (CFread f 1 m)))"
    "pos (snd (os w (CFread f 1 m))) f = pos w f + nat (ret (fst (os w (CFread f 1 m))))"
    "pos (snd (os w (CFerror f))) = pos w" "pos (snd (os w (CFeof f))) = pos w"
  using assms by (auto simp: streams_def split_beta Let_def)

text \<open>
  C35: \<open>yo_file_read\<close> of the ANSI backend puts the stream back where it was when it succeeds; when it reports
  the end of the file it leaves the stream behind the bytes that it read, at the offset plus their number.
\<close>

theorem ansi_pread_position:
  assumes "streams os pos" and "an_kind s fd = YOI_ANSI_FILE" and "ansi_file_read os fd buff pn offset s = (c, s')"
  shows "(c = YO_OK \<longrightarrow> pos (world s') (an_ptr s fd) = pos (world s) (an_ptr s fd))
    \<and> (c = YO_EOF \<longrightarrow> (\<exists>r. (CFread (an_ptr s fd) 1 (m_size s pn), r) \<in> set (trace s')
         \<and> pos (world s') (an_ptr s fd) = unat offset + nat (ret r)))"
proof -
  let ?f = "an_ptr s fd"
  have word: "unat (of_nat (pos (world s) ?f) :: u64) = pos (world s) ?f"
    using streamsD(1) [OF assms(1), of "world s" ?f] by (simp add: unat_of_nat take_bit_nat_eq_self)
  show ?thesis
    using assms(2,3) streamsD [OF assms(1)]
    by (auto simp: ansi_file_read_def ansi_simps reply_of_def word not_less split: if_splits)
qed

text \<open>A library with streams whose reads return three bytes.\<close>

definition stream_os :: "(addr \<Rightarrow> nat) os" where
  "stream_os w q = (case q of
     CStd (SFtell f) \<Rightarrow> (returns (int (w f mod 2 ^ 63)), w)
   | CStd (SFseek f n wh) \<Rightarrow> if unat n < 2 ^ 63 then (returns 0, w(f := unat n)) else (failed (-1) EINVAL, w)
   | CStd (SFread f a b) \<Rightarrow>
       let k = (if w f mod 2 ^ 63 + 3 < 2 ^ 63 then 3 else 0)
       in (returns (int k), w(f := w f mod 2 ^ 63 + k))
   | _ \<Rightarrow> (returns 0, w))"

lemma stream_os_streams: "streams stream_os (\<lambda>w f. w f mod 2 ^ 63)"
  unfolding streams_def by (auto simp: stream_os_def Let_def failed_def returns_def)

definition an_state :: "'w \<Rightarrow> 'w an" where
  "an_state w = rq.extend (empty_rq w) \<lparr>an_owned = (\<lambda>_. True), an_kind = (\<lambda>_. YOI_ANSI_FILE), an_ptr = (\<lambda>_. 7),
     an_text = (\<lambda>_. []), an_environ = 0, an_enviter = (\<lambda>_. 0), an_stdin = 1, an_stdout = 2, an_stderr = 3\<rparr>"

lemmas an_state_simps = an_state_def empty_rq_def idle_def rq.defs io.defs

lemma ansi_pread_position_witness:
  "\<exists>s'. ansi_file_read stream_os 4 64 8 100 (an_state (\<lambda>_. 10)) = (YO_OK, s') \<and> world s' 7 mod 2 ^ 63 = 10"
proof -
  let ?r = "ansi_file_read stream_os 4 64 8 100 (an_state (\<lambda>_. 10))"
  have "fst ?r = YO_OK"
    by (simp add: ansi_file_read_def ansi_simps reply_of_def stream_os_def an_state_simps)
  then obtain s' where r: "?r = (YO_OK, s')" by (cases ?r) simp
  have "an_kind (an_state w) 4 = YOI_ANSI_FILE" and "an_ptr (an_state w) 4 = 7" and "world (an_state w) = w"
    for w :: "addr \<Rightarrow> nat"
    by (simp_all add: an_state_simps)
  with ansi_pread_position [OF stream_os_streams _ r] r show ?thesis by simp
qed

section \<open>What the streams do not get\<close>

text \<open>
  \<open>yo_write\<close> of the ANSI backend never writes to the stream of its handle: the stream
  that it clears and writes to is the address of the handle itself. And \<open>yo_stat\<close> reports the result of \<open>fseek\<close>
  as the size, so it is zero whenever the file could be sought.
\<close>

theorem ansi_write_and_stat:
  assumes "an_kind s fd = YOI_ANSI_FILE"
  shows "(\<exists>r1 r2 rs. trace (snd (ansi_write os fd buff pn s)) =
      trace s @ (CClearerr fd, r1) # (CFwrite fd (load_bytes buff (m_size s pn) s) (m_size s pn) 1, r2) # rs
      \<and> fst ` set rs \<subseteq> {CFerror (an_ptr s fd), CFeof (an_ptr s fd)})
    \<and> (\<forall>c s'. ansi_stat os fd st s = (c, s') \<longrightarrow> c = YO_OK \<and>
        (\<exists>r. (CFseek (an_ptr s fd) 0 SEEK_END, r) \<in> set (trace s') \<and> size_of (m_stat s' st) = of_int (ret r)))"
proof
  have "load_bytes buff n (after os q s) = load_bytes buff n s" for n q
    by (simp add: load_bytes_def)
  then show "\<exists>r1 r2 rs. trace (snd (ansi_write os fd buff pn s)) =
      trace s @ (CClearerr fd, r1) # (CFwrite fd (load_bytes buff (m_size s pn) s) (m_size s pn) 1, r2) # rs
      \<and> fst ` set rs \<subseteq> {CFerror (an_ptr s fd), CFeof (an_ptr s fd)}"
    using assms by (simp add: ansi_write_def ansi_simps)
  show "\<forall>c s'. ansi_stat os fd st s = (c, s') \<longrightarrow> c = YO_OK \<and>
      (\<exists>r. (CFseek (an_ptr s fd) 0 SEEK_END, r) \<in> set (trace s') \<and> size_of (m_stat s' st) = of_int (ret r))"
    using assms by (auto simp: ansi_stat_def ansi_stat_of_def ansi_simps)
qed

lemma ansi_write_and_stat_witness:
  "fst (ansi_stat stream_os 4 64 (an_state (\<lambda>_. 10))) = YO_OK"
  using ansi_write_and_stat [of "an_state (\<lambda>_. 10)" 4 stream_os 8 9 64]
  by (cases "ansi_stat stream_os 4 64 (an_state (\<lambda>_. 10))") (simp add: an_state_simps)

text \<open>
  \<open>yo_file_open\<close> of the ANSI backend gives the caller a new handle with exactly its stream or its path, or
  fails without writing \<open>*pres\<close>. Every failure but the first, when there is no memory for the handle,
  loses the memory of the handle.
\<close>

theorem ansi_open_outcome:
  assumes "ansi_file_open os pres path flags mode s = (c, s')"
  shows "(c = YO_OK \<longrightarrow> an_owned s' (m_ptr s' pres) \<and>
        gained [Mem (m_ptr s' pres), if an_kind s' (m_ptr s' pres) = YOI_ANSI_AT then Mem (an_ptr s' (m_ptr s' pres))
          else Stream (an_ptr s' (m_ptr s' pres))] s s')
    \<and> (c \<noteq> YO_OK \<longrightarrow> m_ptr s' = m_ptr s \<and>
        (let res = ptr (reply_of os (CMalloc 16) s) in gained (if res = NULL then [] else [Mem res]) s s'))"
  using assms
  by (auto simp: ansi_file_open_def ansi_simps ledger_simps split: if_splits option.splits)

lemma ansi_open_outcome_witness:
  "\<exists>s'. ansi_file_open (table_os []) 1 ''log'' 4 0 (an_state ()) = (YO_ENOTSUP, s') \<and> gained [Mem 4096] (an_state ()) s'"
proof -
  let ?r = "ansi_file_open (table_os []) 1 ''log'' 4 0 (an_state ())"
  have "fst ?r = YO_ENOTSUP" and m: "ptr (reply_of (table_os []) (CMalloc 16) (an_state ())) = 4096"
    by (simp_all add: ansi_file_open_def ansi_simps reply_of_def table_os_def returns_pointer_def open_mode_def)
  then obtain s' where r: "?r = (YO_ENOTSUP, s')" by (cases ?r) simp
  from ansi_open_outcome [OF r] r m show ?thesis by (simp add: Let_def)
qed

text \<open>
  \<open>yo_timesleep\<close> of the ANSI backend ends when \<open>clock\<close> reaches the given time and not before:
  the last reading of the clock is not below the time, all earlier ones are. \<open>left\<close> bounds the readings that are still below.
\<close>

theorem ansi_timesleep_returns:
  assumes "\<And>w. ret (fst (os w CTicks)) < sint (sec t * 1000000 + ucast (nsec t div 1000)) \<Longrightarrow> left (snd (os w CTicks)) < (left w :: nat)"
  shows "\<exists>s' rs r. ansi_timesleep os t s = Some s' \<and> trace s' = trace s @ map (Pair CTicks) (rs @ [r])
    \<and> (\<forall>x \<in> set rs. ret x < sint (sec t * 1000000 + ucast (nsec t div 1000)))
    \<and> sint (sec t * 1000000 + ucast (nsec t div 1000)) \<le> ret r"
proof -
  let ?u = "sint (sec t * 1000000 + ucast (nsec t div 1000))"
  have "\<exists>s' rs r. spin os ?u s = Some s' \<and> trace s' = trace s @ map (Pair CTicks) (rs @ [r])
      \<and> (\<forall>x \<in> set rs. ret x < ?u) \<and> ?u \<le> ret r"
  proof (induction "left (world s)" arbitrary: s rule: less_induct)
    case less
    let ?r = "reply_of os CTicks s" let ?t = "after os CTicks s"
    show ?case
    proof (cases "ret ?r < ?u")
      case False
      then show ?thesis
        by (subst spin.simps) (auto simp: sys_simps intro!: exI [of _ "[]"])
    next
      case True
      then have "left (world ?t) < left (world s)"
        using assms by (simp add: reply_of_def)
      from less.hyps [OF this] obtain s' rs r where IH: "spin os ?u ?t = Some s'"
          "trace s' = trace ?t @ map (Pair CTicks) (rs @ [r])" "\<forall>x \<in> set rs. ret x < ?u" "?u \<le> ret r"
        by blast
      have "spin os ?u s = Some s'" using True IH(1) by (subst spin.simps) (simp add: sys_simps)
      then show ?thesis
        using True IH(2-4) by (intro exI [of _ s'] exI [of _ "?r # rs"] exI [of _ r]) simp
    qed
  qed
  then show ?thesis by (simp add: ansi_timesleep_def)
qed

text \<open>A clock that stands at a million minus the number of ticks that are left.\<close>

definition ticks_os :: "nat os" where
  "ticks_os n q = (case q of CStd STicks \<Rightarrow> (returns (1000000 - int n), n - 1) | _ \<Rightarrow> (returns 0, n))"

lemma ansi_timesleep_returns_witness:
  "\<exists>s' rs r. ansi_timesleep ticks_os \<lparr>sec = 1, nsec = 0\<rparr> (an_state 5) = Some s'
    \<and> trace s' = trace (an_state (5 :: nat)) @ map (Pair CTicks) (rs @ [r]) \<and> 1000000 \<le> ret r"
proof -
  have "id (snd (ticks_os w CTicks)) < id w"
    if "ret (fst (ticks_os w CTicks)) < sint (sec \<lparr>sec = 1, nsec = 0\<rparr> * 1000000 + ucast (nsec \<lparr>sec = 1, nsec = 0\<rparr> div 1000))" for w
    using that by (cases w) (simp_all add: ticks_os_def)
  from ansi_timesleep_returns [where left = id and os = ticks_os and t = "\<lparr>sec = 1, nsec = 0\<rparr>" and s = "an_state 5", OF this] show ?thesis by fastforce
qed

end
