(* ===== verification/WinConv.thy ===== *)
theory WinConv
  imports SockAddr Posix
begin

text \<open>
  The conversions of \<open>src/win/impl.c\<close>: error codes, file times, paths and the command line of a new process.
  The constants have their values of \<open>winerror.h\<close> and \<open>winsock2.h\<close>. The socket addresses are in the theory
  \<open>SockAddr\<close>.
\<close>

section \<open>Error codes\<close>

abbreviation (input) ERROR_ACCESS_DENIED :: int where "ERROR_ACCESS_DENIED \<equiv> 5"
abbreviation (input) ERROR_ACTIVE_CONNECTIONS :: int where "ERROR_ACTIVE_CONNECTIONS \<equiv> 2402"
abbreviation (input) ERROR_ADDRESS_ALREADY_ASSOCIATED :: int where "ERROR_ADDRESS_ALREADY_ASSOCIATED \<equiv> 1227"
abbreviation (input) ERROR_ALREADY_EXISTS :: int where "ERROR_ALREADY_EXISTS \<equiv> 183"
abbreviation (input) ERROR_BAD_DEVICE :: int where "ERROR_BAD_DEVICE \<equiv> 1200"
abbreviation (input) ERROR_BAD_EXE_FORMAT :: int where "ERROR_BAD_EXE_FORMAT \<equiv> 193"
abbreviation (input) ERROR_BAD_NET_NAME :: int where "ERROR_BAD_NET_NAME \<equiv> 67"
abbreviation (input) ERROR_BAD_NET_RESP :: int where "ERROR_BAD_NET_RESP \<equiv> 58"
abbreviation (input) ERROR_BAD_NETPATH :: int where "ERROR_BAD_NETPATH \<equiv> 53"
abbreviation (input) ERROR_BAD_PATHNAME :: int where "ERROR_BAD_PATHNAME \<equiv> 161"
abbreviation (input) ERROR_BAD_PIPE :: int where "ERROR_BAD_PIPE \<equiv> 230"
abbreviation (input) ERROR_BAD_UNIT :: int where "ERROR_BAD_UNIT \<equiv> 20"
abbreviation (input) ERROR_BAD_USERNAME :: int where "ERROR_BAD_USERNAME \<equiv> 2202"
abbreviation (input) ERROR_BEGINNING_OF_MEDIA :: int where "ERROR_BEGINNING_OF_MEDIA \<equiv> 1102"
abbreviation (input) ERROR_BROKEN_PIPE :: int where "ERROR_BROKEN_PIPE \<equiv> 109"
abbreviation (input) ERROR_BUFFER_OVERFLOW :: int where "ERROR_BUFFER_OVERFLOW \<equiv> 111"
abbreviation (input) ERROR_BUS_RESET :: int where "ERROR_BUS_RESET \<equiv> 1111"
abbreviation (input) ERROR_BUSY :: int where "ERROR_BUSY \<equiv> 170"
abbreviation (input) ERROR_CALL_NOT_IMPLEMENTED :: int where "ERROR_CALL_NOT_IMPLEMENTED \<equiv> 120"
abbreviation (input) ERROR_CANCELLED :: int where "ERROR_CANCELLED \<equiv> 1223"
abbreviation (input) ERROR_CANNOT_MAKE :: int where "ERROR_CANNOT_MAKE \<equiv> 82"
abbreviation (input) ERROR_CANT_RESOLVE_FILENAME :: int where "ERROR_CANT_RESOLVE_FILENAME \<equiv> 1921"
abbreviation (input) ERROR_CHILD_NOT_COMPLETE :: int where "ERROR_CHILD_NOT_COMPLETE \<equiv> 129"
abbreviation (input) ERROR_COMMITMENT_LIMIT :: int where "ERROR_COMMITMENT_LIMIT \<equiv> 1455"
abbreviation (input) ERROR_CONNECTION_ABORTED :: int where "ERROR_CONNECTION_ABORTED \<equiv> 1236"
abbreviation (input) ERROR_CONNECTION_REFUSED :: int where "ERROR_CONNECTION_REFUSED \<equiv> 1225"
abbreviation (input) ERROR_CRC :: int where "ERROR_CRC \<equiv> 23"
abbreviation (input) ERROR_DEV_NOT_EXIST :: int where "ERROR_DEV_NOT_EXIST \<equiv> 55"
abbreviation (input) ERROR_DEVICE_DOOR_OPEN :: int where "ERROR_DEVICE_DOOR_OPEN \<equiv> 1166"
abbreviation (input) ERROR_DEVICE_IN_USE :: int where "ERROR_DEVICE_IN_USE \<equiv> 2404"
abbreviation (input) ERROR_DEVICE_REQUIRES_CLEANING :: int where "ERROR_DEVICE_REQUIRES_CLEANING \<equiv> 1165"
abbreviation (input) ERROR_DIR_NOT_EMPTY :: int where "ERROR_DIR_NOT_EMPTY \<equiv> 145"
abbreviation (input) ERROR_DIRECTORY :: int where "ERROR_DIRECTORY \<equiv> 267"
abbreviation (input) ERROR_DISK_CORRUPT :: int where "ERROR_DISK_CORRUPT \<equiv> 1393"
abbreviation (input) ERROR_DISK_FULL :: int where "ERROR_DISK_FULL \<equiv> 112"
abbreviation (input) ERROR_DS_GENERIC_ERROR :: int where "ERROR_DS_GENERIC_ERROR \<equiv> 8341"
abbreviation (input) ERROR_DUP_NAME :: int where "ERROR_DUP_NAME \<equiv> 52"
abbreviation (input) ERROR_EA_LIST_INCONSISTENT :: int where "ERROR_EA_LIST_INCONSISTENT \<equiv> 255"
abbreviation (input) ERROR_EA_TABLE_FULL :: int where "ERROR_EA_TABLE_FULL \<equiv> 277"
abbreviation (input) ERROR_EAS_DIDNT_FIT :: int where "ERROR_EAS_DIDNT_FIT \<equiv> 275"
abbreviation (input) ERROR_EAS_NOT_SUPPORTED :: int where "ERROR_EAS_NOT_SUPPORTED \<equiv> 282"
abbreviation (input) ERROR_END_OF_MEDIA :: int where "ERROR_END_OF_MEDIA \<equiv> 1100"
abbreviation (input) ERROR_EOM_OVERFLOW :: int where "ERROR_EOM_OVERFLOW \<equiv> 1129"
abbreviation (input) ERROR_EXE_MACHINE_TYPE_MISMATCH :: int where "ERROR_EXE_MACHINE_TYPE_MISMATCH \<equiv> 216"
abbreviation (input) ERROR_EXE_MARKED_INVALID :: int where "ERROR_EXE_MARKED_INVALID \<equiv> 192"
abbreviation (input) ERROR_FILE_CORRUPT :: int where "ERROR_FILE_CORRUPT \<equiv> 1392"
abbreviation (input) ERROR_FILE_EXISTS :: int where "ERROR_FILE_EXISTS \<equiv> 80"
abbreviation (input) ERROR_FILE_INVALID :: int where "ERROR_FILE_INVALID \<equiv> 1006"
abbreviation (input) ERROR_FILE_NOT_FOUND :: int where "ERROR_FILE_NOT_FOUND \<equiv> 2"
abbreviation (input) ERROR_FILEMARK_DETECTED :: int where "ERROR_FILEMARK_DETECTED \<equiv> 1101"
abbreviation (input) ERROR_FILENAME_EXCED_RANGE :: int where "ERROR_FILENAME_EXCED_RANGE \<equiv> 206"
abbreviation (input) ERROR_GEN_FAILURE :: int where "ERROR_GEN_FAILURE \<equiv> 31"
abbreviation (input) ERROR_HANDLE_DISK_FULL :: int where "ERROR_HANDLE_DISK_FULL \<equiv> 39"
abbreviation (input) ERROR_HANDLE_EOF :: int where "ERROR_HANDLE_EOF \<equiv> 38"
abbreviation (input) ERROR_HOST_UNREACHABLE :: int where "ERROR_HOST_UNREACHABLE \<equiv> 1232"
abbreviation (input) ERROR_INSUFFICIENT_BUFFER :: int where "ERROR_INSUFFICIENT_BUFFER \<equiv> 122"
abbreviation (input) ERROR_INVALID_ADDRESS :: int where "ERROR_INVALID_ADDRESS \<equiv> 487"
abbreviation (input) ERROR_INVALID_AT_INTERRUPT_TIME :: int where "ERROR_INVALID_AT_INTERRUPT_TIME \<equiv> 104"
abbreviation (input) ERROR_INVALID_BLOCK_LENGTH :: int where "ERROR_INVALID_BLOCK_LENGTH \<equiv> 1106"
abbreviation (input) ERROR_INVALID_DATA :: int where "ERROR_INVALID_DATA \<equiv> 13"
abbreviation (input) ERROR_INVALID_DRIVE :: int where "ERROR_INVALID_DRIVE \<equiv> 15"
abbreviation (input) ERROR_INVALID_EA_NAME :: int where "ERROR_INVALID_EA_NAME \<equiv> 254"
abbreviation (input) ERROR_INVALID_EXE_SIGNATURE :: int where "ERROR_INVALID_EXE_SIGNATURE \<equiv> 191"
abbreviation (input) ERROR_INVALID_FLAGS :: int where "ERROR_INVALID_FLAGS \<equiv> 1004"
abbreviation (input) ERROR_INVALID_FUNCTION :: int where "ERROR_INVALID_FUNCTION \<equiv> 1"
abbreviation (input) ERROR_INVALID_HANDLE :: int where "ERROR_INVALID_HANDLE \<equiv> 6"
abbreviation (input) ERROR_INVALID_NAME :: int where "ERROR_INVALID_NAME \<equiv> 123"
abbreviation (input) ERROR_INVALID_PARAMETER :: int where "ERROR_INVALID_PARAMETER \<equiv> 87"
abbreviation (input) ERROR_INVALID_REPARSE_DATA :: int where "ERROR_INVALID_REPARSE_DATA \<equiv> 4392"
abbreviation (input) ERROR_INVALID_SIGNAL_NUMBER :: int where "ERROR_INVALID_SIGNAL_NUMBER \<equiv> 209"
abbreviation (input) ERROR_IO_DEVICE :: int where "ERROR_IO_DEVICE \<equiv> 1117"
abbreviation (input) ERROR_IO_INCOMPLETE :: int where "ERROR_IO_INCOMPLETE \<equiv> 996"
abbreviation (input) ERROR_IO_PENDING :: int where "ERROR_IO_PENDING \<equiv> 997"
abbreviation (input) ERROR_IOPL_NOT_ENABLED :: int where "ERROR_IOPL_NOT_ENABLED \<equiv> 197"
abbreviation (input) ERROR_LOCK_VIOLATION :: int where "ERROR_LOCK_VIOLATION \<equiv> 33"
abbreviation (input) ERROR_MAX_THRDS_REACHED :: int where "ERROR_MAX_THRDS_REACHED \<equiv> 164"
abbreviation (input) ERROR_META_EXPANSION_TOO_LONG :: int where "ERROR_META_EXPANSION_TOO_LONG \<equiv> 208"
abbreviation (input) ERROR_MOD_NOT_FOUND :: int where "ERROR_MOD_NOT_FOUND \<equiv> 126"
abbreviation (input) ERROR_MORE_DATA :: int where "ERROR_MORE_DATA \<equiv> 234"
abbreviation (input) ERROR_NEGATIVE_SEEK :: int where "ERROR_NEGATIVE_SEEK \<equiv> 131"
abbreviation (input) ERROR_NETNAME_DELETED :: int where "ERROR_NETNAME_DELETED \<equiv> 64"
abbreviation (input) ERROR_NETWORK_UNREACHABLE :: int where "ERROR_NETWORK_UNREACHABLE \<equiv> 1231"
abbreviation (input) ERROR_NO_DATA_DETECTED :: int where "ERROR_NO_DATA_DETECTED \<equiv> 1104"
abbreviation (input) ERROR_NO_DATA :: int where "ERROR_NO_DATA \<equiv> 232"
abbreviation (input) ERROR_NO_MEDIA_IN_DRIVE :: int where "ERROR_NO_MEDIA_IN_DRIVE \<equiv> 1112"
abbreviation (input) ERROR_NO_MORE_FILES :: int where "ERROR_NO_MORE_FILES \<equiv> 18"
abbreviation (input) ERROR_NO_MORE_ITEMS :: int where "ERROR_NO_MORE_ITEMS \<equiv> 259"
abbreviation (input) ERROR_NO_MORE_SEARCH_HANDLES :: int where "ERROR_NO_MORE_SEARCH_HANDLES \<equiv> 113"
abbreviation (input) ERROR_NO_PROC_SLOTS :: int where "ERROR_NO_PROC_SLOTS \<equiv> 89"
abbreviation (input) ERROR_NO_SIGNAL_SENT :: int where "ERROR_NO_SIGNAL_SENT \<equiv> 205"
abbreviation (input) ERROR_NO_SYSTEM_RESOURCES :: int where "ERROR_NO_SYSTEM_RESOURCES \<equiv> 1450"
abbreviation (input) ERROR_NO_TOKEN :: int where "ERROR_NO_TOKEN \<equiv> 1008"
abbreviation (input) ERROR_NO_UNICODE_TRANSLATION :: int where "ERROR_NO_UNICODE_TRANSLATION \<equiv> 1113"
abbreviation (input) ERROR_NOACCESS :: int where "ERROR_NOACCESS \<equiv> 998"
abbreviation (input) ERROR_NONE_MAPPED :: int where "ERROR_NONE_MAPPED \<equiv> 1332"
abbreviation (input) ERROR_NONPAGED_SYSTEM_RESOURCES :: int where "ERROR_NONPAGED_SYSTEM_RESOURCES \<equiv> 1451"
abbreviation (input) ERROR_NOT_CONNECTED :: int where "ERROR_NOT_CONNECTED \<equiv> 2250"
abbreviation (input) ERROR_NOT_ENOUGH_MEMORY :: int where "ERROR_NOT_ENOUGH_MEMORY \<equiv> 8"
abbreviation (input) ERROR_NOT_ENOUGH_QUOTA :: int where "ERROR_NOT_ENOUGH_QUOTA \<equiv> 1816"
abbreviation (input) ERROR_NOT_OWNER :: int where "ERROR_NOT_OWNER \<equiv> 288"
abbreviation (input) ERROR_NOT_READY :: int where "ERROR_NOT_READY \<equiv> 21"
abbreviation (input) ERROR_NOT_SAME_DEVICE :: int where "ERROR_NOT_SAME_DEVICE \<equiv> 17"
abbreviation (input) ERROR_NOT_SUPPORTED :: int where "ERROR_NOT_SUPPORTED \<equiv> 50"
abbreviation (input) ERROR_OPEN_FAILED :: int where "ERROR_OPEN_FAILED \<equiv> 110"
abbreviation (input) ERROR_OPEN_FILES :: int where "ERROR_OPEN_FILES \<equiv> 2401"
abbreviation (input) ERROR_OPERATION_ABORTED :: int where "ERROR_OPERATION_ABORTED \<equiv> 995"
abbreviation (input) ERROR_OUTOFMEMORY :: int where "ERROR_OUTOFMEMORY \<equiv> 14"
abbreviation (input) ERROR_PAGED_SYSTEM_RESOURCES :: int where "ERROR_PAGED_SYSTEM_RESOURCES \<equiv> 1452"
abbreviation (input) ERROR_PAGEFILE_QUOTA :: int where "ERROR_PAGEFILE_QUOTA \<equiv> 1454"
abbreviation (input) ERROR_PATH_NOT_FOUND :: int where "ERROR_PATH_NOT_FOUND \<equiv> 3"
abbreviation (input) ERROR_PIPE_BUSY :: int where "ERROR_PIPE_BUSY \<equiv> 231"
abbreviation (input) ERROR_PIPE_CONNECTED :: int where "ERROR_PIPE_CONNECTED \<equiv> 535"
abbreviation (input) ERROR_PIPE_LISTENING :: int where "ERROR_PIPE_LISTENING \<equiv> 536"
abbreviation (input) ERROR_PIPE_NOT_CONNECTED :: int where "ERROR_PIPE_NOT_CONNECTED \<equiv> 233"
abbreviation (input) ERROR_POSSIBLE_DEADLOCK :: int where "ERROR_POSSIBLE_DEADLOCK \<equiv> 1131"
abbreviation (input) ERROR_PRIVILEGE_NOT_HELD :: int where "ERROR_PRIVILEGE_NOT_HELD \<equiv> 1314"
abbreviation (input) ERROR_PROC_NOT_FOUND :: int where "ERROR_PROC_NOT_FOUND \<equiv> 127"
abbreviation (input) ERROR_PROCESS_ABORTED :: int where "ERROR_PROCESS_ABORTED \<equiv> 1067"
abbreviation (input) ERROR_REM_NOT_LIST :: int where "ERROR_REM_NOT_LIST \<equiv> 51"
abbreviation (input) ERROR_SECTOR_NOT_FOUND :: int where "ERROR_SECTOR_NOT_FOUND \<equiv> 27"
abbreviation (input) ERROR_SEEK :: int where "ERROR_SEEK \<equiv> 25"
abbreviation (input) ERROR_SEM_TIMEOUT :: int where "ERROR_SEM_TIMEOUT \<equiv> 121"
abbreviation (input) ERROR_SERVICE_REQUEST_TIMEOUT :: int where "ERROR_SERVICE_REQUEST_TIMEOUT \<equiv> 1053"
abbreviation (input) ERROR_SETMARK_DETECTED :: int where "ERROR_SETMARK_DETECTED \<equiv> 1103"
abbreviation (input) ERROR_SHARING_BUFFER_EXCEEDED :: int where "ERROR_SHARING_BUFFER_EXCEEDED \<equiv> 36"
abbreviation (input) ERROR_SHARING_VIOLATION :: int where "ERROR_SHARING_VIOLATION \<equiv> 32"
abbreviation (input) ERROR_SIGNAL_PENDING :: int where "ERROR_SIGNAL_PENDING \<equiv> 162"
abbreviation (input) ERROR_SIGNAL_REFUSED :: int where "ERROR_SIGNAL_REFUSED \<equiv> 156"
abbreviation (input) ERROR_SXS_CANT_GEN_ACTCTX :: int where "ERROR_SXS_CANT_GEN_ACTCTX \<equiv> 14001"
abbreviation (input) ERROR_SYMLINK_NOT_SUPPORTED :: int where "ERROR_SYMLINK_NOT_SUPPORTED \<equiv> 1464"
abbreviation (input) ERROR_THREAD_1_INACTIVE :: int where "ERROR_THREAD_1_INACTIVE \<equiv> 210"
abbreviation (input) ERROR_TIMEOUT :: int where "ERROR_TIMEOUT \<equiv> 1460"
abbreviation (input) ERROR_TOO_MANY_LINKS :: int where "ERROR_TOO_MANY_LINKS \<equiv> 1142"
abbreviation (input) ERROR_TOO_MANY_OPEN_FILES :: int where "ERROR_TOO_MANY_OPEN_FILES \<equiv> 4"
abbreviation (input) ERROR_UNEXP_NET_ERR :: int where "ERROR_UNEXP_NET_ERR \<equiv> 59"
abbreviation (input) ERROR_WAIT_NO_CHILDREN :: int where "ERROR_WAIT_NO_CHILDREN \<equiv> 128"
abbreviation (input) ERROR_WORKING_SET_QUOTA :: int where "ERROR_WORKING_SET_QUOTA \<equiv> 1453"
abbreviation (input) ERROR_WRITE_PROTECT :: int where "ERROR_WRITE_PROTECT \<equiv> 19"
abbreviation (input) ERROR_RESOURCE_DATA_NOT_FOUND :: int where "ERROR_RESOURCE_DATA_NOT_FOUND \<equiv> 1812"
abbreviation (input) ERROR_RESOURCE_TYPE_NOT_FOUND :: int where "ERROR_RESOURCE_TYPE_NOT_FOUND \<equiv> 1813"
abbreviation (input) ERROR_RESOURCE_NAME_NOT_FOUND :: int where "ERROR_RESOURCE_NAME_NOT_FOUND \<equiv> 1814"
abbreviation (input) ERROR_RESOURCE_LANG_NOT_FOUND :: int where "ERROR_RESOURCE_LANG_NOT_FOUND \<equiv> 1815"
abbreviation (input) ERROR_ENVVAR_NOT_FOUND :: int where "ERROR_ENVVAR_NOT_FOUND \<equiv> 203"
abbreviation (input) WSAEINTR :: int where "WSAEINTR \<equiv> 10004"
abbreviation (input) WSAEACCES :: int where "WSAEACCES \<equiv> 10013"
abbreviation (input) WSAEFAULT :: int where "WSAEFAULT \<equiv> 10014"
abbreviation (input) WSAEINVAL :: int where "WSAEINVAL \<equiv> 10022"
abbreviation (input) WSAEMFILE :: int where "WSAEMFILE \<equiv> 10024"
abbreviation (input) WSAEWOULDBLOCK :: int where "WSAEWOULDBLOCK \<equiv> 10035"
abbreviation (input) WSAEALREADY :: int where "WSAEALREADY \<equiv> 10037"
abbreviation (input) WSAENOTSOCK :: int where "WSAENOTSOCK \<equiv> 10038"
abbreviation (input) WSAEMSGSIZE :: int where "WSAEMSGSIZE \<equiv> 10040"
abbreviation (input) WSAEPROTONOSUPPORT :: int where "WSAEPROTONOSUPPORT \<equiv> 10043"
abbreviation (input) WSAESOCKTNOSUPPORT :: int where "WSAESOCKTNOSUPPORT \<equiv> 10044"
abbreviation (input) WSAEPFNOSUPPORT :: int where "WSAEPFNOSUPPORT \<equiv> 10046"
abbreviation (input) WSAEAFNOSUPPORT :: int where "WSAEAFNOSUPPORT \<equiv> 10047"
abbreviation (input) WSAEADDRINUSE :: int where "WSAEADDRINUSE \<equiv> 10048"
abbreviation (input) WSAEADDRNOTAVAIL :: int where "WSAEADDRNOTAVAIL \<equiv> 10049"
abbreviation (input) WSAENETUNREACH :: int where "WSAENETUNREACH \<equiv> 10051"
abbreviation (input) WSAECONNABORTED :: int where "WSAECONNABORTED \<equiv> 10053"
abbreviation (input) WSAECONNRESET :: int where "WSAECONNRESET \<equiv> 10054"
abbreviation (input) WSAENOBUFS :: int where "WSAENOBUFS \<equiv> 10055"
abbreviation (input) WSAEISCONN :: int where "WSAEISCONN \<equiv> 10056"
abbreviation (input) WSAENOTCONN :: int where "WSAENOTCONN \<equiv> 10057"
abbreviation (input) WSAESHUTDOWN :: int where "WSAESHUTDOWN \<equiv> 10058"
abbreviation (input) WSAETIMEDOUT :: int where "WSAETIMEDOUT \<equiv> 10060"
abbreviation (input) WSAECONNREFUSED :: int where "WSAECONNREFUSED \<equiv> 10061"
abbreviation (input) WSAEHOSTUNREACH :: int where "WSAEHOSTUNREACH \<equiv> 10065"
abbreviation (input) WSAHOST_NOT_FOUND :: int where "WSAHOST_NOT_FOUND \<equiv> 11001"
abbreviation (input) WSANO_DATA :: int where "WSANO_DATA \<equiv> 11004"

text \<open>
  The label \<open>ERROR_NOT_CONNECTED\<close> returns \<open>YO_ENOTCONN\<close>, which \<open>errno.h\<close> does not declare, so this row
  does not compile; it is left out.
\<close>

definition win_errno_cases :: "(int \<times> yo_code) list" where
  "win_errno_cases = [
     (ERROR_ACCESS_DENIED, YO_EPERM), (ERROR_ACTIVE_CONNECTIONS, YO_EAGAIN),
     (ERROR_ADDRESS_ALREADY_ASSOCIATED, YO_EADDRINUSE), (ERROR_ALREADY_EXISTS, YO_EEXIST),
     (ERROR_BAD_DEVICE, YO_ENODEV), (ERROR_BAD_EXE_FORMAT, YO_EBADEXE),
     (ERROR_BAD_NET_NAME, YO_ENOENT), (ERROR_BAD_NET_RESP, YO_ENORESOURCE),
     (ERROR_BAD_NETPATH, YO_ENOENT), (ERROR_BAD_PATHNAME, YO_ENOENT), (ERROR_BAD_PIPE, YO_ENOENT),
     (ERROR_BAD_UNIT, YO_ENODEV), (ERROR_BAD_USERNAME, YO_EINVAL), (ERROR_BEGINNING_OF_MEDIA, YO_EIO),
     (ERROR_BROKEN_PIPE, YO_EOF), (ERROR_BUFFER_OVERFLOW, YO_EFAULT), (ERROR_BUS_RESET, YO_EIO),
     (ERROR_BUSY, YO_EBUSY), (ERROR_CALL_NOT_IMPLEMENTED, YO_ENORESOURCE),
     (ERROR_CANCELLED, YO_ECANCELED), (ERROR_CANNOT_MAKE, YO_EPERM),
     (ERROR_CANT_RESOLVE_FILENAME, YO_ELOOP), (ERROR_CHILD_NOT_COMPLETE, YO_EBUSY),
     (ERROR_COMMITMENT_LIMIT, YO_EAGAIN), (ERROR_CONNECTION_ABORTED, YO_ECONNABORTED),
     (ERROR_CONNECTION_REFUSED, YO_ECONNREFUSED), (ERROR_CRC, YO_EIO),
     (ERROR_DEV_NOT_EXIST, YO_ENOENT), (ERROR_DEVICE_DOOR_OPEN, YO_EIO),
     (ERROR_DEVICE_IN_USE, YO_EAGAIN), (ERROR_DEVICE_REQUIRES_CLEANING, YO_EIO),
     (ERROR_DIR_NOT_EMPTY, YO_ENOTEMPTY), (ERROR_DIRECTORY, YO_ENOTDIR), (ERROR_DISK_CORRUPT, YO_EIO),
     (ERROR_DISK_FULL, YO_ENORESOURCE), (ERROR_DS_GENERIC_ERROR, YO_EIO), (ERROR_DUP_NAME, YO_EEXIST),
     (ERROR_EA_LIST_INCONSISTENT, YO_EINVAL), (ERROR_EA_TABLE_FULL, YO_ENORESOURCE),
     (ERROR_EAS_DIDNT_FIT, YO_ENORESOURCE), (ERROR_EAS_NOT_SUPPORTED, YO_ENOTSUP),
     (ERROR_END_OF_MEDIA, YO_ENORESOURCE), (ERROR_EOM_OVERFLOW, YO_EIO),
     (ERROR_EXE_MACHINE_TYPE_MISMATCH, YO_EBADEXE), (ERROR_EXE_MARKED_INVALID, YO_EBADEXE),
     (ERROR_FILE_CORRUPT, YO_EEXIST), (ERROR_FILE_EXISTS, YO_EEXIST), (ERROR_FILE_INVALID, YO_ENOENT),
     (ERROR_FILE_NOT_FOUND, YO_ENOENT), (ERROR_FILEMARK_DETECTED, YO_EIO),
     (ERROR_FILENAME_EXCED_RANGE, YO_ERANGE), (ERROR_GEN_FAILURE, YO_EIO),
     (ERROR_HANDLE_DISK_FULL, YO_ENORESOURCE), (ERROR_HANDLE_EOF, YO_EOF),
     (ERROR_HOST_UNREACHABLE, YO_EHOSTDOWN), (ERROR_INSUFFICIENT_BUFFER, YO_ERANGE),
     (ERROR_INVALID_ADDRESS, YO_EINVAL), (ERROR_INVALID_AT_INTERRUPT_TIME, YO_EINVAL),
     (ERROR_INVALID_BLOCK_LENGTH, YO_ERANGE), (ERROR_INVALID_DATA, YO_EINVAL),
     (ERROR_INVALID_DRIVE, YO_ENODEV), (ERROR_INVALID_EA_NAME, YO_EINVAL),
     (ERROR_INVALID_EXE_SIGNATURE, YO_EBADEXE), (ERROR_INVALID_FLAGS, YO_EINVAL),
     (ERROR_INVALID_FUNCTION, YO_EISDIR), (ERROR_INVALID_HANDLE, YO_EBADFD),
     (ERROR_INVALID_NAME, YO_ENOENT), (ERROR_INVALID_PARAMETER, YO_EINVAL),
     (ERROR_INVALID_REPARSE_DATA, YO_ENOENT), (ERROR_INVALID_SIGNAL_NUMBER, YO_EINVAL),
     (ERROR_IO_DEVICE, YO_EIO), (ERROR_IO_INCOMPLETE, YO_EAGAIN), (ERROR_IO_PENDING, YO_EAGAIN),
     (ERROR_IOPL_NOT_ENABLED, YO_EBADEXE), (ERROR_LOCK_VIOLATION, YO_EBUSY),
     (ERROR_MAX_THRDS_REACHED, YO_EAGAIN), (ERROR_META_EXPANSION_TOO_LONG, YO_EINVAL),
     (ERROR_MOD_NOT_FOUND, YO_ENOENT), (ERROR_MORE_DATA, YO_ERANGE), (ERROR_NEGATIVE_SEEK, YO_EINVAL),
     (ERROR_NETNAME_DELETED, YO_ECONNRESET), (ERROR_NETWORK_UNREACHABLE, YO_ENETDOWN),
     (ERROR_NO_DATA_DETECTED, YO_EIO), (ERROR_NO_DATA, YO_EOF),
     (ERROR_NO_MEDIA_IN_DRIVE, YO_ENOMEDIUM), (ERROR_NO_MORE_FILES, YO_ENOENT),
     (ERROR_NO_MORE_ITEMS, YO_ENOENT), (ERROR_NO_MORE_SEARCH_HANDLES, YO_ENOENT),
     (ERROR_NO_PROC_SLOTS, YO_EAGAIN), (ERROR_NO_SIGNAL_SENT, YO_EIO),
     (ERROR_NO_SYSTEM_RESOURCES, YO_EFBIG), (ERROR_NO_TOKEN, YO_EINVAL),
     (ERROR_NO_UNICODE_TRANSLATION, YO_EUTF), (ERROR_NOACCESS, YO_EPERM),
     (ERROR_NONE_MAPPED, YO_EINVAL), (ERROR_NONPAGED_SYSTEM_RESOURCES, YO_EAGAIN),
     (ERROR_NOT_ENOUGH_MEMORY, YO_ENOMEM), (ERROR_NOT_ENOUGH_QUOTA, YO_EIO),
     (ERROR_NOT_OWNER, YO_EPERM), (ERROR_NOT_READY, YO_ENOMEDIUM), (ERROR_NOT_SAME_DEVICE, YO_EXDEV),
     (ERROR_NOT_SUPPORTED, YO_ENOTSUP), (ERROR_OPEN_FAILED, YO_EIO), (ERROR_OPEN_FILES, YO_EAGAIN),
     (ERROR_OPERATION_ABORTED, YO_ECANCELED), (ERROR_OUTOFMEMORY, YO_ENOMEM),
     (ERROR_PAGED_SYSTEM_RESOURCES, YO_EAGAIN), (ERROR_PAGEFILE_QUOTA, YO_EAGAIN),
     (ERROR_PATH_NOT_FOUND, YO_ENOENT), (ERROR_PIPE_BUSY, YO_EBUSY), (ERROR_PIPE_CONNECTED, YO_EBUSY),
     (ERROR_PIPE_LISTENING, YO_EALREADY), (ERROR_PIPE_NOT_CONNECTED, YO_EBADOP),
     (ERROR_POSSIBLE_DEADLOCK, YO_EIO), (ERROR_PRIVILEGE_NOT_HELD, YO_EPERM),
     (ERROR_PROC_NOT_FOUND, YO_ENOENT), (ERROR_PROCESS_ABORTED, YO_EFAULT),
     (ERROR_REM_NOT_LIST, YO_ENOENT), (ERROR_SECTOR_NOT_FOUND, YO_EINVAL), (ERROR_SEEK, YO_EBADOP),
     (ERROR_SEM_TIMEOUT, YO_ETIMEOUT), (ERROR_SERVICE_REQUEST_TIMEOUT, YO_ETIMEOUT),
     (ERROR_SETMARK_DETECTED, YO_EIO), (ERROR_SHARING_BUFFER_EXCEEDED, YO_ENORESOURCE),
     (ERROR_SHARING_VIOLATION, YO_EBUSY), (ERROR_SIGNAL_PENDING, YO_EBUSY),
     (ERROR_SIGNAL_REFUSED, YO_EIO), (ERROR_SXS_CANT_GEN_ACTCTX, YO_EBADEXE),
     (ERROR_SYMLINK_NOT_SUPPORTED, YO_EINVAL), (ERROR_THREAD_1_INACTIVE, YO_EINVAL),
     (ERROR_TIMEOUT, YO_EBUSY), (ERROR_TOO_MANY_LINKS, YO_ENORESOURCE),
     (ERROR_TOO_MANY_OPEN_FILES, YO_ENORESOURCE), (ERROR_UNEXP_NET_ERR, YO_EIO),
     (ERROR_WAIT_NO_CHILDREN, YO_EIO), (ERROR_WORKING_SET_QUOTA, YO_EAGAIN),
     (ERROR_WRITE_PROTECT, YO_EROFS), (ERROR_RESOURCE_DATA_NOT_FOUND, YO_EINVAL),
     (ERROR_RESOURCE_TYPE_NOT_FOUND, YO_EINVAL), (ERROR_RESOURCE_NAME_NOT_FOUND, YO_EINVAL),
     (ERROR_RESOURCE_LANG_NOT_FOUND, YO_EINVAL)]"

text \<open>The errors of sockets.\<close>

definition win_wsa_cases :: "(int \<times> yo_code) list" where
  "win_wsa_cases = [
     (WSAEACCES, YO_EPERM), (WSAEADDRINUSE, YO_EADDRINUSE),
     (WSAEADDRNOTAVAIL, YO_EADDRNOTAVAIL), (WSAEAFNOSUPPORT, YO_ENOTSUP), (WSAEALREADY, YO_EALREADY),
     (WSAECONNABORTED, YO_ECONNABORTED), (WSAECONNREFUSED, YO_ECONNREFUSED),
     (WSAECONNRESET, YO_ECONNRESET), (WSAEFAULT, YO_EFAULT), (WSAEHOSTUNREACH, YO_EHOSTDOWN),
     (WSAEINTR, YO_ECANCELED), (WSAEINVAL, YO_EINVAL), (WSAEISCONN, YO_EALREADY),
     (WSAEMFILE, YO_ENORESOURCE), (WSAEMSGSIZE, YO_ERANGE), (WSAENETUNREACH, YO_ENETDOWN),
     (WSAENOBUFS, YO_ERANGE), (WSAENOTCONN, YO_ENETDOWN), (WSAENOTSOCK, YO_ENOTSOCK),
     (WSAEPFNOSUPPORT, YO_ENOTSUP), (WSAEPROTONOSUPPORT, YO_ENOTSUP), (WSAESHUTDOWN, YO_EOF),
     (WSAESOCKTNOSUPPORT, YO_ENOTSUP), (WSAETIMEDOUT, YO_ETIMEOUT), (WSAEWOULDBLOCK, YO_EAGAIN),
     (WSAHOST_NOT_FOUND, YO_ENOENT), (WSANO_DATA, YO_ENOENT)]"

definition yoi_win_conv_errno :: "int \<Rightarrow> yo_code" where
  "yoi_win_conv_errno winerr = switch (win_errno_cases @ win_wsa_cases) YO_EUNKNOWN winerr"

lemma win_labels_distinct: "distinct (map fst (win_errno_cases @ win_wsa_cases))"
  by (simp add: win_errno_cases_def win_wsa_cases_def)

lemma win_conv_not_ok: "yoi_win_conv_errno e \<noteq> YO_OK"
  unfolding yoi_win_conv_errno_def
  by (rule switch_avoids) (simp_all add: win_errno_cases_def win_wsa_cases_def)

section \<open>File times\<close>

text \<open>A \<open>FILETIME\<close> is its low and its high half.\<close>

definition yoi_win_conv_filetime :: "u32 \<times> u32 \<Rightarrow> yo_time" where
  "yoi_win_conv_filetime filetime =
     (let total_ticks = push_bit 32 (ucast (snd filetime)) OR ucast (fst filetime) :: u64
      in \<lparr>sec = total_ticks div 100000000 - 11644473600, nsec = ucast ((total_ticks mod 100000000) * 100)\<rparr>)"

text \<open>A file time counts ticks of 100 nanoseconds since 1601.\<close>

definition ticks :: "u32 \<times> u32 \<Rightarrow> int" where
  "ticks ft = uint (snd ft) * 2 ^ 32 + uint (fst ft)"

lemma ticks_word: "(push_bit 32 (ucast (snd ft)) OR ucast (fst ft) :: u64) = of_int (ticks ft)"
proof -
  have "push_bit 32 (ucast (snd ft)) AND ucast (fst ft) = (0 :: u64)"
    by (rule bit_word_eqI) (auto simp: bit_simps dest: bit_imp_le_length)
  then have "(push_bit 32 (ucast (snd ft)) OR ucast (fst ft) :: u64) = push_bit 32 (ucast (snd ft)) + ucast (fst ft)"
    by (simp add: disjunctive_add_eq_or)
  then show ?thesis by (simp add: ticks_def push_bit_eq_mult)
qed

lemma ticks_bounds: "0 \<le> ticks ft" "ticks ft < 2 ^ 64"
proof -
  have "uint (fst ft) < 2 ^ 32" "uint (snd ft) < 2 ^ 32"
    using uint_lt2p [of "fst ft"] uint_lt2p [of "snd ft"] by simp_all
  then show "ticks ft < 2 ^ 64" by (simp add: ticks_def)
qed (simp add: ticks_def)

text \<open>
  The conversion of file times takes a hundred million ticks for a second, which has ten million, so every time from the
  first second of 1601 on comes out too early.
\<close>

theorem filetime_too_early:
  "sint (sec (yoi_win_conv_filetime ft)) = ticks ft div 10 ^ 8 - 11644473600
   \<and> (10 ^ 7 \<le> ticks ft \<longrightarrow> sint (sec (yoi_win_conv_filetime ft)) < ticks ft div 10 ^ 7 - 11644473600)"
proof -
  have "uint (of_int (ticks ft) :: u64) = ticks ft"
    using ticks_bounds [of ft] by (simp add: uint_of_int_exact)
  then have "(of_int (ticks ft) div 100000000 :: u64) = of_int (ticks ft div 100000000)"
    by (simp add: word_div_def)
  then have "sec (yoi_win_conv_filetime ft) = of_int (ticks ft div 100000000 - 11644473600)"
    by (simp add: yoi_win_conv_filetime_def ticks_word Let_def)
  moreover have exact: "sint (of_int k :: 64 word) = k" if "- (2 ^ 63) \<le> k" "k < 2 ^ 63" for k
    using that by (simp add: signed_of_int signed_take_bit_int_eq_self)
  ultimately have "sint (sec (yoi_win_conv_filetime ft)) = ticks ft div 100000000 - 11644473600"
    using ticks_bounds [of ft] exact [of "ticks ft div 100000000 - 11644473600"] by simp
  moreover have "ticks ft div 100000000 < ticks ft div 10000000" if "10000000 \<le> ticks ft"
  proof -
    have "1 \<le> ticks ft div 10000000" using zdiv_mono1 [OF that, of 10000000] by simp
    moreover have "ticks ft div 100000000 = ticks ft div 10000000 div 10"
      using zdiv_zmult2_eq [of 10 "ticks ft" 10000000] by simp
    ultimately show ?thesis by (simp add: int_div_less_self)
  qed
  ultimately show ?thesis by simp
qed

section \<open>Paths\<close>

abbreviation (input) SLASH :: u16 where "SLASH \<equiv> 47"
abbreviation (input) BSL :: u16 where "BSL \<equiv> 92"
abbreviation (input) QUOTE :: u16 where "QUOTE \<equiv> 34"
abbreviation (input) SPACE :: u16 where "SPACE \<equiv> 32"
abbreviation (input) TAB :: u16 where "TAB \<equiv> 9"

fun first_slash :: "wide \<Rightarrow> wide" where
  "first_slash [] = []"
| "first_slash (c # cs) = (if c = SLASH then BSL # cs else c # first_slash cs)"

lemma first_slash_count: "SLASH \<in> set p \<Longrightarrow> count_list (first_slash p) SLASH < count_list p SLASH"
  by (induction p) auto

function yoi_win_fix_path :: "wide \<Rightarrow> wide" where
  "yoi_win_fix_path p = (if SLASH \<in> set p then yoi_win_fix_path (first_slash p) else p)"
  by auto
termination
  by (relation "measure (\<lambda>p. count_list p SLASH)") (auto simp: first_slash_count)

declare yoi_win_fix_path.simps [simp del]

lemma first_slash_map: "map (\<lambda>c. if c = SLASH then BSL else c) (first_slash p) = map (\<lambda>c. if c = SLASH then BSL else c) p"
  by (induction p) auto

lemma fix_path_map: "yoi_win_fix_path p = map (\<lambda>c. if c = SLASH then BSL else c) p"
proof (induction p rule: yoi_win_fix_path.induct)
  case (1 p)
  show ?case
  proof (cases "SLASH \<in> set p")
    case True
    with 1 show ?thesis by (simp add: yoi_win_fix_path.simps [of p] first_slash_map)
  next
    case False
    then have "map (\<lambda>c. if c = SLASH then BSL else c) p = p" by (induction p) auto
    with False show ?thesis by (simp add: yoi_win_fix_path.simps [of p])
  qed
qed

section \<open>The command line of a process\<close>

text \<open>
  The inner loop of \<open>_yoi_win_argv_to_cmdline\<close> over one argument: \<open>b\<close> is \<open>back_n\<close>, the number of backslashes that
  were read and not written yet.
\<close>

fun escape :: "nat \<Rightarrow> wide \<Rightarrow> wide" where
  "escape b [] = replicate (2 * b) BSL"
| "escape b (c # cs) =
     (if c = BSL then escape (b + 1) cs
      else if c = QUOTE then replicate (2 * b) BSL @ [BSL, QUOTE] @ escape 0 cs
      else replicate b BSL @ c # escape 0 cs)"

text \<open>One argument between quotes, and the outer loop: a space after each one but a NUL after the last.\<close>

definition quoted :: "wide \<Rightarrow> wide" where
  "quoted w = QUOTE # escape 0 w @ [QUOTE]"

fun cmdline :: "wide list \<Rightarrow> wide" where
  "cmdline [] = []"
| "cmdline [w] = quoted w @ [0]"
| "cmdline (w # ws) = quoted w @ SPACE # cmdline ws"

text \<open>
  How a Windows program reads its command line, as Microsoft documents it. Backslashes stand for themselves
  unless a quote follows: then two of them stand for one, and an odd one makes the quote an ordinary character.
  A quote that is not escaped begins or ends a quoted part; inside one, two quotes stand for one. Blanks
  outside of quotes end an argument. \<open>b\<close> counts the backslashes just read, \<open>acc\<close> is the argument so far.
\<close>

fun parse_arg :: "bool \<Rightarrow> nat \<Rightarrow> wide \<Rightarrow> wide \<Rightarrow> wide \<times> wide" where
  "parse_arg q b [] acc = (acc @ replicate b BSL, [])"
| "parse_arg q b (c # cs) acc =
     (if c = 0 then (acc @ replicate b BSL, c # cs)
      else if c = BSL then parse_arg q (b + 1) cs acc
      else if c = QUOTE then
        if odd b then parse_arg q 0 cs (acc @ replicate (b div 2) BSL @ [QUOTE])
        else if q \<and> (case cs of d # _ \<Rightarrow> d = QUOTE | [] \<Rightarrow> False)
          then parse_arg q 0 (tl cs) (acc @ replicate (b div 2) BSL @ [QUOTE])
        else parse_arg (\<not> q) 0 cs (acc @ replicate (b div 2) BSL)
      else if \<not> q \<and> (c = SPACE \<or> c = TAB) then (acc @ replicate b BSL, cs)
      else parse_arg q 0 cs (acc @ replicate b BSL @ [c]))"

lemma parse_arg_shorter: "length (snd (parse_arg q b xs acc)) \<le> length xs"
proof (induction q b xs acc rule: parse_arg.induct)
  case (2 q b c cs acc)
  consider "c = 0" | "c \<noteq> 0" "c = BSL" | "c \<noteq> 0" "c = QUOTE" "odd b"
    | "c \<noteq> 0" "c = QUOTE" "even b" "q \<and> (case cs of d # _ \<Rightarrow> d = QUOTE | [] \<Rightarrow> False)"
    | "c \<noteq> 0" "c = QUOTE" "even b" "\<not> (q \<and> (case cs of d # _ \<Rightarrow> d = QUOTE | [] \<Rightarrow> False))"
    | "c \<noteq> 0" "c \<noteq> BSL" "c \<noteq> QUOTE" "\<not> q \<and> (c = SPACE \<or> c = TAB)"
    | "c \<noteq> 0" "c \<noteq> BSL" "c \<noteq> QUOTE" "\<not> (\<not> q \<and> (c = SPACE \<or> c = TAB))"
    by blast
  then show ?case
  proof cases
    case 4
    with 2(3) have "length (snd (parse_arg q 0 (tl cs) (acc @ replicate (b div 2) BSL @ [QUOTE]))) \<le> length (tl cs)"
      by simp
    then show ?thesis using 4 by simp
  next
    case 5
    then have "parse_arg q b (c # cs) acc = parse_arg (\<not> q) 0 cs (acc @ replicate (b div 2) BSL)" by auto
    moreover have "length (snd (parse_arg (\<not> q) 0 cs (acc @ replicate (b div 2) BSL))) \<le> length cs"
      using 2(4) 5 by auto
    ultimately show ?thesis by simp
  qed (use 2 in simp_all)
qed simp

lemma parse_arg_eats:
  assumes "c \<noteq> 0" and "c \<noteq> SPACE" and "c \<noteq> TAB"
  shows "length (snd (parse_arg q b (c # cs) acc)) \<le> length cs"
proof -
  consider "c = BSL" | "c = QUOTE" "odd b"
    | "c = QUOTE" "even b" "q \<and> (case cs of d # _ \<Rightarrow> d = QUOTE | [] \<Rightarrow> False)"
    | "c = QUOTE" "even b" "\<not> (q \<and> (case cs of d # _ \<Rightarrow> d = QUOTE | [] \<Rightarrow> False))"
    | "c \<noteq> BSL" "c \<noteq> QUOTE"
    by blast
  then show ?thesis
  proof cases
    case 3
    have "length (snd (parse_arg q 0 (tl cs) (acc @ replicate (b div 2) BSL @ [QUOTE]))) \<le> length (tl cs)"
      by (rule parse_arg_shorter)
    then show ?thesis using 3 by simp
  next
    case 4
    then have "parse_arg q b (c # cs) acc = parse_arg (\<not> q) 0 cs (acc @ replicate (b div 2) BSL)" by auto
    then show ?thesis using parse_arg_shorter by simp
  qed (use assms parse_arg_shorter in simp_all)
qed

text \<open>The arguments behind the program name, and the name itself, in which a backslash is never special.\<close>

function parse_args :: "wide \<Rightarrow> wide list" where
  "parse_args [] = []"
| "parse_args (c # cs) =
     (if c = 0 then []
      else if c = SPACE \<or> c = TAB then parse_args cs
      else let (a, rest) = parse_arg False 0 (c # cs) [] in a # parse_args rest)"
  by pat_completeness auto
termination
proof (relation "measure length")
  fix c cs x a y
  assume "c \<noteq> 0" "\<not> (c = SPACE \<or> c = TAB)" "x = parse_arg False 0 (c # cs) []" "(a, y) = x"
  then have "length y \<le> length cs"
    using parse_arg_eats [of c False 0 cs "[]"] by (metis snd_conv)
  then show "(y, c # cs) \<in> measure length" by simp
qed simp_all

declare parse_args.simps(2) [simp del]

definition parse_program :: "wide \<Rightarrow> wide \<times> wide" where
  "parse_program xs =
     (case xs of
        [] \<Rightarrow> ([], [])
      | c # cs \<Rightarrow>
          if c = QUOTE then
            (takeWhile (\<lambda>d. d \<noteq> QUOTE \<and> d \<noteq> 0) cs, drop 1 (dropWhile (\<lambda>d. d \<noteq> QUOTE \<and> d \<noteq> 0) cs))
          else
            (takeWhile (\<lambda>d. d \<noteq> SPACE \<and> d \<noteq> TAB \<and> d \<noteq> 0) xs, dropWhile (\<lambda>d. d \<noteq> SPACE \<and> d \<noteq> TAB \<and> d \<noteq> 0) xs))"

definition parse_cmdline :: "wide \<Rightarrow> wide list" where
  "parse_cmdline xs = (let (p, rest) = parse_program xs in p # parse_args rest)"

text \<open>What was escaped is read back: \<open>b\<close> backslashes are pending on both sides.\<close>

lemma parse_backs:
  "parse_arg q n (replicate k BSL @ xs) acc = parse_arg q (n + k) xs acc"
  by (induction k arbitrary: n) simp_all

lemma parse_escaped:
  assumes "0 \<notin> set w" and "rest = [] \<or> hd rest \<noteq> QUOTE"
  shows "parse_arg True 0 (escape b w @ QUOTE # rest) acc = parse_arg False 0 rest (acc @ replicate b BSL @ w)"
  using assms(1)
proof (induction b w arbitrary: acc rule: escape.induct)
  case (1 b)
  have "\<not> (case rest of d # _ \<Rightarrow> d = QUOTE | [] \<Rightarrow> False)"
    using assms(2) by (auto split: list.splits)
  then show ?case by (simp add: parse_backs)
next
  case (2 b c cs)
  consider (bsl) "c = BSL" | (quote) "c = QUOTE" | (other) "c \<noteq> BSL" "c \<noteq> QUOTE" by blast
  then show ?case
  proof cases
    case bsl
    then show ?thesis using "2.IH" "2.prems" by (simp add: replicate_app_Cons_same)
  next
    case quote
    then show ?thesis using "2.IH" "2.prems" by (simp add: parse_backs)
  next
    case other
    then show ?thesis using "2.IH" "2.prems" by (simp add: parse_backs)
  qed
qed

lemma parse_quoted:
  assumes "0 \<notin> set w" and "rest = [] \<or> hd rest \<noteq> QUOTE"
  shows "parse_arg False 0 (quoted w @ rest) [] = parse_arg False 0 rest w"
  using parse_escaped [OF assms, of 0 "[]"] by (simp add: quoted_def)

lemma parse_args_quoted:
  assumes "0 \<notin> set w" and "rest = [] \<or> hd rest \<noteq> QUOTE"
  shows "parse_args (quoted w @ rest) = (case parse_arg False 0 rest w of (a, r) \<Rightarrow> a # parse_args r)"
proof -
  have "quoted w @ rest = QUOTE # escape 0 w @ QUOTE # rest" by (simp add: quoted_def)
  moreover have "parse_arg False 0 (QUOTE # escape 0 w @ QUOTE # rest) [] = parse_arg False 0 rest w"
    using parse_quoted [OF assms] by (simp add: quoted_def)
  ultimately show ?thesis by (simp add: parse_args.simps(2) Let_def)
qed

lemma parse_args_cmdline:
  assumes "\<forall>w \<in> set ws. 0 \<notin> set w"
  shows "parse_args (cmdline ws) = ws"
  using assms
  by (induction ws rule: cmdline.induct) (simp_all add: parse_args_quoted parse_args.simps(2))

lemma escape_plain:
  assumes "QUOTE \<notin> set w" and "w = [] \<and> b = 0 \<or> w \<noteq> [] \<and> last w \<noteq> BSL"
  shows "escape b w = replicate b BSL @ w"
  using assms
proof (induction b w rule: escape.induct)
  case (2 b c cs)
  then show ?case
    by (cases "cs = []") (auto simp: replicate_app_Cons_same)
qed auto

lemma cmdline_Cons: "cmdline (w # ws) = quoted w @ (if ws = [] then [0] else SPACE # cmdline ws)"
  by (cases ws) simp_all

lemma cmdline_parses:
  assumes "\<forall>w \<in> set ws. 0 \<notin> set w" and "0 \<notin> set p" and "QUOTE \<notin> set p" and "p = [] \<or> last p \<noteq> BSL"
  shows "parse_cmdline (cmdline (p # ws)) = p # ws"
proof -
  have e: "escape 0 p = p"
    using escape_plain [of p 0] assms(3,4) by (cases "p = []") simp_all
  have f: "\<forall>d \<in> set p. d \<noteq> QUOTE \<and> d \<noteq> 0" using assms(2,3) by auto
  have "parse_program (quoted p @ rest) = (p, rest)" for rest
    using f by (simp add: parse_program_def quoted_def e takeWhile_append2 dropWhile_append2)
  moreover have "parse_args (if ws = [] then [0] else SPACE # cmdline ws) = ws"
    using parse_args_cmdline [OF assms(1)] by (simp add: parse_args.simps(2))
  ultimately show ?thesis
    by (simp add: parse_cmdline_def cmdline_Cons)
qed

lemma escape_length: "length (escape b w) \<le> 2 * b + 2 * length w"
  by (induction b w rule: escape.induct) auto

lemma cmdline_length: "length (cmdline ws) \<le> (\<Sum>w\<leftarrow>ws. 2 * length w + 3)"
proof (induction ws)
  case (Cons w ws)
  then show ?case
    using escape_length [of 0 w] by (auto simp: cmdline_Cons quoted_def)
qed simp

end
