(* ===== verification/WinIO.thy ===== *)
theory WinIO
  imports WinConv Clock ReqQueue Env Signals "HOL-Library.Signed_Division"
begin

text \<open>
  The operations of \<open>src/win/impl.c\<close>. The last error of Windows and of its sockets is the field \<open>errno\<close>. A block of
  memory with wide characters is their list, up to what was written, in \<open>w_text\<close>; a write behind the end of a
  block makes the outcome \<open>None\<close>.\<close>

section \<open>State\<close>

datatype wn_kind = YOI_WIN_HND | YOI_WIN_SOCK

text \<open>
  \<open>wn_hnd\<close> is the union of a handle and a socket. The directory has the name of the entry that was found last.
  \<open>we_last\<close> is \<open>None\<close> until the code writes it: the memory of an iterator is not initialised. An element of the
  array of a \<open>yo_addrinfo_t\<close> is its address and the bytes behind a short one.
\<close>

record 'w wn = "'w rq" +
  w_text :: "addr \<Rightarrow> wide"
  wn_initialized :: bool
  wn_owned :: "addr \<Rightarrow> bool"
  wn_kind :: "addr \<Rightarrow> wn_kind"
  wn_hnd :: "addr \<Rightarrow> int"
  wd_hnd :: "addr \<Rightarrow> int"
  wd_done :: "addr \<Rightarrow> bool"
  wd_name :: "addr \<Rightarrow> wide"
  wp_hnd :: "addr \<Rightarrow> int"
  we_data :: "addr \<Rightarrow> addr"
  we_pos :: "addr \<Rightarrow> nat"
  we_last :: "addr \<Rightarrow> addr option"
  wa_n :: "addr \<Rightarrow> u64"
  wa_addr :: "addr \<Rightarrow> nat \<Rightarrow> yo_addr \<times> byte list"
  wn_frame :: addr

abbreviation (input) MAX_PATH :: nat where "MAX_PATH \<equiv> 260"
abbreviation (input) sizeof_wn_fd :: u64 where "sizeof_wn_fd \<equiv> 16"
abbreviation (input) sizeof_wn_dir :: u64 where "sizeof_wn_dir \<equiv> 608"
abbreviation (input) sizeof_wn_enviter :: u64 where "sizeof_wn_enviter \<equiv> 24"
abbreviation (input) INVALID :: int where "INVALID \<equiv> -1"

definition win_error :: "('w, 'z) sys_scheme \<Rightarrow> yo_code \<times> ('w, 'z) sys_scheme" where
  "win_error s = (yoi_win_conv_errno (errno s), s)"

definition put_text :: "addr \<Rightarrow> wide \<Rightarrow> ('w, 'z) wn_scheme \<Rightarrow> ('w, 'z) wn_scheme" where
  "put_text p w s = s\<lparr>w_text := (w_text s)(p := w)\<rparr>"

text \<open>The wide string at an address, up to its terminator.\<close>

definition wcs :: "('w, 'z) wn_scheme \<Rightarrow> addr \<Rightarrow> wide" where
  "wcs s p = (if p = NULL then [] else takeWhile (\<lambda>c. c \<noteq> 0) (w_text s p))"

section \<open>Strings\<close>

definition win_conv_utf8 :: "'w os \<Rightarrow> string option \<Rightarrow> u64 \<Rightarrow> ('w, 'z) wn_scheme \<Rightarrow> addr \<times> ('w, 'z) wn_scheme" where
  "win_conv_utf8 os str extra_n s =
     (let (r, s) = syscall os (CWin (WWiden str None)) s; len = of_int (ret r) :: u64
      in if len = 0 then (NULL, s)
         else
           let (wstr, s) = malloc os (2 * (len + extra_n)) s
           in if wstr = NULL then (NULL, s\<lparr>errno := ERROR_OUTOFMEMORY\<rparr>)
              else
                let (r, s) = syscall os (CWin (WWiden str (Some len))) s
                in (wstr, put_text wstr (r_wide r @ [0]) s))"

definition win_conv_utf16 :: "'w os \<Rightarrow> wide \<Rightarrow> ('w, 'z) wn_scheme \<Rightarrow> addr \<times> ('w, 'z) wn_scheme" where
  "win_conv_utf16 os wstr s =
     (let (r, s) = syscall os (CWin (WNarrow wstr None)) s; len = of_int (ret r) :: u64
      in if len = 0 then (NULL, s)
         else
           let (str, s) = malloc os len s
           in if str = NULL then (NULL, s\<lparr>errno := ERROR_OUTOFMEMORY\<rparr>)
              else
                let (r, s) = syscall os (CWin (WNarrow wstr (Some len))) s
                in (str, store_bytes str (r_bytes r) s))"

definition win_init :: "'w os \<Rightarrow> ('w, 'z) wn_scheme \<Rightarrow> ('w, 'z) wn_scheme" where
  "win_init os s = (if wn_initialized s then s else ignore os (CWin WStartup) (s\<lparr>wn_initialized := True\<rparr>))"

text \<open>\<open>wcscpy\<close> overwrites the folder with the suffix.\<close>

definition win_folder :: "'w os \<Rightarrow> int \<Rightarrow> wide option \<Rightarrow> ('w, 'z) wn_scheme \<Rightarrow> addr \<times> ('w, 'z) wn_scheme" where
  "win_folder os i suffix s =
     (let (buff, s) = malloc os (2 * of_nat (MAX_PATH + (case suffix of None \<Rightarrow> 0 | Some x \<Rightarrow> length x) + 1)) s
      in if buff = NULL then (NULL, s)
         else
           let (r, s) = syscall os (CWin (WFolder i)) s
           in if ret r \<noteq> 0 then (NULL, s)
              else
                let s = put_text buff (r_wide r @ [0]) s;
                    s = (case suffix of None \<Rightarrow> s | Some x \<Rightarrow> put_text buff (x @ [0]) s);
                    (res, s) = win_conv_utf16 os (wcs s buff) s;
                    s = free os buff s
                in (res, s))"

section \<open>The command line and the environment block of a process\<close>

text \<open>
  One round for each argument; \<open>out\<close> is what was written, \<open>room\<close> the number of wide characters in the buffer. The
  outcome is \<open>None\<close> when the buffer is too short, \<open>Some None\<close> when an argument cannot be converted.
\<close>

fun quote_args :: "'w os \<Rightarrow> addr \<Rightarrow> nat \<Rightarrow> string list \<Rightarrow> wide \<Rightarrow> ('w, 'z) wn_scheme \<Rightarrow> (wide option \<times> ('w, 'z) wn_scheme) option" where
  "quote_args os buff room [] out s = Some (Some out, s)"
| "quote_args os buff room (a # as) out s =
     (let (warg, s) = win_conv_utf8 os (Some a) 0 s
      in if warg = NULL then Some (None, free os buff s)
         else
           let out = out @ quoted (wcs s warg) @ [if as = [] then 0 else SPACE]
           in if room < length out then None
              else
                let s = free os warg s
                in quote_args os buff room as out s)"

text \<open>The variant without quotes, with \<open>wcscat\<close>; it does not free the converted arguments.\<close>

fun join_args :: "'w os \<Rightarrow> addr \<Rightarrow> nat \<Rightarrow> bool \<Rightarrow> string list \<Rightarrow> wide \<Rightarrow> ('w, 'z) wn_scheme \<Rightarrow> (wide option \<times> ('w, 'z) wn_scheme) option" where
  "join_args os buff room later [] out s = Some (Some out, s)"
| "join_args os buff room later (a # as) out s =
     (let out = (if later then out @ [SPACE] else out)
      in if room < length out + 1 then None
         else
           let (warg, s) = win_conv_utf8 os (Some a) 0 s
           in if warg = NULL then Some (None, free os buff s)
              else
                let out = out @ wcs s warg
                in if room < length out + 1 then None
                   else join_args os buff room True as out s)"

definition win_cmdline_raw :: "'w os \<Rightarrow> string list \<Rightarrow> ('w, 'z) wn_scheme \<Rightarrow> (addr \<times> ('w, 'z) wn_scheme) option" where
  "win_cmdline_raw os argv s =
     (let buff_n = (\<Sum>a\<leftarrow>argv. length a + 1);
          (buff, s) = malloc os (2 * of_nat buff_n) s
      in if buff = NULL then Some (NULL, s)
         else if buff_n = 0 then None
         else do {
           (out, s) \<leftarrow> join_args os buff buff_n False argv [] s;
           case out of
             None \<Rightarrow> Some (NULL, s)
           | Some w \<Rightarrow> Some (buff, put_text buff (w @ [0]) s)
         })"

abbreviation (input) YO_SPAWN_NOESCAPE :: int where "YO_SPAWN_NOESCAPE \<equiv> 0"

text \<open>\<open>realloc\<close> moves the text.\<close>

definition win_realloc :: "'w os \<Rightarrow> addr \<Rightarrow> wide \<Rightarrow> ('w, 'z) wn_scheme \<Rightarrow> addr \<times> ('w, 'z) wn_scheme" where
  "win_realloc os buff w s =
     (let (r, s) = syscall os (CRealloc buff (2 * of_nat (length w))) s
      in (ptr r, put_text (ptr r) w s))"

definition win_cmdline :: "'w os \<Rightarrow> string list \<Rightarrow> int \<Rightarrow> ('w, 'z) wn_scheme \<Rightarrow> (addr \<times> ('w, 'z) wn_scheme) option" where
  "win_cmdline os argv flags s =
     (if flags = YO_SPAWN_NOESCAPE then win_cmdline_raw os argv s
      else
        let buff_n = (\<Sum>a\<leftarrow>argv. 1 + length a * 2 + 1 + 1);
            (buff, s) = malloc os (2 * of_nat buff_n) s
        in if buff = NULL then Some (NULL, s)
           else do {
             (out, s) \<leftarrow> quote_args os buff buff_n argv [] s;
             case out of
               None \<Rightarrow> Some (NULL, s)
             | Some w \<Rightarrow> Some (win_realloc os buff w s)
           })"

fun env_strings :: "'w os \<Rightarrow> addr \<Rightarrow> nat \<Rightarrow> string list \<Rightarrow> wide \<Rightarrow> ('w, 'z) wn_scheme \<Rightarrow> wide option \<times> ('w, 'z) wn_scheme" where
  "env_strings os buff room [] out s = (Some out, s)"
| "env_strings os buff room (e # es) out s =
     (let (r, s) = syscall os (CWin (WWiden (Some e) (Some (of_nat (room - length out))))) s
      in if ret r = 0 then (None, free os buff s)
         else env_strings os buff room es (out @ r_wide r @ [0]) s)"

text \<open>The memory is not tested for NULL.\<close>

definition win_envblock :: "'w os \<Rightarrow> string list option \<Rightarrow> ('w, 'z) wn_scheme \<Rightarrow> (addr \<times> ('w, 'z) wn_scheme) option" where
  "win_envblock os envp s =
     (case envp of
        None \<Rightarrow> Some (NULL, s)
      | Some envp \<Rightarrow>
          let buff_n = (\<Sum>e\<leftarrow>envp. length e + 1);
              (buff, s) = malloc os (2 * of_nat (buff_n + 1)) s
          in if buff = NULL then None
             else
               let (out, s) = env_strings os buff buff_n envp [] s
               in case out of
                    None \<Rightarrow> Some (NULL, s)
                  | Some w \<Rightarrow> Some (win_realloc os buff (w @ [0]) s))"

text \<open>
  The conversion from UTF-8 as documented: it answers with the number of units and the terminator, or with zero; a
  buffer of that size gets the units. There are not more units than bytes.
\<close>

definition widens :: "'w os \<Rightarrow> (string \<Rightarrow> wide option) \<Rightarrow> bool" where
  "widens os conv \<longleftrightarrow> (\<forall>w a.
     (conv a = None \<longrightarrow> ret (fst (os w (CWin (WWiden (Some a) None)))) = 0) \<and>
     (\<forall>x. conv a = Some x \<longrightarrow> 0 \<notin> set x \<and> length x \<le> length a \<and> length x + 1 < 2 ^ 31
        \<and> ret (fst (os w (CWin (WWiden (Some a) None)))) = int (length x) + 1
        \<and> (\<forall>n. length x < unat n \<longrightarrow> r_wide (fst (os w (CWin (WWiden (Some a) (Some n))))) = x)))"

lemma widensD:
  assumes "widens os conv" and "conv a = Some x"
  shows "0 \<notin> set x" and "length x \<le> length a" and "length x + 1 < 2 ^ 31"
    and "ret (reply_of os (CWin (WWiden (Some a) None)) s) = int (length x) + 1"
    and "length x < unat n \<Longrightarrow> r_wide (reply_of os (CWin (WWiden (Some a) (Some n))) s) = x"
proof -
  note w = assms(1) [unfolded widens_def, rule_format, THEN conjunct2, rule_format, OF assms(2)]
  show "0 \<notin> set x" and "length x \<le> length a" and "length x + 1 < 2 ^ 31"
    using w by blast+
  show "ret (reply_of os (CWin (WWiden (Some a) None)) s) = int (length x) + 1"
    using w [of "world s"] by (simp add: reply_of_def)
  show "r_wide (reply_of os (CWin (WWiden (Some a) (Some n))) s) = x" if "length x < unat n"
    using w [of "world s"] that by (simp add: reply_of_def)
qed

text \<open>A system that never runs out of memory.\<close>

definition has_memory :: "'w os \<Rightarrow> bool" where
  "has_memory os \<longleftrightarrow> (\<forall>w n. ptr (fst (os w (CMalloc n))) \<noteq> NULL) \<and> (\<forall>w p n. ptr (fst (os w (CRealloc p n))) \<noteq> NULL)"

lemma has_memoryD:
  "has_memory os \<Longrightarrow> ptr (reply_of os (CMalloc n) s) \<noteq> NULL"
  "has_memory os \<Longrightarrow> ptr (reply_of os (CRealloc p n) s) \<noteq> NULL"
  by (simp_all add: has_memory_def reply_of_def)

lemma widens_no_nul:
  assumes "widens os conv" and "list_all2 (\<lambda>a x. conv a = Some x) as ws"
  shows "\<forall>x \<in> set ws. 0 \<notin> set x"
  using assms(2) by (induction rule: list_all2_induct) (auto dest: widensD(1) [OF assms(1)])

lemma takeWhile_word: "0 \<notin> set x \<Longrightarrow> takeWhile (\<lambda>c. c \<noteq> 0) (x @ [0]) = (x :: wide)"
  by (subst takeWhile_append2) auto

lemma units_word:
  assumes "length (x :: wide) + 1 < 2 ^ 31"
  shows "unat (of_int (int (length x) + 1) :: u64) = length x + 1" and "(of_int (int (length x) + 1) :: u64) \<noteq> 0"
proof -
  have "unat (of_nat (length x + 1) :: u64) = length x + 1"
    by (rule unat_of_nat_exact) (use assms in simp)
  then show u: "unat (of_int (int (length x) + 1) :: u64) = length x + 1" by (simp add: add.commute)
  show "(of_int (int (length x) + 1) :: u64) \<noteq> 0"
  proof
    assume "(of_int (int (length x) + 1) :: u64) = 0"
    then show False using u by simp
  qed
qed

lemma conv_utf8_result:
  assumes "widens os conv" and "conv a = Some x"
  shows "\<exists>p s'. win_conv_utf8 os (Some a) n s = (p, s') \<and> (p = NULL \<or> wcs s' p = x) \<and> (has_memory os \<longrightarrow> p \<noteq> NULL)"
  using takeWhile_word [OF widensD(1) [OF assms]] units_word [OF widensD(3) [OF assms]]
  by (auto simp: win_conv_utf8_def sys_simps Let_def put_text_def wcs_def widensD(4,5) [OF assms]
      dest: has_memoryD(1))

lemma quote_args_result:
  assumes "widens os conv" and "list_all2 (\<lambda>a x. conv a = Some x) as ws"
    and "length out + (\<Sum>a\<leftarrow>as. 2 * length a + 3) \<le> room"
  shows "\<exists>y s'. quote_args os buff room as out s = Some (y, s')
    \<and> (y = None \<or> y = Some (out @ cmdline ws)) \<and> (has_memory os \<longrightarrow> y \<noteq> None)"
  using assms(2,3)
proof (induction as ws arbitrary: out s rule: list_all2_induct)
  case (Cons a as x ws)
  obtain p s1 where p: "win_conv_utf8 os (Some a) 0 s = (p, s1)" "p = NULL \<or> wcs s1 p = x"
      "has_memory os \<longrightarrow> p \<noteq> NULL"
    using conv_utf8_result [OF assms(1) Cons.hyps(1), of 0 s] by blast
  show ?case
  proof (cases "p = NULL")
    case True
    with p show ?thesis by simp
  next
    case False
    let ?out = "out @ quoted x @ [if as = [] then 0 else SPACE]"
    have last: "as = [] \<longleftrightarrow> ws = []" using Cons.hyps(2) by auto
    have "length (quoted x) \<le> 2 * length a + 2"
      using escape_length [of 0 x] widensD(2) [OF assms(1) Cons.hyps(1)] by (simp add: quoted_def)
    then have fits: "length ?out \<le> length out + (2 * length a + 3)" by simp
    with Cons.prems have "length ?out + (\<Sum>a\<leftarrow>as. 2 * length a + 3) \<le> room" by simp
    from Cons.IH [OF this, of "free os p s1"] obtain y s' where
      "quote_args os buff room as ?out (free os p s1) = Some (y, s')" "y = None \<or> y = Some (?out @ cmdline ws)"
      "has_memory os \<longrightarrow> y \<noteq> None" by blast
    moreover have "?out @ cmdline ws = out @ cmdline (x # ws)"
      using last by (cases "ws = []") (simp_all add: cmdline_Cons)
    moreover have "\<not> room < length ?out" using fits Cons.prems by simp
    ultimately show ?thesis using p False by (simp add: Let_def)
  qed
qed simp

text \<open>
  C36: The command line that \<open>_yoi_win_argv_to_cmdline\<close> builds with escaping never needs more room than the buffer
  has, and a program that reads it by the documented rules gets back exactly the arguments, if the
  program name has no quote and does not end in a backslash. It only fails for lack of memory.
\<close>

theorem win_cmdline_roundtrip:
  assumes "widens os conv" and "list_all2 (\<lambda>a x. conv a = Some x) argv (p # ws)"
    and "QUOTE \<notin> set p" and "p = [] \<or> last p \<noteq> BSL" and "flags \<noteq> YO_SPAWN_NOESCAPE"
  shows "\<exists>buff s'. win_cmdline os argv flags s = Some (buff, s')
    \<and> (buff = NULL \<or> parse_cmdline (w_text s' buff) = p # ws) \<and> (has_memory os \<longrightarrow> buff \<noteq> NULL)"
proof -
  have no_nul: "\<forall>x \<in> set (p # ws). 0 \<notin> set x"
    by (rule widens_no_nul [OF assms(1,2)])
  have "(\<Sum>a\<leftarrow>argv. 1 + length a * 2 + 1 + 1) = (\<Sum>a\<leftarrow>argv. 2 * length a + 3)"
    by (rule arg_cong [where f = sum_list]) (simp add: mult.commute)
  then obtain y s1 where "quote_args os (ptr (reply_of os (CMalloc (2 * of_nat (\<Sum>a\<leftarrow>argv. 1 + length a * 2 + 1 + 1))) s))
      (\<Sum>a\<leftarrow>argv. 1 + length a * 2 + 1 + 1) argv [] (after os (CMalloc (2 * of_nat (\<Sum>a\<leftarrow>argv. 1 + length a * 2 + 1 + 1))) s)
      = Some (y, s1)" "y = None \<or> y = Some (cmdline (p # ws))"
      "has_memory os \<longrightarrow> y \<noteq> None"
    using quote_args_result [OF assms(1,2), of "[]"] by fastforce
  then show ?thesis
    using cmdline_parses [of ws p] no_nul assms(3-5)
    by (auto simp: win_cmdline_def sys_simps Let_def win_realloc_def put_text_def dest: has_memoryD)
qed

text \<open>A system that knows the ASCII characters.\<close>

definition ascii :: "string \<Rightarrow> wide option" where
  "ascii a = (if list_all (\<lambda>c. 0 < (of_char c :: nat) \<and> (of_char c :: nat) < 128) a \<and> length a + 1 < 2 ^ 31
     then Some (map of_char a) else None)"

definition ascii_os :: "unit os" where
  "ascii_os w q = (case q of
      CMalloc n \<Rightarrow> returns 4096
    | CRealloc p n \<Rightarrow> returns 8192
    | CWin (WWiden (Some a) n) \<Rightarrow>
        (case ascii a of None \<Rightarrow> returns 0 | Some x \<Rightarrow> (returns (int (length x) + 1))\<lparr>r_wide := x\<rparr>)
    | _ \<Rightarrow> returns 0, ())"

lemma of_char_u16: "0 < (of_char c :: nat) \<Longrightarrow> (of_char c :: u16) \<noteq> 0"
  by (cases c) (auto simp: of_char_def)

lemma widens_ascii: "widens ascii_os ascii"
  unfolding widens_def ascii_os_def
  by (auto simp: ascii_def list_all_iff split: if_splits) (metis of_char_u16)

lemma has_memory_ascii: "has_memory ascii_os"
  by (simp add: has_memory_def ascii_os_def)

text \<open>The hypotheses hold for a program with one argument that has a space and a quote.\<close>

theorem win_cmdline_roundtrip_witness:
  "\<exists>buff s'. win_cmdline ascii_os [''p'', [CHR ''a'', CHR '' '', CHR 0x22]] 2 (undefined :: unit wn) = Some (buff, s')
     \<and> parse_cmdline (w_text s' buff) = [[112], [97, 32, 34]]"
  using win_cmdline_roundtrip [OF widens_ascii, of "[''p'', [CHR ''a'', CHR '' '', CHR 0x22]]" "[112]" "[[97, 32, 34]]" 2
      "undefined :: unit wn"] has_memory_ascii
  by (auto simp: ascii_def of_char_def)

end
