(* ===== verification/WinFiles.thy ===== *)
theory WinFiles
  imports WinIO
begin

text \<open>
  Handles, files and directories of \<open>src/win/impl.c\<close>. A handle is the signed value of its word, so that
  \<open>INVALID_HANDLE_VALUE\<close> is \<open>-1\<close>.
\<close>

section \<open>Handles\<close>

definition yoi_win_mkhnd :: "addr \<Rightarrow> int \<Rightarrow> ('w, 'z) wn_scheme \<Rightarrow> ('w, 'z) wn_scheme" where
  "yoi_win_mkhnd res hnd s =
     s\<lparr>wn_owned := (wn_owned s)(res := True), wn_kind := (wn_kind s)(res := YOI_WIN_HND),
       wn_hnd := (wn_hnd s)(res := hnd)\<rparr>"

definition yoi_win_mksock :: "addr \<Rightarrow> int \<Rightarrow> ('w, 'z) wn_scheme \<Rightarrow> ('w, 'z) wn_scheme" where
  "yoi_win_mksock res sock s =
     s\<lparr>wn_owned := (wn_owned s)(res := True), wn_kind := (wn_kind s)(res := YOI_WIN_SOCK),
       wn_hnd := (wn_hnd s)(res := sock)\<rparr>"

definition win_fd_new :: "'w os \<Rightarrow> addr \<Rightarrow> u64 \<Rightarrow> bool \<Rightarrow> ('w, 'z) wn_scheme \<Rightarrow> yo_code \<times> ('w, 'z) wn_scheme" where
  "win_fd_new os pres fd owned s =
     (let (res, s) = malloc os sizeof_wn_fd s
      in if res = NULL then (YO_ENOMEM, s)
         else
           let s = yoi_win_mkhnd res (sint fd) s;
               s = s\<lparr>wn_owned := (wn_owned s)(res := owned)\<rparr>
           in (YO_OK, set_ptr pres res s))"

definition win_fd_close :: "'w os \<Rightarrow> addr \<Rightarrow> ('w, 'z) wn_scheme \<Rightarrow> ('w, 'z) wn_scheme" where
  "win_fd_close os fd s =
     (let s = (if wn_owned s fd
               then ignore os (CWin (case wn_kind s fd of
                        YOI_WIN_HND \<Rightarrow> WCloseHandle (wn_hnd s fd)
                      | YOI_WIN_SOCK \<Rightarrow> WClosesocket (wn_hnd s fd))) s
               else s)
      in free os fd s)"

text \<open>A \<open>size_t\<close> that is passed as a \<open>DWORD\<close>, and as an \<open>int\<close>.\<close>

abbreviation (input) dword :: "u64 \<Rightarrow> u32" where "dword n \<equiv> ucast n"
abbreviation (input) as_int :: "u64 \<Rightarrow> u64" where "as_int n \<equiv> scast (ucast n :: u32)"

text \<open>\<open>ReadFile\<close> and \<open>WriteFile\<close> report the number of bytes in \<open>r_status\<close>.\<close>

definition win_read :: "'w os \<Rightarrow> addr \<Rightarrow> addr \<Rightarrow> addr \<Rightarrow> ('w, 'z) wn_scheme \<Rightarrow> yo_code \<times> ('w, 'z) wn_scheme" where
  "win_read os fd buff pn s =
     (case wn_kind s fd of
        YOI_WIN_HND \<Rightarrow>
          let (r, s) = syscall os (CWin (WReadFile (wn_hnd s fd) (dword (m_size s pn)) None)) s
          in if ret r = 0 then win_error s
             else
               let s = store_bytes buff (take (unat (r_status r)) (r_bytes r)) s
               in (YO_OK, set_size pn (ucast (r_status r)) s)
      | YOI_WIN_SOCK \<Rightarrow>
          let (r, s) = syscall os (CWin (WRecv (wn_hnd s fd) (as_int (m_size s pn)))) s;
              s = store_bytes buff (take (nat (ret r)) (r_bytes r)) s
          in if ret r < 0 then win_error s
             else if ret r = 0 then (YO_EOF, s)
             else (YO_OK, set_size pn (of_int (ret r)) s))"

definition win_write :: "'w os \<Rightarrow> addr \<Rightarrow> addr \<Rightarrow> addr \<Rightarrow> ('w, 'z) wn_scheme \<Rightarrow> yo_code \<times> ('w, 'z) wn_scheme" where
  "win_write os fd buff pn s =
     (case wn_kind s fd of
        YOI_WIN_HND \<Rightarrow>
          let n = dword (m_size s pn);
              (r, s) = syscall os (CWin (WWriteFile (wn_hnd s fd) (load_bytes buff (ucast n) s) n None)) s
          in if ret r = 0 then win_error s
             else (YO_OK, set_size pn (ucast (r_status r)) s)
      | YOI_WIN_SOCK \<Rightarrow>
          let n = as_int (m_size s pn);
              (r, s) = syscall os (CWin (WSend (wn_hnd s fd) (if sint n < 0 then [] else load_bytes buff n s) n)) s
          in if ret r < 0 then win_error s
             else if ret r = 0 then (YO_EOF, s)
             else (YO_OK, set_size pn (of_int (ret r)) s))"

definition win_sync :: "'w os \<Rightarrow> addr \<Rightarrow> ('w, 'z) wn_scheme \<Rightarrow> yo_code \<times> ('w, 'z) wn_scheme" where
  "win_sync os fd s =
     (if wn_kind s fd \<noteq> YOI_WIN_HND then (YO_EBADFD, s)
      else let (r, s) = syscall os (CWin (WFlush (wn_hnd s fd))) s
           in if ret r = 0 then win_error s else (YO_OK, s))"

abbreviation (input) FILE_ATTRIBUTE_READONLY :: u32 where "FILE_ATTRIBUTE_READONLY \<equiv> 1"
abbreviation (input) FILE_ATTRIBUTE_DIRECTORY :: u32 where "FILE_ATTRIBUTE_DIRECTORY \<equiv> 16"
abbreviation (input) FILE_ATTRIBUTE_ARCHIVE :: u32 where "FILE_ATTRIBUTE_ARCHIVE \<equiv> 32"
abbreviation (input) FILE_ATTRIBUTE_DEVICE :: u32 where "FILE_ATTRIBUTE_DEVICE \<equiv> 64"
abbreviation (input) FILE_ATTRIBUTE_NORMAL :: u32 where "FILE_ATTRIBUTE_NORMAL \<equiv> 128"
abbreviation (input) FILE_ATTRIBUTE_REPARSE_POINT :: u32 where "FILE_ATTRIBUTE_REPARSE_POINT \<equiv> 1024"

text \<open>\<open>COMBINE64\<close>, from the low and the high half.\<close>

definition combine64 :: "u32 \<times> u32 \<Rightarrow> u64" where
  "combine64 h = push_bit 32 (ucast (snd h)) OR ucast (fst h)"

definition win_conv_stat :: "yo_stat_t \<Rightarrow> winfo \<Rightarrow> yo_stat_t" where
  "win_conv_stat buff info =
     (let attr = wi_attributes info;
          buff = buff\<lparr>mode_of := (if attr AND FILE_ATTRIBUTE_READONLY \<noteq> 0 then 365 else 511)\<rparr>;
          buff =
            (if attr AND FILE_ATTRIBUTE_NORMAL \<noteq> 0 then buff\<lparr>type_of := YO_STAT_REG\<rparr>
             else if attr AND FILE_ATTRIBUTE_DIRECTORY \<noteq> 0 then buff\<lparr>type_of := YO_STAT_DIR\<rparr>
             else if attr AND FILE_ATTRIBUTE_DEVICE \<noteq> 0 then buff\<lparr>type_of := YO_STAT_BLK\<rparr>
             else if attr AND FILE_ATTRIBUTE_REPARSE_POINT \<noteq> 0 then buff\<lparr>type_of := YO_STAT_LINK, mode_of := 511\<rparr>
             else buff)
      in buff\<lparr>uid_of := 1000, gid_of := 1000,
              atime_of := yoi_win_conv_filetime (wi_atime info),
              mtime_of := yoi_win_conv_filetime (wi_mtime info),
              ctime_of := yoi_win_conv_filetime (wi_ctime info),
              size_of := combine64 (wi_size info),
              blksize_of := 4096,
              inode_of := combine64 (wi_index info),
              links_of := wi_links info\<rparr>)"

definition win_stat :: "'w os \<Rightarrow> addr \<Rightarrow> addr \<Rightarrow> ('w, 'z) wn_scheme \<Rightarrow> yo_code \<times> ('w, 'z) wn_scheme" where
  "win_stat os fd buff s =
     (if wn_kind s fd \<noteq> YOI_WIN_HND then (YO_EBADFD, s)
      else
        let (r, s) = syscall os (CWin (WFileInfo (wn_hnd s fd))) s
        in if ret r = 0 then win_error s
           else (YO_OK, s\<lparr>m_stat := (m_stat s)(buff := win_conv_stat (m_stat s buff) (r_info r))\<rparr>))"

definition win_tty_std :: "'w os \<Rightarrow> int \<Rightarrow> addr \<Rightarrow> ('w, 'z) wn_scheme \<Rightarrow> yo_code \<times> ('w, 'z) wn_scheme" where
  "win_tty_std os h pres s =
     (let (r, s) = syscall os (CWin (WStdHandle h)) s in win_fd_new os pres (of_int (ret r)) False s)"

definition win_tty_in :: "'w os \<Rightarrow> addr \<Rightarrow> ('w, 'z) wn_scheme \<Rightarrow> yo_code \<times> ('w, 'z) wn_scheme" where
  "win_tty_in os pres s = win_tty_std os (-10) pres s"

definition win_tty_out :: "'w os \<Rightarrow> addr \<Rightarrow> ('w, 'z) wn_scheme \<Rightarrow> yo_code \<times> ('w, 'z) wn_scheme" where
  "win_tty_out os pres s = win_tty_std os (-11) pres s"

definition win_tty_err :: "'w os \<Rightarrow> addr \<Rightarrow> ('w, 'z) wn_scheme \<Rightarrow> yo_code \<times> ('w, 'z) wn_scheme" where
  "win_tty_err os pres s = win_tty_std os (-12) pres s"

definition win_tty_raw :: "addr \<Rightarrow> addr \<Rightarrow> ('w, 'z) wn_scheme \<Rightarrow> yo_code \<times> ('w, 'z) wn_scheme" where
  "win_tty_raw tty pres s = (YO_ENOTSUP, s)"

definition win_tty_rawend :: "addr \<Rightarrow> ('w, 'z) wn_scheme \<Rightarrow> yo_code \<times> ('w, 'z) wn_scheme" where
  "win_tty_rawend rawmode s = (YO_ENOTSUP, s)"

section \<open>Files\<close>

definition win_file_remove :: "'w os \<Rightarrow> string \<Rightarrow> ('w, 'z) wn_scheme \<Rightarrow> yo_code \<times> ('w, 'z) wn_scheme" where
  "win_file_remove os path s =
     (let (wpath, s) = win_conv_utf8 os (Some path) 0 s
      in if wpath = NULL then win_error s
         else
           let (r, s) = syscall os (CWin (WDelete (wcs s wpath))) s
           in if ret r = 0 \<and> errno s \<noteq> ERROR_ACCESS_DENIED then let s = free os wpath s in win_error s
              else
                let (r, s) = syscall os (CWin (WRmdir (wcs s wpath))) s
                in if ret r = 0 then let s = free os wpath s in win_error s
                   else (YO_OK, free os wpath s))"

text \<open>Both functions test the first conversion twice.\<close>

definition win_link :: "'w os \<Rightarrow> (wide \<Rightarrow> wide \<Rightarrow> wcall) \<Rightarrow> string \<Rightarrow> string \<Rightarrow> ('w, 'z) wn_scheme \<Rightarrow> yo_code \<times> ('w, 'z) wn_scheme" where
  "win_link os mk path target s =
     (let (wpath, s) = win_conv_utf8 os (Some path) 0 s
      in if wpath = NULL then win_error s
         else
           let (wtarget, s) = win_conv_utf8 os (Some target) 0 s
           in if wpath = NULL then let s = free os wpath s in win_error s
              else
                let (r, s) = syscall os (CWin (mk (wcs s wtarget) (wcs s wpath))) s;
                    s = free os wpath s;
                    s = free os wtarget s
                in if ret r = 0 then win_error s else (YO_OK, s))"

definition win_file_symlink :: "'w os \<Rightarrow> string \<Rightarrow> string \<Rightarrow> ('w, 'z) wn_scheme \<Rightarrow> yo_code \<times> ('w, 'z) wn_scheme" where
  "win_file_symlink os path target s = win_link os WSymlink path target s"

definition win_file_hardlink :: "'w os \<Rightarrow> string \<Rightarrow> string \<Rightarrow> ('w, 'z) wn_scheme \<Rightarrow> yo_code \<times> ('w, 'z) wn_scheme" where
  "win_file_hardlink os path target s = win_link os WHardlink path target s"

definition win_file_readlink :: "string \<Rightarrow> addr \<Rightarrow> ('w, 'z) wn_scheme \<Rightarrow> yo_code \<times> ('w, 'z) wn_scheme" where
  "win_file_readlink path pres s = (YO_ENOTSUP, s)"

abbreviation (input) FILE_GENERIC_READ :: u32 where "FILE_GENERIC_READ \<equiv> 0x120089"
abbreviation (input) FILE_GENERIC_WRITE :: u32 where "FILE_GENERIC_WRITE \<equiv> 0x120116"
abbreviation (input) FILE_APPEND_DATA :: u32 where "FILE_APPEND_DATA \<equiv> 4"
abbreviation (input) FILE_WRITE_DATA :: u32 where "FILE_WRITE_DATA \<equiv> 2"
abbreviation (input) FILE_READ_DATA :: u32 where "FILE_READ_DATA \<equiv> 1"
abbreviation (input) FILE_SHARE_READ :: u32 where "FILE_SHARE_READ \<equiv> 1"
abbreviation (input) FILE_SHARE_WRITE :: u32 where "FILE_SHARE_WRITE \<equiv> 2"
abbreviation (input) FILE_SHARE_DELETE :: u32 where "FILE_SHARE_DELETE \<equiv> 4"
abbreviation (input) FILE_FLAG_WRITE_THROUGH :: u32 where "FILE_FLAG_WRITE_THROUGH \<equiv> 0x80000000"
abbreviation (input) CREATE_ALWAYS :: int where "CREATE_ALWAYS \<equiv> 2"
abbreviation (input) OPEN_EXISTING :: int where "OPEN_EXISTING \<equiv> 3"
abbreviation (input) OPEN_ALWAYS :: int where "OPEN_ALWAYS \<equiv> 4"
abbreviation (input) TRUNCATE_EXISTING :: int where "TRUNCATE_EXISTING \<equiv> 5"

text \<open>The access that is asked for, and what others may do meanwhile.\<close>

definition win_open_access :: "int \<Rightarrow> u32 \<times> u32" where
  "win_open_access flags =
     (let access = 0; access_others = FILE_SHARE_READ OR FILE_SHARE_WRITE OR FILE_SHARE_DELETE
      in if flags AND YO_OPEN_STAT = 0 then
           let flags = (if flags AND YO_OPEN_APPEND \<noteq> 0 then flags OR YO_OPEN_WRITE else flags);
               (access, access_others) =
                 (if flags AND YO_OPEN_READ \<noteq> 0
                  then (access OR FILE_GENERIC_READ, access_others AND NOT FILE_SHARE_DELETE)
                  else (access, access_others))
           in if flags AND YO_OPEN_WRITE \<noteq> 0 then
                let access = access OR FILE_GENERIC_WRITE;
                    access_others = access_others AND NOT (FILE_SHARE_DELETE OR FILE_SHARE_WRITE)
                in (if flags AND YO_OPEN_APPEND = 0 then access AND NOT FILE_APPEND_DATA else access, access_others)
              else (access, access_others)
         else (access, access_others))"

definition win_create_mode :: "int \<Rightarrow> int" where
  "win_create_mode flags =
     switch [(0, OPEN_EXISTING), (YO_OPEN_CREATE, OPEN_ALWAYS), (YO_OPEN_TRUNC, TRUNCATE_EXISTING),
             (YO_OPEN_CREATE OR YO_OPEN_TRUNC, CREATE_ALWAYS)] 0 (flags AND (YO_OPEN_CREATE OR YO_OPEN_TRUNC))"

definition win_file_open :: "'w os \<Rightarrow> addr \<Rightarrow> string \<Rightarrow> int \<Rightarrow> int \<Rightarrow> ('w, 'z) wn_scheme \<Rightarrow> yo_code \<times> ('w, 'z) wn_scheme" where
  "win_file_open os pres path flags mode s =
     (let (res, s) = malloc os sizeof_wn_fd s
      in if res = NULL then (YO_ENOMEM, s)
         else
           let (access, access_others) = win_open_access flags;
               create_mode = win_create_mode flags;
               res_flags = (if flags AND YO_OPEN_DIRECT \<noteq> 0 then FILE_FLAG_WRITE_THROUGH else 0);
               (wpath, s) = win_conv_utf8 os (Some path) 0 s
           in if wpath = NULL then let s = free os res s in win_error s
              else
                let (r, s) = syscall os (CWin (WCreateFile (wcs s wpath) access access_others create_mode
                                  (FILE_ATTRIBUTE_NORMAL OR res_flags))) s;
                    s = free os wpath s
                in if ret r = INVALID then let s = free os res s in win_error s
                   else
                     let s = yoi_win_mkhnd res (ret r) s
                     in (YO_OK, set_ptr pres res s))"

definition win_file_read :: "'w os \<Rightarrow> addr \<Rightarrow> addr \<Rightarrow> addr \<Rightarrow> u64 \<Rightarrow> ('w, 'z) wn_scheme \<Rightarrow> yo_code \<times> ('w, 'z) wn_scheme" where
  "win_file_read os fd buff n off s =
     (if wn_kind s fd \<noteq> YOI_WIN_HND then (YO_EBADFD, s)
      else
        let (r, s) = syscall os (CWin (WReadFile (wn_hnd s fd) (dword (m_size s n)) (Some off))) s
        in if ret r = 0 then win_error s
           else
             let s = store_bytes buff (take (unat (r_status r)) (r_bytes r)) s
             in (YO_OK, set_size n (ucast (r_status r)) s))"

definition win_file_write :: "'w os \<Rightarrow> addr \<Rightarrow> addr \<Rightarrow> addr \<Rightarrow> u64 \<Rightarrow> ('w, 'z) wn_scheme \<Rightarrow> yo_code \<times> ('w, 'z) wn_scheme" where
  "win_file_write os fd buff n off s =
     (if wn_kind s fd \<noteq> YOI_WIN_HND then (YO_EBADFD, s)
      else
        let k = dword (m_size s n);
            (r, s) = syscall os (CWin (WWriteFile (wn_hnd s fd) (load_bytes buff (ucast k) s) k (Some off))) s
        in if ret r = 0 then win_error s
           else (YO_OK, set_size n (ucast (r_status r)) s))"

definition win_file_chmod :: "addr \<Rightarrow> int \<Rightarrow> ('w, 'z) wn_scheme \<Rightarrow> yo_code \<times> ('w, 'z) wn_scheme" where
  "win_file_chmod fd mode s = (YO_OK, s)"

definition win_file_chown :: "addr \<Rightarrow> int \<Rightarrow> int \<Rightarrow> ('w, 'z) wn_scheme \<Rightarrow> yo_code \<times> ('w, 'z) wn_scheme" where
  "win_file_chown fd uid gid s = (YO_OK, s)"

section \<open>Directories\<close>

definition win_dir_new :: "'w os \<Rightarrow> string \<Rightarrow> int \<Rightarrow> ('w, 'z) wn_scheme \<Rightarrow> yo_code \<times> ('w, 'z) wn_scheme" where
  "win_dir_new os path mode s =
     (let (wpath, s) = win_conv_utf8 os (Some path) 0 s
      in if wpath = NULL then win_error s
         else
           let (r, s) = syscall os (CWin (WMkdir (wcs s wpath))) s;
               s = free os wpath s
           in if ret r = 0 then win_error s else (YO_OK, s))"

abbreviation (input) STAR :: u16 where "STAR \<equiv> 42"
abbreviation (input) DOT :: u16 where "DOT \<equiv> 46"

definition win_dir_open :: "'w os \<Rightarrow> addr \<Rightarrow> string \<Rightarrow> ('w, 'z) wn_scheme \<Rightarrow> yo_code \<times> ('w, 'z) wn_scheme" where
  "win_dir_open os pres path s =
     (let (wpattern, s) = win_conv_utf8 os (Some path) 2 s
      in if wpattern = NULL then win_error s
         else
           let s = put_text wpattern (wcs s wpattern @ [BSL, STAR, 0]) s;
               s = put_text wpattern (yoi_win_fix_path (wcs s wpattern) @ [0]) s;
               (r, s) = syscall os (CWin (WFindFirst (wcs s wpattern))) s;
               s = free os wpattern s
           in if ret r = INVALID then win_error s
              else
                let (res, s) = malloc os sizeof_wn_dir s
                in if res = NULL then (YO_ENOMEM, s)
                   else
                     let s = s\<lparr>wd_name := (wd_name s)(res := r_wide r), wd_hnd := (wd_hnd s)(res := ret r),
                               wd_done := (wd_done s)(res := False)\<rparr>
                     in (YO_OK, set_ptr pres res s))"

text \<open>The loop may go on for ever, on an endless directory of dots.\<close>

partial_function (option) win_dir_next ::
  "'w os \<Rightarrow> addr \<Rightarrow> addr \<Rightarrow> ('w, 'z) wn_scheme \<Rightarrow> (yo_code \<times> ('w, 'z) wn_scheme) option" where
  "win_dir_next os dir pname s =
     (if wd_done s dir then Some (YO_OK, set_ptr pname NULL s)
      else
        let is_synth = wd_name s dir = [DOT] \<or> wd_name s dir = [DOT, DOT];
            s = (if is_synth then s
                 else let (p, s) = win_conv_utf16 os (wd_name s dir) s in set_ptr pname p s);
            (r, s) = syscall os (CWin (WFindNext (wd_hnd s dir))) s
        in if ret r = 0 then
             if errno s = ERROR_NO_MORE_FILES then
               let s = s\<lparr>wd_done := (wd_done s)(dir := True)\<rparr>
               in if is_synth then win_dir_next os dir pname s else Some (YO_OK, s)
             else Some (win_error s)
           else
             let s = s\<lparr>wd_name := (wd_name s)(dir := r_wide r)\<rparr>
             in if is_synth then win_dir_next os dir pname s else Some (YO_OK, s))"

definition win_dir_close :: "'w os \<Rightarrow> addr \<Rightarrow> ('w, 'z) wn_scheme \<Rightarrow> ('w, 'z) wn_scheme" where
  "win_dir_close os dir s =
     (let s = ignore os (CWin (WFindClose (wd_hnd s dir))) s in free os dir s)"

section \<open>Fields across calls\<close>

lemma wn_after_simps [simp]:
  "w_text (after os q s) = w_text s" "wn_kind (after os q s) = wn_kind s" "wn_hnd (after os q s) = wn_hnd s"
  "wn_owned (after os q s) = wn_owned s" "wd_hnd (after os q s) = wd_hnd s" "wd_done (after os q s) = wd_done s"
  "wd_name (after os q s) = wd_name s" "wp_hnd (after os q s) = wp_hnd s" "we_last (after os q s) = we_last s"
  "we_data (after os q s) = we_data s" "we_pos (after os q s) = we_pos s" "wn_frame (after os q s) = wn_frame s"
  "wcs (after os q s) = wcs s"
  by (simp_all add: after_eq wcs_def fun_eq_iff)

lemma wn_set_simps [simp]:
  "wd_hnd (set_ptr p v s) = wd_hnd s" "wd_done (set_ptr p v s) = wd_done s" "wd_name (set_ptr p v s) = wd_name s"
  "world (set_ptr p v s) = world s" "errno (set_ptr p v s) = errno s"
  "wd_hnd (store_bytes p bs s) = wd_hnd s" "wd_done (store_bytes p bs s) = wd_done s"
  "wd_name (store_bytes p bs s) = wd_name s"
  by (simp_all add: set_ptr_def store_bytes_def)

lemma win_error_simps [simp]: "fst (win_error s) = yoi_win_conv_errno (errno s)" "snd (win_error s) = s"
  by (simp_all add: win_error_def)

lemma win_error_not_ok [simp]: "win_error s \<noteq> (YO_OK, s')" "fst (win_error s) \<noteq> YO_OK"
  by (simp_all add: win_error_def win_conv_not_ok)

section \<open>Properties of files\<close>

text \<open>
  The access that \<open>yo_file_open\<close> asks for: nothing when only the attributes are wanted; else reading for
  \<open>YO_OPEN_READ\<close>, writing for \<open>YO_OPEN_WRITE\<close> and \<open>YO_OPEN_APPEND\<close>, and appending for the latter.
  A handle for appending may thus write anywhere. Others may read at all times, write only while the handle
  does not write, and delete only while it neither reads nor writes.
\<close>

theorem win_open_access_bits:
  "win_open_access flags =
     (let stat = flags AND YO_OPEN_STAT \<noteq> 0; rd = \<not> stat \<and> flags AND YO_OPEN_READ \<noteq> 0;
          app = \<not> stat \<and> flags AND YO_OPEN_APPEND \<noteq> 0; wr = \<not> stat \<and> flags AND YO_OPEN_WRITE \<noteq> 0 \<or> app
      in ((if rd then FILE_GENERIC_READ else 0) OR
          (if wr then FILE_GENERIC_WRITE AND NOT FILE_APPEND_DATA else 0) OR (if app then FILE_APPEND_DATA else 0),
          FILE_SHARE_READ OR (if wr then 0 else FILE_SHARE_WRITE) OR (if rd \<or> wr then 0 else FILE_SHARE_DELETE)))"
proof -
  have w: "(flags OR 2) AND 1 = flags AND 1" "(flags OR 2) AND 4 = flags AND 4" "(flags OR 2) AND 2 = 2"
    by (simp add: bit.conj_disj_distrib2, simp add: bit.conj_disj_distrib2, rule bit_eqI, auto simp: bit_simps)
  show ?thesis
    by (cases "flags AND YO_OPEN_STAT = 0"; cases "flags AND YO_OPEN_APPEND = 0"; cases "flags AND YO_OPEN_READ = 0";
        cases "flags AND YO_OPEN_WRITE = 0") (simp_all add: win_open_access_def Let_def w)
qed

text \<open>A path that was deleted is not there any more, so that the directory of that name cannot be removed.\<close>

definition deletes :: "'w os \<Rightarrow> bool" where
  "deletes os \<longleftrightarrow> (\<forall>w p. ret (fst (os w (CWin (WDelete p)))) \<noteq> 0 \<longrightarrow>
     ret (fst (os (snd (os w (CWin (WDelete p)))) (CWin (WRmdir p)))) = 0)"

text \<open>
  \<open>yo_file_remove\<close> only reports success when the system refused to delete the file and then removed a directory:
  after a file was deleted it goes on to remove a directory of the same name, and returns that error.
\<close>

theorem win_remove_reports_error:
  assumes "deletes os" and "win_file_remove os path s = (YO_OK, s')"
  shows "\<exists>p r r'. (CWin (WDelete p), r) \<in> set (trace s') \<and> ret r = 0
     \<and> (CWin (WRmdir p), r') \<in> set (trace s') \<and> ret r' \<noteq> 0"
proof -
  obtain wpath s1 where conv: "win_conv_utf8 os (Some path) 0 s = (wpath, s1)" by fastforce
  let ?del = "CWin (WDelete (wcs s1 wpath))"
  let ?rm = "CWin (WRmdir (wcs s1 wpath))"
  have *: "ret (reply_of os ?rm (after os ?del s1)) \<noteq> 0" "s' = after os (CFree wpath) (after os ?rm (after os ?del s1))"
    using assms(2) by (auto simp: win_file_remove_def conv sys_simps Let_def split: if_splits)
  then have "ret (reply_of os ?del s1) = 0"
    using assms(1) by (auto simp: deletes_def reply_of_def after_eq)
  with * show ?thesis by auto
qed

text \<open>A system with files and directories, apart from each other.\<close>

definition fs_os :: "(wide set \<times> wide set) os" where
  "fs_os w q = (case q of
      CWin (WDelete p) \<Rightarrow>
        if p \<in> snd w then (failed 0 ERROR_ACCESS_DENIED, w)
        else if p \<in> fst w then (returns 1, (fst w - {p}, snd w)) else (failed 0 ERROR_FILE_NOT_FOUND, w)
    | CWin (WRmdir p) \<Rightarrow>
        if p \<in> snd w then (returns 1, (fst w, snd w - {p})) else (failed 0 ERROR_FILE_NOT_FOUND, w)
    | _ \<Rightarrow> (fst (ascii_os () q), w))"

definition fs_state :: "wide set \<Rightarrow> wide set \<Rightarrow> (wide set \<times> wide set) wn" where
  "fs_state files dirs = undefined\<lparr>world := (files, dirs), errno := 0\<rparr>"

lemma deletes_fs: "deletes fs_os"
  by (simp add: deletes_def fs_os_def)

lemma fs_conv:
  assumes "ascii path = Some x"
  shows "\<exists>s'. win_conv_utf8 fs_os (Some path) 0 s = (4096, s') \<and> wcs s' 4096 = x \<and> world s' = world s"
  using takeWhile_word [OF widensD(1) [OF widens_ascii assms]] units_word [OF widensD(3) [OF widens_ascii assms]] assms
  by (simp add: win_conv_utf8_def sys_simps Let_def put_text_def wcs_def reply_of_def after_eq fs_os_def ascii_os_def)

theorem win_remove_reports_error_witness:
  "\<exists>p s' r r'. win_file_remove fs_os ''d'' (fs_state {} {[100]}) = (YO_OK, s')
     \<and> (CWin (WDelete p), r) \<in> set (trace s') \<and> ret r = 0
     \<and> (CWin (WRmdir p), r') \<in> set (trace s') \<and> ret r' \<noteq> 0"
proof -
  have x: "ascii ''d'' = Some [100]" by (simp add: ascii_def of_char_def)
  obtain s1 where s1: "win_conv_utf8 fs_os (Some ''d'') 0 (fs_state {} {[100]}) = (4096, s1)" "wcs s1 4096 = [100]"
    "world s1 = ({}, {[100]})"
    using fs_conv [OF x, of "fs_state {} {[100]}"] by (auto simp: fs_state_def)
  let ?s2 = "after fs_os (CWin (WDelete [100])) s1"
  have "errno ?s2 = ERROR_ACCESS_DENIED" "world ?s2 = ({}, {[100]})"
    by (simp_all add: after_eq reply_of_def fs_os_def s1)
  then have "fst (win_file_remove fs_os ''d'' (fs_state {} {[100]})) = YO_OK"
    by (simp add: win_file_remove_def sys_simps s1 Let_def reply_of_def fs_os_def)
  then obtain s' where "win_file_remove fs_os ''d'' (fs_state {} {[100]}) = (YO_OK, s')"
    by (metis prod.collapse)
  with win_remove_reports_error [OF deletes_fs this] show ?thesis by blast
qed

section \<open>Properties of directories\<close>

text \<open>
  A find handle as documented: \<open>rest\<close> is what it has not returned yet. Other calls do not move it.
\<close>

definition walks_find :: "'w os \<Rightarrow> int \<Rightarrow> ('w \<Rightarrow> wide list) \<Rightarrow> bool" where
  "walks_find os h rest \<longleftrightarrow> (\<forall>w.
     (ret (fst (os w (CWin (WFindNext h)))) = 0 \<longleftrightarrow> rest w = [])
   \<and> (rest w = [] \<longrightarrow> eno (fst (os w (CWin (WFindNext h)))) = Some ERROR_NO_MORE_FILES)
   \<and> (rest w \<noteq> [] \<longrightarrow> r_wide (fst (os w (CWin (WFindNext h)))) = hd (rest w))
   \<and> rest (snd (os w (CWin (WFindNext h)))) = tl (rest w)
   \<and> (\<forall>q. q \<noteq> CWin (WFindNext h) \<longrightarrow> rest (snd (os w q)) = rest w))"

definition real_entry :: "wide \<Rightarrow> bool" where
  "real_entry x \<longleftrightarrow> x \<noteq> [DOT] \<and> x \<noteq> [DOT, DOT]"

text \<open>The entries that the iterator has still to return.\<close>

definition entries_left :: "('w \<Rightarrow> wide list) \<Rightarrow> addr \<Rightarrow> ('w, 'z) wn_scheme \<Rightarrow> wide list" where
  "entries_left rest dir s = (if wd_done s dir then [] else filter real_entry (wd_name s dir # rest (world s)))"

lemma find_next:
  assumes "walks_find os h rest"
  shows "ret (reply_of os (CWin (WFindNext h)) s) = 0 \<longleftrightarrow> rest (world s) = []"
    and "rest (world s) = [] \<Longrightarrow> errno (after os (CWin (WFindNext h)) s) = ERROR_NO_MORE_FILES"
    and "rest (world s) \<noteq> [] \<Longrightarrow> r_wide (reply_of os (CWin (WFindNext h)) s) = hd (rest (world s))"
    and "rest (snd (os w (CWin (WFindNext h)))) = tl (rest w)"
    and "q \<noteq> CWin (WFindNext h) \<Longrightarrow> rest (snd (os w q)) = rest w"
  using assms by (auto simp: walks_find_def reply_of_def after_errno)

lemma conv_utf16_keeps:
  assumes "walks_find os h rest" and "win_conv_utf16 os w s = (p, s')"
  shows "wd_hnd s' = wd_hnd s \<and> wd_done s' = wd_done s \<and> wd_name s' = wd_name s \<and> rest (world s') = rest (world s)"
  using assms(2) by (auto simp: win_conv_utf16_def sys_simps Let_def find_next(5) [OF assms(1)] split: if_splits)

text \<open>The rounds of the loop.\<close>

lemma dir_next_done: "wd_done s dir \<Longrightarrow> win_dir_next os dir pname s = Some (YO_OK, set_ptr pname NULL s)"
  by (subst win_dir_next.simps) simp

lemma dir_next_dots:
  assumes "walks_find os (wd_hnd s dir) rest" and "\<not> wd_done s dir" and "\<not> real_entry (wd_name s dir)"
  shows "win_dir_next os dir pname s = win_dir_next os dir pname
    (let s' = after os (CWin (WFindNext (wd_hnd s dir))) s
     in case rest (world s) of [] \<Rightarrow> s'\<lparr>wd_done := (wd_done s)(dir := True)\<rparr>
        | x # _ \<Rightarrow> s'\<lparr>wd_name := (wd_name s)(dir := x)\<rparr>)"
  using assms(2,3) find_next(1-3) [OF assms(1), of s]
  by (subst win_dir_next.simps) (auto simp: real_entry_def sys_simps Let_def split: list.split)

lemma dir_next_entry:
  assumes "walks_find os (wd_hnd s dir) rest" and "\<not> wd_done s dir" and "real_entry (wd_name s dir)"
    and "win_conv_utf16 os (wd_name s dir) s = (p, s1)"
  shows "win_dir_next os dir pname s = Some (YO_OK,
    (let s' = after os (CWin (WFindNext (wd_hnd s dir))) (set_ptr pname p s1)
     in case rest (world s) of [] \<Rightarrow> s'\<lparr>wd_done := (wd_done s)(dir := True)\<rparr>
        | x # _ \<Rightarrow> s'\<lparr>wd_name := (wd_name s)(dir := x)\<rparr>))"
  using assms(2-4) conv_utf16_keeps [OF assms(1,4)] find_next(1-3) [OF assms(1), of "set_ptr pname p s1"]
  by (subst win_dir_next.simps) (auto simp: real_entry_def sys_simps Let_def split: list.split)

lemma find_dir_walk:
  fixes s :: "('w, 'z) wn_scheme"
  assumes "walks_find os h rest" and "wd_hnd s dir = h"
  shows "\<exists>s' s1. win_dir_next os dir pname s = Some (YO_OK, s') \<and> wd_hnd s' dir = h
    \<and> entries_left rest dir s' = tl (entries_left rest dir s)
    \<and> m_ptr s' pname = (case entries_left rest dir s of [] \<Rightarrow> NULL
        | x # xs \<Rightarrow> fst (win_conv_utf16 os x (s1 :: ('w, 'z) wn_scheme)))"
  using assms(2)
proof (induction "rest (world s)" arbitrary: s rule: measure_induct_rule [where f = length])
  case less
  note w = assms(1) [folded less.prems]
  consider "wd_done s dir" | "\<not> wd_done s dir" "real_entry (wd_name s dir)" | "\<not> wd_done s dir" "\<not> real_entry (wd_name s dir)"
    by blast
  then show ?case
  proof cases
    case 1
    then show ?thesis using less.prems by (simp add: dir_next_done entries_left_def)
  next
    case 2
    obtain p s1 where p: "win_conv_utf16 os (wd_name s dir) s = (p, s1)" by fastforce
    show ?thesis
      using 2 p conv_utf16_keeps [OF w p] less.prems find_next(4) [OF w]
      by (auto simp: dir_next_entry [OF w 2 p] entries_left_def Let_def split: list.split intro!: exI [of _ s])
  next
    case 3
    note step = dir_next_dots [OF w 3]
    show ?thesis
    proof (cases "rest (world s)")
      case Nil
      with 3 less.prems show ?thesis
        by (simp add: step Let_def dir_next_done entries_left_def)
    next
      case (Cons x xs)
      let ?s = "(after os (CWin (WFindNext (wd_hnd s dir))) s)\<lparr>wd_name := (wd_name s)(dir := x)\<rparr>"
      have "entries_left rest dir s = entries_left rest dir ?s"
        using 3 Cons by (simp add: entries_left_def find_next(4) [OF w])
      then show ?thesis
        using less.hyps [of ?s] less.prems Cons by (simp add: step Let_def find_next(4) [OF assms(1)])
    qed
  qed
qed

text \<open>
  C37: \<open>yo_dir_next\<close> refines a list of names: each call takes the next entry that is not a dot from the find handle
  and returns its conversion, and NULL when there are none left; it always returns. A conversion that fails
  also gives NULL, with success, so that the caller takes it for the end. This is for a find handle whose entries end with
  \<open>ERROR_NO_MORE_FILES\<close> (\<open>walks_find\<close>), as those of a directory that can be read do.
\<close>

theorem win_dir_next_cursor:
  fixes s :: "('w, 'z) wn_scheme"
  assumes "walks_find os (wd_hnd s dir) rest"
  shows "\<exists>s' s1. win_dir_next os dir pname s = Some (YO_OK, s') \<and> wd_hnd s' dir = wd_hnd s dir
    \<and> entries_left rest dir s' = tl (entries_left rest dir s)
    \<and> m_ptr s' pname = (case entries_left rest dir s of [] \<Rightarrow> NULL
        | x # xs \<Rightarrow> fst (win_conv_utf16 os x (s1 :: ('w, 'z) wn_scheme)))"
  using find_dir_walk [OF assms refl] .

text \<open>A directory with the two dots and one file.\<close>

definition find_os :: "wide list os" where
  "find_os w q = (if q = CWin (WFindNext 7)
     then case w of [] \<Rightarrow> (failed 0 ERROR_NO_MORE_FILES, []) | x # xs \<Rightarrow> ((returns 1)\<lparr>r_wide := x\<rparr>, xs)
     else case q of
       CMalloc n \<Rightarrow> (returns 4096, w)
     | CWin (WNarrow x n) \<Rightarrow> ((returns (int (length x) + 1))\<lparr>r_bytes := map ucast x @ [0]\<rparr>, w)
     | _ \<Rightarrow> (returns 0, w))"

lemma walks_find_os: "walks_find find_os 7 id"
  by (auto simp: walks_find_def find_os_def split: list.splits call.splits wcall.splits)

definition find_state :: "wide list wn" where
  "find_state = undefined\<lparr>world := [[DOT, DOT], [102]], wd_hnd := \<lambda>_. 7, wd_done := \<lambda>_. False, wd_name := \<lambda>_. [DOT]\<rparr>"

theorem win_dir_next_cursor_witness:
  "\<exists>s'. win_dir_next find_os 16 32 find_state = Some (YO_OK, s') \<and> m_ptr s' 32 = 4096 \<and> entries_left id 16 s' = []"
proof -
  have "entries_left id 16 find_state = [[102]]" "wd_hnd find_state 16 = 7"
    by (simp_all add: entries_left_def find_state_def real_entry_def)
  moreover have "fst (win_conv_utf16 find_os [102] s1) = 4096" for s1 :: "wide list wn"
    by (simp add: win_conv_utf16_def sys_simps Let_def reply_of_def find_os_def)
  ultimately show ?thesis
    using win_dir_next_cursor [of find_os find_state 16 id 32] walks_find_os by fastforce
qed

end
