(* ===== verification/WinSys.thy ===== *)
theory WinSys
  imports WinFiles
begin

text \<open>
  Sockets, processes, signals, paths, the environment and the clocks of \<open>src/win/impl.c\<close>.
\<close>

section \<open>Sockets\<close>

definition win_sock_new :: "'w os \<Rightarrow> yo_proto \<Rightarrow> yo_addr \<Rightarrow> ('w, 'z) wn_scheme \<Rightarrow> int \<times> ('w, 'z) wn_scheme" where
  "win_sock_new os proto addr s =
     (let (r, s) = syscall os (CSocket (if is_ipv4 addr then AF_INET else WIN_AF_INET6)
                                       (if proto = YO_PROTO_UDP then 2 else 1)
                                       (if proto = YO_PROTO_UDP then 17 else 6)) s
      in (ret r, s))"

definition win_socket_bind ::
  "'w os \<Rightarrow> addr \<Rightarrow> yo_proto \<Rightarrow> yo_addr \<Rightarrow> u16 \<Rightarrow> u64 \<Rightarrow> ('w, 'z) wn_scheme
     \<Rightarrow> yo_code \<times> ('w, 'z) wn_scheme" where
  "win_socket_bind os pres proto addr port max_n s =
     (let s = win_init os s;
          (res, s) = malloc os sizeof_wn_fd s
      in if res = NULL then (YO_ENOMEM, s)
         else
           let (sock, s) = win_sock_new os proto addr s
           in if sock = INVALID then let s = free os res s in win_error s
              else
                let fail = (\<lambda>s. let s = free os res s; s = ignore os (CWin (WClosesocket sock)) s in win_error s);
                    (r, s) = syscall os (CReuseaddr sock) s
                in if ret r < 0 then fail s
                   else
                     let (arg_addr, len) = yoi_win_conv_addr addr port;
                         (r, s) = syscall os (CBind sock arg_addr len) s
                     in if ret r < 0 then fail s
                        else
                          let (r, s) = syscall os (CListen sock max_n) s
                          in if ret r < 0 then fail s
                             else
                               let s = yoi_win_mksock res sock s
                               in (YO_OK, set_ptr pres res s))"

text \<open>The server pointer is used as the socket, and the socket of the client is returned as its handle.\<close>

definition win_socket_accept ::
  "'w os \<Rightarrow> addr \<Rightarrow> addr \<Rightarrow> addr \<Rightarrow> addr \<Rightarrow> ('w, 'z) wn_scheme \<Rightarrow> yo_code \<times> ('w, 'z) wn_scheme" where
  "win_socket_accept os server pres paddr pport s =
     (let s = win_init os s;
          (res, s) = malloc os sizeof_wn_fd s
      in if res = NULL then (YO_ENOMEM, s)
         else
           let (r, s) = syscall os (CAccept (sint server)) s; client = ret r
           in if client = 0 then let s = free os res s in win_error s
              else
                let sa = (case r_socks r of
                            [] \<Rightarrow> \<lparr>ss_family = 0, sin_port = 0, sin_addr = replicate 16 0\<rparr> | sa # _ \<Rightarrow> sa);
                    (a, port) = yoi_win_conv_sockaddr sa;
                    s = s\<lparr>m_addr := (m_addr s)(paddr := a), m_u16 := (m_u16 s)(pport := port)\<rparr>;
                    s = yoi_win_mksock res client s
                in (YO_OK, set_ptr pres (of_int client) s))"

definition win_socket_connect ::
  "'w os \<Rightarrow> addr \<Rightarrow> yo_proto \<Rightarrow> yo_addr \<Rightarrow> u16 \<Rightarrow> ('w, 'z) wn_scheme \<Rightarrow> yo_code \<times> ('w, 'z) wn_scheme" where
  "win_socket_connect os pres proto addr port s =
     (let s = win_init os s;
          (res, s) = malloc os sizeof_wn_fd s
      in if res = NULL then (YO_ENOMEM, s)
         else
           let (sock, s) = win_sock_new os proto addr s
           in if sock = INVALID then let s = free os res s in win_error s
              else
                let (arg_addr, len) = yoi_win_conv_addr addr port;
                    (r, s) = syscall os (CConnect sock arg_addr len) s
                in if ret r < 0 then
                     let s = ignore os (CWin (WClosesocket sock)) s; s = free os res s in win_error s
                   else
                     let s = yoi_win_mksock res sock s
                     in (YO_OK, set_ptr pres res s))"

section \<open>Processes\<close>

text \<open>
  The two ends of the pipe, the parent's first, and the new handle, or none on failure. \<open>SetHandleInformation\<close> gets the
  address of the local variable \<open>parent\<close> instead of its value.
\<close>

definition win_child_std_new :: "'w os \<Rightarrow> bool \<Rightarrow> ('w, 'z) wn_scheme \<Rightarrow> (int \<times> int \<times> addr) option \<times> ('w, 'z) wn_scheme" where
  "win_child_std_new os inp s =
     (let (res, s) = malloc os sizeof_wn_fd s
      in if res = NULL then (None, s)
         else
           let (r, s) = syscall os (CWin WPipe) s
           in if ret r = 0 then (None, free os res s)
              else
                let (rd, wr) = r_pair r;
                    (parent, child) = (if inp then (wr, rd) else (rd, wr));
                    (r, s) = syscall os (CWin (WSetInfo (wn_frame s))) s
                in if ret r = 0 then
                     let s = ignore os (CWin (WCloseHandle parent)) s;
                         s = ignore os (CWin (WCloseHandle child)) s
                     in (None, free os res s)
                   else (Some (parent, child, res), s))"

definition close_hnd :: "'w os \<Rightarrow> int \<Rightarrow> ('w, 'z) wn_scheme \<Rightarrow> ('w, 'z) wn_scheme" where
  "close_hnd os h s = (if h \<noteq> 0 then ignore os (CWin (WCloseHandle h)) s else s)"

text \<open>A stream that is not asked for has null handles.\<close>

definition win_child_std :: "'w os \<Rightarrow> bool \<Rightarrow> addr \<Rightarrow> ('w, 'z) wn_scheme \<Rightarrow> (int \<times> int \<times> addr) option \<times> ('w, 'z) wn_scheme" where
  "win_child_std os inp p s = (if p = NULL then (Some (0, 0, NULL), s) else win_child_std_new os inp s)"

text \<open>The labels, from the last one up.\<close>

definition err_in_pipe :: "'w os \<Rightarrow> int \<times> int \<times> addr \<Rightarrow> ('w, 'z) wn_scheme \<Rightarrow> yo_code \<times> ('w, 'z) wn_scheme" where
  "err_in_pipe os i s =
     (let s = close_hnd os (fst i) s; s = close_hnd os (fst (snd i)) s in win_error s)"

definition err_out_pipe ::
  "'w os \<Rightarrow> int \<times> int \<times> addr \<Rightarrow> int \<times> int \<times> addr \<Rightarrow> ('w, 'z) wn_scheme \<Rightarrow> yo_code \<times> ('w, 'z) wn_scheme" where
  "err_out_pipe os i ou s =
     (let s = close_hnd os (fst ou) s; s = close_hnd os (fst (snd ou)) s in err_in_pipe os i s)"

definition err_err_pipe ::
  "'w os \<Rightarrow> int \<times> int \<times> addr \<Rightarrow> int \<times> int \<times> addr \<Rightarrow> int \<times> int \<times> addr \<Rightarrow> ('w, 'z) wn_scheme
     \<Rightarrow> yo_code \<times> ('w, 'z) wn_scheme" where
  "err_err_pipe os i ou er s =
     (let s = close_hnd os (fst er) s; s = close_hnd os (fst (snd er)) s in err_out_pipe os i ou s)"

definition win_deliver :: "addr \<Rightarrow> int \<times> int \<times> addr \<Rightarrow> ('w, 'z) wn_scheme \<Rightarrow> ('w, 'z) wn_scheme" where
  "win_deliver p std s =
     (if p = NULL then s
      else let s = yoi_win_mkhnd (snd (snd std)) (fst std) s in set_ptr p (snd (snd std)) s)"

text \<open>The handle of the process is stored where the caller expects a pointer to a structure with it.\<close>

definition win_proc_create ::
  "'w os \<Rightarrow> addr \<Rightarrow> int \<Rightarrow> string list \<Rightarrow> string list option \<Rightarrow> string option \<Rightarrow> addr \<Rightarrow> addr \<Rightarrow> addr
     \<Rightarrow> int \<times> int \<times> addr \<Rightarrow> int \<times> int \<times> addr \<Rightarrow> int \<times> int \<times> addr \<Rightarrow> ('w, 'z) wn_scheme
     \<Rightarrow> (yo_code \<times> ('w, 'z) wn_scheme) option" where
  "win_proc_create os pres flags argv envp cwd pin pout perr i ou er s = do {
     (cmdline, s) \<leftarrow> win_cmdline os argv flags s;
     if cmdline = NULL then Some (err_err_pipe os i ou er s)
     else do {
       let err_cmdline = (\<lambda>s. err_err_pipe os i ou er (free os cmdline s));
       (envblock, s) \<leftarrow> win_envblock os envp s;
       if envblock = NULL then Some (err_cmdline s)
       else
         let err_envblock = (\<lambda>s. err_cmdline (free os envblock s));
             (procname, s) = win_conv_utf8 os (case argv of [] \<Rightarrow> None | a # _ \<Rightarrow> Some a) 0 s
         in if procname = NULL then Some (err_envblock s)
            else
              let err_procname = (\<lambda>s. err_envblock (free os procname s));
                  (wcwd, s) = win_conv_utf8 os cwd 0 s
              in if cwd \<noteq> None \<and> wcwd = NULL then Some (err_procname s)
                 else
                   let err_wcwd = (\<lambda>s. err_procname (free os wcwd s));
                       (r, s) = syscall os (CWin (WCreateProcess (wcs s procname) (wcs s cmdline) (w_text s envblock)
                                    (if wcwd = NULL then None else Some (wcs s wcwd))
                                    (fst (snd i)) (fst (snd ou)) (fst (snd er)))) s;
                       (hProcess, hThread) = r_pair r
                   in if ret r = 0 \<or> hProcess = 0 then Some (err_wcwd s)
                      else
                        let s = free os cmdline s;
                            s = free os envblock s;
                            s = free os procname s;
                            s = free os wcwd s;
                            s = close_hnd os (fst (snd i)) s;
                            s = close_hnd os (fst (snd ou)) s;
                            s = close_hnd os (fst (snd er)) s;
                            s = win_deliver pin i s;
                            s = win_deliver pout ou s;
                            s = win_deliver perr er s;
                            s = set_ptr pres (of_int hProcess) s;
                            s = ignore os (CWin (WCloseHandle hThread)) s
                        in Some (YO_OK, s)
     }
   }"

definition win_proc_spawn ::
  "'w os \<Rightarrow> addr \<Rightarrow> int \<Rightarrow> string list \<Rightarrow> string list option \<Rightarrow> string option \<Rightarrow> addr \<Rightarrow> addr \<Rightarrow> addr
     \<Rightarrow> ('w, 'z) wn_scheme \<Rightarrow> (yo_code \<times> ('w, 'z) wn_scheme) option" where
  "win_proc_spawn os pres flags argv envp cwd pin pout perr s =
     (let (i, s) = win_child_std os True pin s
      in case i of
           None \<Rightarrow> Some (win_error s)
         | Some i \<Rightarrow>
             let (ou, s) = win_child_std os False pout s
             in case ou of
                  None \<Rightarrow> Some (err_in_pipe os i s)
                | Some ou \<Rightarrow>
                    let (er, s) = win_child_std os False perr s
                    in case er of
                         None \<Rightarrow> Some (err_out_pipe os i ou s)
                       | Some er \<Rightarrow> win_proc_create os pres flags argv envp cwd pin pout perr i ou er s)"

abbreviation (input) WAIT_ABANDONED :: int where "WAIT_ABANDONED \<equiv> 0x80"
abbreviation (input) WAIT_TIMEOUT :: int where "WAIT_TIMEOUT \<equiv> 0x102"
abbreviation (input) WAIT_FAILED :: int where "WAIT_FAILED \<equiv> 0xFFFFFFFF"

definition win_proc_wait :: "'w os \<Rightarrow> addr \<Rightarrow> addr \<Rightarrow> addr \<Rightarrow> ('w, 'z) wn_scheme \<Rightarrow> yo_code \<times> ('w, 'z) wn_scheme" where
  "win_proc_wait os proc psig pcode s =
     (let (r, s) = syscall os (CWin (WWait (wp_hnd s proc))) s
      in if ret r = WAIT_ABANDONED then (YO_EBUSY, s)
         else if ret r = WAIT_TIMEOUT then (YO_ETIMEOUT, s)
         else if ret r = WAIT_FAILED then win_error s
         else
           let (r, s) = syscall os (CWin (WExitCode (wp_hnd s proc))) s
           in if ret r = 0 then win_error s
              else
                let s = ignore os (CWin (WCloseHandle (wp_hnd s proc))) s;
                    s = set_int psig (-1) s;
                    s = set_int pcode (sint (r_status r)) s
                in (YO_OK, s))"

definition win_proc_disown :: "'w os \<Rightarrow> addr \<Rightarrow> ('w, 'z) wn_scheme \<Rightarrow> yo_code \<times> ('w, 'z) wn_scheme" where
  "win_proc_disown os proc s =
     (let s = ignore os (CWin (WCloseHandle (wp_hnd s proc))) s in (YO_OK, free os proc s))"

section \<open>Signals\<close>

definition win_sig_on :: "yo_signo \<Rightarrow> ('w, 'z) wn_scheme \<Rightarrow> yo_code \<times> ('w, 'z) wn_scheme" where
  "win_sig_on sig s = (YO_OK, s)"

definition win_sig_off :: "yo_signo \<Rightarrow> ('w, 'z) wn_scheme \<Rightarrow> yo_code \<times> ('w, 'z) wn_scheme" where
  "win_sig_off sig s = (YO_OK, s)"

partial_function (option) win_sig_wait :: "'w os \<Rightarrow> addr \<Rightarrow> ('w, 'z) wn_scheme \<Rightarrow> (yo_code \<times> ('w, 'z) wn_scheme) option" where
  "win_sig_wait os sig s = (let s = ignore os (CWin (WSleep 1000)) s in win_sig_wait os sig s)"

definition win_async_sig_wait :: "addr \<Rightarrow> addr \<Rightarrow> ('w, 'z) wn_scheme \<Rightarrow> yo_code \<times> ('w, 'z) wn_scheme" where
  "win_async_sig_wait req sig s = (YO_OK, yoi_req_begin req NoopCb s)"

section \<open>Paths\<close>

abbreviation (input) CSIDL_APPDATA :: int where "CSIDL_APPDATA \<equiv> 0x1a"
abbreviation (input) CSIDL_LOCAL_APPDATA :: int where "CSIDL_LOCAL_APPDATA \<equiv> 0x1c"
abbreviation (input) CSIDL_PROFILE :: int where "CSIDL_PROFILE \<equiv> 0x28"

text \<open>\<open>L"\\\\Temp"\<close>\<close>

definition temp_suffix :: wide where
  "temp_suffix = [BSL, 84, 101, 109, 112]"

definition win_folder_path :: "'w os \<Rightarrow> int \<Rightarrow> wide option \<Rightarrow> addr \<Rightarrow> ('w, 'z) wn_scheme \<Rightarrow> yo_code \<times> ('w, 'z) wn_scheme" where
  "win_folder_path os i suffix pres s =
     (let (res, s) = win_folder os i suffix s
      in if res = NULL then win_error s else (YO_OK, set_ptr pres res s))"

text \<open>
  The current directory is asked for with the size of the buffer in bytes: \<open>None\<close> when it does not fit.
\<close>

definition win_getpath :: "'w os \<Rightarrow> yo_path_type \<Rightarrow> addr \<Rightarrow> ('w, 'z) wn_scheme \<Rightarrow> (yo_code \<times> ('w, 'z) wn_scheme) option" where
  "win_getpath os typ pres s =
     (case typ of
        YO_PATH_HOME \<Rightarrow> Some (win_folder_path os CSIDL_PROFILE None pres s)
      | YO_PATH_RUNTIME \<Rightarrow> Some (win_folder_path os CSIDL_LOCAL_APPDATA (Some temp_suffix) pres s)
      | YO_PATH_CACHE \<Rightarrow> Some (win_folder_path os CSIDL_LOCAL_APPDATA (Some temp_suffix) pres s)
      | YO_PATH_CONFIG \<Rightarrow> Some (win_folder_path os CSIDL_APPDATA None pres s)
      | YO_PATH_DATA \<Rightarrow> Some (win_folder_path os CSIDL_LOCAL_APPDATA None pres s)
      | YO_PATH_CWD \<Rightarrow>
          let (wpath, s) = malloc os (2 * of_nat (MAX_PATH + 1)) s
          in if wpath = NULL then Some (YO_ENOMEM, s)
             else
               let (r, s) = syscall os (CWin (WCwd (2 * of_nat (MAX_PATH + 1)))) s
               in if ret r = 0 then Some (win_error s)
                  else if MAX_PATH < length (r_wide r) then None
                  else
                    let s = put_text wpath (r_wide r @ [0]) s;
                        (p, s) = win_conv_utf16 os (wcs s wpath) s;
                        s = set_ptr pres p s;
                        s = free os wpath s
                    in if p = NULL then Some (win_error s) else Some (YO_OK, s)
      | YO_PATH_OTHER _ \<Rightarrow> Some (YO_EINVAL, s))"

section \<open>The environment\<close>

definition win_env_get :: "'w os \<Rightarrow> string \<Rightarrow> addr \<Rightarrow> ('w, 'z) wn_scheme \<Rightarrow> yo_code \<times> ('w, 'z) wn_scheme" where
  "win_env_get os nam pres s =
     (let (wname, s) = win_conv_utf8 os (Some nam) 0 s
      in if wname = NULL then win_error s
         else
           let (r, s) = syscall os (CWin (WGetEnv (wcs s wname) 0)) s; n = ret r
           in if n = 0 then
                let s = free os wname s
                in if errno s = ERROR_ENVVAR_NOT_FOUND then (YO_OK, set_ptr pres NULL s) else win_error s
              else
                let (buff, s) = malloc os (2 * of_int n) s
                in if buff = NULL then (YO_ENOMEM, free os wname s)
                   else
                     let (r, s) = syscall os (CWin (WGetEnv (wcs s wname) (of_int n))) s
                     in if ret r = 0 then
                          let s = free os wname s; s = free os buff s in win_error s
                        else
                          let s = put_text buff (r_wide r @ [0]) s;
                              s = free os wname s;
                              (p, s) = win_conv_utf16 os (wcs s buff) s;
                              s = set_ptr pres p s;
                              s = free os buff s
                          in if p = NULL then win_error s else (YO_OK, s))"

definition win_env_set :: "'w os \<Rightarrow> string \<Rightarrow> string option \<Rightarrow> ('w, 'z) wn_scheme \<Rightarrow> yo_code \<times> ('w, 'z) wn_scheme" where
  "win_env_set os nam val s =
     (let (wname, s) = win_conv_utf8 os (Some nam) 0 s
      in if wname = NULL then win_error s
         else
           let (wval, s) = win_conv_utf8 os val 0 s
           in if wval = NULL then let s = free os wname s in win_error s
              else
                let (r, s) = syscall os (CWin (WSetEnv (wcs s wname) (wcs s wval))) s;
                    s = free os wname s;
                    s = free os wval s
                in if ret r = 0 then win_error s else (YO_OK, s))"

text \<open>The block of the environment is at the address that is returned; the position of the iterator counts its units.\<close>

definition win_enviter_new :: "'w os \<Rightarrow> ('w, 'z) wn_scheme \<Rightarrow> addr \<times> ('w, 'z) wn_scheme" where
  "win_enviter_new os s =
     (let (res, s) = malloc os sizeof_wn_enviter s
      in if res = NULL then (NULL, s)
         else
           let s = s\<lparr>we_last := (we_last s)(res := None)\<rparr>;
               (r, s) = syscall os (CWin WEnvStrings) s
           in if ptr r = NULL then (NULL, free os res s)
              else
                let s = put_text (ptr r) (r_wide r) s
                in (res, s\<lparr>we_data := (we_data s)(res := ptr r), we_pos := (we_pos s)(res := 0)\<rparr>))"

definition win_enviter_next :: "'w os \<Rightarrow> addr \<Rightarrow> addr \<Rightarrow> ('w, 'z) wn_scheme \<Rightarrow> (yo_code \<times> ('w, 'z) wn_scheme) option" where
  "win_enviter_next os iter pres s =
     (case we_last s iter of
        None \<Rightarrow> None
      | Some lastalloc \<Rightarrow>
          let s = free os lastalloc s;
              curr = takeWhile (\<lambda>c. c \<noteq> 0) (drop (we_pos s iter) (w_text s (we_data s iter)));
              n = length curr
          in if n = 0 then Some (YO_OK, set_ptr pres NULL s)
             else
               let (pair, s) = win_conv_utf16 os curr s
               in if pair = NULL then Some (win_error s)
                  else
                    let s = s\<lparr>we_last := (we_last s)(iter := Some pair), we_pos := (we_pos s)(iter := we_pos s iter + n + 1)\<rparr>
                    in Some (YO_OK, set_ptr pres pair s))"

definition win_enviter_close :: "'w os \<Rightarrow> addr \<Rightarrow> ('w, 'z) wn_scheme \<Rightarrow> ('w, 'z) wn_scheme" where
  "win_enviter_close os iter s =
     (let s = ignore os (CWin (WFreeEnvStrings (we_data s iter))) s in free os iter s)"

section \<open>Clocks\<close>

text \<open>The counter and its frequency are signed; the division by zero is \<open>None\<close>.\<close>

definition win_mono_time :: "int \<Rightarrow> int \<Rightarrow> yo_time option" where
  "win_mono_time counter freq =
     (if freq = 0 then None
      else Some \<lparr>sec = of_int (counter sdiv freq),
                 nsec = ucast ((of_int (counter smod freq) * 1000000000) div (of_int freq :: u64))\<rparr>)"

definition win_time :: "'w os \<Rightarrow> yo_clock_t \<Rightarrow> ('w, 'z) wn_scheme \<Rightarrow> (yo_time \<times> ('w, 'z) wn_scheme) option" where
  "win_time os clock s =
     (case clock of
        YO_CLOCK_REAL \<Rightarrow>
          let (r, s) = syscall os (CWin WFileTime) s
          in Some (yoi_win_conv_filetime (fst (r_times r)), s)
      | YO_CLOCK_MONO \<Rightarrow>
          let (c, s) = syscall os (CWin WCounter) s;
              (f, s) = syscall os (CWin WFrequency) s
          in map_option (\<lambda>t. (t, s)) (win_mono_time (ret c) (ret f))
      | YO_CLOCK_CPU \<Rightarrow>
          let (r, s) = syscall os (CWin WThreadTimes) s;
              (kernel, user) = r_times r
          in Some (yo_timeadd (yoi_win_conv_filetime kernel) (yoi_win_conv_filetime user), s))"

definition win_timesleep :: "'w os \<Rightarrow> yo_time \<Rightarrow> ('w, 'z) wn_scheme \<Rightarrow> ('w, 'z) wn_scheme option" where
  "win_timesleep os until s = do {
     (now, s) \<leftarrow> win_time os YO_CLOCK_MONO s;
     Some (ignore os (CWin (WSleep (ucast (yo_timems (yo_timesub until now))))) s)
   }"

section \<open>Properties\<close>

text \<open>Without an environment there is no environment block, so no process is ever made.\<close>

lemma win_spawn_needs_env:
  "YO_OK \<notin> fst ` set_option (win_proc_spawn os pres flags argv None cwd pin pout perr s)"
proof -
  have errs: "fst (err_in_pipe os i s) \<noteq> YO_OK" "fst (err_out_pipe os i ou s) \<noteq> YO_OK"
    "fst (err_err_pipe os i ou er s) \<noteq> YO_OK" for i ou er and s :: "('a, 'b) wn_scheme"
    by (simp_all add: err_in_pipe_def err_out_pipe_def err_err_pipe_def Let_def win_conv_not_ok)
  have create: "win_proc_create os pres flags argv None cwd pin pout perr i ou er s = (case win_cmdline os argv flags s of
      None \<Rightarrow> None | Some (c, s') \<Rightarrow> Some (err_err_pipe os i ou er (if c = NULL then s' else free os c s')))"
    for i ou er and s :: "('a, 'b) wn_scheme"
    by (simp add: win_proc_create_def win_envblock_def Let_def split: option.split prod.split)
  have "fst ` set_option (win_proc_create os pres flags argv None cwd pin pout perr i ou er s) \<subseteq> {c. c \<noteq> YO_OK}"
    for i ou er and s :: "('a, 'b) wn_scheme"
    by (simp add: create errs(3) split: option.split prod.split)
  then have "YO_OK \<notin> fst ` set_option (win_proc_create os pres flags argv None cwd pin pout perr i ou er s)"
    for i ou er and s :: "('a, 'b) wn_scheme"
    by blast
  then show ?thesis
    using errs(1,2) [THEN not_sym] win_conv_not_ok [THEN not_sym] by (simp add: win_proc_spawn_def split: prod.split option.split)
qed

text \<open>Waiting for a signal sleeps for ever.\<close>

lemma win_sig_wait_blocks: "win_sig_wait os sig s = None"
proof -
  have "False" if "win_sig_wait os sig s = Some y" for os :: "'w os" and sig s y
    by (rule win_sig_wait.raw_induct [OF _ that, where P = "\<lambda>_ _ _ _. False"]) auto
  then show ?thesis by (cases "win_sig_wait os sig s") auto
qed

definition refuses_flag :: "'w os \<Rightarrow> bool" where
  "refuses_flag os \<longleftrightarrow> (\<forall>w x n. ret (fst (os w (CWin (WNarrow x n)))) = 0)"

lemma refused: "win_conv_utf16 os w s = (p, s') \<Longrightarrow> refuses_flag os \<Longrightarrow> p = NULL"
  by (simp add: refuses_flag_def win_conv_utf16_def sys_simps reply_of_def)

text \<open>
  As documented, the conversion to UTF-8 with the flag that is passed, which is one of the other direction, answers
  with zero. Then \<open>yo_env_get\<close> never gives the value of a variable: it succeeds for those that are not set only.
\<close>

theorem win_env_get_no_value:
  assumes "refuses_flag os" and "win_env_get os nam pres s = (YO_OK, s')"
  shows "m_ptr s' pres = NULL \<and> (\<exists>x r. (CWin (WGetEnv x 0), r) \<in> set (trace s') \<and> ret r = 0)"
proof -
  obtain wname s1 where conv: "win_conv_utf8 os (Some nam) 0 s = (wname, s1)" by fastforce
  show ?thesis
    using assms
    by (auto simp: win_env_get_def conv sys_simps Let_def split: if_splits prod.splits dest: refused
        intro!: exI [of _ "wcs s1 wname"] exI [of _ "reply_of os (CWin (WGetEnv (wcs s1 wname) 0)) s1"])
qed

definition noenv_state :: "unit wn" where
  "noenv_state = undefined\<lparr>errno := ERROR_ENVVAR_NOT_FOUND, trace := []\<rparr>"

theorem win_env_get_no_value_witness:
  "\<exists>s'. win_env_get ascii_os ''a'' 8 noenv_state = (YO_OK, s') \<and> m_ptr s' 8 = NULL"
proof -
  have "refuses_flag ascii_os" by (simp add: refuses_flag_def ascii_os_def)
  moreover have "fst (win_env_get ascii_os ''a'' 8 noenv_state) = YO_OK"
    by (simp add: win_env_get_def win_conv_utf8_def sys_simps Let_def reply_of_def ascii_os_def ascii_def of_char_def
        after_errno noenv_state_def put_text_def)
  ultimately show ?thesis
    using win_env_get_no_value [of ascii_os "''a''" 8 noenv_state] by (metis prod.collapse)
qed

text \<open>
  The performance counter is converted exactly, rounded down to a nanosecond, as long as its frequency is below 18 GHz.
\<close>

lemma win_mono_exact:
  assumes "0 \<le> c" and "c < 2 ^ 63" and "0 < f" and "f * 10 ^ 9 < 2 ^ 64"
  shows "\<exists>t. win_mono_time c f = Some t \<and> normal t \<and> time_ns t = c * 10 ^ 9 div f"
proof -
  have f: "f < 2 ^ 64" "c div f < 2 ^ 63"
    using assms zdiv_mono2 [of c 1 f] by simp_all
  let ?n = "c mod f * 10 ^ 9 div f"
  have m: "0 \<le> c mod f" "c mod f < f" using assms(3) by simp_all
  then have lt: "c mod f * 10 ^ 9 < f * 10 ^ 9" by simp
  with assms(4) have "c mod f * 10 ^ 9 < 2 ^ 64" by linarith
  then have "uint (of_int (c mod f * 10 ^ 9) :: u64) = c mod f * 10 ^ 9"
    using m(1) by (intro uint_of_int_exact) simp_all
  then have "uint (of_int (c mod f) * 1000000000 :: u64) = c mod f * 10 ^ 9" by simp
  moreover have "uint (of_int f :: u64) = f" using f assms(3) by (simp add: uint_of_int_exact)
  ultimately have "uint (of_int (c mod f) * 1000000000 div (of_int f :: u64)) = ?n"
    by (simp add: uint_div_distrib)
  moreover have "?n < 10 ^ 9" "0 \<le> ?n"
  proof -
    have "?n * f < f * 10 ^ 9"
      using lt pos_mod_sign [OF assms(3), of "c mod f * 10 ^ 9"] div_mult_mod_eq [of "c mod f * 10 ^ 9" f]
      by linarith
    then have "?n * f < 10 ^ 9 * f" by (simp only: mult.commute [of f])
    then show "?n < 10 ^ 9" using assms(3) by (simp only: mult_less_cancel_right_pos)
  qed (use m assms(3) in \<open>simp add: pos_imp_zdiv_nonneg_iff\<close>)
  ultimately have n: "uint (ucast (of_int (c mod f) * 1000000000 div (of_int f :: u64)) :: u32) = ?n"
    by (simp add: unsigned_ucast_eq take_bit_int_eq_self)
  have "0 \<le> c div f" using assms(1,3) by (simp add: pos_imp_zdiv_nonneg_iff)
  then have "- (2 ^ 63) \<le> c div f" by (rule order.trans [rotated]) simp
  then have "sint (of_int (c div f) :: u64) = c div f"
    using f(2) by (simp add: signed_of_int signed_take_bit_int_eq_self)
  moreover have "c * 10 ^ 9 div f = (c div f) * 10 ^ 9 + ?n"
  proof -
    have "c * 10 ^ 9 = (c div f * 10 ^ 9) * f + c mod f * 10 ^ 9"
      using div_mult_mod_eq [of c f] by (metis distrib_right mult.assoc mult.commute)
    then show ?thesis using assms(3) by (metis div_mult_self3 less_irrefl)
  qed
  moreover have "c sdiv f = c div f" "c smod f = c mod f"
    using assms(1,3) by (cases "c = 0"; simp add: signed_divide_int_def signed_modulo_int_def)+
  ultimately show ?thesis
    using n assms(3) \<open>?n < 10 ^ 9\<close> by (simp add: win_mono_time_def time_ns_def normal_uint)
qed

text \<open>
  The milliseconds that \<open>yo_timesleep\<close> asks for are the time to the deadline, rounded up, modulo two to the 32: a
  deadline that is one millisecond past makes it sleep for more than 49 days, and one that is further away than
  that comes too early.
\<close>

theorem win_sleep_wraps:
  assumes "win_time os YO_CLOCK_MONO s = Some (now, s1)" and "normal until" and "normal now"
    and "\<bar>sint (sec until)\<bar> < 2 ^ 50" and "\<bar>sint (sec now)\<bar> < 2 ^ 50"
  shows "\<exists>ms r s'. win_timesleep os until s = Some s' \<and> trace s' = trace s1 @ [(CWin (WSleep ms), r)]
    \<and> uint ms = - ((time_ns now - time_ns until) div 10 ^ 6) mod 2 ^ 32"
  using assms(1) ms_between [OF assms(2-5)] by (auto simp: win_timesleep_def sys_simps Let_def dword_mod)

text \<open>A counter of one tick in a nanosecond, whose value is the world.\<close>

definition counter_os :: "int os" where
  "counter_os w q = (case q of
     CWin WCounter \<Rightarrow> (returns w, w) | CWin WFrequency \<Rightarrow> (returns (10 ^ 9), w) | _ \<Rightarrow> (returns 0, w))"

definition counter_state :: "int \<Rightarrow> int wn" where
  "counter_state c = undefined\<lparr>world := c, trace := []\<rparr>"

lemma counter_time:
  obtains s1 where "win_time counter_os YO_CLOCK_MONO (counter_state 2000000) = Some (\<lparr>sec = 0, nsec = 2000000\<rparr>, s1)"
  by (simp add: win_time_def sys_simps reply_of_def counter_os_def counter_state_def win_mono_time_def
      signed_divide_int_def signed_modulo_int_def after_eq)

theorem win_sleep_wraps_witness:
  "\<exists>ms r s'. win_timesleep counter_os \<lparr>sec = 0, nsec = 1000000\<rparr> (counter_state 2000000) = Some s'
     \<and> (CWin (WSleep ms), r) \<in> set (trace s') \<and> uint ms = 4294967295"
proof -
  obtain s1 where mono: "win_time counter_os YO_CLOCK_MONO (counter_state 2000000) = Some (\<lparr>sec = 0, nsec = 2000000\<rparr>, s1)"
    by (rule counter_time)
  have "\<exists>ms r s'. win_timesleep counter_os \<lparr>sec = 0, nsec = 1000000\<rparr> (counter_state 2000000) = Some s'
      \<and> trace s' = trace s1 @ [(CWin (WSleep ms), r)] \<and> uint ms = 4294967295"
    using win_sleep_wraps [OF mono, of "\<lparr>sec = 0, nsec = 1000000\<rparr>"] by (simp add: normal_def time_ns_def)
  then obtain ms r s' where "win_timesleep counter_os \<lparr>sec = 0, nsec = 1000000\<rparr> (counter_state 2000000) = Some s'"
    "trace s' = trace s1 @ [(CWin (WSleep ms), r)]" "uint ms = 4294967295"
    by blast
  then show ?thesis
    by (intro exI [of _ ms] exI [of _ r] exI [of _ s']) simp
qed

end
