(* ===== verification/WinDns.thy ===== *)
theory WinDns
  imports WinSys Dns
begin

text \<open>
  Name resolution, \<open>yo_dns_getaddrinfo\<close> of \<open>src/win/impl.c\<close>. It drops repetitions with \<open>memcmp\<close> on a variable of
  the loop whose last twelve bytes nobody writes for an IPv4 address: what they hold is a parameter, one list for each
  round.
\<close>

section \<open>The operation\<close>

abbreviation (input) WIN_EAI_AGAIN :: int where "WIN_EAI_AGAIN \<equiv> 11002"
abbreviation (input) WIN_EAI_BADFLAGS :: int where "WIN_EAI_BADFLAGS \<equiv> 10022"
abbreviation (input) WIN_EAI_FAIL :: int where "WIN_EAI_FAIL \<equiv> 11003"
abbreviation (input) WIN_EAI_FAMILY :: int where "WIN_EAI_FAMILY \<equiv> 10047"
abbreviation (input) WIN_EAI_MEMORY :: int where "WIN_EAI_MEMORY \<equiv> 8"
abbreviation (input) WIN_EAI_SOCKTYPE :: int where "WIN_EAI_SOCKTYPE \<equiv> 10044"

definition win_ai_hints :: "int \<Rightarrow> int \<times> int" where
  "win_ai_hints flags =
     (let ai_flags = (if flags AND YO_AI_IPV4_MAPPED \<noteq> 0 then YO_AI_IPV4_MAPPED else 0);
          ai_family = (if flags AND YO_AI_IPV6 \<noteq> 0 then WIN_AF_INET6
                       else if flags AND YO_AI_IPV4 \<noteq> 0 then AF_INET
                       else AF_UNSPEC);
          ai_flags = (if flags AND YO_AI_BIND \<noteq> 0 then ai_flags OR AI_PASSIVE else ai_flags);
          ai_flags = (if flags AND YO_AI_NODNS \<noteq> 0 then ai_flags OR AI_NUMERICHOST else ai_flags)
      in (ai_flags, ai_family))"

text \<open>The errors that are returned at once; all other codes go on with an empty list.\<close>

definition win_ai_errors :: "(int \<times> yo_code) list" where
  "win_ai_errors = [(WIN_EAI_SOCKTYPE, YO_EINVAL), (WIN_EAI_BADFLAGS, YO_EINVAL), (WIN_EAI_FAMILY, YO_ENOTSUP),
     (WIN_EAI_MEMORY, YO_ENOMEM), (WIN_EAI_AGAIN, YO_EAGAIN), (WIN_EAI_FAIL, YO_EIO)]"

text \<open>The twenty bytes of an address as the comparison sees them: those behind an IPv4 address are kept apart.\<close>

definition win_ai_entry :: "sockaddr \<Rightarrow> byte list \<Rightarrow> yo_addr \<times> byte list" where
  "win_ai_entry sa junk =
     (let a = fst (yoi_win_conv_sockaddr sa) in (a, if is_ipv4 a then junk else []))"

fun win_ai_loop :: "sockaddr list \<Rightarrow> byte list list \<Rightarrow> nat \<Rightarrow> (nat \<Rightarrow> yo_addr \<times> byte list)
    \<Rightarrow> nat \<times> (nat \<Rightarrow> yo_addr \<times> byte list)" where
  "win_ai_loop [] junk i arr = (i, arr)"
| "win_ai_loop (it # its) junk i arr =
     (let a = win_ai_entry it (hd junk);
          found = list_ex (\<lambda>j. a = arr j) [0..<i]
      in if \<not> found then win_ai_loop its (tl junk) (i + 1) (arr(i := a)) else win_ai_loop its (tl junk) i arr)"

definition win_dns_getaddrinfo ::
  "'w os \<Rightarrow> byte list list \<Rightarrow> addr \<Rightarrow> string option \<Rightarrow> int \<Rightarrow> ('w, 'z) wn_scheme \<Rightarrow> yo_code \<times> ('w, 'z) wn_scheme" where
  "win_dns_getaddrinfo os junk pres nam flags s =
     (let (ai_flags, ai_family) = win_ai_hints flags;
          (wname, s) = win_conv_utf8 os nam 0 s
      in if wname = NULL then win_error s
         else
           let (r, s) = syscall os (CWin (WGetAddrInfo (wcs s wname) (if nam = None then [56, 48] else []) ai_flags ai_family)) s;
               code = ret r;
               s = free os wname s
           in case map_of win_ai_errors code of
                Some c \<Rightarrow> (c, s)
              | None \<Rightarrow>
                  let lst = (if code = 0 then r_socks r else []);
                      (res, s) = malloc os (sizeof_yo_addrinfo + sizeof_yo_addr * of_nat (length lst)) s
                  in if res = NULL then (YO_ENOMEM, s)
                     else
                       let (i, arr) = win_ai_loop lst junk 0 (wa_addr s res);
                           s = s\<lparr>wa_addr := (wa_addr s)(res := arr), wa_n := (wa_n s)(res := of_nat i)\<rparr>;
                           s = (if lst \<noteq> [] then ignore os (CWin WFreeAddrInfo) s else s)
                       in (YO_OK, set_ptr pres res s))"

section \<open>What is dropped\<close>

fun win_entries :: "sockaddr list \<Rightarrow> byte list list \<Rightarrow> (yo_addr \<times> byte list) list" where
  "win_entries [] junk = []"
| "win_entries (it # its) junk = win_ai_entry it (hd junk) # win_entries its (tl junk)"

lemma win_ai_loop_firsts:
  assumes "ys = firsts xs" and "map arr [0..<length ys] = ys"
  shows "case win_ai_loop its junk (length ys) arr of (i, arr') \<Rightarrow>
     i = length (firsts (xs @ win_entries its junk)) \<and> map arr' [0..<i] = firsts (xs @ win_entries its junk)"
  using assms
proof (induction its arbitrary: xs ys arr junk)
  case (Cons it its)
  let ?a = "win_ai_entry it (hd junk)"
  have found: "list_ex (\<lambda>j. ?a = arr j) [0..<length ys] \<longleftrightarrow> ?a \<in> set xs"
  proof -
    have "list_ex (\<lambda>j. ?a = arr j) [0..<length ys] \<longleftrightarrow> ?a \<in> set (map arr [0..<length ys])"
      by (auto simp: list_ex_iff)
    also have "map arr [0..<length ys] = firsts xs" using Cons.prems by simp
    finally show ?thesis by simp
  qed
  show ?case
  proof (cases "?a \<in> set xs")
    case True
    then have "ys = firsts (xs @ [?a])" using Cons.prems(1) by (simp add: firsts_snoc)
    from Cons.IH [OF this Cons.prems(2), of "tl junk"] True found show ?thesis by (simp add: Let_def)
  next
    case False
    have ys: "ys @ [?a] = firsts (xs @ [?a])" using False Cons.prems(1) by (simp add: firsts_snoc)
    have "map (arr(length ys := ?a)) [0..<length (ys @ [?a])] = ys @ [?a]"
      using Cons.prems(2) by simp
    with ys have "case win_ai_loop its (tl junk) (length (ys @ [?a])) (arr(length ys := ?a)) of (i, arr') \<Rightarrow>
        i = length (firsts ((xs @ [?a]) @ win_entries its (tl junk)))
        \<and> map arr' [0..<i] = firsts ((xs @ [?a]) @ win_entries its (tl junk))"
      by (rule Cons.IH)
    with False found show ?thesis by (simp add: Let_def)
  qed
qed simp

lemma firsts_Nil: "firsts [] = []"
  by (simp add: firsts_def)

text \<open>
  The addresses that the Windows resolver returns are those of the system in their order, every one at least once. IPv6
  addresses are not repeated, and an IPv4 address is when the bytes that nobody wrote differ.
\<close>

theorem win_ai_repeats:
  assumes "win_ai_loop its junk 0 arr = (i, arr')"
  shows "map arr' [0..<i] = firsts (win_entries its junk)
    \<and> fst ` set (map arr' [0..<i]) = (\<lambda>sa. fst (yoi_win_conv_sockaddr sa)) ` set its
    \<and> distinct (filter (\<lambda>a. \<not> is_ipv4 a) (map (fst \<circ> arr') [0..<i]))"
proof -
  have res: "map arr' [0..<i] = firsts (win_entries its junk)"
    using win_ai_loop_firsts [of "[]" "[]" arr its junk] assms by (auto simp: firsts_Nil)
  have "fst ` set (win_entries its junk) = (\<lambda>sa. fst (yoi_win_conv_sockaddr sa)) ` set its"
    by (induction its junk rule: win_entries.induct) (auto simp: win_ai_entry_def Let_def)
  moreover have pad: "snd e = []" if "e \<in> set (win_entries its junk)" "\<not> is_ipv4 (fst e)" for e
    using that by (induction its junk rule: win_entries.induct) (auto simp: win_ai_entry_def Let_def)
  have "distinct (filter (\<lambda>a. \<not> is_ipv4 a) (map fst (firsts (win_entries its junk))))"
  proof -
    have "inj_on fst (set (filter (\<lambda>e. \<not> is_ipv4 (fst e)) (firsts (win_entries its junk))))"
      by (rule inj_onI) (auto simp: prod_eq_iff pad)
    then show ?thesis by (simp add: filter_map comp_def distinct_map)
  qed
  ultimately show ?thesis using res by (simp flip: map_map)
qed

theorem win_ai_repeats_witness:
  "case win_ai_loop [\<lparr>ss_family = 2, sin_port = 0, sin_addr = [127, 0, 0, 1]\<rparr>, \<lparr>ss_family = 2, sin_port = 0, sin_addr = [127, 0, 0, 1]\<rparr>]
       [[0], [1]] 0 (\<lambda>_. (YO_ADDR_IPV4 [], [])) of (i, arr) \<Rightarrow>
     map (fst \<circ> arr) [0..<i] = [YO_ADDR_IPV4 [127, 0, 0, 1], YO_ADDR_IPV4 [127, 0, 0, 1]]"
proof -
  let ?its = "[\<lparr>ss_family = 2, sin_port = 0, sin_addr = [127, 0, 0, 1]\<rparr>, \<lparr>ss_family = 2, sin_port = 0, sin_addr = [127, 0, 0, 1]\<rparr>]"
  obtain i arr where r: "win_ai_loop ?its [[0], [1]] 0 (\<lambda>_. (YO_ADDR_IPV4 [], [])) = (i, arr)" by fastforce
  have "map (fst \<circ> arr) [0..<i] = map fst (firsts (win_entries ?its [[0], [1]]))"
    using win_ai_repeats [OF r] by (simp flip: map_map)
  then show ?thesis
    unfolding r by (simp add: win_ai_entry_def yoi_win_conv_sockaddr_def is_ipv4_def firsts_def)
qed

end
