(* ===== verification/Threads.thy ===== *)
theory Threads
  imports WinSys Pool
begin

text \<open>
  Threads, locks and conditions: the macros and functions of \<open>src/utils/multithread.h\<close>, on POSIX and, with the prefix
  \<open>win_\<close>, on Windows, and the cancel callback of \<open>src/pool.c\<close>. Elsewhere the library's locks and conditions appear as the calls
  that these definitions make.
\<close>

section \<open>POSIX\<close>

record 'w th = "'w sys" +
  ta_entry :: "addr \<Rightarrow> addr"
  ta_pargs :: "addr \<Rightarrow> addr"
  pw_thread :: "addr \<Rightarrow> int"
  rt_worker :: "addr \<Rightarrow> addr option"

abbreviation (input) sizeof_thread_args :: u64 where "sizeof_thread_args \<equiv> 16"

text \<open>\<open>sigfillset\<close> on Linux: all signals but the two that the C library keeps to itself.\<close>

definition full_sigset :: "int set" where
  "full_sigset = {1..64} - {32, 33}"

text \<open>
  The function that a new thread runs. \<open>run\<close> is the call of a function pointer with its argument; the handler of
  \<open>SIGPWR\<close> does nothing, the signal only interrupts a system call.
\<close>

definition yo_thread_entry ::
  "'w os \<Rightarrow> (addr \<Rightarrow> addr \<Rightarrow> ('w, 'z) th_scheme \<Rightarrow> ('w, 'z) th_scheme) \<Rightarrow> addr \<Rightarrow> ('w, 'z) th_scheme \<Rightarrow> ('w, 'z) th_scheme" where
  "yo_thread_entry os run pargs s =
     (let args = pargs;
          entry = ta_entry s args;
          entry_pargs = ta_pargs s args;
          s = free os args s;
          st = full_sigset - {SIGPWR};
          s = ignore os (CSetmask st) s;
          s = ignore os (CSigaction SIGPWR) s
      in run entry entry_pargs s)"

text \<open>The memory is not tested for NULL.\<close>

definition yo_thread_new ::
  "'w os \<Rightarrow> addr \<Rightarrow> addr \<Rightarrow> addr \<Rightarrow> ('w, 'z) th_scheme \<Rightarrow> (int \<times> ('w, 'z) th_scheme) option" where
  "yo_thread_new os th entry pargs s =
     (let (args, s) = malloc os sizeof_thread_args s
      in if args = NULL then None
         else
           let s = s\<lparr>ta_entry := (ta_entry s)(args := entry)\<rparr>;
               s = s\<lparr>ta_pargs := (ta_pargs s)(args := pargs)\<rparr>;
               (r, s) = syscall os (CThread th args) s
           in Some (ret r, s))"

definition yo_thread_cancel :: "'w os \<Rightarrow> int \<Rightarrow> ('w, 'z) sys_scheme \<Rightarrow> ('w, 'z) sys_scheme" where
  "yo_thread_cancel os th s = ignore os (CKill (of_int th) SIGPWR) s"

definition yo_thread_free_join :: "'w os \<Rightarrow> addr \<Rightarrow> ('w, 'z) sys_scheme \<Rightarrow> addr \<times> ('w, 'z) sys_scheme" where
  "yo_thread_free_join os th s = (let (r, s) = syscall os (CJoin th) s in (ptr r, s))"

definition yo_mutex_new :: "'w os \<Rightarrow> addr \<Rightarrow> ('w, 'z) sys_scheme \<Rightarrow> ('w, 'z) sys_scheme" where
  "yo_mutex_new os mut s = ignore os (CMutexNew mut) s"

definition yo_mutex_free :: "'w os \<Rightarrow> addr \<Rightarrow> ('w, 'z) sys_scheme \<Rightarrow> ('w, 'z) sys_scheme" where
  "yo_mutex_free os mut s = ignore os (CMutexFree mut) s"

definition yo_mutex_lock :: "'w os \<Rightarrow> addr \<Rightarrow> ('w, 'z) sys_scheme \<Rightarrow> ('w, 'z) sys_scheme" where
  "yo_mutex_lock os mut s = ignore os (CLock mut) s"

definition yo_mutex_unlock :: "'w os \<Rightarrow> addr \<Rightarrow> ('w, 'z) sys_scheme \<Rightarrow> ('w, 'z) sys_scheme" where
  "yo_mutex_unlock os mut s = ignore os (CUnlock mut) s"

text \<open>A condition that counts its deadlines by the monotonic clock.\<close>

definition yo_cond_new :: "'w os \<Rightarrow> addr \<Rightarrow> ('w, 'z) sys_scheme \<Rightarrow> ('w, 'z) sys_scheme" where
  "yo_cond_new os cond s = ignore os (CCondNew cond) s"

definition yo_cond_free :: "'w os \<Rightarrow> addr \<Rightarrow> ('w, 'z) sys_scheme \<Rightarrow> ('w, 'z) sys_scheme" where
  "yo_cond_free os cond s = ignore os (CCondFree cond) s"

definition yo_cond_signal :: "'w os \<Rightarrow> addr \<Rightarrow> ('w, 'z) sys_scheme \<Rightarrow> ('w, 'z) sys_scheme" where
  "yo_cond_signal os cond s = ignore os (CSignalCond cond) s"

text \<open>This macro calls \<open>pthread_cond_signal\<close> as well.\<close>

definition yo_cond_broadcast :: "'w os \<Rightarrow> addr \<Rightarrow> ('w, 'z) sys_scheme \<Rightarrow> ('w, 'z) sys_scheme" where
  "yo_cond_broadcast os cond s = ignore os (CSignalCond cond) s"

definition yo_cond_wait :: "'w os \<Rightarrow> addr \<Rightarrow> addr \<Rightarrow> ('w, 'z) sys_scheme \<Rightarrow> ('w, 'z) sys_scheme" where
  "yo_cond_wait os cond mut s = ignore os (CCondWait cond None) s"

abbreviation (input) ETIMEDOUT :: int where "ETIMEDOUT \<equiv> 110"

definition yo_cond_timewait :: "'w os \<Rightarrow> addr \<Rightarrow> addr \<Rightarrow> yo_time \<Rightarrow> ('w, 'z) sys_scheme \<Rightarrow> yo_code \<times> ('w, 'z) sys_scheme" where
  "yo_cond_timewait os cond mut timeout s =
     (let (r, s) = syscall os (CCondWait cond (Some timeout)) s; code = ret r
      in if code = ETIMEDOUT then (YO_ETIMEOUT, s) else (YO_OK, s))"

text \<open>
  The callback with which the pool cancels a request: it follows \<open>task.worker\<close> of the request, which is \<open>None\<close> as
  long as nobody stored a worker there.
\<close>

definition yoi_pool_cancelcb :: "'w os \<Rightarrow> addr \<Rightarrow> ('w, 'z) th_scheme \<Rightarrow> ('w, 'z) th_scheme option" where
  "yoi_pool_cancelcb os req s =
     (case rt_worker s req of
        None \<Rightarrow> None
      | Some w \<Rightarrow> Some (yo_thread_cancel os (pw_thread s w) s))"

section \<open>Windows\<close>

text \<open>The handle of the new thread is not stored.\<close>

definition win_thread_new :: "'w os \<Rightarrow> addr \<Rightarrow> addr \<Rightarrow> addr \<Rightarrow> ('w, 'z) sys_scheme \<Rightarrow> int \<times> ('w, 'z) sys_scheme" where
  "win_thread_new os th entry args s =
     (let (r, s) = syscall os (CWin (WThread entry args)) s in (if ret r \<noteq> 0 then 0 else -1, s))"

text \<open>The address of the variable is passed as the handle, and the test is the wrong way round.\<close>

definition win_thread_free_join :: "'w os \<Rightarrow> addr \<Rightarrow> ('w, 'z) sys_scheme \<Rightarrow> int \<times> ('w, 'z) sys_scheme" where
  "win_thread_free_join os th s =
     (let (r, s) = syscall os (CWin (WWait (uint th))) s in (if ret r \<noteq> 0 then 0 else -1, s))"

definition win_thread_cancel :: "'w os \<Rightarrow> addr \<Rightarrow> ('w, 'z) sys_scheme \<Rightarrow> int \<times> ('w, 'z) sys_scheme" where
  "win_thread_cancel os th s =
     (let (r, s) = syscall os (CWin (WCancelIo th)) s in (if ret r \<noteq> 0 then 0 else -1, s))"

definition win_mutex_new :: "'w os \<Rightarrow> addr \<Rightarrow> ('w, 'z) sys_scheme \<Rightarrow> ('w, 'z) sys_scheme" where
  "win_mutex_new os mut s = ignore os (CWin (WInitCs mut)) s"

definition win_mutex_free :: "'w os \<Rightarrow> addr \<Rightarrow> ('w, 'z) sys_scheme \<Rightarrow> ('w, 'z) sys_scheme" where
  "win_mutex_free os mut s = ignore os (CWin (WDeleteCs mut)) s"

definition win_mutex_lock :: "'w os \<Rightarrow> addr \<Rightarrow> ('w, 'z) sys_scheme \<Rightarrow> ('w, 'z) sys_scheme" where
  "win_mutex_lock os mut s = ignore os (CWin (WEnterCs mut)) s"

definition win_mutex_unlock :: "'w os \<Rightarrow> addr \<Rightarrow> ('w, 'z) sys_scheme \<Rightarrow> ('w, 'z) sys_scheme" where
  "win_mutex_unlock os mut s = ignore os (CWin (WLeaveCs mut)) s"

definition win_cond_new :: "'w os \<Rightarrow> addr \<Rightarrow> ('w, 'z) sys_scheme \<Rightarrow> ('w, 'z) sys_scheme" where
  "win_cond_new os cond s = ignore os (CWin (WInitCond cond)) s"

definition win_cond_free :: "addr \<Rightarrow> ('w, 'z) sys_scheme \<Rightarrow> ('w, 'z) sys_scheme" where
  "win_cond_free cond s = s"

abbreviation (input) INFINITE :: u32 where "INFINITE \<equiv> 0xFFFFFFFF"

definition win_cond_wait :: "'w os \<Rightarrow> addr \<Rightarrow> addr \<Rightarrow> ('w, 'z) sys_scheme \<Rightarrow> ('w, 'z) sys_scheme" where
  "win_cond_wait os cond mut s = ignore os (CWin (WSleepCond cond mut INFINITE)) s"

definition win_cond_timewait ::
  "'w os \<Rightarrow> addr \<Rightarrow> addr \<Rightarrow> yo_time \<Rightarrow> ('w, 'z) wn_scheme \<Rightarrow> (yo_code \<times> ('w, 'z) wn_scheme) option" where
  "win_cond_timewait os cond mut timeout s = do {
     (now, s) \<leftarrow> win_time os YO_CLOCK_MONO s;
     let ms = yo_timems (yo_timesub timeout now);
         ms = (if ms <s 0 then 0 else ms);
         (r, s) = syscall os (CWin (WSleepCond cond mut (ucast ms))) s
     in Some (if ret r = 0 then (YO_ETIMEOUT, s) else (YO_OK, s))
   }"

definition win_cond_broadcast :: "'w os \<Rightarrow> addr \<Rightarrow> ('w, 'z) sys_scheme \<Rightarrow> ('w, 'z) sys_scheme" where
  "win_cond_broadcast os cond s = ignore os (CWin (WWakeAll cond)) s"

definition win_cond_signal :: "'w os \<Rightarrow> addr \<Rightarrow> ('w, 'z) sys_scheme \<Rightarrow> ('w, 'z) sys_scheme" where
  "win_cond_signal os cond s = ignore os (CWin (WWakeOne cond)) s"

section \<open>Properties\<close>

lemma th_after_simps [simp]:
  "ta_entry (after os q s) = ta_entry s" "ta_pargs (after os q s) = ta_pargs s"
  "rt_worker (after os q s) = rt_worker s"
  by (simp_all add: after_eq)

text \<open>
  C39: The arguments of a thread pass from the thread that makes it to the new one, in a block that only the maker owns until
  then. The new thread runs the function with the argument that were given, after it freed the block and
  blocked all signals but \<open>SIGPWR\<close>, so nothing is leaked. If the system makes no thread, the block is.
\<close>

theorem thread_arguments_pass:
  assumes "yo_thread_new os th entry pargs s = Some (e, s1)"
  shows "\<exists>args s2. gained [Mem args] s s1 \<and> fst (last (trace s1)) = CThread th args
    \<and> yo_thread_entry os run args s1 = run entry pargs s2 \<and> gained [] s s2
    \<and> map fst (trace s2) = map fst (trace s1) @ [CFree args, CSetmask (full_sigset - {SIGPWR}), CSigaction SIGPWR]"
proof -
  define args where "args = ptr (reply_of os (CMalloc sizeof_thread_args) s)"
  define t where "t = (after os (CMalloc sizeof_thread_args) s)
      \<lparr>ta_entry := (ta_entry s)(args := entry), ta_pargs := (ta_pargs s)(args := pargs)\<rparr>"
  have s1: "args \<noteq> NULL" "s1 = after os (CThread th args) t"
    using assms by (auto simp: yo_thread_new_def sys_simps Let_def args_def t_def split: if_splits)
  define s2 where "s2 = after os (CSigaction SIGPWR) (after os (CSetmask (full_sigset - {SIGPWR})) (after os (CFree args) s1))"
  have tr: "trace t = trace s @ [(CMalloc sizeof_thread_args, reply_of os (CMalloc sizeof_thread_args) s)]"
    "ta_entry t args = entry" "ta_pargs t args = pargs"
    by (simp_all add: t_def)
  have "gained [Mem args] s s1" "gained [] s s2"
    using s1 tr by (simp_all add: s2_def ledger_simps flip: args_def)
  moreover have "yo_thread_entry os run args s1 = run entry pargs s2"
    using s1 tr by (simp add: yo_thread_entry_def sys_simps Let_def s2_def)
  ultimately show ?thesis
    using s1 by (intro exI [of _ args] exI [of _ s2]) (simp add: s2_def)
qed

theorem thread_arguments_pass_witness:
  "\<exists>s1 s2. yo_thread_new ascii_os 16 100 200 (undefined :: unit th) = Some (0, s1)
     \<and> yo_thread_entry ascii_os (\<lambda>f x s. s\<lparr>errno := uint f + uint x\<rparr>) 4096 s1 = s2\<lparr>errno := 300\<rparr>"
proof -
  obtain s1 where s1: "yo_thread_new ascii_os 16 100 200 (undefined :: unit th) = Some (0, s1)"
    "fst (last (trace s1)) = CThread 16 4096"
    by (simp add: yo_thread_new_def sys_simps Let_def reply_of_def ascii_os_def)
  then show ?thesis
    using thread_arguments_pass [OF s1(1), of "\<lambda>f x s. s\<lparr>errno := uint f + uint x\<rparr>"] by auto
qed

text \<open>
  The wait with a deadline on Windows sleeps for the milliseconds that are left, rounded up, and not at all when the deadline
  has passed; but the number is cut to 32 bits, so a deadline that is more than 49 days away comes too early, or
  never when it is cut to \<open>INFINITE\<close>.
\<close>

theorem win_timewait_clamped:
  assumes "win_time os YO_CLOCK_MONO s = Some (now, s1)" and "normal timeout" and "normal now"
    and "\<bar>sint (sec timeout)\<bar> < 2 ^ 50" and "\<bar>sint (sec now)\<bar> < 2 ^ 50"
  shows "\<exists>ms r s'. win_cond_timewait os cond mut timeout s = Some (if ret r = 0 then YO_ETIMEOUT else YO_OK, s')
    \<and> trace s' = trace s1 @ [(CWin (WSleepCond cond mut ms), r)]
    \<and> uint ms = max 0 (- ((time_ns now - time_ns timeout) div 10 ^ 6)) mod 2 ^ 32"
proof -
  define w where "w = yo_timems (yo_timesub timeout now)"
  have "sint w = - ((time_ns now - time_ns timeout) div 10 ^ 6)"
    unfolding w_def by (rule ms_between [OF assms(2-5)])
  moreover have "uint (ucast (if w <s 0 then 0 else w) :: u32) = max 0 (sint w) mod 2 ^ 32"
    by (simp add: dword_mod word_sless_alt)
  ultimately show ?thesis
    using assms(1) by (auto simp: win_cond_timewait_def sys_simps Let_def simp flip: w_def)
qed

theorem win_timewait_clamped_witness:
  "\<exists>r s'. win_cond_timewait counter_os 8 16 \<lparr>sec = 0, nsec = 1000000\<rparr> (counter_state 2000000) = Some (YO_ETIMEOUT, s')
     \<and> (CWin (WSleepCond 8 16 0), r) \<in> set (trace s')"
proof -
  obtain s1 where mono: "win_time counter_os YO_CLOCK_MONO (counter_state 2000000) = Some (\<lparr>sec = 0, nsec = 2000000\<rparr>, s1)"
    by (rule counter_time)
  have "\<exists>ms r s'. win_cond_timewait counter_os 8 16 \<lparr>sec = 0, nsec = 1000000\<rparr> (counter_state 2000000)
      = Some (if ret r = 0 then YO_ETIMEOUT else YO_OK, s')
      \<and> trace s' = trace s1 @ [(CWin (WSleepCond 8 16 ms), r)] \<and> uint ms = 0"
    using win_timewait_clamped [OF mono, of "\<lparr>sec = 0, nsec = 1000000\<rparr>" 8 16] by (simp add: normal_def time_ns_def)
  then obtain r s' where r: "win_cond_timewait counter_os 8 16 \<lparr>sec = 0, nsec = 1000000\<rparr> (counter_state 2000000)
      = Some (if ret r = 0 then YO_ETIMEOUT else YO_OK, s')" "trace s' = trace s1 @ [(CWin (WSleepCond 8 16 0), r)]"
    by (auto simp: uint_0_iff)
  moreover have "fst (the (win_cond_timewait counter_os 8 16 \<lparr>sec = 0, nsec = 1000000\<rparr> (counter_state 2000000))) = YO_ETIMEOUT"
    by (simp add: win_cond_timewait_def mono sys_simps Let_def reply_of_def counter_os_def)
  ultimately show ?thesis
    by (intro exI [of _ r] exI [of _ s']) (simp split: if_splits)
qed

end
