(* ===== verification/Config.thy ===== *)
theory Config
  imports Prelude
begin

text \<open>
  The configuration of a build: \<open>src/inc/yaooi/conf.h\<close> as a function on the set of the defined macros, one definition
  for each of its numbered steps, and the places that choose a component by it: \<open>src/impl.c\<close> and \<open>src/impl.h\<close> the
  backend, \<open>src/unix/async.c\<close> and \<open>src/unix/async.h\<close> its polling, \<open>src/utils/multithread.h\<close> the threads.
\<close>

section \<open>The configuration header\<close>

text \<open>The macros of the compiler are \<open>LINUX\<close> (\<open>__linux\<close>), \<open>UNIX\<close> (\<open>__unix__\<close>) and \<open>WIN32\<close>.\<close>

datatype macro =
    LINUX | UNIX | WIN32
  | YO_USE_UNIX | YO_USE_LINUX | YO_USE_WIN32 | YO_USE_MULTITHREAD | YO_USE_EPOLL | YO_USE_POLL
  | YO_NO_USE_WIN32 | YO_NO_USE_UNIX | YO_NO_USE_LINUX | YO_NO_USE_EPOLL | YO_NO_USE_POLL | YO_NO_USE_MULTITHREAD

type_synonym macros = "macro set"

definition detect_target :: "macros \<Rightarrow> macros" where
  "detect_target M =
     (if LINUX \<in> M then M \<union> {YO_USE_UNIX, YO_USE_LINUX}
      else if UNIX \<in> M then M \<union> {YO_USE_UNIX}
      else if WIN32 \<in> M then M \<union> {YO_USE_WIN32}
      else M)"

definition system_overrides :: "macros \<Rightarrow> macros" where
  "system_overrides M =
     (let M = (if YO_NO_USE_WIN32 \<in> M then M - {YO_USE_WIN32} else M);
          M = (if YO_NO_USE_UNIX \<in> M then M - {YO_USE_UNIX, YO_USE_LINUX} else M)
      in if YO_NO_USE_LINUX \<in> M then M - {YO_USE_LINUX} else M)"

definition default_features :: "macros \<Rightarrow> macros" where
  "default_features M =
     (if YO_USE_LINUX \<in> M then M \<union> {YO_USE_MULTITHREAD, YO_USE_EPOLL}
      else if YO_USE_UNIX \<in> M then M \<union> {YO_USE_MULTITHREAD, YO_USE_POLL}
      else if YO_USE_WIN32 \<in> M then M \<union> {YO_USE_MULTITHREAD}
      else M)"

definition feature_blacklists :: "macros \<Rightarrow> macros" where
  "feature_blacklists M =
     (let M = (if YO_NO_USE_EPOLL \<in> M then M - {YO_USE_EPOLL} else M);
          M = (if YO_NO_USE_POLL \<in> M then M - {YO_USE_POLL} else M)
      in if YO_NO_USE_MULTITHREAD \<in> M then M - {YO_USE_MULTITHREAD} else M)"

definition conf_h :: "macros \<Rightarrow> macros" where
  "conf_h M = feature_blacklists (default_features (system_overrides (detect_target M)))"

section \<open>What is included\<close>

datatype backend = Unix_backend | Win_backend | Ansi_backend

definition impl_include :: "macros \<Rightarrow> backend" where
  "impl_include M =
     (if YO_USE_UNIX \<in> M then Unix_backend else if YO_USE_WIN32 \<in> M then Win_backend else Ansi_backend)"

datatype polling = Epoll_polling | Poll_polling

definition async_include :: "macros \<Rightarrow> polling option" where
  "async_include M =
     (if YO_USE_EPOLL \<in> M then Some Epoll_polling else if YO_USE_UNIX \<in> M then Some Poll_polling else None)"

text \<open>The branches of \<open>multithread.h\<close>; the third is the directive \<open>#error\<close>.\<close>

datatype threading = Win_threads | Posix_threads | Threads_error | No_threads

definition threads_include :: "macros \<Rightarrow> threading" where
  "threads_include M =
     (if YO_USE_MULTITHREAD \<in> M \<and> YO_USE_WIN32 \<in> M then Win_threads
      else if YO_USE_MULTITHREAD \<in> M \<and> YO_USE_UNIX \<in> M then Posix_threads
      else if YO_USE_MULTITHREAD \<in> M then Threads_error
      else No_threads)"

section \<open>Properties\<close>

definition chosen :: "macros" where
  "chosen = {YO_USE_UNIX, YO_USE_LINUX, YO_USE_WIN32, YO_USE_MULTITHREAD, YO_USE_EPOLL, YO_USE_POLL}"

text \<open>What each step leaves of a macro.\<close>

lemma detect_target_iff:
  "x \<in> detect_target M \<longleftrightarrow> x \<in> M \<or> x = YO_USE_UNIX \<and> (LINUX \<in> M \<or> UNIX \<in> M) \<or> x = YO_USE_LINUX \<and> LINUX \<in> M
     \<or> x = YO_USE_WIN32 \<and> LINUX \<notin> M \<and> UNIX \<notin> M \<and> WIN32 \<in> M"
  by (auto simp: detect_target_def)

lemma system_overrides_iff:
  "x \<in> system_overrides M \<longleftrightarrow> x \<in> M \<and> \<not> (x = YO_USE_WIN32 \<and> YO_NO_USE_WIN32 \<in> M)
     \<and> \<not> (x = YO_USE_UNIX \<and> YO_NO_USE_UNIX \<in> M)
     \<and> \<not> (x = YO_USE_LINUX \<and> (YO_NO_USE_UNIX \<in> M \<or> YO_NO_USE_LINUX \<in> M))"
  by (auto simp: system_overrides_def)

lemma default_features_iff:
  "x \<in> default_features M \<longleftrightarrow> x \<in> M \<or> x = YO_USE_EPOLL \<and> YO_USE_LINUX \<in> M
     \<or> x = YO_USE_POLL \<and> YO_USE_LINUX \<notin> M \<and> YO_USE_UNIX \<in> M
     \<or> x = YO_USE_MULTITHREAD \<and> (YO_USE_LINUX \<in> M \<or> YO_USE_UNIX \<in> M \<or> YO_USE_WIN32 \<in> M)"
  by (auto simp: default_features_def)

lemma feature_blacklists_iff:
  "x \<in> feature_blacklists M \<longleftrightarrow> x \<in> M \<and> \<not> (x = YO_USE_EPOLL \<and> YO_NO_USE_EPOLL \<in> M)
     \<and> \<not> (x = YO_USE_POLL \<and> YO_NO_USE_POLL \<in> M)
     \<and> \<not> (x = YO_USE_MULTITHREAD \<and> YO_NO_USE_MULTITHREAD \<in> M)"
  by (auto simp: feature_blacklists_def)

lemmas conf_steps_iff = detect_target_iff system_overrides_iff default_features_iff feature_blacklists_iff

text \<open>What the header leaves of each macro, when the caller defines none of those it chooses.\<close>

lemma conf_h_iff:
  assumes "M \<inter> chosen = {}"
  shows "YO_USE_UNIX \<in> conf_h M \<longleftrightarrow> (LINUX \<in> M \<or> UNIX \<in> M) \<and> YO_NO_USE_UNIX \<notin> M"
    and "YO_USE_WIN32 \<in> conf_h M \<longleftrightarrow> LINUX \<notin> M \<and> UNIX \<notin> M \<and> WIN32 \<in> M \<and> YO_NO_USE_WIN32 \<notin> M"
    and "YO_USE_EPOLL \<in> conf_h M \<longleftrightarrow> LINUX \<in> M \<and> M \<inter> {YO_NO_USE_UNIX, YO_NO_USE_LINUX, YO_NO_USE_EPOLL} = {}"
    and "YO_USE_MULTITHREAD \<in> conf_h M \<longleftrightarrow>
      (YO_USE_UNIX \<in> conf_h M \<or> YO_USE_WIN32 \<in> conf_h M) \<and> YO_NO_USE_MULTITHREAD \<notin> M"
proof -
  have no: "x \<notin> M" if "x \<in> chosen" for x
    using that assms by blast
  have none [simp]: "YO_USE_UNIX \<notin> M" "YO_USE_LINUX \<notin> M" "YO_USE_WIN32 \<notin> M" "YO_USE_MULTITHREAD \<notin> M" "YO_USE_EPOLL \<notin> M"
    by (simp_all add: no chosen_def)
  show unix: "YO_USE_UNIX \<in> conf_h M \<longleftrightarrow> (LINUX \<in> M \<or> UNIX \<in> M) \<and> YO_NO_USE_UNIX \<notin> M"
    and win: "YO_USE_WIN32 \<in> conf_h M \<longleftrightarrow> LINUX \<notin> M \<and> UNIX \<notin> M \<and> WIN32 \<in> M \<and> YO_NO_USE_WIN32 \<notin> M"
    by (auto simp: conf_h_def conf_steps_iff)
  show "YO_USE_EPOLL \<in> conf_h M \<longleftrightarrow> LINUX \<in> M \<and> M \<inter> {YO_NO_USE_UNIX, YO_NO_USE_LINUX, YO_NO_USE_EPOLL} = {}"
    by (auto simp: conf_h_def conf_steps_iff)
  show "YO_USE_MULTITHREAD \<in> conf_h M \<longleftrightarrow>
      (YO_USE_UNIX \<in> conf_h M \<or> YO_USE_WIN32 \<in> conf_h M) \<and> YO_NO_USE_MULTITHREAD \<notin> M"
    unfolding unix win by (auto simp: conf_h_def conf_steps_iff)
qed

text \<open>
  C38: The configuration is consistent, whatever the compiler and the caller define, as long as the caller leaves the macros alone that
  the header chooses. The Unix backend is taken on Unix, the Windows one on Windows, unless the caller forbids it, the ANSI
  one everywhere else; polling is by epoll on Linux only, and by poll on any other Unix configuration, also when the
  caller forbids poll; the threads are those of the backend, or none, and the \<open>#error\<close> is never reached.
\<close>

theorem conf_consistent:
  assumes "M \<inter> chosen = {}"
  shows "impl_include (conf_h M) =
      (if (LINUX \<in> M \<or> UNIX \<in> M) \<and> YO_NO_USE_UNIX \<notin> M then Unix_backend
       else if LINUX \<notin> M \<and> UNIX \<notin> M \<and> WIN32 \<in> M \<and> YO_NO_USE_WIN32 \<notin> M then Win_backend
       else Ansi_backend)
    \<and> async_include (conf_h M) =
      (if impl_include (conf_h M) \<noteq> Unix_backend then None
       else if LINUX \<in> M \<and> YO_NO_USE_LINUX \<notin> M \<and> YO_NO_USE_EPOLL \<notin> M then Some Epoll_polling
       else Some Poll_polling)
    \<and> threads_include (conf_h M) =
      (if YO_NO_USE_MULTITHREAD \<in> M then No_threads
       else case impl_include (conf_h M) of
           Unix_backend \<Rightarrow> Posix_threads | Win_backend \<Rightarrow> Win_threads | Ansi_backend \<Rightarrow> No_threads)"
  using conf_h_iff [OF assms] by (auto simp: impl_include_def async_include_def threads_include_def)

theorem conf_consistent_witness:
  "impl_include (conf_h {LINUX, UNIX, YO_NO_USE_EPOLL, YO_NO_USE_POLL}) = Unix_backend
   \<and> async_include (conf_h {LINUX, UNIX, YO_NO_USE_EPOLL, YO_NO_USE_POLL}) = Some Poll_polling
   \<and> threads_include (conf_h {LINUX, UNIX, YO_NO_USE_EPOLL, YO_NO_USE_POLL}) = Posix_threads"
  using conf_consistent [of "{LINUX, UNIX, YO_NO_USE_EPOLL, YO_NO_USE_POLL}"] by (simp add: chosen_def)

end
