(* ===== verification/AsyncIO.thy ===== *)
theory AsyncIO
  imports Pollish
begin

text \<open>
  The asynchronous interface of \<open>src/unix/pollish.c\<close> and \<open>src/queue.c\<close> as a whole, over any backend that keeps a contract.
  The locale \<open>async_backend\<close> extends the contract of \<open>setmask\<close> by what waiting for events and the other system
  calls may do. In it the invariant of a queue with its handles is shown to be kept by every call of a client. The theories
  \<open>Client\<close> and \<open>PollClient\<close> have the two backends as interpretations.
\<close>

section \<open>What is assumed of the system\<close>

text \<open>The calls that the operations of this interface and its backends make.\<close>

definition io_call :: "call \<Rightarrow> bool" where
  "io_call k = (case k of CMalloc _ \<Rightarrow> True | CFree _ \<Rightarrow> True | CRealloc _ _ \<Rightarrow> True | CClose _ \<Rightarrow> True
     | CRead _ _ \<Rightarrow> True | CWrite _ _ \<Rightarrow> True | CPread _ _ _ \<Rightarrow> True | CPwrite _ _ _ \<Rightarrow> True | CAccept _ \<Rightarrow> True
     | CPipe \<Rightarrow> True | CNonblock _ \<Rightarrow> True | CEpollCreate \<Rightarrow> True | CEpollCtl _ _ _ _ _ \<Rightarrow> True | CEpollWait _ \<Rightarrow> True
     | CTimerfdCreate \<Rightarrow> True | CTimerfdSettime _ _ _ _ \<Rightarrow> True | CClock _ \<Rightarrow> True | CPoll _ _ \<Rightarrow> True
     | CLock _ \<Rightarrow> True | CUnlock _ \<Rightarrow> True | CMutexNew _ \<Rightarrow> True | _ \<Rightarrow> False)"

lemma io_callE:
  assumes "io_call k"
  obtains n where "k = CMalloc n" | p where "k = CFree p" | p n where "k = CRealloc p n" | fd where "k = CClose fd"
    | fd n where "k = CRead fd n" | fd bs where "k = CWrite fd bs" | fd n off where "k = CPread fd n off"
    | fd bs off where "k = CPwrite fd bs off" | fd where "k = CAccept fd" | "k = CPipe" | fd where "k = CNonblock fd"
    | "k = CEpollCreate" | ep opr fd ev d where "k = CEpollCtl ep opr fd ev d" | ep where "k = CEpollWait ep"
    | "k = CTimerfdCreate" | fd b x y where "k = CTimerfdSettime fd b x y" | i where "k = CClock i"
    | fds t where "k = CPoll fds t" | m where "k = CLock m" | m where "k = CUnlock m" | m where "k = CMutexNew m"
  using assms by (cases k) (simp_all add: io_call_def)

text \<open>
  \<open>U\<close> are the blocks and descriptors in use: a call takes what was not in use, and keeps what it does not give
  back. \<open>W\<close> are the descriptors that can be watched, which regular files cannot; that does not change while a
  descriptor is open.
\<close>

definition resource_os :: "('w \<Rightarrow> resource set) \<Rightarrow> ('w \<Rightarrow> int \<Rightarrow> bool) \<Rightarrow> 'w os \<Rightarrow> bool" where
  "resource_os U W os \<longleftrightarrow> (\<forall>w k. io_call k \<longrightarrow>
     (let (r, w') = os w k; taken = set (acquires (k, r)); given = set (releases (k, r)) in
        (U w - given) \<union> taken \<subseteq> U w' \<and> taken \<inter> (U w - given) = {}
      \<and> (\<forall>fd. Fd fd \<notin> taken \<union> given \<longrightarrow> W w' fd = W w fd)))"

lemma resource_call:
  assumes "resource_os U W os" and "io_call k"
  shows "x \<in> U (world s) \<Longrightarrow> x \<notin> set (releases (k, reply_of os k s)) \<Longrightarrow> x \<in> U (world (after os k s))"
    and "x \<in> set (acquires (k, reply_of os k s)) \<Longrightarrow> x \<in> U (world (after os k s))"
    and "x \<in> set (acquires (k, reply_of os k s)) \<Longrightarrow> x \<in> U (world s) \<Longrightarrow> x \<in> set (releases (k, reply_of os k s))"
    and "Fd fd \<notin> set (acquires (k, reply_of os k s)) \<Longrightarrow> Fd fd \<notin> set (releases (k, reply_of os k s)) \<Longrightarrow>
      W (world (after os k s)) fd = W (world s) fd"
proof -
  obtain r w' where run: "os (world s) k = (r, w')" by fastforce
  have "\<forall>k. io_call k \<longrightarrow>
     (let (r, w') = os (world s) k; taken = set (acquires (k, r)); given = set (releases (k, r)) in
        (U (world s) - given) \<union> taken \<subseteq> U w' \<and> taken \<inter> (U (world s) - given) = {}
      \<and> (\<forall>fd. Fd fd \<notin> taken \<union> given \<longrightarrow> W w' fd = W (world s) fd))"
    using assms(1) unfolding resource_os_def by (rule spec)
  then have law: "(U (world s) - set (releases (k, r))) \<union> set (acquires (k, r)) \<subseteq> U w'"
    "set (acquires (k, r)) \<inter> (U (world s) - set (releases (k, r))) = {}"
    "Fd fd \<notin> set (acquires (k, r)) \<union> set (releases (k, r)) \<longrightarrow> W w' fd = W (world s) fd"
    using assms(2) by (auto simp: run Let_def dest!: spec [of _ k])
  have eq: "reply_of os k s = r" "world (after os k s) = w'" using run by (simp_all add: reply_of_def)
  show "x \<in> U (world s) \<Longrightarrow> x \<notin> set (releases (k, reply_of os k s)) \<Longrightarrow> x \<in> U (world (after os k s))"
    "x \<in> set (acquires (k, reply_of os k s)) \<Longrightarrow> x \<in> U (world (after os k s))"
    "x \<in> set (acquires (k, reply_of os k s)) \<Longrightarrow> x \<in> U (world s) \<Longrightarrow> x \<in> set (releases (k, reply_of os k s))"
    "Fd fd \<notin> set (acquires (k, reply_of os k s)) \<Longrightarrow> Fd fd \<notin> set (releases (k, reply_of os k s)) \<Longrightarrow>
      W (world (after os k s)) fd = W (world s) fd"
    using law unfolding eq by blast+
qed

text \<open>The fields of handles and requests that are not part of the ready list.\<close>

definition same_io :: "('w, 'z) pl_scheme \<Rightarrow> ('w, 'z) pl_scheme \<Rightarrow> bool" where
  "same_io s s' \<longleftrightarrow> req_links s' = req_links s \<and> ioq_fd s' = ioq_fd s \<and> ioq_kind s' = ioq_kind s
     \<and> fd_read_n s' = fd_read_n s \<and> fd_write_n s' = fd_write_n s \<and> fd_fd s' = fd_fd s \<and> rq_queue s' = rq_queue s"

lemma same_io_refl: "same_io s s"
  by (simp add: same_io_def)

lemma same_io_trans: "same_io s t \<Longrightarrow> same_io t u \<Longrightarrow> same_io s u"
  by (simp add: same_io_def)

lemma same_io_after: "same_io s (after os c s)"
  by (simp add: same_io_def)

lemma same_requests_io: "same_requests s s' \<Longrightarrow> same_io s s'"
  by (simp add: same_requests_def same_queues_def same_io_def)

lemma end_same_io: "same_io s (yoi_req_end os (pl_notify os) req c s)"
  by (simp add: same_io_def)

lemma pop_same_io: "same_io s (pop_ready q s)" "world (pop_ready q s) = world s" "pl.more (pop_ready q s) = pl.more s"
  by (simp_all add: same_io_def pop_ready_def req_links_def)

lemma store_same_io: "same_io s (s\<lparr>m_code := f\<rparr>)" "same_io s (set_ptr p a s)"
  by (simp_all add: same_io_def req_links_def set_ptr_def)

text \<open>Requests of one handle among those of all.\<close>

lemma concat_upd:
  "distinct hs \<Longrightarrow> h \<in> set hs \<Longrightarrow> mset (concat (map (F(h := xs)) hs)) + mset (F h) = mset (concat (map F hs)) + mset xs"
proof (induction hs)
  case (Cons g hs)
  have keep: "map (F(h := xs)) hs = map F hs" if "h \<notin> set hs" using that by (intro map_cong) auto
  show ?case
  proof (cases "g = h")
    case True
    with Cons.prems keep show ?thesis by (simp add: fun_upd_same del: fun_upd_apply)
  next
    case False
    with Cons show ?thesis by (simp add: ac_simps)
  qed
qed simp

lemma concat_remove_one:
  assumes "distinct hs" and "h \<in> set hs" and "x \<in> set (F h)"
  shows "mset (concat (map F hs)) = add_mset x (mset (concat (map (F(h := remove1 x (F h))) hs)))"
proof -
  let ?R = "mset (remove1 x (F h))" let ?N = "mset (concat (map (F(h := remove1 x (F h))) hs))"
  have "mset (F h) = add_mset x ?R" using assms(3) by simp
  with concat_upd [OF assms(1,2), of F "remove1 x (F h)"]
  have "add_mset x ?N + ?R = mset (concat (map F hs)) + ?R" by (simp del: mset_remove1)
  then show ?thesis by (metis add_right_imp_eq)
qed

lemma concat_remove:
  "h \<in> set hs \<Longrightarrow> mset (concat (map F hs)) = mset (F h) + mset (concat (map F (remove1 h hs)))"
  by (induction hs) auto

lemma count_other:
  "h' \<noteq> h \<Longrightarrow> fd_read_n (count_up h req s) h' = fd_read_n s h'" "h' \<noteq> h \<Longrightarrow> fd_write_n (count_up h req s) h' = fd_write_n s h'"
  "h' \<noteq> h \<Longrightarrow> fd_read_n (count_down h req s) h' = fd_read_n s h'" "h' \<noteq> h \<Longrightarrow> fd_write_n (count_down h req s) h' = fd_write_n s h'"
  by (simp_all add: count_up_def count_down_def Let_def)

lemma waiting_other: "ioq_kind t = (ioq_kind s)(req := k) \<Longrightarrow> req \<notin> set xs \<Longrightarrow> waiting t m xs = waiting s m xs"
  unfolding waiting_def by (induction xs) auto

text \<open>A counter that is not at its end counts one more.\<close>

lemma count_up_room:
  assumes "unat (fd_read_n s h) = waiting s YOI_PL_READABLE xs" and "unat (fd_write_n s h) = waiting s YOI_PL_WRITABLE xs"
    and "fd_read_n s h \<noteq> -1" and "fd_write_n s h \<noteq> -1"
  shows "unat (fd_read_n (count_up h req s) h) = waiting s YOI_PL_READABLE (req # xs)"
    and "unat (fd_write_n (count_up h req s) h) = waiting s YOI_PL_WRITABLE (req # xs)"
proof -
  have inc: "unat (w + 1) = Suc (unat w)" if "w \<noteq> -1" for w :: u32
    using unatSuc [of w] that by (simp add: add.commute eq_neg_iff_add_eq_0)
  show "unat (fd_read_n (count_up h req s) h) = waiting s YOI_PL_READABLE (req # xs)"
    using assms(1) tomask_cases [of "ioq_kind s req"] inc [OF assms(3)]
    by (auto simp: count_up_def Let_def waiting_def)
  show "unat (fd_write_n (count_up h req s) h) = waiting s YOI_PL_WRITABLE (req # xs)"
    using assms(2) tomask_cases [of "ioq_kind s req"] inc [OF assms(4)]
    by (auto simp: count_up_def Let_def waiting_def)
qed

lemma want_mask_counts:
  assumes "unat (fd_read_n s h) = waiting t YOI_PL_READABLE xs" and "unat (fd_write_n s h) = waiting t YOI_PL_WRITABLE xs"
  shows "want_mask h s = needed t xs"
  using assms by (simp add: want_mask_eq needed_def unat_gt_0 unsigned_eq_0_iff flip: assms)

lemma want_mask_up:
  "fd_read_n s h \<noteq> -1 \<Longrightarrow> fd_write_n s h \<noteq> -1 \<Longrightarrow> want_mask h (count_up h req s) \<noteq> 0"
  using tomask_cases [of "ioq_kind s req"]
  by (auto simp: want_mask_eq mask_of_zero count_up_def Let_def eq_neg_iff_add_eq_0)

lemma want_mask_bits: "want_mask h s AND 3 = want_mask h s"
  by (simp add: want_mask_eq mask_of_def)

text \<open>The requests that are running or ready.\<close>

definition pending :: "addr list \<Rightarrow> (addr \<Rightarrow> addr list) \<Rightarrow> (addr \<times> yo_code) list \<Rightarrow> addr multiset" where
  "pending hs F ys = mset (concat (map F hs)) + mset (map fst ys)"

lemma pending_length: "h \<in> set hs \<Longrightarrow> length (F h) \<le> size (pending hs F ys)"
  using concat_remove [of h hs F] by (simp add: pending_def size_union flip: size_mset)

lemma pending_mem: "x \<notin># pending hs F ys \<longleftrightarrow> x \<notin> set (concat (map F hs)) \<and> x \<notin> fst ` set ys"
  by (simp add: pending_def)

text \<open>The handle that comes with a request that is delivered, if that has accepted a connection.\<close>

definition accepted :: "('w, 'z) pl_scheme \<Rightarrow> addr \<Rightarrow> addr \<Rightarrow> addr list" where
  "accepted s req pcode =
     (if ioq_kind s req = YOI_PL_ACCEPT \<and> m_code s pcode = YO_OK then [m_ptr s (ioq_pclient s req)] else [])"

lemma accept_fields:
  "ioq_kind (snd (yo_socket_accept os h pres pa pp s)) = ioq_kind s"
  "ioq_pclient (snd (yo_socket_accept os h pres pa pp s)) = ioq_pclient s"
  by (simp_all add: yo_socket_accept_def sys_simps Let_def after_eq yoi_unix_mkfd_def yoi_fd_ioq_init_def set_ptr_def split: prod.splits)

text \<open>
  A \<open>close\<close> of \<open>fd\<close> that is repeated whenever a signal interrupts it, as in the loop of \<open>yo_fd_close\<close>, and that
  from some moment on is interrupted every time.
\<close>

definition interrupted_for_ever :: "'w os \<Rightarrow> int \<Rightarrow> bool" where
  "interrupted_for_ever os fd \<longleftrightarrow>
     (\<exists>w. \<forall>n. eno (fst (os (((\<lambda>w. snd (os w (CClose fd))) ^^ n) w) (CClose fd))) = Some EINTR)"

section \<open>The contract of a backend\<close>

text \<open>
  \<open>reserved\<close> are the blocks and descriptors that the backend keeps for itself, \<open>internal\<close> the data of what it watches for
  its own purposes. A descriptor that can be watched is never refused as unsuitable, and once it is watched every mask is
  accepted; otherwise \<open>setmask\<close> may fail. Waiting reports what is watched. A system call that gives nothing of the
  backend's away leaves it alone.
\<close>

locale async_backend = poll_backend setmask sane registered
  for setmask :: "('w, 'z) setmask"
    and sane :: "'w os \<Rightarrow> ('w, 'z) pl_scheme \<Rightarrow> bool"
    and registered :: "('w, 'z) pl_scheme \<Rightarrow> addr \<Rightarrow> int \<Rightarrow> (u32 \<times> addr) option" +
  fixes wait :: "('w, 'z) pl_poll"
    and q :: addr
    and U :: "'w \<Rightarrow> resource set"
    and W :: "'w \<Rightarrow> int \<Rightarrow> bool"
    and reserved :: "('w, 'z) pl_scheme \<Rightarrow> resource \<Rightarrow> bool"
    and internal :: "('w, 'z) pl_scheme \<Rightarrow> addr \<Rightarrow> bool"
  assumes posix: "sane os s \<Longrightarrow> posix_os os"
    and resources: "sane os s \<Longrightarrow> resource_os U W os"
    and reserved_used: "sane os s \<Longrightarrow> reserved s x \<Longrightarrow> x \<in> U (world s)"
    and own_parts: "pl.more s' = pl.more s \<Longrightarrow> reserved s' = reserved s \<and> internal s' = internal s"
    and setmask_codes: "sane os s \<Longrightarrow> setmask os q u fd m s = (c, s') \<Longrightarrow>
          (W (world s) fd \<longrightarrow> c \<noteq> YO_EPERM \<and> (registered s q fd \<noteq> None \<longrightarrow> c = YO_OK))
        \<and> (\<not> W (world s) fd \<and> m \<noteq> 0 \<longrightarrow> c = YO_EPERM)"
    and setmask_keeps: "sane os s \<Longrightarrow> setmask os q u fd m s = (c, s') \<Longrightarrow>
          W (world s') = W (world s) \<and> internal s' = internal s
        \<and> (x \<in> U (world s) \<and> \<not> reserved s x \<longrightarrow> x \<in> U (world s') \<and> \<not> reserved s' x)"
    and wait_keeps: "sane os s \<Longrightarrow> wait os q deadline s = Some (c, u, evn, s') \<Longrightarrow>
          sane os s' \<and> same_requests s s' \<and> registered s' q = registered s q
        \<and> W (world s') = W (world s) \<and> internal s' = internal s
        \<and> (x \<in> U (world s) \<and> \<not> reserved s x \<longrightarrow> x \<in> U (world s') \<and> \<not> reserved s' x)
        \<and> (c = YO_OK \<and> u \<noteq> NULL \<longrightarrow> (\<exists>fd m. registered s q fd = Some (m, u) \<and> \<not> internal s u))"
    and call_keeps: "sane os s \<Longrightarrow> io_call k \<Longrightarrow> (\<And>x. x \<in> set (releases (k, reply_of os k s)) \<Longrightarrow>
            \<not> reserved s x \<and> (\<forall>fd. x = Fd fd \<longrightarrow> registered s q fd = None)) \<Longrightarrow>
          (\<forall>a b c d e. k \<noteq> CEpollCtl a b c d e) \<Longrightarrow>
          sane os (after os k s) \<and> registered (after os k s) q = registered s q
        \<and> (\<forall>fd m d. Fd fd \<in> set (acquires (k, reply_of os k s)) \<and> registered s q fd = Some (m, d) \<longrightarrow> \<not> internal s d)"
begin

definition usable :: "('w, 'z) pl_scheme \<Rightarrow> resource \<Rightarrow> bool" where
  "usable s x \<longleftrightarrow> x \<in> U (world s) \<and> \<not> reserved s x"

text \<open>What every step leaves alone, apart from what is watched.\<close>

definition keeps :: "'w os \<Rightarrow> ('w, 'z) pl_scheme \<Rightarrow> ('w, 'z) pl_scheme \<Rightarrow> bool" where
  "keeps os s s' \<longleftrightarrow> sane os s' \<and> internal s' = internal s \<and> (\<forall>x. usable s x \<longrightarrow> usable s' x)
     \<and> (\<forall>fd. usable s (Fd fd) \<longrightarrow> W (world s') fd = W (world s) fd)"

definition backed :: "'w os \<Rightarrow> ('w, 'z) pl_scheme \<Rightarrow> ('w, 'z) pl_scheme \<Rightarrow> bool" where
  "backed os s s' \<longleftrightarrow> keeps os s s' \<and> registered s' q = registered s q"

lemma keeps_trans: "keeps os s t \<Longrightarrow> keeps os t u \<Longrightarrow> keeps os s u"
  by (simp add: keeps_def)

lemma backed_trans: "backed os s t \<Longrightarrow> backed os t u \<Longrightarrow> backed os s u"
  using keeps_trans by (auto simp: backed_def)

lemma backed_own: "sane os s \<Longrightarrow> world s' = world s \<Longrightarrow> pl.more s' = pl.more s \<Longrightarrow> backed os s s'"
  using own_state [of s' s os] own_parts [of s' s] by (simp add: backed_def keeps_def usable_def)

lemma keeps_setmask:
  assumes "sane os s" and "setmask os q u fd m s = (c, s')"
  shows "keeps os s s'"
  using setmask_keeps [OF assms] setmask_frame [OF assms, THEN conjunct1] by (simp add: keeps_def usable_def)

lemma backed_call:
  assumes "sane os s" and k: "io_call k" "\<forall>a b c d e. k \<noteq> CEpollCtl a b c d e" "\<And>r. releases (k, r) = []"
  shows "backed os s (after os k s)"
proof -
  note res = resource_call [OF resources [OF assms(1)] k(1)]
  have "sane os (after os k s) \<and> registered (after os k s) q = registered s q"
    using call_keeps [OF assms(1) k(1) _ k(2)] k(3) by simp
  moreover have "reserved (after os k s) = reserved s" "internal (after os k s) = internal s"
    using own_parts [of "after os k s" s] by simp_all
  moreover have "W (world (after os k s)) fd = W (world s) fd" if "usable s (Fd fd)" for fd
    using res(3) [of "Fd fd"] res(4) k(3) that by (auto simp: usable_def)
  ultimately show ?thesis
    using res(1) [where s = s] k(3) by (auto simp: backed_def keeps_def usable_def)
qed

text \<open>What a call takes is new.\<close>

lemma acquired:
  assumes "sane os s" and "io_call k" and "releases (k, reply_of os k s) = []" and "x \<in> set (acquires (k, reply_of os k s))"
  shows "usable (after os k s) x" and "\<not> usable s x"
proof -
  note res = resource_call [OF resources [OF assms(1)] assms(2)]
  have new: "x \<notin> U (world s)" using res(3) [OF assms(4)] assms(3) by auto
  then have "\<not> reserved s x" using reserved_used [OF assms(1)] by blast
  then show "usable (after os k s) x" using res(2) [OF assms(4)] own_parts [of "after os k s" s] by (simp add: usable_def)
  show "\<not> usable s x" using new by (simp add: usable_def)
qed

section \<open>The invariant of a queue with its handles\<close>

text \<open>
  \<open>xs\<close> are the requests of the handle \<open>h\<close>. When its descriptor can be watched, the counters count them, and the backend
  watches for what they need or, as long as it has refused, for nothing. When it cannot, there are none, and
  the counters do not matter.
\<close>

definition handle_ok :: "('w, 'z) pl_scheme \<Rightarrow> addr \<Rightarrow> addr list \<Rightarrow> bool" where
  "handle_ok s h xs \<longleftrightarrow> dlist (req_links s) h xs \<and> (\<forall>x \<in> set xs. ioq_fd s x = h \<and> rq_queue s x = q)
     \<and> (if W (world s) (fd_fd s h)
        then unat (fd_read_n s h) = waiting s YOI_PL_READABLE xs \<and> unat (fd_write_n s h) = waiting s YOI_PL_WRITABLE xs
           \<and> (registered s q (fd_fd s h) = None \<or> xs \<noteq> [] \<and> registered s q (fd_fd s h) = Some (needed s xs, h))
        else xs = [] \<and> registered s q (fd_fd s h) = None)"

text \<open>
  The handles \<open>hs\<close>, each in order with its running requests \<open>F h\<close>; what is watched are their descriptors and what the
  backend needs itself; \<open>ys\<close> are the requests that are ready; and no request is in two places.
\<close>

definition io_inv ::
  "'w os \<Rightarrow> ('w, 'z) pl_scheme \<Rightarrow> addr list \<Rightarrow> (addr \<Rightarrow> addr list) \<Rightarrow> (addr \<times> yo_code) list \<Rightarrow> bool" where
  "io_inv os s hs F ys \<longleftrightarrow> sane os s \<and> distinct hs \<and> NULL \<notin> set hs \<and> inj_on (fd_fd s) (set hs)
     \<and> (\<forall>h \<in> set hs. usable s (Mem h) \<and> usable s (Fd (fd_fd s h)) \<and> handle_ok s h (F h))
     \<and> (\<forall>fd m d. registered s q fd = Some (m, d) \<longrightarrow> internal s d \<or> d \<in> set hs \<and> fd = fd_fd s d)
     \<and> ready s q ys \<and> (\<forall>y \<in> set ys. ioq_kind s (fst y) = YOI_PL_ACCEPT \<longrightarrow> snd y \<noteq> YO_OK)
     \<and> distinct (concat (map F hs) @ map fst ys)"

lemma io_sane: "io_inv os s hs F ys \<Longrightarrow> sane os s"
  by (simp add: io_inv_def)

lemma io_handle: "io_inv os s hs F ys \<Longrightarrow> h \<in> set hs \<Longrightarrow> handle_ok s h (F h)"
  by (simp add: io_inv_def)

lemma io_usable: "io_inv os s hs F ys \<Longrightarrow> h \<in> set hs \<Longrightarrow> usable s (Mem h) \<and> usable s (Fd (fd_fd s h))"
  by (simp add: io_inv_def)

lemma io_ready: "io_inv os s hs F ys \<Longrightarrow> ready s q ys"
  by (simp add: io_inv_def)

lemma io_distinct: "io_inv os s hs F ys \<Longrightarrow> distinct (concat (map F hs) @ map fst ys)"
  unfolding io_inv_def by (elim conjE)

lemma io_data:
  "io_inv os s hs F ys \<Longrightarrow> registered s q fd = Some (m, d) \<Longrightarrow> internal s d \<or> d \<in> set hs \<and> fd = fd_fd s d"
  unfolding io_inv_def by blast

lemma running_disjoint:
  assumes "io_inv os s hs F ys" and "h \<in> set hs" and "h' \<in> set hs" and "h' \<noteq> h"
  shows "set (F h) \<inter> set (F h') = {}"
proof -
  obtain as bs where hs: "hs = as @ h # bs" using assms(2) by (meson split_list)
  have "h' \<in> set as \<or> h' \<in> set bs" using assms(3,4) hs by auto
  moreover have "distinct (concat (map F hs))" using io_distinct [OF assms(1)] by simp
  then have "distinct (concat (map F as) @ F h @ concat (map F bs))" using hs by simp
  ultimately show ?thesis by fastforce
qed

lemma running_not_ready: "io_inv os s hs F ys \<Longrightarrow> h \<in> set hs \<Longrightarrow> x \<in> set (F h) \<Longrightarrow> x \<notin> fst ` set ys"
  by (auto simp: io_inv_def)

lemma handle_cong:
  assumes "same_io s s'" and "registered s' q (fd_fd s h) = registered s q (fd_fd s h)"
    and "W (world s') (fd_fd s h) = W (world s) (fd_fd s h)"
  shows "handle_ok s' h xs = handle_ok s h xs"
  using assms by (simp add: handle_ok_def same_io_def waiting_def needed_def)

text \<open>A step that leaves handles, requests and the backend alone can only change what is ready.\<close>

lemma io_inv_cong:
  assumes inv: "io_inv os s hs F ys" and same: "same_io s s'" and bk: "backed os s s'"
    and "ready s' q zs" and "\<forall>y \<in> set zs. ioq_kind s (fst y) = YOI_PL_ACCEPT \<longrightarrow> snd y \<noteq> YO_OK"
    and "distinct (concat (map F hs) @ map fst zs)"
  shows "io_inv os s' hs F zs"
proof -
  have f: "fd_fd s' = fd_fd s" "ioq_kind s' = ioq_kind s" using same by (simp_all add: same_io_def)
  have "usable s' (Mem h) \<and> usable s' (Fd (fd_fd s h)) \<and> handle_ok s' h (F h)" if h: "h \<in> set hs" for h
  proof -
    have u: "usable s (Mem h)" "usable s (Fd (fd_fd s h))" using io_usable [OF inv h] by simp_all
    with bk have "W (world s') (fd_fd s h) = W (world s) (fd_fd s h)" "registered s' q = registered s q"
      by (simp_all add: backed_def keeps_def)
    then have "handle_ok s' h (F h)" using io_handle [OF inv h] by (subst handle_cong [OF same]) simp_all
    with u bk show ?thesis by (simp add: backed_def keeps_def)
  qed
  moreover have "sane os s'" "registered s' q = registered s q" "internal s' = internal s"
    using bk by (simp_all add: backed_def keeps_def)
  ultimately show ?thesis
    using assms(4-) io_data [OF inv] inv unfolding io_inv_def f by simp
qed

lemma io_inv_same:
  assumes inv: "io_inv os s hs F ys" and "same_requests s s'" and "backed os s s'"
  shows "io_inv os s' hs F ys"
proof (rule io_inv_cong [OF inv same_requests_io [OF assms(2)] assms(3)])
  show "ready s' q ys" using io_ready [OF inv] assms(2) ready_same [of s s' q ys] by (simp add: same_requests_def)
qed (use inv in \<open>simp_all add: io_inv_def\<close>)

section \<open>Calls that leave handles and requests alone\<close>

lemma io_call:
  assumes inv: "io_inv os s hs F ys" and k: "io_call k" "\<forall>a b c d e. k \<noteq> CEpollCtl a b c d e" "\<And>r. releases (k, r) = []"
  shows "io_inv os (after os k s) hs F ys"
  by (rule io_inv_same [OF inv same_requests_after backed_call [OF io_sane [OF inv] k]])

lemma io_store:
  assumes inv: "io_inv os s hs F ys"
  shows "io_inv os (set_ptr p a s) hs F ys" and "io_inv os (s\<lparr>m_code := f\<rparr>) hs F ys"
    and "io_inv os (store_bytes p bs s) hs F ys" and "io_inv os (set_size p n s) hs F ys"
  by (rule io_inv_same [OF inv], simp add: same_requests_def same_queues_def req_links_def mem_defs,
      rule backed_own [OF io_sane [OF inv]]; simp add: mem_defs)+

lemma backed_sane: "backed os s t \<Longrightarrow> sane os t"
  by (simp add: backed_def keeps_def)

text \<open>A call behind other steps.\<close>

lemma backed_after:
  assumes "backed os s t" and "io_call k" and "\<forall>a b c d e. k \<noteq> CEpollCtl a b c d e" and "\<And>r. releases (k, r) = []"
  shows "backed os s (after os k t)"
  by (rule backed_trans [OF assms(1) backed_call [OF backed_sane [OF assms(1)] assms(2-4)]])

lemma backed_step: "backed os s t \<Longrightarrow> world u = world t \<Longrightarrow> pl.more u = pl.more t \<Longrightarrow> backed os s u"
  by (rule backed_trans [OF _ backed_own [OF backed_sane]])

lemma end_backed:
  assumes "backed os s t"
  shows "backed os s (yoi_req_end os (pl_notify os) req c t)"
proof -
  let ?q = "rq_queue t req" let ?t1 = "t\<lparr>rq_cell := (rq_cell t)(req := Code c)\<rparr>"
  let ?t2 = "after os (CLock ?q) ?t1" let ?t3 = "push_ready ?q req ?t2"
  have "backed os s ?t1" by (rule backed_step [OF assms]) simp_all
  then have "backed os s ?t2" by (rule backed_after) (simp_all add: io_call_def)
  then have "backed os s ?t3" by (rule backed_step) simp_all
  then have "backed os s (after os (CWrite (notify_write t ?q) [0]) ?t3)" by (rule backed_after) (simp_all add: io_call_def)
  then have "backed os s (after os (CUnlock ?q) (after os (CWrite (notify_write t ?q) [0]) ?t3))"
    by (rule backed_after) (simp_all add: io_call_def)
  then show ?thesis by (simp add: end_eq)
qed

text \<open>Taking a request from the ready list.\<close>

lemma pop_keeps:
  assumes "sane os s" and "yoi_queue_pop os q pcode s = Some (req, s')"
  shows "same_io s s' \<and> backed os s s'"
proof -
  let ?t0 = "after os (CLock q) s" let ?t1 = "pop_ready q ?t0"
  have "backed os s s" by (rule backed_own [OF assms(1)]) simp_all
  then have t0: "backed os s ?t0" by (rule backed_after) (simp_all add: io_call_def)
  show ?thesis
  proof (cases "q_head s q = NULL")
    case True
    then have "s' = after os (CUnlock q) ?t0" using assms(2) by (simp add: yoi_queue_pop_def sys_simps Let_def)
    moreover have "backed os s (after os (CUnlock q) ?t0)" using t0 by (rule backed_after) (simp_all add: io_call_def)
    ultimately show ?thesis using same_io_trans [OF same_io_after same_io_after] by simp
  next
    case False
    define t where "t = after os (CUnlock q) ?t1"
    have "backed os s ?t1" using t0 by (rule backed_step) (simp_all add: pop_same_io)
    then have t: "backed os s t" unfolding t_def by (rule backed_after) (simp_all add: io_call_def)
    have "same_io s t"
      unfolding t_def by (rule same_io_trans [OF same_io_trans [OF same_io_after pop_same_io(1)] same_io_after])
    moreover obtain f where "s' = t\<lparr>m_code := f\<rparr>"
      using assms(2) False by (cases "rq_cell s (q_head s q)") (auto simp: yoi_queue_pop_def sys_simps Let_def t_def pop_ready_def)
    ultimately show ?thesis using same_io_trans [OF _ store_same_io(1)] backed_step [OF t, of s'] by auto
  qed
qed

section \<open>Steps on one handle\<close>

text \<open>Only the list of the handle, its counters and its entry change.\<close>

definition same_fields :: "('w, 'z) pl_scheme \<Rightarrow> ('w, 'z) pl_scheme \<Rightarrow> bool" where
  "same_fields s s' \<longleftrightarrow> ioq_fd s' = ioq_fd s \<and> ioq_kind s' = ioq_kind s \<and> rq_queue s' = rq_queue s \<and> fd_fd s' = fd_fd s"

lemma io_inv_update:
  assumes inv: "io_inv os s hs F ys" and h: "h \<in> set hs" and own: "handle_ok s' h xs"
    and fields: "same_fields s s'" and keep: "keeps os s s'"
    and counts: "\<And>g. g \<noteq> h \<Longrightarrow> fd_read_n s' g = fd_read_n s g \<and> fd_write_n s' g = fd_write_n s g"
    and lists: "\<And>g. g \<in> set hs \<Longrightarrow> g \<noteq> h \<Longrightarrow> dlist (req_links s) h (F h) \<Longrightarrow> dlist (req_links s) g (F g) \<Longrightarrow> dlist (req_links s') g (F g)"
    and regs: "\<And>fd. fd \<noteq> fd_fd s h \<Longrightarrow> registered s' q fd = registered s q fd"
    and data: "\<And>m d. registered s' q (fd_fd s h) = Some (m, d) \<Longrightarrow> d = h"
    and ready: "ready s' q ys" and dist: "distinct (concat (map (F(h := xs)) hs) @ map fst ys)"
  shows "io_inv os s' hs (F(h := xs)) ys"
proof -
  have f: "fd_fd s' = fd_fd s" "ioq_kind s' = ioq_kind s" using fields by (simp_all add: same_fields_def)
  have use: "usable s' (Mem g) \<and> usable s' (Fd (fd_fd s g))" if "g \<in> set hs" for g
    using io_usable [OF inv that] keep by (simp add: keeps_def)
  have other: "handle_ok s' g (F g)" if g: "g \<in> set hs" "g \<noteq> h" for g
  proof -
    have "dlist (req_links s') g (F g)"
      using lists [OF g] io_handle [OF inv] h g(1) by (simp add: handle_ok_def)
    moreover have "fd_fd s g \<noteq> fd_fd s h" using inv h g by (auto simp: io_inv_def inj_on_def)
    with regs have "registered s' q (fd_fd s g) = registered s q (fd_fd s g)" by blast
    moreover have "W (world s') (fd_fd s g) = W (world s) (fd_fd s g)"
      using io_usable [OF inv g(1)] keep by (simp add: keeps_def)
    moreover have "waiting s' m xs = waiting s m xs" "needed s' xs = needed s xs" for m xs
      using f by (simp_all add: waiting_def needed_def)
    ultimately show ?thesis
      using io_handle [OF inv g(1)] fields counts [OF g(2)] by (simp add: handle_ok_def same_fields_def)
  qed
  have "internal s' d \<or> d \<in> set hs \<and> fd = fd_fd s d" if "registered s' q fd = Some (m, d)" for fd m d
    using that regs [of fd] data [of m d] h io_data [OF inv, of fd m d] keep by (cases "fd = fd_fd s h") (auto simp: keeps_def)
  then show ?thesis
    using inv own other use keep ready dist unfolding io_inv_def keeps_def f by simp
qed

text \<open>Starting a request of a handle that can be watched: it joins the handle, whatever the backend answers.\<close>

lemma io_start:
  assumes inv: "io_inv os s hs F ys" and h: "h \<in> set hs" and watch: "W (world s) (fd_fd s h)"
    and req: "ioq_fd s req = h" "rq_queue s req = q" "req \<noteq> NULL"
    and fresh: "req \<notin> set (concat (map F hs))" "req \<notin> fst ` set ys" and room: "fd_read_n s h \<noteq> -1" "fd_write_n s h \<noteq> -1"
  shows "io_inv os (snd (yoi_pl_req_start setmask os req s)) hs (F(h := req # F h)) ys"
proof -
  define s1 where "s1 = count_up h req s"
  have more: "world s1 = world s" "pl.more s1 = pl.more s" by (simp_all add: s1_def)
  have start: "backed os s s1" by (rule backed_own [OF io_sane [OF inv]]) (simp_all add: s1_def)
  note sane1 = backed_sane [OF start]
  obtain c s2 where s2: "setmask os q h (fd_fd s h) (want_mask h s1) s1 = (c, s2)" by fastforce
  note codes = setmask_codes [OF sane1 s2]
  define s4 where "s4 = put_links (yoi_dlist_add h req (req_links s)) (yoi_req_begin req PlCancelCb s2)"
  have fr: "same_requests s1 s2" and other: "\<And>fd. fd \<noteq> fd_fd s h \<Longrightarrow> registered s2 q fd = registered s q fd"
    using setmask_frame [OF sane1 s2] start by (simp_all add: backed_def)
  have keep2: "keeps os s s2"
    using keeps_trans [OF _ keeps_setmask [OF sane1 s2]] start by (simp add: backed_def)
  have sane2: "sane os s2" using keep2 by (simp add: keeps_def)
  have "backed os s2 s4" by (rule backed_own [OF sane2]) (simp_all add: s4_def)
  then have keep: "keeps os s s4" and reg4: "registered s4 q = registered s2 q"
    using keeps_trans [OF keep2] by (simp_all add: backed_def)
  have links: "req_links s2 = req_links s" using fr by (simp add: same_requests_def s1_def)
  have "c \<noteq> YO_EPERM" using codes watch more by simp
  then have run: "snd (yoi_pl_req_start setmask os req s) = s4"
    using s2 req links by (simp add: yoi_pl_req_start_def Let_def s1_def s4_def)
  have fields: "same_fields s s4"
    using fr by (simp add: same_fields_def s4_def s1_def same_requests_def same_queues_def)
  have H: "dlist (req_links s) h (F h)" "\<forall>x \<in> set (F h). ioq_fd s x = h \<and> rq_queue s x = q"
    "unat (fd_read_n s h) = waiting s YOI_PL_READABLE (F h)" "unat (fd_write_n s h) = waiting s YOI_PL_WRITABLE (F h)"
    "registered s q (fd_fd s h) = None \<or> F h \<noteq> [] \<and> registered s q (fd_fd s h) = Some (needed s (F h), h)"
    using io_handle [OF inv h] watch by (simp_all add: handle_ok_def)
  have "req \<notin> set (F h)" using fresh(1) h by auto
  with H(1) req(3) have dl: "dlist (req_links s4) h (req # F h)" by (simp add: s4_def dlist_add)
  note cnt = count_up_room [OF H(3,4) room, where req = req]
  have want: "want_mask h s1 = needed s (req # F h)" unfolding s1_def by (rule want_mask_counts [OF cnt])
  have reg: "registered s4 q (fd_fd s h) = None \<or> registered s4 q (fd_fd s h) = Some (needed s (req # F h), h)"
  proof (cases "c = YO_OK")
    case True
    with s2 have "setmask os q h (fd_fd s h) (want_mask h s1) s1 = (YO_OK, s2)" by simp
    from setmask_sets [OF sane1 this want_mask_bits] show ?thesis
      using needed_zero [of s "req # F h"] by (simp add: want reg4)
  next
    case False
    with codes watch more have "registered s1 q (fd_fd s h) = None" by (cases "registered s1 q (fd_fd s h)") auto
    with setmask_error [OF sane1 s2 False] show ?thesis by (simp add: reg4)
  qed
  have same: "fd_fd s4 = fd_fd s" "ioq_kind s4 = ioq_kind s" "ioq_fd s4 = ioq_fd s" "rq_queue s4 = rq_queue s"
    "fd_read_n s4 = fd_read_n s1" "fd_write_n s4 = fd_write_n s1"
    using fields fr by (simp_all add: same_fields_def s4_def s1_def same_requests_def)
  have need: "waiting s4 m xs = waiting s m xs" "needed s4 xs = needed s xs" for m xs
    by (simp_all add: waiting_def needed_def same)
  have wat: "W (world s4) (fd_fd s h)" using keep io_usable [OF inv h] watch by (simp add: keeps_def)
  have own: "handle_ok s4 h (req # F h)"
    unfolding handle_ok_def need same using dl H(2) req cnt reg wat by (auto simp: s1_def)
  have mset: "mset (concat (map (F(h := req # F h)) hs) @ map fst ys) = mset (req # concat (map F hs) @ map fst ys)"
    using concat_upd [of hs h F "req # F h"] inv h by (simp add: io_inv_def)
  have "io_inv os s4 hs (F(h := req # F h)) ys"
  proof (rule io_inv_update [OF inv h own fields keep])
    show "fd_read_n s4 g = fd_read_n s g \<and> fd_write_n s4 g = fd_write_n s g" if "g \<noteq> h" for g
      using that by (simp add: same s1_def count_other)
    show "dlist (req_links s4) g (F g)"
      if g: "g \<in> set hs" "g \<noteq> h" and d: "dlist (req_links s) h (F h)" "dlist (req_links s) g (F g)" for g
      using dlist_add_other [OF d g(2) _ running_disjoint [OF inv h g]] fresh(1) g(1) by (simp add: s4_def)
    show "registered s4 q fd = registered s q fd" if "fd \<noteq> fd_fd s h" for fd
      using other [OF that] by (simp add: reg4)
    show "d = h" if "registered s4 q (fd_fd s h) = Some (m, d)" for m d
      using that reg by auto
    show "ready s4 q ys"
      using io_ready [OF inv] ready_same [of s s2 q ys] fr fresh(2) ready_begin [of s2 q ys req PlCancelCb]
      by (auto simp: same_requests_def same_queues_def s4_def s1_def ready_def)
    show "distinct (concat (map (F(h := req # F h)) hs) @ map fst ys)"
      using mset_eq_imp_distinct_iff [OF mset] io_distinct [OF inv] fresh by simp
  qed
  with run show ?thesis by simp
qed

text \<open>A request that is served leaves its handle.\<close>

lemma io_stop:
  assumes inv: "io_inv os s hs F ys" and h: "h \<in> set hs" and req: "req \<in> set (F h)"
    and known: "registered s q (fd_fd s h) \<noteq> None"
  shows "io_inv os (snd (yoi_pl_req_stop setmask os req s)) hs (F(h := remove1 req (F h))) ys"
    and "ioq_kind (snd (yoi_pl_req_stop setmask os req s)) = ioq_kind s"
proof -
  have H: "dlist (req_links s) h (F h)" "\<forall>x \<in> set (F h). ioq_fd s x = h \<and> rq_queue s x = q" "W (world s) (fd_fd s h)"
    "unat (fd_read_n s h) = waiting s YOI_PL_READABLE (F h)" "unat (fd_write_n s h) = waiting s YOI_PL_WRITABLE (F h)"
    using io_handle [OF inv h] known by (auto simp: handle_ok_def split: if_splits)
  have rq: "ioq_fd s req = h" "rq_queue s req = q" using H(2) req by auto
  let ?xs = "remove1 req (F h)"
  define s1 where "s1 = count_down h req s"
  define s2 where "s2 = put_links (yoi_dlist_del req (req_links s)) s1"
  have start: "backed os s s2" by (rule backed_own [OF io_sane [OF inv]]) (simp_all add: s1_def s2_def)
  note sane2 = backed_sane [OF start]
  obtain c s4 where s4: "setmask os q h (fd_fd s h) (want_mask h s1) s2 = (c, s4)" by fastforce
  have run: "snd (yoi_pl_req_stop setmask os req s) = s4"
    using s4 rq by (simp add: yoi_pl_req_stop_def Let_def s1_def s2_def)
  have more: "world s2 = world s" by (simp add: s1_def s2_def)
  have ok: "c = YO_OK"
    using setmask_codes [OF sane2 s4] start known H(3) by (simp add: backed_def more)
  have fr: "same_requests s2 s4" and other: "\<And>fd. fd \<noteq> fd_fd s h \<Longrightarrow> registered s4 q fd = registered s q fd"
    using setmask_frame [OF sane2 s4] start by (simp_all add: backed_def)
  have keep: "keeps os s s4" using keeps_trans [OF _ keeps_setmask [OF sane2 s4]] start by (simp add: backed_def)
  have fields: "same_fields s s4"
    using fr by (simp add: same_fields_def s1_def s2_def same_requests_def same_queues_def)
  note cnt = count_down_counts [OF H(4,5) req]
  have want: "want_mask h s1 = needed s ?xs" unfolding s1_def by (rule want_mask_counts [OF cnt])
  have reg: "registered s4 q (fd_fd s h) = (if ?xs = [] then None else Some (needed s ?xs, h))"
    using setmask_sets [OF sane2 s4 [unfolded ok] want_mask_bits] needed_zero [of s ?xs] by (simp add: want)
  have same: "fd_fd s4 = fd_fd s" "ioq_kind s4 = ioq_kind s" "ioq_fd s4 = ioq_fd s" "rq_queue s4 = rq_queue s"
    "fd_read_n s4 = fd_read_n s1" "fd_write_n s4 = fd_write_n s1" "req_links s4 = yoi_dlist_del req (req_links s)"
    using fields fr by (simp_all add: same_fields_def s1_def s2_def same_requests_def)
  have need: "waiting s4 m xs = waiting s m xs" "needed s4 xs = needed s xs" for m xs
    by (simp_all add: waiting_def needed_def same)
  have "W (world s4) (fd_fd s h)" using keep io_usable [OF inv h] H(3) by (simp add: keeps_def)
  moreover have "\<forall>x \<in> set ?xs. ioq_fd s x = h \<and> rq_queue s x = q" using H(2) set_remove1_subset [of req "F h"] by blast
  moreover have "dlist (yoi_dlist_del req (req_links s)) h ?xs" by (rule dlist_del [OF H(1) req])
  ultimately have own: "handle_ok s4 h ?xs"
    unfolding handle_ok_def need same using cnt reg by (simp add: s1_def)
  have mset: "mset (req # concat (map (F(h := ?xs)) hs) @ map fst ys) = mset (concat (map F hs) @ map fst ys)"
    using concat_remove_one [of hs h req F] inv h req by (simp add: io_inv_def)
  have "io_inv os s4 hs (F(h := ?xs)) ys"
  proof (rule io_inv_update [OF inv h own fields keep])
    show "fd_read_n s4 g = fd_read_n s g \<and> fd_write_n s4 g = fd_write_n s g" if "g \<noteq> h" for g
      using that by (simp add: same s1_def count_other)
    show "dlist (req_links s4) g (F g)"
      if g: "g \<in> set hs" "g \<noteq> h" and d: "dlist (req_links s) h (F h)" "dlist (req_links s) g (F g)" for g
      using dlist_del_other [OF d(1) req d(2) g(2) running_disjoint [OF inv h g]] by (simp add: same)
    show "registered s4 q fd = registered s q fd" if "fd \<noteq> fd_fd s h" for fd
      by (rule other [OF that])
    show "d = h" if "registered s4 q (fd_fd s h) = Some (m, d)" for m d
      using that reg by (auto split: if_splits)
    show "ready s4 q ys"
      using io_ready [OF inv] ready_same [of s s4 q ys] fr
      by (simp add: same_requests_def same_queues_def s1_def s2_def)
    show "distinct (concat (map (F(h := ?xs)) hs) @ map fst ys)"
      using mset_eq_imp_distinct_iff [OF mset] io_distinct [OF inv] by simp
  qed
  with run show "io_inv os (snd (yoi_pl_req_stop setmask os req s)) hs (F(h := ?xs)) ys" by simp
  show "ioq_kind (snd (yoi_pl_req_stop setmask os req s)) = ioq_kind s" by (simp add: run same)
qed

text \<open>Performing the operation of a request, unless it makes a handle.\<close>

lemma io_do:
  assumes inv: "io_inv os s hs F ys" and kind: "ioq_kind s req \<noteq> YOI_PL_ACCEPT"
  shows "io_inv os (snd (yoi_pl_req_do os req s)) hs F ys"
proof -
  have call: "io_inv os (after os k s) hs F ys"
    if "k \<in> {CRead fd n, CWrite fd bs, CPread fd n o1, CPwrite fd bs o1}" for k fd n bs o1
    using that by (intro io_call [OF inv]) (auto simp: io_call_def)
  note calls = call [of "CRead _ _"] call [of "CWrite _ _"] call [of "CPread _ _ _"] call [of "CPwrite _ _ _"]
  show ?thesis
    using kind
    by (cases "ioq_kind s req")
       (simp_all add: yoi_pl_req_do_def yo_read_def yo_write_def yo_file_read_def yo_file_write_def sys_simps Let_def
         return_errno_def calls io_store)
qed

text \<open>Finishing a request that is nowhere yet.\<close>

lemma io_end:
  assumes inv: "io_inv os s hs F ys" and req: "rq_queue s req = q" "req \<noteq> NULL"
    and fresh: "req \<notin> set (concat (map F hs))" "req \<notin> fst ` set ys" and c: "ioq_kind s req = YOI_PL_ACCEPT \<Longrightarrow> c \<noteq> YO_OK"
  shows "io_inv os (yoi_req_end os (pl_notify os) req c s) hs F ((req, c) # ys)"
proof (rule io_inv_cong [OF inv end_same_io])
  show "backed os s (yoi_req_end os (pl_notify os) req c s)"
    by (intro end_backed backed_own [OF io_sane [OF inv]]) simp_all
  show "ready (yoi_req_end os (pl_notify os) req c s) q ((req, c) # ys)"
    using pln.end_ready [of s req ys os c] req fresh(2) io_ready [OF inv] by simp
  show "\<forall>y \<in> set ((req, c) # ys). ioq_kind s (fst y) = YOI_PL_ACCEPT \<longrightarrow> snd y \<noteq> YO_OK"
    using c inv by (simp add: io_inv_def)
  show "distinct (concat (map F hs) @ map fst ((req, c) # ys))"
    using io_distinct [OF inv] fresh by simp
qed

lemma do_kind: "ioq_kind s req \<noteq> YOI_PL_ACCEPT \<Longrightarrow> ioq_kind (snd (yoi_pl_req_do os req s)) = ioq_kind s"
  by (cases "ioq_kind s req")
     (simp_all add: yoi_pl_req_do_def yo_read_def yo_write_def yo_file_read_def yo_file_write_def
      sys_simps Let_def return_errno_def mem_defs)

text \<open>Starting a request of a handle that cannot be watched: it is served at once.\<close>

lemma io_start_sync:
  assumes inv: "io_inv os s hs F ys" and h: "h \<in> set hs" and watch: "\<not> W (world s) (fd_fd s h)"
    and req: "ioq_fd s req = h" "rq_queue s req = q" "req \<noteq> NULL" "ioq_kind s req \<noteq> YOI_PL_ACCEPT"
    and fresh: "req \<notin> set (concat (map F hs))" "req \<notin> fst ` set ys" and room: "fd_read_n s h \<noteq> -1" "fd_write_n s h \<noteq> -1"
  shows "\<exists>code s'. yoi_pl_req_start setmask os req s = (YO_OK, s') \<and> io_inv os s' hs F ((req, code) # ys)"
proof -
  define s1 where "s1 = count_up h req s"
  have start: "backed os s s1" by (rule backed_own [OF io_sane [OF inv]]) (simp_all add: s1_def)
  note sane1 = backed_sane [OF start]
  obtain c s2 where s2: "setmask os q h (fd_fd s h) (want_mask h s1) s1 = (c, s2)" by fastforce
  have "c = YO_EPERM" using setmask_codes [OF sane1 s2] watch want_mask_up [OF room] by (simp add: s1_def)
  define s3 where "s3 = yoi_req_begin req PlCancelCb s2"
  have fr: "same_requests s1 s2" using setmask_frame [OF sane1 s2] by blast
  have keep2: "keeps os s s2" using keeps_trans [OF _ keeps_setmask [OF sane1 s2]] start by (simp add: backed_def)
  then have "backed os s2 s3" by (intro backed_own) (simp_all add: s3_def keeps_def)
  then have keep: "keeps os s s3" and reg: "registered s3 q = registered s q"
    using keeps_trans [OF keep2] setmask_error [OF sane1 s2] \<open>c = YO_EPERM\<close> start by (simp_all add: backed_def)
  have same: "fd_fd s3 = fd_fd s" "ioq_kind s3 = ioq_kind s" "ioq_fd s3 = ioq_fd s" "rq_queue s3 = rq_queue s"
    "fd_read_n s3 = fd_read_n s1" "fd_write_n s3 = fd_write_n s1" "req_links s3 = req_links s"
    using fr by (simp_all add: s3_def s1_def same_requests_def same_queues_def)
  have H: "dlist (req_links s) h (F h)" "F h = []" "registered s q (fd_fd s h) = None"
    using io_handle [OF inv h] watch by (auto simp: handle_ok_def)
  have "\<not> W (world s3) (fd_fd s h)" using keep io_usable [OF inv h] watch by (simp add: keeps_def)
  with H have own: "handle_ok s3 h (F h)" by (simp add: handle_ok_def same reg)
  have "io_inv os s3 hs (F(h := F h)) ys"
  proof (rule io_inv_update [OF inv h own _ keep])
    show "same_fields s s3" by (simp add: same_fields_def same)
    show "fd_read_n s3 g = fd_read_n s g \<and> fd_write_n s3 g = fd_write_n s g" if "g \<noteq> h" for g
      using that by (simp add: same s1_def count_other)
    show "d = h" if "registered s3 q (fd_fd s h) = Some (m, d)" for m d
      using that H(3) by (simp add: reg)
    show "ready s3 q ys"
      using io_ready [OF inv] ready_same [of s s2 q ys] fr fresh(2) ready_begin [of s2 q ys req PlCancelCb]
      by (auto simp: same_requests_def same_queues_def s3_def s1_def ready_def)
    show "distinct (concat (map (F(h := F h)) hs) @ map fst ys)" using io_distinct [OF inv] by simp
  qed (simp_all add: same reg)
  then have inv3: "io_inv os s3 hs F ys" by simp
  obtain code s4 where s4: "yoi_pl_req_do os req s3 = (code, s4)" by fastforce
  have k: "ioq_kind s3 req \<noteq> YOI_PL_ACCEPT" using req(4) by (simp add: same)
  have "same_queues s3 s4" using req_do_queues [of s3 os req] s4 by simp
  then have "rq_queue s4 req = q" using req(2) by (simp add: same_queues_def same)
  with io_end [of os s4 hs F ys req code] io_do [OF inv3 k] do_kind [OF k, of os] s4 req(3) k fresh
  have "io_inv os (yoi_req_end os (pl_notify os) req code s4) hs F ((req, code) # ys)" by simp
  moreover have "yoi_pl_req_start setmask os req s = (YO_OK, yoi_req_end os (pl_notify os) req code s4)"
    using s2 req s4 \<open>c = YO_EPERM\<close> by (simp add: yoi_pl_req_start_def Let_def s3_def s1_def)
  ultimately show ?thesis by blast
qed

section \<open>New handles\<close>

text \<open>A handle that is made on a descriptor that is in use by nobody else.\<close>

lemma io_adopt:
  assumes inv: "io_inv os s hs F ys" and h: "h \<notin> set hs" "h \<noteq> NULL" "usable s (Mem h)"
    and f: "usable s (Fd f)" "registered s q f = None" "f \<notin> fd_fd s ` set hs"
    and upd: "s' = yoi_unix_mkfd h f s"
  shows "io_inv os s' (h # hs) (F(h := [])) ys"
proof -
  have own: "world s' = world s" "pl.more s' = pl.more s" by (simp_all add: upd yoi_unix_mkfd_def yoi_fd_ioq_init_def)
  from backed_own [OF io_sane [OF inv] this] have bk: "sane os s'" "registered s' q = registered s q" "internal s' = internal s"
    "\<And>x. usable s x \<Longrightarrow> usable s' x" by (simp_all add: backed_def keeps_def)
  have same: "ioq_fd s' = ioq_fd s" "ioq_kind s' = ioq_kind s" "rq_queue s' = rq_queue s" "fd_fd s' = (fd_fd s)(h := f)"
    "fd_read_n s' = (fd_read_n s)(h := 0)" "fd_write_n s' = (fd_write_n s)(h := 0)"
    "req_links s' = (req_links s)\<lparr>l_head := (fd_head s)(h := NULL)\<rparr>"
    by (simp_all add: upd yoi_unix_mkfd_def yoi_fd_ioq_init_def req_links_def)
  have "dlist (req_links s') h []" by (simp add: same dlist_def)
  then have new: "handle_ok s' h []" using f(2) by (simp add: handle_ok_def same bk(2) waiting_def)
  have old: "handle_ok s' g (F g)" if g: "g \<in> set hs" for g
  proof -
    have "g \<noteq> h" using g h by auto
    then have "dlist (req_links s') g (F g) = dlist (req_links s) g (F g)"
      unfolding same dlist_def by (simp add: req_links_def)
    moreover have "waiting s' m xs = waiting s m xs" "needed s' xs = needed s xs" for m xs
      by (simp_all add: waiting_def needed_def same)
    ultimately show ?thesis using io_handle [OF inv g] \<open>g \<noteq> h\<close> by (simp add: handle_ok_def same bk(2) own(1))
  qed
  have "map (F(h := [])) hs = map F hs" using h(1) by (intro map_cong) auto
  moreover have "inj_on (fd_fd s') (set (h # hs))"
  proof -
    have "fd_fd s' ` set hs = fd_fd s ` set hs" "inj_on (fd_fd s') (set hs) = inj_on (fd_fd s) (set hs)"
      using h(1) by (auto simp: same intro!: inj_on_cong)
    then show ?thesis using inv f(3) h(1) by (simp add: io_inv_def same insert_Diff_if)
  qed
  moreover have "ready s' q ys"
    using io_ready [OF inv] by (simp add: ready_def upd yoi_unix_mkfd_def yoi_fd_ioq_init_def)
  moreover have "internal s' d \<or> d \<in> set (h # hs) \<and> fd = fd_fd s' d" if "registered s' q fd = Some (m, d)" for fd m d
    using that io_data [OF inv, of fd m d] h(1) by (auto simp: bk same)
  moreover have "usable s' (Mem g) \<and> usable s' (Fd (fd_fd s' g)) \<and> handle_ok s' g ((F(h := [])) g)" if "g \<in> set (h # hs)" for g
    using that new old bk(4) io_usable [OF inv] h f by (cases "g = h") (auto simp: same)
  ultimately show ?thesis using inv h bk(1) unfolding io_inv_def by (simp add: same)
qed

text \<open>The memory for it.\<close>

lemma io_malloc:
  assumes inv: "io_inv os s hs F ys" and p: "ptr (reply_of os (CMalloc n) s) \<noteq> NULL"
  shows "io_inv os (after os (CMalloc n) s) hs F ys" and "usable (after os (CMalloc n) s) (Mem (ptr (reply_of os (CMalloc n) s)))"
    and "ptr (reply_of os (CMalloc n) s) \<notin> set hs"
proof -
  show "io_inv os (after os (CMalloc n) s) hs F ys" by (rule io_call [OF inv]) (simp_all add: io_call_def)
  have taken: "Mem (ptr (reply_of os (CMalloc n) s)) \<in> set (acquires (CMalloc n, reply_of os (CMalloc n) s))" using p by simp
  note new = acquired [OF io_sane [OF inv] _ _ taken]
  show "usable (after os (CMalloc n) s) (Mem (ptr (reply_of os (CMalloc n) s)))" by (rule new(1)) (simp_all add: io_call_def)
  have "\<not> usable s (Mem (ptr (reply_of os (CMalloc n) s)))" by (rule new(2)) (simp_all add: io_call_def)
  then show "ptr (reply_of os (CMalloc n) s) \<notin> set hs" using io_usable [OF inv] by blast
qed

text \<open>Giving a block of the client's back.\<close>

lemma io_free:
  assumes inv: "io_inv os s hs F ys" and p: "\<not> reserved s (Mem p)" "p \<notin> set hs"
  shows "io_inv os (after os (CFree p) s) hs F ys"
proof -
  have io: "io_call (CFree p)" by (simp add: io_call_def)
  note res = resource_call [OF resources [OF io_sane [OF inv]] io, where s = s]
  have rel: "x \<in> set (releases (CFree p, r)) \<Longrightarrow> x = Mem p" for x r by (auto split: if_splits)
  have mine: "\<not> reserved s x \<and> (\<forall>fd. x = Fd fd \<longrightarrow> registered s q fd = None)"
    if "x \<in> set (releases (CFree p, reply_of os (CFree p) s))" for x
    using rel [OF that] p(1) by simp
  have eff: "sane os (after os (CFree p) s) \<and> registered (after os (CFree p) s) q = registered s q"
    using call_keeps [where k = "CFree p", OF io_sane [OF inv] _ mine] by (simp add: io_call_def)
  have own: "reserved (after os (CFree p) s) = reserved s" "internal (after os (CFree p) s) = internal s"
    using own_parts [of "after os (CFree p) s" s] by simp_all
  have use: "usable (after os (CFree p) s) x" if "usable s x" "x \<noteq> Mem p" for x
  proof -
    have "x \<notin> set (releases (CFree p, reply_of os (CFree p) s))" using rel that(2) by blast
    with res(1) [of x] that(1) show ?thesis by (simp add: usable_def own)
  qed
  have watch: "W (world (after os (CFree p) s)) fd = W (world s) fd" for fd
    using res(4) [of fd] by simp
  have same: "same_io s (after os (CFree p) s)" by (rule same_io_after)
  have "usable (after os (CFree p) s) (Mem h) \<and> usable (after os (CFree p) s) (Fd (fd_fd s h)) \<and> handle_ok (after os (CFree p) s) h (F h)"
    if h: "h \<in> set hs" for h
    using use io_usable [OF inv h] h p(2) handle_cong [OF same] eff watch io_handle [OF inv h] by auto
  then show ?thesis
    using inv eff own io_data [OF inv] unfolding io_inv_def by simp
qed

text \<open>Accepting a connection: the new handle belongs to the client.\<close>

lemma io_accept:
  assumes inv: "io_inv os s hs F ys" and run: "yo_socket_accept os h pres pa pp s = (c, s')"
  shows "if c = YO_OK then m_ptr s' pres \<notin> set hs \<and> io_inv os s' (m_ptr s' pres # hs) (F(m_ptr s' pres := [])) ys
     else io_inv os s' hs F ys"
proof -
  let ?m = "CMalloc sizeof_yo_fd" let ?p = "ptr (reply_of os ?m s)" let ?s1 = "after os ?m s"
  let ?k = "CAccept (fd_fd s h)" let ?r = "reply_of os ?k ?s1" let ?s2 = "after os ?k ?s1"
  show ?thesis
  proof (cases "?p = NULL")
    case True
    have "io_inv os ?s1 hs F ys" by (rule io_call [OF inv]) (simp_all add: io_call_def)
    with True run show ?thesis by (auto simp: yo_socket_accept_def sys_simps)
  next
    case nn: False
    note m = io_malloc [OF inv nn]
    have inv2: "io_inv os ?s2 hs F ys" by (rule io_call [OF m(1)]) (simp_all add: io_call_def)
    have p2: "usable ?s2 (Mem ?p)"
      using backed_call [OF io_sane [OF m(1)], of ?k] m(2) by (simp add: backed_def keeps_def io_call_def)
    show ?thesis
    proof (cases "ret ?r < 0")
      case True
      have e: "0 < errno ?s2" by (rule errno_after_failure [OF posix [OF io_sane [OF inv]]]) (simp add: fails_def True)
      have "yoi_unix_conv_errno (errno (after os (CFree ?p) ?s2)) \<noteq> YO_OK"
        by (rule conv_positive [OF errno_after_any [OF posix [OF io_sane [OF inv]] e]])
      moreover have "\<not> reserved ?s2 (Mem ?p)" using p2 by (simp add: usable_def)
      then have "io_inv os (after os (CFree ?p) ?s2) hs F ys" by (rule io_free [OF inv2 _ m(3)])
      ultimately show ?thesis using True nn run by (auto simp: yo_socket_accept_def syscall_eq malloc_eq free_eq return_errno_def Let_def)
    next
      case False
      let ?f = "ret ?r"
      have taken: "Fd ?f \<in> set (acquires (?k, ?r))" using False by simp
      note new = acquired [OF io_sane [OF m(1)] _ _ taken]
      have f2: "usable ?s2 (Fd ?f)" by (rule new(1)) (simp_all add: io_call_def)
      have "\<not> usable ?s1 (Fd ?f)" by (rule new(2)) (simp_all add: io_call_def)
      then have other: "?f \<notin> fd_fd ?s2 ` set hs" using io_usable [OF m(1)] by auto
      have eff: "registered ?s2 q = registered ?s1 q"
        "registered ?s1 q ?f = Some (a, d) \<Longrightarrow> \<not> internal ?s1 d" for a d
        using call_keeps [OF io_sane [OF m(1)], of ?k] taken by (auto simp: io_call_def)
      have unreg: "registered ?s2 q ?f = None"
      proof (cases "registered ?s1 q ?f")
        case (Some x)
        obtain a d where "x = (a, d)" by fastforce
        with Some eff(2) io_data [OF m(1), of ?f a d] other show ?thesis by auto
      qed (simp add: eff)
      obtain a port where conv: "yoi_unix_conv_sockaddr (hd (r_socks ?r)) = (a, port)" by fastforce
      let ?s3 = "?s2\<lparr>m_addr := (m_addr ?s2)(pa := a), m_u16 := (m_u16 ?s2)(pp := port)\<rparr>"
      let ?s4 = "yoi_unix_mkfd ?p ?f ?s3"
      have out: "c = YO_OK" "s' = set_ptr pres ?p ?s4"
        using run nn False conv by (auto simp: yo_socket_accept_def sys_simps Let_def)
      have inv3: "io_inv os ?s3 hs F ys"
        by (rule io_inv_same [OF inv2 _ backed_own [OF io_sane [OF inv2]]])
           (simp_all add: same_requests_def same_queues_def req_links_def)
      have "backed os ?s2 ?s3" by (rule backed_own [OF io_sane [OF inv2]]) simp_all
      then have s3: "usable ?s3 (Mem ?p)" "usable ?s3 (Fd ?f)" "registered ?s3 q ?f = None"
        using p2 f2 unreg by (simp_all add: backed_def keeps_def)
      have "io_inv os ?s4 (?p # hs) (F(?p := [])) ys"
        by (rule io_adopt [OF inv3 m(3) nn s3 _ refl]) (use other in simp)
      then have "io_inv os s' (?p # hs) (F(?p := [])) ys" unfolding out by (rule io_store)
      then show ?thesis using m(3) by (simp add: out set_ptr_def)
    qed
  qed
qed

section \<open>Delivering\<close>

lemma pending_distinct:
  assumes "io_inv os s hs F ys"
  shows "count (pending hs F ys) x \<le> 1"
proof -
  have "pending hs F ys = mset (concat (map F hs) @ map fst ys)" by (simp add: pending_def)
  then show ?thesis
    using distinct_count_atmost_1 [THEN iffD1, OF io_distinct [OF assms], rule_format, of x] by simp
qed

lemma pending_upd:
  assumes "io_inv os s hs F ys" and "h \<in> set hs"
  shows "pending hs (F(h := xs)) ys + mset (F h) = pending hs F ys + mset xs"
  using concat_upd [of hs h F xs] assms by (simp add: pending_def io_inv_def ac_simps)

lemma pending_new: "h \<notin> set hs \<Longrightarrow> pending (h # hs) (F(h := [])) ys = pending hs F ys"
  using map_cong [of hs hs "F(h := [])" F] by (auto simp: pending_def)

text \<open>One delivery takes one request away, and may bring a handle; everything else leaves running and ready requests alone.\<close>

definition delivered ::
  "'w os \<Rightarrow> addr list \<Rightarrow> addr \<Rightarrow> addr \<Rightarrow> (addr \<Rightarrow> addr list) \<Rightarrow> (addr \<times> yo_code) list \<Rightarrow> yo_code \<Rightarrow> ('w, 'z) pl_scheme \<Rightarrow> bool" where
  "delivered os hs preq pcode F ys c s' \<longleftrightarrow>
     (if c = YO_OK
      then ioq_pclient s' (m_ptr s' preq) \<noteq> preq \<longrightarrow>
        (\<exists>F' ys'. let hs' = accepted s' (m_ptr s' preq) pcode @ hs in
            io_inv os s' hs' F' ys' \<and> pending hs F ys = add_mset (m_ptr s' preq) (pending hs' F' ys'))
      else io_inv os s' hs F ys)"

lemma serve_event:
  assumes inv: "io_inv os s hs F []" and h: "h \<in> set hs" and req: "req \<in> set (F h)" and known: "registered s q (fd_fd s h) \<noteq> None"
    and s1: "yoi_pl_req_stop setmask os req s = (c, s1)" and s2: "yoi_pl_req_do os req s1 = (code, s2)"
  shows "delivered os hs preq pcode F [] YO_OK (set_ptr preq req (s2\<lparr>m_code := (m_code s2)(pcode := code)\<rparr>))"
proof -
  let ?F = "F(h := remove1 req (F h))" let ?s' = "set_ptr preq req (s2\<lparr>m_code := (m_code s2)(pcode := code)\<rparr>)"
  have inv1: "io_inv os s1 hs ?F []" using io_stop(1) [OF inv h req known] s1 by simp
  have pend: "pending hs F [] = add_mset req (pending hs ?F [])"
    using concat_remove_one [of hs h req F] inv h req by (simp add: pending_def io_inv_def)
  have fields: "m_ptr ?s' preq = req" "ioq_kind ?s' = ioq_kind s2" "m_code ?s' pcode = code" "ioq_pclient ?s' = ioq_pclient s2"
    by (simp_all add: set_ptr_def)
  show ?thesis
  proof (cases "ioq_kind s1 req = YOI_PL_ACCEPT")
    case False
    have "io_inv os s2 hs ?F []" using io_do [OF inv1 False] s2 by simp
    then have "io_inv os ?s' hs ?F []" by (intro io_store)
    moreover have "ioq_kind s2 req \<noteq> YOI_PL_ACCEPT" using do_kind [OF False, of os] s2 False by simp
    ultimately have "io_inv os ?s' (accepted ?s' req pcode @ hs) ?F []
        \<and> pending hs F [] = add_mset req (pending (accepted ?s' req pcode @ hs) ?F [])"
      using pend by (simp add: accepted_def fields)
    then show ?thesis by (force simp: delivered_def fields Let_def)
  next
    case True
    let ?p = "ioq_pclient s1 req" let ?g = "m_ptr s2 ?p"
    have run: "yo_socket_accept os (ioq_fd s1 req) ?p (ioq_paddr s1 req) (ioq_pport s1 req) s1 = (code, s2)"
      using s2 True by (simp add: yoi_pl_req_do_def)
    have kind: "ioq_kind s2 req = YOI_PL_ACCEPT" "ioq_pclient s2 = ioq_pclient s1"
      using accept_fields [of os "ioq_fd s1 req" ?p "ioq_paddr s1 req" "ioq_pport s1 req" s1] run True by simp_all
    note acc = io_accept [OF inv1 run]
    show ?thesis
    proof (cases "code = YO_OK")
      case False
      then have "io_inv os s2 hs ?F []" using acc by simp
      then have "io_inv os ?s' hs ?F []" by (intro io_store)
      with False pend have "io_inv os ?s' (accepted ?s' req pcode @ hs) ?F []
          \<and> pending hs F [] = add_mset req (pending (accepted ?s' req pcode @ hs) ?F [])"
        by (simp add: accepted_def fields)
      then show ?thesis by (force simp: delivered_def fields Let_def)
    next
      case ok: True
      with acc have g: "?g \<notin> set hs" "io_inv os s2 (?g # hs) (?F(?g := [])) []" by simp_all
      then have inv': "io_inv os ?s' (?g # hs) (?F(?g := [])) []" by (intro io_store)
      have "accepted ?s' req pcode = [?g]" if "?p \<noteq> preq"
        using that unfolding accepted_def fields kind by (simp add: ok set_ptr_def)
      moreover have "pending (?g # hs) (?F(?g := [])) [] = pending hs ?F []" by (rule pending_new [OF g(1)])
      ultimately have "?p \<noteq> preq \<longrightarrow> io_inv os ?s' (accepted ?s' req pcode @ hs) (?F(?g := [])) []
          \<and> pending hs F [] = add_mset req (pending (accepted ?s' req pcode @ hs) (?F(?g := [])) [])"
        using inv' pend by simp
      then show ?thesis by (auto simp: delivered_def fields kind Let_def)
    qed
  qed
qed

text \<open>Emptying the pipe.\<close>

lemma drain_keeps:
  assumes inv: "io_inv os s hs F ys" and run: "drain_pipe os fd s = Some s'"
  shows "io_inv os s' hs F ys"
proof -
  have "os' = os \<longrightarrow> io_inv os s hs F ys \<longrightarrow> io_inv os s' hs F ys" if "drain_pipe os' fd s = Some s'"
    for os' and s s' :: "('w, 'z) pl_scheme"
    by (rule drain_pipe.raw_induct [OF _ that, where P = "\<lambda>os' fd s s'. os' = os \<longrightarrow> io_inv os s hs F ys \<longrightarrow> io_inv os s' hs F ys"])
       (auto simp: sys_simps Let_def io_call io_call_def split: if_splits)
  with run inv show ?thesis by blast
qed

lemma round_keeps:
  assumes inv: "io_inv os s hs F ys" and run: "poll_round setmask wait os q deadline preq pcode s = Some r"
  shows "case r of Inr s' \<Rightarrow> io_inv os s' hs F ys | Inl (c, s') \<Rightarrow> delivered os hs preq pcode F ys c s'"
proof (cases ys)
  case (Cons y zs)
  obtain x c where y: "y = (x, c)" by fastforce
  with pop_ready_list [of s q x c zs os pcode] io_ready [OF inv] Cons
  obtain s1 where s1: "yoi_queue_pop os q pcode s = Some (x, s1)" "ready s1 q zs" "m_code s1 pcode = c" by auto
  have "x \<noteq> NULL" using io_ready [OF inv] Cons y by (auto simp: ready_def)
  then have r: "r = Inl (YO_OK, set_ptr preq x s1)" using run s1(1) by (simp add: poll_round_def)
  have keep: "same_io s s1" "backed os s s1" using pop_keeps [OF io_sane [OF inv] s1(1)] by simp_all
  have inv1: "io_inv os s1 hs F zs"
    by (rule io_inv_cong [OF inv keep s1(2)]) (use inv io_distinct [OF inv] Cons in \<open>auto simp: io_inv_def\<close>)
  have "accepted (set_ptr preq x s1) x pcode = []"
    using inv Cons y keep(1) s1(3) by (auto simp: accepted_def io_inv_def same_io_def set_ptr_def)
  moreover have "io_inv os (set_ptr preq x s1) hs F zs" using inv1 by (rule io_store)
  moreover have "pending hs F ys = add_mset x (pending hs F zs)" by (simp add: pending_def Cons y)
  moreover have "m_ptr (set_ptr preq x s1) preq = x" by (simp add: set_ptr_def)
  ultimately have "delivered os hs preq pcode F ys YO_OK (set_ptr preq x s1)"
    unfolding delivered_def by (force simp: Let_def)
  then show ?thesis by (simp add: r)
next
  case Nil
  with pop_ready_empty [of s q os pcode] io_ready [OF inv]
  obtain s1 where s1: "yoi_queue_pop os q pcode s = Some (NULL, s1)" "ready s1 q []" by auto
  have keep: "same_io s s1" "backed os s s1" using pop_keeps [OF io_sane [OF inv] s1(1)] by simp_all
  have inv1: "io_inv os s1 hs F []"
    by (rule io_inv_cong [OF inv keep s1(2)]) (use io_distinct [OF inv] Nil in simp_all)
  obtain err h evn s2 where poll: "wait os q deadline s1 = Some (err, h, evn, s2)"
    using run s1(1) by (cases "wait os q deadline s1") (auto simp: poll_round_def)
  note w = wait_keeps [OF io_sane [OF inv1] poll]
  have "backed os s1 s2" using w by (auto simp: backed_def keeps_def usable_def)
  then have inv2: "io_inv os s2 hs F []" using io_inv_same [OF inv1] w by blast
  consider (error) "err \<noteq> YO_OK" | (pipe) "err = YO_OK" "h = NULL" | (event) "err = YO_OK" "h \<noteq> NULL" by blast
  then show ?thesis
  proof cases
    case error
    with run s1 poll inv2 Nil show ?thesis by (auto simp: poll_round_def delivered_def)
  next
    case pipe
    with run s1 poll obtain s3 where "drain_pipe os (notify_read s2 q) s2 = Some s3" "r = Inr s3"
      by (cases "drain_pipe os (notify_read s2 q) s2") (auto simp: poll_round_def)
    with drain_keeps [OF inv2] Nil show ?thesis by auto
  next
    case event
    with w obtain fd m where reg: "registered s1 q fd = Some (m, h)" "\<not> internal s1 h" by blast
    with io_data [OF inv1 reg(1)] have h: "h \<in> set hs" "fd = fd_fd s1 h" by simp_all
    have f: "fd_fd s2 = fd_fd s1" "registered s2 q = registered s1 q" using w by (auto simp: same_requests_def)
    have dl: "dlist (req_links s2) h (F h)" using io_handle [OF inv2 h(1)] by (simp add: handle_ok_def)
    show ?thesis
    proof (cases "find (\<lambda>x. yoi_pl_tomask (ioq_kind s2 x) AND evn \<noteq> 0) (F h)")
      case None
      with run s1 poll event get_req_dlist [OF dl, of evn] have "r = Inr s2" by (simp add: poll_round_def)
      with inv2 Nil show ?thesis by simp
    next
      case (Some req)
      then have mem: "req \<in> set (F h)" by (auto simp: find_Some_iff)
      then have "req \<noteq> NULL" using dlist_nonnull [OF dl] by auto
      moreover obtain c s3 code s4 where s: "yoi_pl_req_stop setmask os req s2 = (c, s3)" "yoi_pl_req_do os req s3 = (code, s4)"
        by fastforce
      ultimately have "r = Inl (YO_OK, set_ptr preq req (s4\<lparr>m_code := (m_code s4)(pcode := code)\<rparr>))"
        using run s1 poll event get_req_dlist [OF dl, of evn] Some by (simp add: poll_round_def Let_def)
      moreover have "registered s2 q (fd_fd s2 h) \<noteq> None" using reg(1) h(2) by (simp add: f)
      ultimately show ?thesis using serve_event [OF inv2 h(1) mem _ s] Nil by simp
    qed
  qed
qed

lemma queue_poll_keeps:
  assumes inv: "io_inv os s hs F ys" and run: "yo_queue_poll setmask wait os q deadline preq pcode s = Some (c, s')"
  shows "delivered os hs preq pcode F ys c s'"
proof -
  let ?round = "poll_round setmask wait os q deadline preq pcode"
  let ?P = "\<lambda>f (s :: ('w, 'z) pl_scheme) (x :: yo_code \<times> ('w, 'z) pl_scheme). f = ?round \<longrightarrow> io_inv os s hs F ys \<longrightarrow> delivered os hs preq pcode F ys (fst x) (snd x)"
  have step: "?P f s x" if IH: "\<And>s x. rep f s = Some x \<Longrightarrow> ?P f s x"
    and body: "(f s \<bind> (\<lambda>r. case r of Inl res \<Rightarrow> Some res | Inr t \<Rightarrow> rep f t)) = Some x" for rep f x s
  proof (intro impI)
    assume f: "f = ?round" and inv: "io_inv os s hs F ys"
    from body obtain r where r: "f s = Some r" "(case r of Inl res \<Rightarrow> Some res | Inr t \<Rightarrow> rep f t) = Some x"
      by (auto simp: bind_eq_Some_conv)
    from round_keeps [OF inv] r f IH show "delivered os hs preq pcode F ys (fst x) (snd x)"
      by (cases r) (fastforce simp: split_beta)+
  qed
  have "?P f s x" if "repeat_rounds f s = Some x" for f x and s :: "('w, 'z) pl_scheme"
    using repeat_rounds.raw_induct [OF _ that, of ?P] step by blast
  with run inv show ?thesis by (fastforce simp: yo_queue_poll_def)
qed

section \<open>Closing a handle\<close>

lemma close_requests_effect:
  assumes "sane os s" and "W (world s) (fd_fd s h)" and "usable s (Fd (fd_fd s h))" and "chain (ioq_next s) p xs"
    and "\<forall>x \<in> set xs. rq_queue s x = q" and "close_requests setmask os h p s = Some s'"
  shows "same_io s s' \<and> keeps os s s' \<and> (\<forall>g. registered s' q g = (if g = fd_fd s h \<and> xs \<noteq> [] then None else registered s q g))"
  using assms
proof (induction xs arbitrary: s p)
  case Nil
  then show ?case by (simp add: close_requests.simps same_io_refl keeps_def)
next
  case (Cons x xs)
  let ?fd = "fd_fd s h"
  have p: "p = x" "p \<noteq> NULL" "chain (ioq_next s) (ioq_next s x) xs" "rq_queue s x = q" using Cons.prems(4,5) by auto
  obtain c s1 where s1: "setmask os q NULL ?fd 0 s = (c, s1)" by fastforce
  define s2 where "s2 = yoi_req_end os (pl_notify os) x YO_ECANCELED s1"
  have keep1: "keeps os s s1" by (rule keeps_setmask [OF Cons.prems(1) s1])
  have "backed os s1 s1" by (rule backed_own) (use keep1 in \<open>simp_all add: keeps_def\<close>)
  from end_backed [OF this] have end1: "backed os s1 s2" by (simp add: s2_def)
  have keep2: "keeps os s s2" using keeps_trans [OF keep1] end1 by (simp add: backed_def)
  have "same_io s s1" using setmask_frame [OF Cons.prems(1) s1] same_requests_io by blast
  then have same2: "same_io s s2" unfolding s2_def by (rule same_io_trans [OF _ end_same_io])
  have "registered s1 q ?fd = None"
  proof (cases "c = YO_OK")
    case True
    with setmask_sets [OF Cons.prems(1), of q NULL ?fd 0 s1] s1 show ?thesis by simp
  next
    case False
    with setmask_codes [OF Cons.prems(1) s1] Cons.prems(2) have "registered s q ?fd = None" by blast
    with setmask_error [OF Cons.prems(1) s1 False] show ?thesis by simp
  qed
  then have reg2: "registered s2 q g = (if g = ?fd then None else registered s q g)" for g
    using setmask_frame [OF Cons.prems(1) s1, of g] end1 by (simp add: backed_def)
  have eq: "ioq_next s2 = ioq_next s" "rq_queue s2 = rq_queue s" "fd_fd s2 = fd_fd s"
    using same2 by (simp_all add: same_io_def req_links_def)
  have rest: "close_requests setmask os h (ioq_next s x) s2 = Some s'"
    using Cons.prems(6) p s1 eq(1) by (subst (asm) close_requests.simps) (simp add: Let_def s2_def)
  have "same_io s2 s' \<and> keeps os s2 s' \<and> (\<forall>g. registered s' q g = (if g = fd_fd s2 h \<and> xs \<noteq> [] then None else registered s2 q g))"
    by (rule Cons.IH [OF _ _ _ _ _ rest])
       (use keep2 Cons.prems(2,3,5) p(3) in \<open>simp_all add: keeps_def eq\<close>)
  then show ?case using same_io_trans [OF same2] keeps_trans [OF keep2] reg2 by (simp add: eq)
qed

text \<open>What closing the descriptor leaves alone, however often it is tried.\<close>

definition closes :: "'w os \<Rightarrow> int \<Rightarrow> ('w, 'z) pl_scheme \<Rightarrow> ('w, 'z) pl_scheme \<Rightarrow> bool" where
  "closes os fd s s' \<longleftrightarrow> sane os s' \<and> registered s' q = registered s q \<and> same_requests s s' \<and> pl.more s' = pl.more s
     \<and> (\<forall>x. x \<in> U (world s) \<and> x \<noteq> Fd fd \<longrightarrow> x \<in> U (world s')) \<and> (\<forall>g. g \<noteq> fd \<longrightarrow> W (world s') g = W (world s) g)"

lemma closes_once:
  assumes "sane os s" and "registered s q fd = None" and "\<not> reserved s (Fd fd)"
  shows "closes os fd s (after os (CClose fd) s)"
proof -
  have io: "io_call (CClose fd)" by (simp add: io_call_def)
  note res = resource_call [OF resources [OF assms(1)] io, where s = s]
  have mine: "\<not> reserved s x \<and> (\<forall>g. x = Fd g \<longrightarrow> registered s q g = None)"
    if "x \<in> set (releases (CClose fd, reply_of os (CClose fd) s))" for x
    using that assms(2,3) by simp
  have "sane os (after os (CClose fd) s) \<and> registered (after os (CClose fd) s) q = registered s q"
    using call_keeps [where k = "CClose fd", OF assms(1) io mine] by simp
  moreover have "W (world (after os (CClose fd) s)) g = W (world s) g" if "g \<noteq> fd" for g
    using res(4) [of g] that by simp
  ultimately show ?thesis using res(1) by (simp add: closes_def same_requests_after)
qed

lemma closes_trans: "closes os fd s t \<Longrightarrow> closes os fd t u \<Longrightarrow> closes os fd s u"
  using same_requests_trans by (auto simp: closes_def)

lemma close_loop_effect:
  assumes "sane os s" and "registered s q fd = None" and "\<not> reserved s (Fd fd)" and run: "close_loop os fd s = Some s'"
  shows "closes os fd s s'"
proof -
  let ?P = "\<lambda>os' fd (s :: ('w, 'z) pl_scheme) s'. os' = os \<longrightarrow> sane os s \<and> registered s q fd = None \<and> \<not> reserved s (Fd fd) \<longrightarrow> closes os fd s s'"
  have step: "?P os' fd s s'" if IH: "\<And>os' fd s s'. rep os' fd s = Some s' \<Longrightarrow> ?P os' fd s s'"
    and body: "(let (r, s) = syscall os' (CClose fd) s
      in if ret r < 0 then if errno s \<noteq> EINTR then Some s else rep os' fd s else Some s) = Some s'" for rep os' fd s s'
  proof (intro impI)
    assume "os' = os" and pre: "sane os s \<and> registered s q fd = None \<and> \<not> reserved s (Fd fd)"
    let ?t = "after os (CClose fd) s"
    have "s' = ?t \<or> rep os fd ?t = Some s'"
      using body \<open>os' = os\<close> by (auto simp: sys_simps Let_def split: if_splits)
    moreover have once: "closes os fd s ?t" using closes_once pre by blast
    moreover have "closes os fd s s'" if again: "rep os fd ?t = Some s'"
    proof -
      have "reserved ?t = reserved s" using own_parts [of ?t s] by simp
      then have "closes os fd ?t s'" using IH [OF again] once pre by (simp add: closes_def)
      then show ?thesis by (rule closes_trans [OF once])
    qed
    ultimately show "closes os fd s s'" by blast
  qed
  have "?P os' fd s s'" if "close_loop os' fd s = Some s'" for os' fd and s s' :: "('w, 'z) pl_scheme"
    using close_loop.raw_induct [OF _ that, of ?P] step by blast
  with assms show ?thesis by blast
qed

lemma io_removed:
  assumes inv: "io_inv os s hs F ys" and h: "h \<in> set hs" and same: "same_io s t" and keep: "keeps os s t"
    and reg: "\<And>g. registered t q g = (if g = fd_fd s h then None else registered s q g)" and "ready t q zs"
    and "\<forall>y \<in> set zs. ioq_kind s (fst y) = YOI_PL_ACCEPT \<longrightarrow> snd y \<noteq> YO_OK"
    and "distinct (concat (map F (remove1 h hs)) @ map fst zs)"
  shows "io_inv os t (remove1 h hs) F zs"
proof -
  have sub: "set (remove1 h hs) = set hs - {h}" using inv by (simp add: io_inv_def)
  have f: "fd_fd t = fd_fd s" "ioq_kind t = ioq_kind s" using same by (simp_all add: same_io_def)
  have others: "usable t (Mem g) \<and> usable t (Fd (fd_fd s g)) \<and> handle_ok t g (F g)" if g: "g \<in> set hs - {h}" for g
  proof -
    have "fd_fd s g \<noteq> fd_fd s h" using inv g h by (auto simp: io_inv_def inj_on_def)
    moreover have u: "usable s (Mem g)" "usable s (Fd (fd_fd s g))" using io_usable [OF inv] g by simp_all
    moreover have "handle_ok t g (F g) = handle_ok s g (F g)"
      using calculation keep by (intro handle_cong [OF same]) (simp_all add: reg keeps_def)
    ultimately show ?thesis using io_handle [OF inv] g keep by (simp add: keeps_def)
  qed
  have "internal t d \<or> d \<in> set hs - {h} \<and> fd = fd_fd s d" if "registered t q fd = Some (m, d)" for fd m d
    using that reg [of fd] io_data [OF inv, of fd m d] keep by (auto simp: keeps_def split: if_splits)
  then show ?thesis
    using inv others assms(6-) keep unfolding io_inv_def sub f keeps_def by (auto intro: inj_on_subset)
qed

lemma io_closes:
  assumes inv: "io_inv os s hs F ys" and close: "closes os fd s t" and fd: "fd \<notin> fd_fd s ` set hs"
  shows "io_inv os t hs F ys"
proof -
  have same: "same_requests s t" "same_io s t" using close same_requests_io by (auto simp: closes_def)
  have f: "fd_fd t = fd_fd s" "ioq_kind t = ioq_kind s" using same(2) by (simp_all add: same_io_def)
  have own: "reserved t = reserved s" "internal t = internal s" using own_parts [of t s] close by (simp_all add: closes_def)
  have "usable t (Mem g) \<and> usable t (Fd (fd_fd s g)) \<and> handle_ok t g (F g)" if g: "g \<in> set hs" for g
  proof -
    have "fd_fd s g \<noteq> fd" using fd g by auto
    moreover have "handle_ok t g (F g) = handle_ok s g (F g)"
      using calculation close by (intro handle_cong [OF same(2)]) (simp_all add: closes_def)
    ultimately show ?thesis using io_handle [OF inv g] io_usable [OF inv g] close by (simp add: closes_def usable_def own)
  qed
  moreover have "ready t q ys" using io_ready [OF inv] same(1) ready_same [of s t q ys] by (simp add: same_requests_def)
  ultimately show ?thesis using inv close unfolding io_inv_def f own by (simp add: closes_def)
qed

lemma io_close:
  assumes inv: "io_inv os s hs F ys" and h: "h \<in> set hs" and run: "yo_fd_close setmask os h s = Some s'"
  shows "\<exists>zs. io_inv os s' (remove1 h hs) F zs \<and> pending (remove1 h hs) F zs = pending hs F ys"
proof -
  let ?xs = "F h" let ?zs = "rev (map (\<lambda>x. (x, YO_ECANCELED)) ?xs) @ ys" let ?hs = "remove1 h hs"
  have dl: "dlist (req_links s) h ?xs" "\<forall>x \<in> set ?xs. rq_queue s x = q" using io_handle [OF inv h] by (simp_all add: handle_ok_def)
  have ch: "chain (ioq_next s) (fd_head s h) ?xs" using dl(1) by (simp add: dlist_def req_links_def)
  have fresh: "\<forall>x \<in> set ?xs. rq_queue s x = q \<and> x \<notin> fst ` set ys" using dl(2) running_not_ready [OF inv h] by blast
  obtain s1 where s1: "close_requests setmask os h (fd_head s h) s = Some s1"
    using run by (cases "close_requests setmask os h (fd_head s h) s") (auto simp: yo_fd_close_def yoi_unix_onclose_def)
  have ready: "ready s1 q ?zs"
    using close_requests_ready [OF io_sane [OF inv] ch io_ready [OF inv] fresh dlist_distinct [OF dl(1)], of h] s1 by auto
  have eff: "same_io s s1 \<and> keeps os s s1 \<and> (\<forall>g. registered s1 q g = (if g = fd_fd s h then None else registered s q g))"
  proof (cases "W (world s) (fd_fd s h)")
    case True
    then have "?xs = [] \<Longrightarrow> registered s q (fd_fd s h) = None" using io_handle [OF inv h] by (simp add: handle_ok_def)
    with close_requests_effect [OF io_sane [OF inv] True _ ch dl(2) s1] io_usable [OF inv h] show ?thesis by auto
  next
    case False
    then have "?xs = []" "registered s q (fd_fd s h) = None" using io_handle [OF inv h] by (simp_all add: handle_ok_def)
    with s1 ch show ?thesis using io_sane [OF inv] by (auto simp: close_requests.simps same_io_refl keeps_def)
  qed
  have pend: "pending ?hs F ?zs = pending hs F ys"
    by (simp add: pending_def concat_remove [OF h, of F] image_mset.compositionality comp_def)
  then have "mset (concat (map F ?hs) @ map fst ?zs) = mset (concat (map F hs) @ map fst ys)" by (simp add: pending_def)
  then have dist: "distinct (concat (map F ?hs) @ map fst ?zs)" using mset_eq_imp_distinct_iff io_distinct [OF inv] by blast
  have "\<forall>y \<in> set ?zs. ioq_kind s (fst y) = YOI_PL_ACCEPT \<longrightarrow> snd y \<noteq> YO_OK" using inv by (auto simp: io_inv_def)
  then have inv1: "io_inv os s1 ?hs F ?zs" using io_removed [OF inv h _ _ _ ready _ dist] eff by blast
  have h1: "usable s1 (Mem h)" "usable s1 (Fd (fd_fd s h))" "registered s1 q (fd_fd s h) = None" "fd_fd s1 = fd_fd s"
    using eff io_usable [OF inv h] by (simp_all add: keeps_def same_io_def)
  have fd: "fd_fd s h \<notin> fd_fd s1 ` set ?hs" using inv h by (auto simp: io_inv_def inj_on_def h1(4))
  obtain s2 where s2: "(if fd_owned s1 h then do { s \<leftarrow> close_loop os (fd_fd s1 h) s1; Some (yoi_fd_ioq_free h s) } else Some s1) = Some s2"
    and s': "s' = after os (CFree h) s2"
    using run s1 by (auto simp: yo_fd_close_def yoi_unix_onclose_def sys_simps bind_eq_Some_conv split: if_splits)
  have "io_inv os s2 ?hs F ?zs \<and> reserved s2 = reserved s1"
  proof (cases "fd_owned s1 h")
    case True
    with s2 h1(4) have "close_loop os (fd_fd s h) s1 = Some s2" by (auto simp: bind_eq_Some_conv yoi_fd_ioq_free_def)
    from close_loop_effect [OF io_sane [OF inv1] h1(3) _ this] h1(2) have c: "closes os (fd_fd s h) s1 s2" by (simp add: usable_def)
    then show ?thesis using io_closes [OF inv1 c fd] own_parts [of s2 s1] by (simp add: closes_def)
  next
    case False
    with s2 inv1 show ?thesis by simp
  qed
  moreover have "h \<notin> set ?hs" using inv by (simp add: io_inv_def)
  ultimately have "io_inv os s' ?hs F ?zs"
    unfolding s' by (intro io_free) (use h1(1) in \<open>simp_all add: usable_def\<close>)
  with pend show ?thesis by blast
qed

lemma close_loop_returns:
  assumes os: "posix_os os" and run: "eno (fst (os (((\<lambda>w. snd (os w (CClose fd))) ^^ n) (world s)) (CClose fd))) \<noteq> Some EINTR"
  shows "\<exists>s'. close_loop os fd s = Some s'"
  using run
proof (induction n arbitrary: s)
  case 0
  then show ?case
    using reply_failure [OF os, of "CClose fd" s]
    by (subst close_loop.simps) (auto simp: sys_simps Let_def fails_def after_errno reply_of_def)
next
  case (Suc n)
  have "\<exists>s'. close_loop os fd (after os (CClose fd) s) = Some s'"
    by (rule Suc.IH) (use Suc.prems in \<open>simp only: funpow_Suc_right comp_apply world_after not_False_eq_True\<close>)
  then show ?case by (subst close_loop.simps) (auto simp: sys_simps Let_def)
qed

lemma close_returns:
  assumes inv: "io_inv os s hs F ys" and h: "h \<in> set hs" and stuck: "yo_fd_close setmask os h s = None"
  shows "\<exists>fd. interrupted_for_ever os fd"
proof -
  have H: "dlist (req_links s) h (F h)" "\<forall>x \<in> set (F h). rq_queue s x = q" using io_handle [OF inv h] by (simp_all add: handle_ok_def)
  have "chain (ioq_next s) (fd_head s h) (F h)" "\<forall>x \<in> set (F h). rq_queue s x = q \<and> x \<notin> fst ` set ys" "distinct (F h)"
    using H running_not_ready [OF inv h] dlist_distinct [OF H(1)] by (auto simp: dlist_def req_links_def)
  from close_requests_ready [OF io_sane [OF inv] this(1) io_ready [OF inv] this(2,3), of h]
  obtain s1 where "yoi_unix_onclose setmask os h s = Some s1" by (auto simp: yoi_unix_onclose_def)
  with stuck have "close_loop os (fd_fd s1 h) s1 = None"
    by (cases "close_loop os (fd_fd s1 h) s1") (auto simp: yo_fd_close_def split: if_splits)
  with close_loop_returns [OF posix [OF io_sane [OF inv]], where fd = "fd_fd s1 h" and s = s1] show ?thesis
    unfolding interrupted_for_ever_def by (metis option.distinct(1))
qed

end

section \<open>The client\<close>

text \<open>The calls that start a request.\<close>

datatype aio_op = AioRead addr addr | AioWrite addr addr | AioFileRead addr addr u64 | AioFileWrite addr addr u64
  | AioAccept addr addr addr

definition aio_call ::
  "('w, 'z) setmask \<Rightarrow> aio_op \<Rightarrow> 'w os \<Rightarrow> addr \<Rightarrow> addr \<Rightarrow> ('w, 'z) pl_scheme \<Rightarrow> yo_code \<times> ('w, 'z) pl_scheme" where
  "aio_call setmask k os req h s =
     (case k of
        AioRead buff pn \<Rightarrow> yoa_read setmask os req h buff pn s
      | AioWrite buff pn \<Rightarrow> yoa_write setmask os req h buff pn s
      | AioFileRead buff pn off \<Rightarrow> yoa_file_read setmask os req h buff pn off s
      | AioFileWrite buff pn off \<Rightarrow> yoa_file_write setmask os req h buff pn off s
      | AioAccept pclient paddr pport \<Rightarrow> yoa_socket_accept setmask os req h pclient paddr pport s)"

definition is_accept :: "aio_op \<Rightarrow> bool" where
  "is_accept k = (case k of AioAccept _ _ _ \<Rightarrow> True | _ \<Rightarrow> False)"

text \<open>
  The client of the queue \<open>q\<close>. Its state are the handles that it has open, the state of the library, and the requests that it has
  passed to a call and that have been delivered to it, in all. \<open>own\<close> are the blocks and descriptors that it may use, \<open>watch\<close>
  the descriptors that can be watched. It makes a handle only on a descriptor that no other handle has, starts a request
  only when that is not running or ready and while the counters of the handle have room, accepts only on sockets, does not free
  a request that is on its way, and keeps apart the places where a poll and an accepted connection put their results.
\<close>

type_synonym ('w, 'z) client = "addr list \<times> ('w, 'z) pl_scheme \<times> addr multiset \<times> addr multiset"

inductive client_step ::
  "('w, 'z) setmask \<Rightarrow> ('w, 'z) pl_poll \<Rightarrow> 'w os \<Rightarrow> addr \<Rightarrow> (('w, 'z) pl_scheme \<Rightarrow> resource \<Rightarrow> bool)
     \<Rightarrow> (('w, 'z) pl_scheme \<Rightarrow> int \<Rightarrow> bool) \<Rightarrow> ('w, 'z) client \<Rightarrow> ('w, 'z) client \<Rightarrow> bool"
  for setmask wait os q own watch where
  handle: "own s (Fd (sint (ucast fd :: u32))) \<Longrightarrow> sint (ucast fd :: u32) \<notin> fd_fd s ` set hs \<Longrightarrow> yo_fd_new os pres fd owned s = (c, s') \<Longrightarrow>
    client_step setmask wait os q own watch (hs, s, started, finished) (if c = YO_OK then m_ptr s' pres # hs else hs, s', started, finished)"
| request: "yo_req_new os q s = (req, s') \<Longrightarrow>
    client_step setmask wait os q own watch (hs, s, started, finished) (hs, s', started, finished)"
| forget: "own s (Mem req) \<Longrightarrow> req \<notin> set hs \<Longrightarrow> count started req = count finished req \<Longrightarrow>
    client_step setmask wait os q own watch (hs, s, started, finished) (hs, yo_req_free os req s, started, finished)"
| start: "h \<in> set hs \<Longrightarrow> req \<noteq> NULL \<Longrightarrow> rq_queue s req = q \<Longrightarrow> count started req = count finished req \<Longrightarrow>
    fd_read_n s h \<noteq> -1 \<Longrightarrow> fd_write_n s h \<noteq> -1 \<Longrightarrow> (is_accept k \<Longrightarrow> watch s (fd_fd s h)) \<Longrightarrow> aio_call setmask k os req h s = (c, s') \<Longrightarrow>
    client_step setmask wait os q own watch (hs, s, started, finished) (hs, s', add_mset req started, finished)"
| poll: "yo_queue_poll setmask wait os q deadline preq pcode s = Some (c, s') \<Longrightarrow> req = m_ptr s' preq \<Longrightarrow>
    (c = YO_OK \<Longrightarrow> ioq_pclient s' req \<noteq> preq) \<Longrightarrow>
    client_step setmask wait os q own watch (hs, s, started, finished)
      (if c = YO_OK then (accepted s' req pcode @ hs, s', started, add_mset req finished) else (hs, s', started, finished))"
| close: "h \<in> set hs \<Longrightarrow> yo_fd_close setmask os h s = Some s' \<Longrightarrow>
    client_step setmask wait os q own watch (hs, s, started, finished) (remove1 h hs, s', started, finished)"

inductive_cases client_stepE: "client_step setmask wait os q own watch c c'"

text \<open>
  Where the requests are: \<open>F h\<close> are linked to the handle \<open>h\<close>, \<open>ys\<close> are in the ready list of the queue with their
  results, and no request is in two places.
\<close>

definition placed ::
  "('w, 'z) pl_scheme \<Rightarrow> addr \<Rightarrow> addr list \<Rightarrow> (addr \<Rightarrow> addr list) \<Rightarrow> (addr \<times> yo_code) list \<Rightarrow> bool" where
  "placed s q hs F ys \<longleftrightarrow> distinct hs \<and> (\<forall>h \<in> set hs. dlist (req_links s) h (F h) \<and> (\<forall>x \<in> set (F h). ioq_fd s x = h))
     \<and> ready s q ys \<and> distinct (concat (map F hs) @ map fst ys)"

text \<open>The handles in \<open>hs\<close> are closed one after the other.\<close>

fun close_handles ::
  "('w, 'z) setmask \<Rightarrow> 'w os \<Rightarrow> addr list \<Rightarrow> ('w, 'z) pl_scheme \<Rightarrow> ('w, 'z) pl_scheme option" where
  "close_handles setmask os [] s = Some s"
| "close_handles setmask os (h # hs) s = do { s \<leftarrow> yo_fd_close setmask os h s; close_handles setmask os hs s }"

text \<open>
  One poll after the other, each with a deadline, a place for the request and one for its code, and what each of them gives:
  its own code, and the request.
\<close>

fun polls ::
  "('w, 'z) setmask \<Rightarrow> ('w, 'z) pl_poll \<Rightarrow> 'w os \<Rightarrow> addr \<Rightarrow> (yo_time option \<times> addr \<times> addr) list
     \<Rightarrow> ('w, 'z) pl_scheme \<Rightarrow> ((yo_code \<times> addr) list \<times> ('w, 'z) pl_scheme) option" where
  "polls setmask wait os q [] s = Some ([], s)"
| "polls setmask wait os q ((deadline, preq, pcode) # args) s =
     do {
       (c, s) \<leftarrow> yo_queue_poll setmask wait os q deadline preq pcode s;
       (rs, s') \<leftarrow> polls setmask wait os q args s;
       Some ((c, m_ptr s preq) # rs, s')
     }"

context async_backend
begin

text \<open>What the client may use.\<close>

definition mine :: "('w, 'z) pl_scheme \<Rightarrow> resource \<Rightarrow> bool" where
  "mine s x \<longleftrightarrow> usable s x \<and> (\<forall>fd. x = Fd fd \<longrightarrow> registered s q fd = None)"

lemma io_fd_new:
  assumes inv: "io_inv os s hs F ys" and f: "mine s (Fd f)" "f \<notin> fd_fd s ` set hs" "f = sint (ucast fd :: u32)"
    and run: "yo_fd_new os pres fd owned s = (c, s')"
  shows "if c = YO_OK then m_ptr s' pres \<notin> set hs \<and> io_inv os s' (m_ptr s' pres # hs) (F(m_ptr s' pres := [])) ys
     else io_inv os s' hs F ys"
proof -
  let ?p = "ptr (reply_of os (CMalloc sizeof_yo_fd) s)" let ?s1 = "after os (CMalloc sizeof_yo_fd) s"
  show ?thesis
  proof (cases "?p = NULL")
    case True
    have "io_inv os ?s1 hs F ys" by (rule io_call [OF inv]) (simp_all add: io_call_def)
    with True run show ?thesis by (auto simp: yo_fd_new_def sys_simps)
  next
    case nn: False
    note m = io_malloc [OF inv nn]
    have "backed os s ?s1" by (rule backed_call [OF io_sane [OF inv]]) (simp_all add: io_call_def)
    then have f1: "usable ?s1 (Fd f)" "registered ?s1 q f = None" using f(1) by (simp_all add: mine_def backed_def keeps_def)
    let ?s2 = "yoi_unix_mkfd ?p f ?s1"
    have inv2: "io_inv os ?s2 (?p # hs) (F(?p := [])) ys"
      by (rule io_adopt [OF m(1) m(3) nn m(2) f1 _ refl]) (use f(2) in simp)
    let ?s3 = "?s2\<lparr>fd_owned := (fd_owned ?s2)(?p := owned)\<rparr>"
    have "io_inv os ?s3 (?p # hs) (F(?p := [])) ys"
      by (rule io_inv_same [OF inv2 _ backed_own [OF io_sane [OF inv2]]])
         (simp_all add: same_requests_def same_queues_def req_links_def)
    then have "io_inv os (set_ptr pres ?p ?s3) (?p # hs) (F(?p := [])) ys" by (rule io_store)
    moreover have "c = YO_OK" "s' = set_ptr pres ?p ?s3" using run nn f(3) by (auto simp: yo_fd_new_def sys_simps Let_def)
    ultimately show ?thesis using m(3) by (simp add: set_ptr_def)
  qed
qed

lemma io_req_new:
  assumes inv: "io_inv os s hs F ys" and run: "yo_req_new os q s = (req, s')"
  shows "io_inv os s' hs F ys"
proof -
  let ?p = "ptr (reply_of os (CMalloc sizeof_yo_req) s)" let ?s1 = "after os (CMalloc sizeof_yo_req) s"
  have inv1: "io_inv os ?s1 hs F ys" by (rule io_call [OF inv]) (simp_all add: io_call_def)
  let ?s2 = "?s1\<lparr>rq_queue := (rq_queue ?s1)(?p := q)\<rparr>"
  have bk: "backed os ?s1 ?s2" by (rule backed_own [OF io_sane [OF inv1]]) simp_all
  have need: "waiting ?s2 m xs = waiting ?s1 m xs" "needed ?s2 xs = needed ?s1 xs" "req_links ?s2 = req_links ?s1" for m xs
    by (simp_all add: waiting_def needed_def req_links_def)
  have "registered ?s2 q = registered ?s1 q" using bk by (simp add: backed_def)
  then have "handle_ok ?s2 h xs" if "handle_ok ?s1 h xs" for h xs
    using that unfolding handle_ok_def need by (auto split: if_splits)
  then have "io_inv os ?s2 hs F ys"
    using inv1 bk unfolding io_inv_def by (simp add: backed_def keeps_def ready_def)
  with inv1 run show ?thesis by (auto simp: yo_req_new_def sys_simps split: if_splits)
qed

text \<open>Filling in the fields of a request before it is started.\<close>

lemma io_prepare:
  assumes inv: "io_inv os s hs F ys" and fresh: "req \<notin> set (concat (map F hs))" "req \<notin> fst ` set ys"
    and upd: "ioq_fd t = (ioq_fd s)(req := h)" "ioq_kind t = (ioq_kind s)(req := k)" "req_links t = req_links s"
      "fd_read_n t = fd_read_n s" "fd_write_n t = fd_write_n s" "fd_fd t = fd_fd s" "same_queues s t"
    and own: "world t = world s" "pl.more t = pl.more s"
  shows "io_inv os t hs F ys"
proof -
  have bk: "backed os s t" by (rule backed_own [OF io_sane [OF inv] own])
  have "handle_ok t g (F g)" if g: "g \<in> set hs" for g
  proof -
    have out: "req \<notin> set (F g)" using fresh(1) g by auto
    have w: "waiting t m (F g) = waiting s m (F g)" for m by (rule waiting_other [OF upd(2) out])
    have n: "needed t (F g) = needed s (F g)" by (simp add: needed_def w)
    have r: "registered t q = registered s q" "rq_queue t = rq_queue s" using bk upd(7) by (simp_all add: backed_def same_queues_def)
    have "\<forall>x \<in> set (F g). ioq_fd t x = ioq_fd s x" using out by (auto simp: upd(1))
    then show ?thesis
      using io_handle [OF inv g] unfolding handle_ok_def w n r upd(3-6) own(1) by simp
  qed
  moreover have "ready t q ys" using io_ready [OF inv] ready_same [OF upd(7)] by simp
  moreover have "\<forall>y \<in> set ys. ioq_kind t (fst y) = YOI_PL_ACCEPT \<longrightarrow> snd y \<noteq> YO_OK"
    using inv fresh(2) by (auto simp: upd io_inv_def image_iff)
  ultimately show ?thesis using inv bk unfolding io_inv_def by (simp add: upd backed_def keeps_def)
qed

text \<open>A call that starts a request: it is running or, when the descriptor cannot be watched, ready.\<close>

lemma io_started:
  assumes inv: "io_inv os s hs F ys" and h: "h \<in> set hs"
    and req: "ioq_fd s req = h" "rq_queue s req = q" "req \<noteq> NULL" "ioq_kind s req = YOI_PL_ACCEPT \<Longrightarrow> W (world s) (fd_fd s h)"
    and fresh: "req \<notin> set (concat (map F hs))" "req \<notin> fst ` set ys" and room: "fd_read_n s h \<noteq> -1" "fd_write_n s h \<noteq> -1"
    and run: "yoi_pl_req_start setmask os req s = (c, s')"
  shows "\<exists>F' ys'. io_inv os s' hs F' ys' \<and> pending hs F' ys' = add_mset req (pending hs F ys)"
proof (cases "W (world s) (fd_fd s h)")
  case True
  have "io_inv os s' hs (F(h := req # F h)) ys"
    using io_start [OF inv h True req(1-3) fresh room] run by simp
  moreover have "pending hs (F(h := req # F h)) ys = add_mset req (pending hs F ys)"
    using pending_upd [OF inv h, of "req # F h"] by simp
  ultimately show ?thesis by blast
next
  case False
  with req(4) have "ioq_kind s req \<noteq> YOI_PL_ACCEPT" by blast
  from io_start_sync [OF inv h False req(1-3) this fresh room] run
  obtain code where "io_inv os s' hs F ((req, code) # ys)" by auto
  moreover have "pending hs F ((req, code) # ys) = add_mset req (pending hs F ys)" by (simp add: pending_def)
  ultimately show ?thesis by blast
qed

lemma io_aio_call:
  assumes inv: "io_inv os s hs F ys" and h: "h \<in> set hs"
    and req: "rq_queue s req = q" "req \<noteq> NULL" and acc: "is_accept k \<Longrightarrow> W (world s) (fd_fd s h)"
    and fresh: "req \<notin> set (concat (map F hs))" "req \<notin> fst ` set ys" and room: "fd_read_n s h \<noteq> -1" "fd_write_n s h \<noteq> -1"
    and run: "aio_call setmask k os req h s = (c, s')"
  shows "\<exists>F' ys'. io_inv os s' hs F' ys' \<and> pending hs F' ys' = add_mset req (pending hs F ys)"
proof -
  have go: "\<exists>F' ys'. io_inv os s' hs F' ys' \<and> pending hs F' ys' = add_mset req (pending hs F ys)"
    if start: "yoi_pl_req_start setmask os req t = (c, s')"
      and upd: "ioq_fd t = (ioq_fd s)(req := h)" "ioq_kind t = (ioq_kind s)(req := kd)" "req_links t = req_links s"
      "fd_read_n t = fd_read_n s" "fd_write_n t = fd_write_n s" "fd_fd t = fd_fd s" "same_queues s t"
      and own: "world t = world s" "pl.more t = pl.more s" and kd: "kd = YOI_PL_ACCEPT \<Longrightarrow> is_accept k" for t kd
  proof (rule io_started [OF io_prepare [OF inv fresh upd own] h _ _ req(2) _ fresh _ _ start])
    show "rq_queue t req = q" using upd(7) req(1) by (simp add: same_queues_def)
    show "W (world t) (fd_fd t h)" if "ioq_kind t req = YOI_PL_ACCEPT" using that acc kd by (simp add: upd own)
  qed (use room in \<open>simp_all add: upd\<close>)
  show ?thesis
    using run
    by (cases k)
       (auto simp: aio_call_def yoa_read_def yoa_write_def yoa_file_read_def yoa_file_write_def yoa_socket_accept_def Let_def is_accept_def
         set_rw_def same_queues_def req_links_def intro!: go)
qed

text \<open>Every step keeps the account of the requests.\<close>

definition accounts :: "'w os \<Rightarrow> ('w, 'z) client \<Rightarrow> bool" where
  "accounts os c = (case c of (hs, s, started, finished) \<Rightarrow>
     \<exists>F ys. io_inv os s hs F ys \<and> started = finished + pending hs F ys)"

abbreviation (input) step :: "'w os \<Rightarrow> ('w, 'z) client \<Rightarrow> ('w, 'z) client \<Rightarrow> bool" where
  "step os \<equiv> client_step setmask wait os q mine (\<lambda>s. W (world s))"

lemma accountsI: "io_inv os s hs F ys \<Longrightarrow> started = finished + pending hs F ys \<Longrightarrow> accounts os (hs, s, started, finished)"
  by (auto simp: accounts_def)

lemma step_accounts:
  assumes "accounts os c" and "step os c c'"
  shows "accounts os c'"
  using assms(2)
proof (cases rule: client_step.cases)
  case (handle s fd hs pres owned code s' started finished)
  from assms(1) obtain F ys where inv: "io_inv os s hs F ys" and acc: "started = finished + pending hs F ys"
    by (auto simp: accounts_def handle(1))
  note new = io_fd_new [OF inv handle(3,4) refl handle(5)]
  show ?thesis
  proof (cases "code = YO_OK")
    case True
    with new acc pending_new [of "m_ptr s' pres" hs F ys] show ?thesis
      unfolding handle(2) by (auto intro: accountsI)
  next
    case False
    with new acc show ?thesis unfolding handle(2) by (auto intro: accountsI)
  qed
next
  case (request s req s' hs started finished)
  from assms(1) obtain F ys where "io_inv os s hs F ys" "started = finished + pending hs F ys"
    by (auto simp: accounts_def request(1))
  with io_req_new [OF _ request(3)] show ?thesis unfolding request(2) by (auto intro: accountsI)
next
  case (forget s req hs started finished)
  from assms(1) obtain F ys where inv: "io_inv os s hs F ys" "started = finished + pending hs F ys"
    by (auto simp: accounts_def forget(1))
  with io_free [OF inv(1) _ forget(4)] forget(3) show ?thesis
    unfolding forget(2) by (auto simp: yo_req_free_def sys_simps mine_def usable_def intro: accountsI)
next
  case (start h hs req s started finished k code s')
  from assms(1) obtain F ys where inv: "io_inv os s hs F ys" and acc: "started = finished + pending hs F ys"
    by (auto simp: accounts_def start(1))
  have "req \<notin># pending hs F ys" using start(6) by (simp add: acc count_eq_zero_iff)
  then have "req \<notin> set (concat (map F hs))" "req \<notin> fst ` set ys" by (simp_all add: pending_mem)
  from io_aio_call [OF inv start(3,5,4,9) this start(7,8,10)] acc show ?thesis
    unfolding start(2) by (auto intro: accountsI)
next
  case (poll deadline preq pcode s code s' req hs started finished)
  from assms(1) obtain F ys where inv: "io_inv os s hs F ys" and acc: "started = finished + pending hs F ys"
    by (auto simp: accounts_def poll(1))
  note del = queue_poll_keeps [OF inv poll(3), unfolded delivered_def]
  show ?thesis
  proof (cases "code = YO_OK")
    case True
    with del poll(4,5) obtain F' ys' where "io_inv os s' (accepted s' req pcode @ hs) F' ys'"
      "pending hs F ys = add_mset req (pending (accepted s' req pcode @ hs) F' ys')" by (auto simp: Let_def)
    with True acc show ?thesis unfolding poll(2) by (auto intro: accountsI)
  next
    case False
    with del acc show ?thesis unfolding poll(2) by (auto intro: accountsI)
  qed
next
  case (close h hs s s' started finished)
  from assms(1) obtain F ys where inv: "io_inv os s hs F ys" and acc: "started = finished + pending hs F ys"
    by (auto simp: accounts_def close(1))
  from io_close [OF inv close(3,4)] acc show ?thesis unfolding close(2) by (auto intro: accountsI)
qed

lemma run_accounts:
  assumes "accounts os c" and "(step os)\<^sup>*\<^sup>* c c'"
  shows "accounts os c'"
  using assms(2,1) by (induction rule: rtranclp_induct) (auto intro: step_accounts)

text \<open>What the account says, without the parts that only its proof needs.\<close>

lemma account:
  assumes "accounts os (hs, s, started, finished)"
  shows "\<exists>F ys. started = finished + mset (concat (map F hs)) + mset (map fst ys) \<and> placed s q hs F ys
     \<and> (\<forall>fd m d. registered s q fd = Some (m, d) \<longrightarrow>
          internal s d \<or> d \<in> set hs \<and> fd = fd_fd s d \<and> F d \<noteq> [] \<and> m = needed s (F d))
     \<and> (\<forall>x. count finished x \<le> count started x \<and> count started x \<le> Suc (count finished x))"
proof -
  from assms obtain F ys where inv: "io_inv os s hs F ys" and acc: "started = finished + pending hs F ys"
    by (auto simp: accounts_def)
  have "placed s q hs F ys"
    using inv io_handle [OF inv] by (simp add: placed_def io_inv_def handle_ok_def)
  moreover have "internal s d \<or> d \<in> set hs \<and> fd = fd_fd s d \<and> F d \<noteq> [] \<and> m = needed s (F d)"
    if "registered s q fd = Some (m, d)" for fd m d
    using io_data [OF inv that] io_handle [OF inv, of d] that by (auto simp: handle_ok_def split: if_splits)
  moreover have "count started x \<le> Suc (count finished x)" for x
    using pending_distinct [OF inv, of x] by (simp add: acc)
  ultimately show ?thesis
    by (intro exI [of _ F] exI [of _ ys]) (simp add: acc pending_def)
qed

text \<open>A queue that has just been made.\<close>

lemma accounts_new:
  assumes "sane os s" and "\<And>fd m d. registered s q fd = Some (m, d) \<Longrightarrow> internal s d" and "ready s q []"
  shows "accounts os ([], s, {#}, {#})"
  using assms by (intro accountsI [where F = "\<lambda>_. []" and ys = "[]"]) (auto simp: io_inv_def pending_def)

section \<open>Draining a queue\<close>

lemma poll_takes_ready:
  assumes inv: "io_inv os s hs F ((x, c) # ys)"
  shows "\<exists>s'. yo_queue_poll setmask wait os q deadline preq pcode s = Some (YO_OK, s') \<and> m_ptr s' preq = x \<and> io_inv os s' hs F ys"
proof -
  from pop_ready_list [OF io_ready [OF inv], of os pcode]
  obtain s1 where s1: "yoi_queue_pop os q pcode s = Some (x, s1)" "ready s1 q ys" "m_code s1 pcode = c" by auto
  have nn: "x \<noteq> NULL" using io_ready [OF inv] by (auto simp: ready_def)
  have keep: "same_io s s1" "backed os s s1" using pop_keeps [OF io_sane [OF inv] s1(1)] by simp_all
  have inv1: "io_inv os s1 hs F ys"
    by (rule io_inv_cong [OF inv keep s1(2)]) (use inv io_distinct [OF inv] in \<open>auto simp: io_inv_def\<close>)
  let ?t = "set_ptr preq x s1"
  have "io_inv os ?t hs F ys" using inv1 by (rule io_store)
  moreover have "yo_queue_poll setmask wait os q deadline preq pcode s = Some (YO_OK, ?t)"
    using s1(1) nn by (simp add: yo_queue_poll_def repeat_rounds.simps poll_round_def)
  ultimately show ?thesis by (intro exI [of _ ?t]) (simp add: set_ptr_def)
qed

lemma polls_take_ready:
  assumes "io_inv os s hs F ys" and "length args = length ys"
  shows "\<exists>s'. polls setmask wait os q args s = Some (map (\<lambda>y. (YO_OK, fst y)) ys, s') \<and> io_inv os s' hs F []"
  using assms
proof (induction ys arbitrary: s args)
  case Nil
  then show ?case by auto
next
  case (Cons y ys)
  obtain deadline preq pcode rest where args: "args = (deadline, preq, pcode) # rest" "length rest = length ys"
    using Cons.prems(2) by (cases args) auto
  obtain x c where y: "y = (x, c)" by fastforce
  from poll_takes_ready [OF Cons.prems(1) [unfolded y], of deadline preq pcode] obtain s1 where
    s1: "yo_queue_poll setmask wait os q deadline preq pcode s = Some (YO_OK, s1)" "m_ptr s1 preq = x" "io_inv os s1 hs F ys"
    by auto
  from Cons.IH [OF s1(3) args(2)] s1(1,2) show ?case by (auto simp: args(1) y)
qed

lemma close_handles_pending:
  assumes "io_inv os s hs F ys" and "mset order = mset hs" and "close_handles setmask os order s = Some s'"
  shows "\<exists>zs. io_inv os s' [] F zs \<and> mset (map fst zs) = pending hs F ys"
  using assms
proof (induction order arbitrary: s hs ys)
  case Nil
  then show ?case by (auto simp: pending_def)
next
  case (Cons h order)
  obtain s1 where s1: "yo_fd_close setmask os h s = Some s1" "close_handles setmask os order s1 = Some s'"
    using Cons.prems(3) by (auto simp: bind_eq_Some_conv)
  have h: "h \<in> set hs" using Cons.prems(2) by (metis list.set_intros(1) mset_eq_setD)
  from io_close [OF Cons.prems(1) h s1(1)] obtain zs where
    zs: "io_inv os s1 (remove1 h hs) F zs" "pending (remove1 h hs) F zs = pending hs F ys" by auto
  have "mset order = mset (remove1 h hs)" by (simp add: Cons.prems(2) [symmetric])
  from Cons.IH [OF zs(1) this s1(2)] zs(2) show ?case by simp
qed

lemma close_handles_returns:
  assumes "io_inv os s hs F ys" and "mset order = mset hs" and "close_handles setmask os order s = None"
  shows "\<exists>fd. interrupted_for_ever os fd"
  using assms
proof (induction order arbitrary: s hs ys)
  case Nil
  then show ?case by simp
next
  case (Cons h order)
  have h: "h \<in> set hs" using Cons.prems(2) by (metis list.set_intros(1) mset_eq_setD)
  show ?case
  proof (cases "yo_fd_close setmask os h s")
    case None
    with close_returns [OF Cons.prems(1) h] show ?thesis by blast
  next
    case (Some s1)
    from io_close [OF Cons.prems(1) h Some] obtain zs where zs: "io_inv os s1 (remove1 h hs) F zs" by auto
    have "mset order = mset (remove1 h hs)" by (simp add: Cons.prems(2) [symmetric])
    from Cons.IH [OF zs this] Cons.prems(3) Some show ?thesis by simp
  qed
qed

lemma drains:
  assumes "accounts os (hs, s, started, finished)" and order: "mset order = mset hs"
    and args: "size finished + length args = size started"
  shows "case close_handles setmask os order s of None \<Rightarrow> \<exists>fd. interrupted_for_ever os fd
    | Some s1 \<Rightarrow> \<exists>rs s2. polls setmask wait os q args s1 = Some (rs, s2) \<and> fst ` set rs \<subseteq> {YO_OK}
        \<and> finished + mset (map snd rs) = started \<and> ready s2 q []"
proof -
  from assms(1) obtain F ys where inv: "io_inv os s hs F ys" and acc: "started = finished + pending hs F ys"
    by (auto simp: accounts_def)
  show ?thesis
  proof (cases "close_handles setmask os order s")
    case None
    with close_handles_returns [OF inv order] show ?thesis by simp
  next
    case (Some s1)
    from close_handles_pending [OF inv order this] obtain zs where
      zs: "io_inv os s1 [] F zs" "mset (map fst zs) = pending hs F ys" by blast
    have "length args = length zs" using args arg_cong [OF zs(2), of size] by (simp add: acc)
    from polls_take_ready [OF zs(1) this] obtain s2 where
      "polls setmask wait os q args s1 = Some (map (\<lambda>y. (YO_OK, fst y)) zs, s2)" "io_inv os s2 [] F []" by blast
    then show ?thesis
      using zs(2) by (auto simp: Some acc image_mset.compositionality comp_def intro: io_ready)
  qed
qed

end

section \<open>A process in which nothing has been made yet\<close>

definition blank :: "'w \<Rightarrow> 'w pl" where
  "blank w = \<lparr>world = w, errno = 0, trace = [], m_byte = (\<lambda>_. 0), m_size = (\<lambda>_. 4),
     m_ptr = (\<lambda>_. NULL), m_int = (\<lambda>_. 0), m_u16 = (\<lambda>_. 0), m_addr = m_addr (idle ()), m_stat = m_stat (idle ()),
     fd_head = (\<lambda>_. NULL), fd_owned = (\<lambda>_. False), fd_fd = (\<lambda>_. 0),
     fd_read_n = (\<lambda>_. 0), fd_write_n = (\<lambda>_. 0), dir_dir = (\<lambda>_. NULL), tty_fd = (\<lambda>_. 0),
     tty_mode = tty_mode (idle ()), proc_pid = (\<lambda>_. 0),
     rq_queue = (\<lambda>_. NULL), rq_cell = (\<lambda>_. Cancel PlCancelCb), rq_word = (\<lambda>_. 0), q_head = (\<lambda>_. NULL),
     q_pool = (\<lambda>_. NULL), m_code = (\<lambda>_. YO_OK),
     ioq_next = (\<lambda>_. NULL), ioq_slot = (\<lambda>_. NextSlot NULL), ioq_fd = (\<lambda>_. NULL), ioq_kind = (\<lambda>_. YOI_PL_READ),
     ioq_buff = (\<lambda>_. NULL), ioq_pn = (\<lambda>_. NULL), ioq_ptr = (\<lambda>_. 0), ioq_pclient = (\<lambda>_. 0), ioq_paddr = (\<lambda>_. 0),
     ioq_pport = (\<lambda>_. 0), notify_read = (\<lambda>_. 0), notify_write = (\<lambda>_. 0)\<rparr>"

end
