(* ===== verification/Client.thy ===== *)
theory Client
  imports AsyncIO Epoll
begin

text \<open>
  The asynchronous interface as its client sees it on Linux, with the backend of \<open>src/unix/epoll.c\<close> as an interpretation of the
  contract in the theory \<open>AsyncIO\<close>. The calls are the steps of the relation \<open>client_step\<close>. Cancelling is not among them, as
  \<open>yo_req_cancel\<close> breaks the ready list (theory \<open>Epoll\<close>).
\<close>

section \<open>What is assumed of Linux\<close>

text \<open>
  Beside the laws of \<open>epoll_ctl\<close>: it refuses a file that cannot be watched with \<open>EPERM\<close>, and no other; once a descriptor is in the
  list its entry can be changed and removed. \<open>epoll_wait\<close> reports entries of the list. A new list is empty, and a new descriptor is in
  no list. Closing a descriptor touches no other entry, and the other calls touch none.
\<close>

definition client_os ::
  "('w \<Rightarrow> int \<Rightarrow> int \<Rightarrow> (u32 \<times> addr) option) \<Rightarrow> ('w \<Rightarrow> resource set) \<Rightarrow> ('w \<Rightarrow> int \<Rightarrow> bool) \<Rightarrow> 'w os \<Rightarrow> bool" where
  "client_os I U W os \<longleftrightarrow> epoll_os I os \<and> resource_os U W os
     \<and> (\<forall>w ep opr fd ev d. let r = fst (os w (CEpollCtl ep opr fd ev d)) in
          if W w fd then eno r \<notin> {Some EPERM, Some EACCES} \<and> (I w ep fd \<noteq> None \<and> opr \<noteq> EPOLL_CTL_ADD \<longrightarrow> ret r = 0)
          else opr \<noteq> EPOLL_CTL_DEL \<longrightarrow> ret r \<noteq> 0 \<and> eno r = Some EPERM)
     \<and> (\<forall>w ep. 0 < ret (fst (os w (CEpollWait ep))) \<longrightarrow>
          (\<exists>fd ev. I w ep fd = Some (ev, snd (r_event (fst (os w (CEpollWait ep)))))))
     \<and> (\<forall>w k fd. io_call k \<and> Fd fd \<in> set (acquires (k, fst (os w k))) \<longrightarrow>
          0 \<le> fd \<and> fd < 2 ^ 31 \<and> (\<forall>ep. I w ep fd = None))
     \<and> (\<forall>w k. io_call k \<longrightarrow> (let (r, w') = os w k in case k of
          CEpollCtl _ _ _ _ _ \<Rightarrow> True
        | CEpollCreate \<Rightarrow> I w' = (if ret r < 0 then I w else (I w)(ret r := \<lambda>_. None))
        | CClose g \<Rightarrow> \<forall>ep fd. ep \<noteq> g \<and> (fd \<noteq> g \<or> I w ep g = None) \<longrightarrow> I w' ep fd = I w ep fd
        | _ \<Rightarrow> I w' = I w))"

lemma client_epoll: "client_os I U W os \<Longrightarrow> epoll_os I os"
  by (simp add: client_os_def)

lemma client_resources: "client_os I U W os \<Longrightarrow> resource_os U W os"
  by (simp add: client_os_def)

lemma client_posix: "client_os I U W os \<Longrightarrow> posix_os os"
  by (simp add: client_os_def epoll_os_def)

lemma client_ctl:
  assumes "client_os I U W os"
  shows "W (world s) fd \<Longrightarrow> eno (reply_of os (CEpollCtl ep opr fd ev d) s) \<notin> {Some EPERM, Some EACCES}"
    and "W (world s) fd \<Longrightarrow> I (world s) ep fd \<noteq> None \<Longrightarrow> opr \<noteq> EPOLL_CTL_ADD \<Longrightarrow> ret (reply_of os (CEpollCtl ep opr fd ev d) s) = 0"
    and "\<not> W (world s) fd \<Longrightarrow> opr \<noteq> EPOLL_CTL_DEL \<Longrightarrow>
      ret (reply_of os (CEpollCtl ep opr fd ev d) s) \<noteq> 0 \<and> eno (reply_of os (CEpollCtl ep opr fd ev d) s) = Some EPERM"
proof -
  have "\<forall>w ep opr fd ev d. let r = fst (os w (CEpollCtl ep opr fd ev d)) in
          if W w fd then eno r \<notin> {Some EPERM, Some EACCES} \<and> (I w ep fd \<noteq> None \<and> opr \<noteq> EPOLL_CTL_ADD \<longrightarrow> ret r = 0)
          else opr \<noteq> EPOLL_CTL_DEL \<longrightarrow> ret r \<noteq> 0 \<and> eno r = Some EPERM"
    using assms unfolding client_os_def by (elim conjE)
  then have law: "let r = reply_of os (CEpollCtl ep opr fd ev d) s in
          if W (world s) fd then eno r \<notin> {Some EPERM, Some EACCES} \<and> (I (world s) ep fd \<noteq> None \<and> opr \<noteq> EPOLL_CTL_ADD \<longrightarrow> ret r = 0)
          else opr \<noteq> EPOLL_CTL_DEL \<longrightarrow> ret r \<noteq> 0 \<and> eno r = Some EPERM"
    unfolding reply_of_def by (elim allE)
  show "W (world s) fd \<Longrightarrow> eno (reply_of os (CEpollCtl ep opr fd ev d) s) \<notin> {Some EPERM, Some EACCES}"
    "W (world s) fd \<Longrightarrow> I (world s) ep fd \<noteq> None \<Longrightarrow> opr \<noteq> EPOLL_CTL_ADD \<Longrightarrow> ret (reply_of os (CEpollCtl ep opr fd ev d) s) = 0"
    "\<not> W (world s) fd \<Longrightarrow> opr \<noteq> EPOLL_CTL_DEL \<Longrightarrow>
      ret (reply_of os (CEpollCtl ep opr fd ev d) s) \<noteq> 0 \<and> eno (reply_of os (CEpollCtl ep opr fd ev d) s) = Some EPERM"
    using law by (simp_all add: Let_def)
qed

lemma client_wait:
  "client_os I U W os \<Longrightarrow> 0 < ret (reply_of os (CEpollWait ep) s) \<Longrightarrow>
     \<exists>fd ev. I (world s) ep fd = Some (ev, snd (r_event (reply_of os (CEpollWait ep) s)))"
  by (simp add: client_os_def reply_of_def)

lemma client_new:
  assumes "client_os I U W os" and "io_call k" and "Fd fd \<in> set (acquires (k, reply_of os k s))"
  shows "0 \<le> fd" and "fd < 2 ^ 31" and "I (world s) ep fd = None"
proof -
  have "\<forall>w k fd. io_call k \<and> Fd fd \<in> set (acquires (k, fst (os w k))) \<longrightarrow> 0 \<le> fd \<and> fd < 2 ^ 31 \<and> (\<forall>ep. I w ep fd = None)"
    using assms(1) unfolding client_os_def by (elim conjE)
  then show "0 \<le> fd" "fd < 2 ^ 31" "I (world s) ep fd = None" using assms(2,3) by (auto simp: reply_of_def)
qed

lemma client_call:
  assumes "client_os I U W os" and "io_call k"
  shows "(\<forall>a b c d e. k \<noteq> CEpollCtl a b c d e) \<Longrightarrow> k \<noteq> CEpollCreate \<Longrightarrow> (\<forall>g. k \<noteq> CClose g) \<Longrightarrow> I (world (after os k s)) = I (world s)"
    and "k = CEpollCreate \<Longrightarrow> I (world (after os k s)) = (if ret (reply_of os k s) < 0 then I (world s)
      else (I (world s))(ret (reply_of os k s) := \<lambda>_. None))"
    and "k = CClose g \<Longrightarrow> ep \<noteq> g \<Longrightarrow> fd \<noteq> g \<or> I (world s) ep g = None \<Longrightarrow> I (world (after os k s)) ep fd = I (world s) ep fd"
proof -
  obtain r w' where run: "os (world s) k = (r, w')" by fastforce
  have "\<forall>w k. io_call k \<longrightarrow> (let (r, w') = os w k in case k of
          CEpollCtl _ _ _ _ _ \<Rightarrow> True
        | CEpollCreate \<Rightarrow> I w' = (if ret r < 0 then I w else (I w)(ret r := \<lambda>_. None))
        | CClose g \<Rightarrow> \<forall>ep fd. ep \<noteq> g \<and> (fd \<noteq> g \<or> I w ep g = None) \<longrightarrow> I w' ep fd = I w ep fd
        | _ \<Rightarrow> I w' = I w)"
    using assms(1) unfolding client_os_def by (elim conjE)
  from mp [OF spec [OF spec [OF this, of "world s"], of k] assms(2)] have law: "case k of
          CEpollCtl _ _ _ _ _ \<Rightarrow> True
        | CEpollCreate \<Rightarrow> I w' = (if ret r < 0 then I (world s) else (I (world s))(ret r := \<lambda>_. None))
        | CClose g \<Rightarrow> \<forall>ep fd. ep \<noteq> g \<and> (fd \<noteq> g \<or> I (world s) ep g = None) \<longrightarrow> I w' ep fd = I (world s) ep fd
        | _ \<Rightarrow> I w' = I (world s)"
    unfolding run by simp
  have eq: "reply_of os k s = r" "world (after os k s) = w'" using run by (simp_all add: reply_of_def)
  show "(\<forall>a b c d e. k \<noteq> CEpollCtl a b c d e) \<Longrightarrow> k \<noteq> CEpollCreate \<Longrightarrow> (\<forall>g. k \<noteq> CClose g) \<Longrightarrow> I (world (after os k s)) = I (world s)"
    using law unfolding eq by (cases k) simp_all
  show "k = CEpollCreate \<Longrightarrow> I (world (after os k s)) = (if ret (reply_of os k s) < 0 then I (world s)
      else (I (world s))(ret (reply_of os k s) := \<lambda>_. None))"
    using law unfolding eq by simp
  show "k = CClose g \<Longrightarrow> ep \<noteq> g \<Longrightarrow> fd \<noteq> g \<or> I (world s) ep g = None \<Longrightarrow> I (world (after os k s)) ep fd = I (world s) ep fd"
    using law unfolding eq by simp
qed

lemma conv_eperm: "yoi_unix_conv_errno e = YO_EPERM \<longleftrightarrow> e = EPERM \<or> e = EACCES"
  by (simp add: yoi_unix_conv_errno_def unix_errno_cases_def)

text \<open>Calls that neither take nor give back, and leave the lists alone.\<close>

definition inert :: "call \<Rightarrow> bool" where
  "inert k = (case k of CRead _ _ \<Rightarrow> True | CWrite _ _ \<Rightarrow> True | CNonblock _ \<Rightarrow> True | CEpollWait _ \<Rightarrow> True
     | CTimerfdSettime _ _ _ _ \<Rightarrow> True | CClock _ \<Rightarrow> True | CPoll _ _ \<Rightarrow> True | CLock _ \<Rightarrow> True | CUnlock _ \<Rightarrow> True
     | CMutexNew _ \<Rightarrow> True | _ \<Rightarrow> False)"

lemma inertD:
  "inert k \<Longrightarrow> io_call k \<and> (\<forall>r. acquires (k, r) = [] \<and> releases (k, r) = []) \<and> (\<forall>a b c d e. k \<noteq> CEpollCtl a b c d e)
     \<and> k \<noteq> CEpollCreate \<and> (\<forall>g. k \<noteq> CClose g)"
  by (cases k) (simp_all add: inert_def io_call_def)

lemma inert_resources:
  assumes "resource_os U W os" and "inert k"
  shows "U (world s) \<subseteq> U (world (after os k s))" and "W (world (after os k s)) = W (world s)"
  using resource_call [OF assms(1), where k = k and s = s] inertD [OF assms(2)] by (auto simp: fun_eq_iff)

lemma inert_lists: "client_os I U W os \<Longrightarrow> inert k \<Longrightarrow> I (world (after os k s)) = I (world s)"
  using client_call(1) inertD by metis

text \<open>What the queue \<open>q\<close> keeps for itself: the timer and the list; and the data of the timer and the pipe.\<close>

definition ep_sane ::
  "('w \<Rightarrow> int \<Rightarrow> int \<Rightarrow> (u32 \<times> addr) option) \<Rightarrow> ('w \<Rightarrow> resource set) \<Rightarrow> ('w \<Rightarrow> int \<Rightarrow> bool) \<Rightarrow> addr \<Rightarrow> 'w os \<Rightarrow> ('w, 'z) ep_scheme \<Rightarrow> bool" where
  "ep_sane I U W q os s \<longleftrightarrow> client_os I U W os \<and> Fd (epoll_fd s q) \<in> U (world s) \<and> Fd (timer_fd s q) \<in> U (world s)"

definition ep_reserved :: "addr \<Rightarrow> ('w, 'z) ep_scheme \<Rightarrow> resource \<Rightarrow> bool" where
  "ep_reserved q s x \<longleftrightarrow> x = Fd (epoll_fd s q) \<or> x = Fd (timer_fd s q)"

definition ep_internal :: "addr \<Rightarrow> ('w, 'z) ep_scheme \<Rightarrow> addr \<Rightarrow> bool" where
  "ep_internal q s d \<longleftrightarrow> d = NULL \<or> data_fd d = timer_fd s q"

lemma own_fields: "pl.more s' = pl.more s \<Longrightarrow> epoll_fd s' = epoll_fd s \<and> timer_fd s' = timer_fd s" for s s' :: "('w, 'z) ep_scheme"
  by (cases s; cases s') simp

lemma ctl_resources:
  assumes "resource_os U W os"
  shows "U (world s) \<subseteq> U (world (after os (CEpollCtl ep opr fd ev d) s))"
    and "W (world (after os (CEpollCtl ep opr fd ev d) s)) = W (world s)"
  using resource_call [OF assms, where k = "CEpollCtl ep opr fd ev d" and s = s] by (auto simp: fun_eq_iff io_call_def)

lemma setmask_calls:
  assumes "epoll_setmask os q u fd m s = (c, s')"
  shows "\<exists>opr. s' = after os (CEpollCtl (epoll_fd s q) opr fd (realmask_of m) u) s
     \<or> s' = after os (CEpollCtl (epoll_fd s q) EPOLL_CTL_ADD fd (realmask_of m) u) (after os (CEpollCtl (epoll_fd s q) opr fd (realmask_of m) u) s)"
  using assms by (auto simp: epoll_setmask_def sys_simps Let_def split: if_splits)

lemma setmask_resources:
  assumes "resource_os U W os" and "epoll_setmask os q u fd m s = (c, s')"
  shows "U (world s) \<subseteq> U (world s')" and "W (world s') = W (world s)"
  using setmask_calls [OF assms(2)] ctl_resources [OF assms(1)] by (metis subset_trans) (metis setmask_calls [OF assms(2)] ctl_resources(2) [OF assms(1)])

lemma ctl_failure:
  assumes "epoll_os I os" and "ret (reply_of os (CEpollCtl ep opr fd ev d) s) \<noteq> 0"
  shows "ret (reply_of os (CEpollCtl ep opr fd ev d) s) < 0"
proof -
  have "\<forall>w ep opr fd ev d. case os w (CEpollCtl ep opr fd ev d) of (r, w') \<Rightarrow>
          (\<forall>ep' fd'. ep' \<noteq> ep \<or> fd' \<noteq> fd \<longrightarrow> I w' ep' fd' = I w ep' fd')
        \<and> (if ret r = 0 then I w' ep fd = (if opr = EPOLL_CTL_DEL then None else Some (ev, d))
           else ret r < 0 \<and> I w' ep fd = I w ep fd \<and> (eno r = Some ENOENT \<longrightarrow> I w ep fd = None))"
    using assms(1) unfolding epoll_os_def Let_def by (elim conjE)
  then have "case os (world s) (CEpollCtl ep opr fd ev d) of (r, w') \<Rightarrow>
          (\<forall>ep' fd'. ep' \<noteq> ep \<or> fd' \<noteq> fd \<longrightarrow> I w' ep' fd' = I (world s) ep' fd')
        \<and> (if ret r = 0 then I w' ep fd = (if opr = EPOLL_CTL_DEL then None else Some (ev, d))
           else ret r < 0 \<and> I w' ep fd = I (world s) ep fd \<and> (eno r = Some ENOENT \<longrightarrow> I (world s) ep fd = None))"
    by (elim allE)
  with assms(2) show ?thesis by (simp add: reply_of_def split_beta)
qed

text \<open>Which code \<open>setmask\<close> gives.\<close>

lemma setmask_code:
  assumes os: "client_os I U W os" and run: "epoll_setmask os q u fd m s = (c, s')"
  shows "W (world s) fd \<Longrightarrow> c \<noteq> YO_EPERM"
    and "W (world s) fd \<Longrightarrow> epoll_registered I s q fd \<noteq> None \<Longrightarrow> c = YO_OK"
    and "\<not> W (world s) fd \<Longrightarrow> m \<noteq> 0 \<Longrightarrow> c = YO_EPERM"
proof -
  let ?ctl = "\<lambda>opr. CEpollCtl (epoll_fd s q) opr fd (realmask_of m) u"
  let ?mod = "after os (?ctl EPOLL_CTL_MOD) s"
  note ctl = client_ctl [OF os]
  have errno: "yoi_unix_conv_errno (errno (after os (?ctl opr) t)) \<noteq> YO_EPERM"
    if "W (world t) fd" "ret (reply_of os (?ctl opr) t) \<noteq> 0" for opr and t :: "('a, 'b) ep_scheme"
  proof -
    have "ret (reply_of os (?ctl opr) t) < 0" by (rule ctl_failure [OF client_epoll [OF os] that(2)])
    then obtain e where "eno (reply_of os (?ctl opr) t) = Some e"
      using reply_failure [OF client_posix [OF os], of "?ctl opr" t] by (auto simp: fails_def)
    with ctl(1) [OF that(1), of "epoll_fd s q" opr "realmask_of m" u] show ?thesis by (simp add: after_errno conv_eperm)
  qed
  have w: "W (world ?mod) fd = W (world s) fd" by (simp only: ctl_resources(2) [OF client_resources [OF os]])
  show "W (world s) fd \<Longrightarrow> c \<noteq> YO_EPERM"
    using run errno [of s EPOLL_CTL_DEL] errno [of s EPOLL_CTL_MOD] errno [of ?mod EPOLL_CTL_ADD] w
    by (auto simp: epoll_setmask_def sys_simps Let_def simp del: world_after split: if_splits)
  show "W (world s) fd \<Longrightarrow> epoll_registered I s q fd \<noteq> None \<Longrightarrow> c = YO_OK"
    using run ctl(2) [of s fd "epoll_fd s q" EPOLL_CTL_DEL "realmask_of m" u] ctl(2) [of s fd "epoll_fd s q" EPOLL_CTL_MOD "realmask_of m" u]
    by (auto simp: epoll_setmask_def sys_simps Let_def epoll_registered_def split: if_splits option.splits)
  show "\<not> W (world s) fd \<Longrightarrow> m \<noteq> 0 \<Longrightarrow> c = YO_EPERM"
    using run ctl(3) [of s fd EPOLL_CTL_MOD "epoll_fd s q" "realmask_of m" u]
    by (auto simp: epoll_setmask_def sys_simps Let_def after_errno conv_eperm)
qed

text \<open>What waiting leaves alone.\<close>

definition calm ::
  "('w \<Rightarrow> int \<Rightarrow> int \<Rightarrow> (u32 \<times> addr) option) \<Rightarrow> ('w \<Rightarrow> resource set) \<Rightarrow> ('w \<Rightarrow> int \<Rightarrow> bool) \<Rightarrow> ('w, 'z) ep_scheme \<Rightarrow> ('w, 'z) ep_scheme \<Rightarrow> bool" where
  "calm I U W s s' \<longleftrightarrow> same_requests s s' \<and> epoll_fd s' = epoll_fd s \<and> timer_fd s' = timer_fd s
     \<and> I (world s') = I (world s) \<and> U (world s) \<subseteq> U (world s') \<and> W (world s') = W (world s)"

lemma calm_refl: "calm I U W s s"
  by (simp add: calm_def same_requests_refl)

lemma calm_trans: "calm I U W s t \<Longrightarrow> calm I U W t u \<Longrightarrow> calm I U W s u"
  unfolding calm_def using same_requests_trans by (metis subset_trans)

lemma calm_after: "client_os I U W os \<Longrightarrow> inert k \<Longrightarrow> calm I U W s (after os k s)"
  using inert_resources [OF client_resources, of I U W os k s] inert_lists [of I U W os k s]
  by (simp add: calm_def same_requests_after del: world_after)

lemma calm_step: "calm I U W s t \<Longrightarrow> client_os I U W os \<Longrightarrow> inert k \<Longrightarrow> calm I U W s (after os k t)"
  using calm_trans calm_after by blast

lemma calm_wait:
  fixes s :: "('w, 'z) ep_scheme"
  assumes os: "client_os I U W os" and run: "epoll_wait_loop os ep s = Some (r, s')"
  shows "calm I U W s s' \<and> 0 \<le> ret r \<and> (0 < ret r \<longrightarrow> (\<exists>fd ev. I (world s) ep fd = Some (ev, snd (r_event r))))"
proof -
  let ?P = "\<lambda>os' ep (s :: ('w, 'z) ep_scheme) x. os' = os \<longrightarrow>
    calm I U W s (snd x) \<and> 0 \<le> ret (fst x) \<and> (0 < ret (fst x) \<longrightarrow> (\<exists>fd ev. I (world s) ep fd = Some (ev, snd (r_event (fst x)))))"
  have step: "?P os' ep s x" if IH: "\<And>os' ep s x. rep os' ep s = Some x \<Longrightarrow> ?P os' ep s x"
    and body: "(let (r, s) = syscall os' (CEpollWait ep) s
      in if ret r < 0 then if errno s \<noteq> EINTR then None else rep os' ep s else Some (r, s)) = Some x" for rep os' ep s x
  proof
    assume eq: "os' = os"
    let ?r = "reply_of os (CEpollWait ep) s" let ?t = "after os (CEpollWait ep) s"
    have once: "calm I U W s ?t" by (rule calm_after [OF os]) (simp add: inert_def)
    show "calm I U W s (snd x) \<and> 0 \<le> ret (fst x) \<and> (0 < ret (fst x) \<longrightarrow> (\<exists>fd ev. I (world s) ep fd = Some (ev, snd (r_event (fst x)))))"
    proof (cases "ret ?r < 0")
      case True
      with body eq have "rep os ep ?t = Some x" by (auto simp: sys_simps Let_def split: if_splits)
      with IH have ih: "calm I U W ?t (snd x) \<and> 0 \<le> ret (fst x)
          \<and> (0 < ret (fst x) \<longrightarrow> (\<exists>fd ev. I (world ?t) ep fd = Some (ev, snd (r_event (fst x)))))" by blast
      have "I (world ?t) = I (world s)" using once unfolding calm_def by (elim conjE)
      with ih calm_trans [OF once] show ?thesis by (simp only:) blast
    next
      case False
      with body eq have "x = (?r, ?t)" by (simp add: sys_simps Let_def)
      with False once client_wait [OF os, of ep s] show ?thesis by simp
    qed
  qed
  have "?P os' ep s x" if "epoll_wait_loop os' ep s = Some x" for os' ep x and s :: "('w, 'z) ep_scheme"
    using epoll_wait_loop.raw_induct [OF _ that, of ?P] step by blast
  with run show ?thesis by fastforce
qed

lemma epoll_poll_effect:
  fixes s :: "('w, 'z) ep_scheme"
  assumes os: "client_os I U W os" and run: "epoll_poll os q deadline s = Some (c, u, evn, s')"
  shows "calm I U W s s' \<and> (c = YO_OK \<longrightarrow> (\<exists>fd ev. I (world s) (epoll_fd s q) fd = Some (ev, u) \<and> data_fd u \<noteq> timer_fd s q))"
proof -
  have time: "calm I U W s t" if "yo_time_now os YO_CLOCK_MONO s = Some (now, t)" for now t
    using that by (auto simp: yo_time_now_def sys_simps Let_def inert_def intro!: calm_after [OF os] split: if_splits)
  have event: "calm I U W s s' \<and> (c = YO_OK \<longrightarrow> (\<exists>fd ev. I (world s) (epoll_fd s q) fd = Some (ev, u) \<and> data_fd u \<noteq> timer_fd s q))"
    if t: "calm I U W s t" and body: "do {
         (r, s) \<leftarrow> epoll_wait_loop os (epoll_fd t q) t;
         if ret r = 0 then Some (YO_ETIMEOUT, NULL, 0, s)
         else
           let (events, data) = r_event r
           in if data_fd data = timer_fd s q then
                if D = None then None
                else Some (YO_ETIMEOUT, NULL, 0, ignore os (CRead (data_fd data) 8) s)
              else Some (YO_OK, data, epoll_ready events, s)
       } = Some (c, u, evn, s')" for D and t :: "('w, 'z) ep_scheme"
  proof -
    obtain r t1 where w: "epoll_wait_loop os (epoll_fd t q) t = Some (r, t1)"
      using body by (cases "epoll_wait_loop os (epoll_fd t q) t") auto
    note wk = calm_wait [OF os w]
    have c1: "calm I U W s t1" using calm_trans [OF t] wk by blast
    have eq: "epoll_fd t = epoll_fd s" "timer_fd t1 = timer_fd s" "I (world t) = I (world s)"
      using t c1 by (simp_all add: calm_def)
    obtain ev d where ev: "r_event r = (ev, d)" by fastforce
    show ?thesis
    proof (cases "ret r = 0 \<or> data_fd d = timer_fd t1 q")
      case True
      with body w ev c1 calm_step [OF c1 os, of "CRead (data_fd d) 8"] show ?thesis
        by (auto simp: sys_simps inert_def split: if_splits)
    next
      case False
      with wk ev have "\<exists>fd e. I (world s) (epoll_fd s q) fd = Some (e, d)" by (auto simp: eq)
      moreover have "s' = t1" "u = d" using body w ev False by (auto split: if_splits)
      ultimately show ?thesis using c1 False by (auto simp: eq)
    qed
  qed
  show ?thesis
  proof (cases deadline)
    case None
    then show ?thesis
      using run event [OF calm_after [OF os], of "CTimerfdSettime (timer_fd s q) False 0 0" None]
      by (simp add: epoll_poll_def sys_simps inert_def)
  next
    case (Some d)
    with run obtain now t where t: "yo_time_now os YO_CLOCK_MONO s = Some (now, t)"
      by (cases "yo_time_now os YO_CLOCK_MONO s") (auto simp: epoll_poll_def)
    show ?thesis
    proof (cases "yo_timecmp now d > 0")
      case True
      with run Some t time [OF t] show ?thesis by (simp add: epoll_poll_def)
    next
      case False
      with run Some t event [OF calm_step [OF time [OF t] os], of "CTimerfdSettime (timer_fd t q) True (sint (sec d)) (uint (nsec d))" "Some d"]
      show ?thesis by (simp add: epoll_poll_def sys_simps inert_def)
    qed
  qed
qed

lemma registered_lists:
  "I (world s') (epoll_fd s' q) = I (world s) (epoll_fd s q) \<Longrightarrow> epoll_registered I s' q = epoll_registered I s q"
  by (simp add: epoll_registered_def fun_eq_iff)

lemma registered_some: "epoll_registered I s q fd = Some (m, d) \<Longrightarrow> \<exists>ev. I (world s) (epoll_fd s q) fd = Some (ev, d)"
  by (auto simp: epoll_registered_def split: option.splits)

lemma ep_sane_os: "ep_sane I U W q os s \<Longrightarrow> client_os I U W os"
  by (simp add: ep_sane_def)

lemma ep_sane_step:
  assumes "ep_sane I U W q os s" and "epoll_fd s' q = epoll_fd s q" and "timer_fd s' q = timer_fd s q"
    and "\<And>x. ep_reserved q s x \<Longrightarrow> x \<in> U (world s) \<Longrightarrow> x \<in> U (world s')"
  shows "ep_sane I U W q os s'"
  using assms by (simp add: ep_sane_def ep_reserved_def)

text \<open>A call that gives nothing of the backend's away.\<close>

lemma ep_call:
  assumes sane: "ep_sane I U W q os s" and k: "io_call k" "\<forall>a b c d e. k \<noteq> CEpollCtl a b c d e"
    and given: "\<And>x. x \<in> set (releases (k, reply_of os k s)) \<Longrightarrow>
      \<not> ep_reserved q s x \<and> (\<forall>fd. x = Fd fd \<longrightarrow> epoll_registered I s q fd = None)"
  shows "ep_sane I U W q os (after os k s)" and "epoll_registered I (after os k s) q = epoll_registered I s q"
proof -
  note os = ep_sane_os [OF sane]
  have "x \<in> U (world (after os k s))" if "ep_reserved q s x" "x \<in> U (world s)" for x
    using resource_call(1) [OF client_resources [OF os] k(1) that(2)] given that(1) by blast
  then show "ep_sane I U W q os (after os k s)" by (intro ep_sane_step [OF sane]) simp_all
  have "I (world (after os k s)) (epoll_fd s q) = I (world s) (epoll_fd s q)"
  proof (cases "k = CEpollCreate")
    case True
    have "epoll_fd s q \<noteq> ret (reply_of os k s)" if "0 \<le> ret (reply_of os k s)"
      using resource_call(3) [OF client_resources [OF os] k(1), of "Fd (epoll_fd s q)" s] sane that by (auto simp: True ep_sane_def)
    with client_call(2) [OF os k(1) True, of s] show ?thesis by (auto simp del: world_after)
  next
    case create: False
    show ?thesis
    proof (cases "\<exists>g. k = CClose g")
      case True
      then obtain g where g: "k = CClose g" by blast
      then have "\<not> ep_reserved q s (Fd g)" "epoll_registered I s q g = None" using given [of "Fd g"] by simp_all
      then have "epoll_fd s q \<noteq> g" "I (world s) (epoll_fd s q) g = None"
        by (auto simp: ep_reserved_def epoll_registered_def split: option.splits)
      with client_call(3) [OF os k(1) g] show ?thesis by (intro ext) blast
    next
      case False
      with client_call(1) [OF os k create, where s = s] show ?thesis by (simp del: world_after)
    qed
  qed
  then show "epoll_registered I (after os k s) q = epoll_registered I s q" by (intro registered_lists) simp
qed

interpretation ea: async_backend epoll_setmask "ep_sane I U W q" "epoll_registered I" epoll_poll q U W "ep_reserved q" "ep_internal q"
  for I U W q
proof
  fix os p u fd fd' m s s' c k
  assume sane: "ep_sane I U W q os s"
  note law = client_epoll [OF ep_sane_os [OF sane]]
  show "epoll_registered I s' p fd = (if m = 0 then None else Some (m, u))"
    if "epoll_setmask os p u fd m s = (YO_OK, s')" "m AND 3 = m"
    using ep.setmask_sets [OF law that] .
  show "ep_sane I U W q os s' \<and> same_requests s s' \<and> (fd' \<noteq> fd \<longrightarrow> epoll_registered I s' p fd' = epoll_registered I s p fd')"
    if run: "epoll_setmask os p u fd m s = (c, s')"
  proof -
    have "epoll_fd s' = epoll_fd s" "timer_fd s' = timer_fd s"
      using epoll_setmask_effect(1) [OF law run] setmask_path(2) [OF law run] by simp_all
    moreover have "U (world s) \<subseteq> U (world s')" by (rule setmask_resources(1) [OF client_resources [OF ep_sane_os [OF sane]] run])
    ultimately have "ep_sane I U W q os s'" by (intro ep_sane_step [OF sane]) auto
    then show ?thesis using ep.setmask_frame [OF law run] by blast
  qed
  show "epoll_registered I s' p = epoll_registered I s p" if "epoll_setmask os p u fd m s = (c, s')" "c \<noteq> YO_OK"
    using ep.setmask_error [OF law that] .
  show "ep_sane I U W q os (after os k s) \<and> epoll_registered I (after os k s) = epoll_registered I s" if "quiet k"
  proof -
    have "inert k" using that by (cases k) (simp_all add: quiet_def inert_def)
    then have "calm I U W s (after os k s)" by (rule calm_after [OF ep_sane_os [OF sane]])
    then have "ep_sane I U W q os (after os k s)" by (intro ep_sane_step [OF sane]) (auto simp: calm_def simp del: world_after)
    then show ?thesis using ep.quiet_calls [OF law that] by blast
  qed
next
  fix os :: "'a os" and s s' :: "('a, 'b) ep_scheme"
  assume w: "world s' = world s" and m: "pl.more s' = pl.more s"
  then show "ep_sane I U W q os s' = ep_sane I U W q os s \<and> epoll_registered I s' = epoll_registered I s"
    using own_fields [OF m] by (simp add: ep_sane_def epoll_registered_def fun_eq_iff)
next
  fix os :: "'a os" and s :: "('a, 'b) ep_scheme"
  assume sane: "ep_sane I U W q os s"
  show "posix_os os" by (rule client_posix [OF ep_sane_os [OF sane]])
  show "resource_os U W os" by (rule client_resources [OF ep_sane_os [OF sane]])
  show "x \<in> U (world s)" if "ep_reserved q s x" for x
    using that sane by (auto simp: ep_reserved_def ep_sane_def)
next
  fix s s' :: "('a, 'b) ep_scheme"
  assume "pl.more s' = pl.more s"
  from own_fields [OF this] show "ep_reserved q s' = ep_reserved q s \<and> ep_internal q s' = ep_internal q s"
    by (simp add: ep_reserved_def ep_internal_def fun_eq_iff)
next
  fix os u fd m s c s' x
  assume sane: "ep_sane I U W q os s" and run: "epoll_setmask os q u fd m s = (c, s')"
  note os = ep_sane_os [OF sane]
  note law = client_epoll [OF os]
  show "(W (world s) fd \<longrightarrow> c \<noteq> YO_EPERM \<and> (epoll_registered I s q fd \<noteq> None \<longrightarrow> c = YO_OK))
      \<and> (\<not> W (world s) fd \<and> m \<noteq> 0 \<longrightarrow> c = YO_EPERM)"
    using setmask_code [OF os run] by blast
  have "epoll_fd s' = epoll_fd s" "timer_fd s' = timer_fd s"
    using epoll_setmask_effect(1) [OF law run] setmask_path(2) [OF law run] by simp_all
  then show "W (world s') = W (world s) \<and> ep_internal q s' = ep_internal q s
      \<and> (x \<in> U (world s) \<and> \<not> ep_reserved q s x \<longrightarrow> x \<in> U (world s') \<and> \<not> ep_reserved q s' x)"
    using setmask_resources [OF client_resources [OF os] run] by (auto simp: ep_internal_def ep_reserved_def fun_eq_iff)
next
  fix os deadline s c u evn s' x
  assume sane: "ep_sane I U W q os s" and run: "epoll_poll os q deadline s = Some (c, u, evn, s')"
  note os = ep_sane_os [OF sane]
  note eff = epoll_poll_effect [OF os run]
  have cl: "same_requests s s'" "epoll_fd s' = epoll_fd s" "timer_fd s' = timer_fd s" "I (world s') = I (world s)"
    "U (world s) \<subseteq> U (world s')" "W (world s') = W (world s)"
    using eff unfolding calm_def by blast+
  have "ep_sane I U W q os s'" by (rule ep_sane_step [OF sane]) (use cl in auto)
  moreover have "epoll_registered I s' q = epoll_registered I s q" by (rule registered_lists) (simp add: cl)
  moreover have "\<exists>fd m. epoll_registered I s q fd = Some (m, u) \<and> \<not> ep_internal q s u" if "c = YO_OK \<and> u \<noteq> NULL"
  proof -
    from eff that obtain fd ev where "I (world s) (epoll_fd s q) fd = Some (ev, u)" "data_fd u \<noteq> timer_fd s q" by blast
    with that show ?thesis by (intro exI [of _ fd] exI) (simp add: epoll_registered_def ep_internal_def)
  qed
  ultimately show "ep_sane I U W q os s' \<and> same_requests s s' \<and> epoll_registered I s' q = epoll_registered I s q
        \<and> W (world s') = W (world s) \<and> ep_internal q s' = ep_internal q s
        \<and> (x \<in> U (world s) \<and> \<not> ep_reserved q s x \<longrightarrow> x \<in> U (world s') \<and> \<not> ep_reserved q s' x)
        \<and> (c = YO_OK \<and> u \<noteq> NULL \<longrightarrow> (\<exists>fd m. epoll_registered I s q fd = Some (m, u) \<and> \<not> ep_internal q s u))"
    using cl by (auto simp: ep_internal_def ep_reserved_def fun_eq_iff)
next
  fix os s k
  assume sane: "ep_sane I U W q os s" and k: "io_call k" "\<forall>a b c d e. k \<noteq> CEpollCtl a b c d e"
    and given: "\<And>x. x \<in> set (releases (k, reply_of os k s)) \<Longrightarrow>
      \<not> ep_reserved q s x \<and> (\<forall>fd. x = Fd fd \<longrightarrow> epoll_registered I s q fd = None)"
  have "epoll_registered I s q fd = None" if "Fd fd \<in> set (acquires (k, reply_of os k s))" for fd
    using client_new(3) [OF ep_sane_os [OF sane] k(1) that] by (simp add: epoll_registered_def)
  with ep_call [OF sane k given] show "ep_sane I U W q os (after os k s) \<and> epoll_registered I (after os k s) q = epoll_registered I s q
        \<and> (\<forall>fd m d. Fd fd \<in> set (acquires (k, reply_of os k s)) \<and> epoll_registered I s q fd = Some (m, d) \<longrightarrow> \<not> ep_internal q s d)"
    by auto
qed

section \<open>A queue that has just been made\<close>

text \<open>Its list holds the timer and the pipe, and nothing else.\<close>

definition ep_clean ::
  "('w \<Rightarrow> int \<Rightarrow> int \<Rightarrow> (u32 \<times> addr) option) \<Rightarrow> ('w \<Rightarrow> resource set) \<Rightarrow> ('w \<Rightarrow> int \<Rightarrow> bool) \<Rightarrow> addr \<Rightarrow> 'w os \<Rightarrow> ('w, 'z) ep_scheme \<Rightarrow> bool" where
  "ep_clean I U W q os s \<longleftrightarrow> ep_sane I U W q os s
     \<and> (\<forall>fd ev d. I (world s) (epoll_fd s q) fd = Some (ev, d) \<longrightarrow> ep_internal q s d)"

lemma clean_same:
  "ep_clean I U W q os s \<Longrightarrow> world s' = world s \<Longrightarrow> epoll_fd s' = epoll_fd s \<Longrightarrow> timer_fd s' = timer_fd s \<Longrightarrow> ep_clean I U W q os s'"
  by (simp add: ep_clean_def ep_sane_def ep_internal_def)

lemma clean_call:
  assumes clean: "ep_clean I U W q os s" and k: "io_call k" "\<forall>a b c d e. k \<noteq> CEpollCtl a b c d e" "k \<noteq> CEpollCreate"
    "\<forall>g. k \<noteq> CClose g" "releases (k, reply_of os k s) = []"
  shows "ep_clean I U W q os (after os k s)"
proof -
  have sane: "ep_sane I U W q os s" using clean by (simp add: ep_clean_def)
  have "ep_sane I U W q os (after os k s)" using ep_call(1) [OF sane k(1,2)] k(5) by simp
  then show ?thesis
    using clean client_call(1) [OF ep_sane_os [OF sane] k(1-4), where s = s]
    by (simp add: ep_clean_def ep_internal_def del: world_after)
qed

lemma clean_ctl:
  assumes clean: "ep_clean I U W q os s" and d: "ep_internal q s d"
  shows "ep_clean I U W q os (after os (CEpollCtl (epoll_fd s q) opr fd ev d) s)"
proof -
  let ?s = "after os (CEpollCtl (epoll_fd s q) opr fd ev d) s"
  have sane: "ep_sane I U W q os s" using clean by (simp add: ep_clean_def)
  note eff = epoll_ctl_effect [OF client_epoll [OF ep_sane_os [OF sane]], where ep = "epoll_fd s q" and opr = opr and fd = fd and ev = ev and d = d and s = s]
  have "ep_sane I U W q os ?s"
    using ctl_resources(1) [OF client_resources [OF ep_sane_os [OF sane]]] by (intro ep_sane_step [OF sane]) (simp_all del: world_after, blast)
  moreover have "ep_internal q s d'" if "I (world ?s) (epoll_fd s q) g = Some (ev', d')" for g ev' d'
  proof -
    have "I (world ?s) (epoll_fd s q) g \<in> {I (world s) (epoll_fd s q) g, Some (ev, d), None}"
      using eff(1) [of g] eff(2,3)
      by (cases "g = fd"; cases "ret (reply_of os (CEpollCtl (epoll_fd s q) opr fd ev d) s) = 0") (simp_all del: world_after)
    with that have "I (world s) (epoll_fd s q) g = Some (ev', d') \<or> d' = d" by auto
    with clean d show ?thesis unfolding ep_clean_def by blast
  qed
  ultimately show ?thesis by (simp add: ep_clean_def ep_internal_def del: world_after)
qed

lemma clean_setmask:
  assumes clean: "ep_clean I U W q os s" and run: "epoll_setmask os q NULL fd m s = (c, s')"
  shows "ep_clean I U W q os s'"
proof -
  have "ep_clean I U W q os (after os (CEpollCtl (epoll_fd t q) opr fd (realmask_of m) NULL) t)" if "ep_clean I U W q os t" for opr t
    by (rule clean_ctl [OF that]) (simp add: ep_internal_def)
  from this [of s] this [of "after os (CEpollCtl (epoll_fd s q) _ fd (realmask_of m) NULL) s"] setmask_calls [OF run] clean
  show ?thesis by (auto simp: simp del: world_after)
qed

lemma clean_init:
  fixes s :: "('w, 'z) ep_scheme"
  assumes clean: "ep_clean I U W q os s" and run: "yoi_pl_init epoll_setmask os q s = (YO_OK, s')"
  shows "ep_clean I U W q os s'"
proof -
  let ?a = "after os CPipe s" let ?b = "\<lambda>fd t. after os (CNonblock fd) t"
  obtain rd wr where pair: "r_pair (reply_of os CPipe s) = (rd, wr)" by fastforce
  let ?t = "?b wr (?b rd ?a)"
  let ?u = "?t\<lparr>notify_read := (notify_read ?t)(q := rd), notify_write := (notify_write ?t)(q := wr)\<rparr>"
  have posix: "posix_os os" and law: "epoll_os I os"
    using clean client_posix client_epoll unfolding ep_clean_def ep_sane_def by blast+
  have errno: "errno (after os k (after os k' u)) \<noteq> 0" if "epoll_setmask os q NULL fd m t = (c, u)" "c \<noteq> YO_OK" for k k' c fd m and t u :: "('w, 'z) ep_scheme"
    using setmask_path(6) [OF law that] posix by (simp add: sys_simps)
  have "ep_clean I U W q os ?t" by (intro clean_call clean) (simp_all add: io_call_def)
  then have "ep_clean I U W q os ?u" by (rule clean_same) simp_all
  moreover have "epoll_setmask os q NULL rd YOI_PL_READABLE ?u = (YO_OK, s')"
    using run pair posix errno
    by (auto simp: yoi_pl_init_def sys_simps Let_def split: if_splits prod.splits)
  ultimately show ?thesis by (rule clean_setmask)
qed

lemma data_fd_small:
  assumes "0 \<le> t" and "t < 2 ^ 31"
  shows "data_fd (of_int t) = t"
proof -
  have "ucast (of_int t :: addr) = (of_int t :: u32)"
    by (rule bit_word_eqI) (simp add: bit_simps)
  moreover have "sint (of_int t :: u32) = t" using assms by (simp add: sint_sbintrunc' signed_take_bit_int_eq_self)
  ultimately show ?thesis by (simp add: data_fd_def)
qed

lemma queue_new_clean:
  fixes s :: "('w, 'z) ep_scheme"
  assumes os: "client_os I U W os" and run: "yo_queue_new os (epoll_impl_init os) s = (q, s')" and q: "q \<noteq> NULL"
  shows "ep_clean I U W q os s'" and "ready s' q []"
proof -
  let ?m = "after os (CMalloc sizeof_yo_queue) s"
  let ?t = "ret (reply_of os CTimerfdCreate ?m)" let ?a = "after os CTimerfdCreate ?m"
  let ?b = "?a\<lparr>timer_fd := (timer_fd ?a)(q := ?t)\<rparr>"
  let ?e = "ret (reply_of os CEpollCreate ?b)" let ?c = "after os CEpollCreate ?b"
  let ?d = "?c\<lparr>epoll_fd := (epoll_fd ?c)(q := ?e)\<rparr>"
  let ?ctl = "CEpollCtl ?e EPOLL_CTL_ADD ?t (EPOLLRDHUP OR EPOLLERR OR EPOLLHUP OR EPOLLIN) (of_int ?t)"
  let ?f = "after os ?ctl ?d"
  have ptr: "ptr (reply_of os (CMalloc sizeof_yo_queue) s) = q"
    using run q by (auto simp: yo_queue_new_def sys_simps split: if_splits prod.splits)
  obtain code s1 where init: "epoll_impl_init os q ?m = (code, s1)" by fastforce
  have ok: "code = YO_OK" and s': "s' = after os (CMutexNew q) (s1\<lparr>q_head := (q_head s1)(q := NULL), q_pool := (q_pool s1)(q := NULL)\<rparr>)"
    using run q ptr init by (auto simp: yo_queue_new_def sys_simps split: if_splits)
  have posix: "posix_os os" and law: "epoll_os I os" by (rule client_posix [OF os], rule client_epoll [OF os])
  note path = pl_init_path [OF law, of q ?f]
  have run1: "0 \<le> ?t" "0 \<le> ?e" "0 \<le> ret (reply_of os ?ctl ?d)" "yoi_pl_init epoll_setmask os q ?f = (YO_OK, s1)"
    using init [unfolded ok] posix path
    by (auto simp: epoll_impl_init_def sys_simps Let_def sat_def split: if_splits prod.splits)
  note res = client_resources [OF os]
  have t: "Fd ?t \<in> U (world ?a)" "0 \<le> ?t" "?t < 2 ^ 31"
    using resource_call(2) [OF res, of CTimerfdCreate "Fd ?t" ?m] client_new(1,2) [OF os, of CTimerfdCreate ?t ?m] run1(1)
    by (simp_all add: io_call_def del: world_after)
  have "Fd ?t \<in> U (world ?b)" using t(1) by (simp del: world_after)
  then have "Fd ?t \<in> U (world ?d)" "Fd ?e \<in> U (world ?d)"
    using resource_call(1,2) [OF res, of CEpollCreate _ ?b] run1(2) by (simp_all add: io_call_def del: world_after)
  moreover have "I (world ?d) ?e = (\<lambda>_. None)"
    using client_call(2) [OF os, of CEpollCreate ?b] run1(2) by (simp add: io_call_def del: world_after)
  ultimately have "ep_clean I U W q os ?d" using os by (simp add: ep_clean_def ep_sane_def del: world_after)
  moreover have "ep_internal q ?d (of_int ?t)" using data_fd_small [OF t(2,3)] by (simp add: ep_internal_def)
  ultimately have "ep_clean I U W q os (after os (CEpollCtl (epoll_fd ?d q) EPOLL_CTL_ADD ?t (EPOLLRDHUP OR EPOLLERR OR EPOLLHUP OR EPOLLIN) (of_int ?t)) ?d)"
    by (rule clean_ctl)
  then have "ep_clean I U W q os ?f" by simp
  from clean_init [OF this run1(4)] have "ep_clean I U W q os (s1\<lparr>q_head := (q_head s1)(q := NULL), q_pool := (q_pool s1)(q := NULL)\<rparr>)"
    by (rule clean_same) simp_all
  then show "ep_clean I U W q os s'" unfolding s' by (rule clean_call) (simp_all add: io_call_def)
  show "ready s' q []" by (simp add: s' ready_def)
qed

section \<open>What a client may rely on\<close>

text \<open>The blocks and descriptors that the client may use: those in use that the queue does not keep for itself or watch.\<close>

definition ep_own ::
  "('w \<Rightarrow> int \<Rightarrow> int \<Rightarrow> (u32 \<times> addr) option) \<Rightarrow> ('w \<Rightarrow> resource set) \<Rightarrow> addr \<Rightarrow> ('w, 'z) ep_scheme \<Rightarrow> resource \<Rightarrow> bool" where
  "ep_own I U q s x \<longleftrightarrow> x \<in> U (world s) \<and> \<not> ep_reserved q s x \<and> (\<forall>fd. x = Fd fd \<longrightarrow> epoll_registered I s q fd = None)"

lemma ep_own_mine: "ep_own I U q = async_backend.mine (epoll_registered I) q U (ep_reserved q)"
  by (simp add: fun_eq_iff ep_own_def ea.mine_def ea.usable_def)

abbreviation (input) epoll_client ::
  "('w \<Rightarrow> int \<Rightarrow> int \<Rightarrow> (u32 \<times> addr) option) \<Rightarrow> ('w \<Rightarrow> resource set) \<Rightarrow> ('w \<Rightarrow> int \<Rightarrow> bool) \<Rightarrow> 'w os \<Rightarrow> addr
     \<Rightarrow> ('w, 'z ep_ext) client \<Rightarrow> ('w, 'z ep_ext) client \<Rightarrow> bool" where
  "epoll_client I U W os q \<equiv> client_step epoll_setmask epoll_poll os q (ep_own I U q) (\<lambda>s. W (world s))"

lemma new_accounts:
  assumes "client_os I U W os" and "yo_queue_new os (epoll_impl_init os) s0 = (q, s1)" and "q \<noteq> NULL"
  shows "ea.accounts I U W q os ([], s1, {#}, {#})"
proof (rule ea.accounts_new)
  note clean = queue_new_clean [OF assms]
  show "ep_sane I U W q os s1" using clean(1) by (simp add: ep_clean_def)
  show "ep_internal q s1 d" if "epoll_registered I s1 q fd = Some (m, d)" for fd m d
    using registered_some [OF that] clean(1) by (auto simp: ep_clean_def)
  show "ready s1 q []" by (rule clean(2))
qed

lemma run_keeps_accounts:
  assumes "ea.accounts I U W q os c" and "(epoll_client I U W os q)\<^sup>*\<^sup>* c c'"
  shows "ea.accounts I U W q os c'"
  using ea.run_accounts [OF assms(1)] assms(2) unfolding ep_own_mine by blast

text \<open>
  C1: Nothing is lost and nothing is delivered twice, on Linux. A client makes a queue and then any handles and requests on it, starts
  reads, writes and accepts, polls and closes, in whatever order and however the kernel answers. At any moment every request
  that it has passed to a call has been delivered to it, or is linked to exactly one of its open handles, or is in the ready list,
  and is in only one of these places, even when the call returned an error. What the kernel watches for the queue are the timer and the pipe, and the descriptors of open handles with requests, for exactly what these need.
\<close>

theorem client_accounts:
  assumes "client_os I U W os" and "yo_queue_new os (epoll_impl_init os) s0 = (q, s1)" and "q \<noteq> NULL"
    and "(epoll_client I U W os q)\<^sup>*\<^sup>* ([], s1, {#}, {#}) (hs, s, started, finished)"
  shows "\<exists>F ys. started = finished + mset (concat (map F hs)) + mset (map fst ys) \<and> placed s q hs F ys
     \<and> (\<forall>fd m d. epoll_registered I s q fd = Some (m, d) \<longrightarrow>
          ep_internal q s d \<or> d \<in> set hs \<and> fd = fd_fd s d \<and> F d \<noteq> [] \<and> m = needed s (F d))
     \<and> (\<forall>x. count finished x \<le> count started x \<and> count started x \<le> Suc (count finished x))"
  by (rule ea.account [OF run_keeps_accounts [OF new_accounts [OF assms(1-3)] assms(4)]])

section \<open>Draining a queue\<close>

lemma run_drains:
  assumes "ea.accounts I U W q os (hs, s, started, finished)" and "mset order = mset hs" and "size finished + length args = size started"
  shows "case close_handles epoll_setmask os order s of None \<Rightarrow> \<exists>fd. interrupted_for_ever os fd
    | Some s1 \<Rightarrow> \<exists>rs s2. polls epoll_setmask epoll_poll os q args s1 = Some (rs, s2) \<and> fst ` set rs \<subseteq> {YO_OK}
        \<and> finished + mset (map snd rs) = started \<and> ready s2 q []"
  by (rule ea.drains [OF assms])

text \<open>
  C2: A queue can always be drained, in a bounded number of calls. In any state that a client can reach, it closes all handles that are
  open, in any order, and then polls once for every request that was passed to a call and not yet delivered, with whatever
  deadlines and places for the results. Every one of these polls returns \<open>YO_OK\<close>, together they deliver exactly the outstanding
  requests, each once, and then nothing is ready any more. The only thing that can keep the procedure from coming to its end
  is that the kernel interrupts one and the same \<open>close\<close> for ever, which \<open>yo_fd_close\<close> then repeats for ever.
\<close>

theorem client_drains:
  assumes "client_os I U W os" and "yo_queue_new os (epoll_impl_init os) s0 = (q, s1)" and "q \<noteq> NULL"
    and "(epoll_client I U W os q)\<^sup>*\<^sup>* ([], s1, {#}, {#}) (hs, s, started, finished)"
    and "mset order = mset hs" and "size finished + length args = size started"
  shows "case close_handles epoll_setmask os order s of None \<Rightarrow> \<exists>fd. interrupted_for_ever os fd
    | Some s2 \<Rightarrow> \<exists>rs s3. polls epoll_setmask epoll_poll os q args s2 = Some (rs, s3) \<and> fst ` set rs \<subseteq> {YO_OK}
        \<and> finished + mset (map snd rs) = started \<and> ready s3 q []"
  by (rule run_drains [OF run_keeps_accounts [OF new_accounts [OF assms(1-3)] assms(4)] assms(5,6)])

section \<open>A concrete client\<close>

text \<open>
  A kernel with six blocks of memory and six descriptors to give out. Its world are the entries of all interest lists, and what is in use. The
  file behind the descriptor 9 cannot be watched, and there is always input for the descriptor 5.
\<close>

type_synonym desk = "((int \<times> int) \<times> u32 \<times> addr) list \<times> resource list"

definition desk_lists :: "desk \<Rightarrow> int \<Rightarrow> int \<Rightarrow> (u32 \<times> addr) option" where
  "desk_lists w ep fd = map_of (fst w) (ep, fd)"

definition desk_used :: "desk \<Rightarrow> resource set" where
  "desk_used w = set (snd w)"

definition desk_watch :: "desk \<Rightarrow> int \<Rightarrow> bool" where
  "desk_watch w fd \<longleftrightarrow> fd \<noteq> 9"

definition free_blocks :: "desk \<Rightarrow> addr list" where
  "free_blocks w = filter (\<lambda>p. Mem p \<notin> set (snd w)) [4096, 8192, 12288, 16384, 20480, 24576]"

definition free_fds :: "desk \<Rightarrow> int list" where
  "free_fds w = filter (\<lambda>fd. Fd fd \<notin> set (snd w) \<and> (\<forall>e \<in> set (fst w). snd (fst e) \<noteq> fd)) [10, 11, 12, 13, 14, 15]"

definition desk_kernel :: "desk os" where
  "desk_kernel w k = (let (es, used) = w in if \<not> io_call k then (returns 4096, w) else case k of
     CMalloc n \<Rightarrow> (case free_blocks w of [] \<Rightarrow> (failed 0 ENOMEM, w) | p # _ \<Rightarrow> (returns (uint p), (es, Mem p # used)))
   | CRealloc p n \<Rightarrow> (failed 0 ENOMEM, w)
   | CFree p \<Rightarrow> (returns 0, (es, if p = NULL then used else removeAll (Mem p) used))
   | CClose fd \<Rightarrow> (returns 0, (filter (\<lambda>e. fst (fst e) \<noteq> fd \<and> snd (fst e) \<noteq> fd) es, removeAll (Fd fd) used))
   | CEpollCreate \<Rightarrow> (case free_fds w of [] \<Rightarrow> (failed (-1) 24, w)
       | fd # _ \<Rightarrow> (returns fd, (filter (\<lambda>e. fst (fst e) \<noteq> fd) es, Fd fd # used)))
   | CTimerfdCreate \<Rightarrow> (case free_fds w of [] \<Rightarrow> (failed (-1) 24, w) | fd # _ \<Rightarrow> (returns fd, (es, Fd fd # used)))
   | CAccept _ \<Rightarrow> (case free_fds w of [] \<Rightarrow> (failed (-1) 24, w)
       | fd # _ \<Rightarrow> ((returns fd)\<lparr>r_socks := [\<lparr>ss_family = AF_INET, sin_port = 80, sin_addr = [1, 2, 3, 4]\<rparr>]\<rparr>, (es, Fd fd # used)))
   | CPipe \<Rightarrow> (case free_fds w of a # b # _ \<Rightarrow> ((returns 0)\<lparr>r_pair := (a, b)\<rparr>, (es, Fd a # Fd b # used)) | _ \<Rightarrow> (failed (-1) 24, w))
   | CEpollCtl ep opr fd ev d \<Rightarrow>
       if fd = 9 \<and> opr \<noteq> EPOLL_CTL_DEL then (failed (-1) EPERM, w)
       else if opr \<noteq> EPOLL_CTL_ADD \<and> map_of es (ep, fd) = None then (failed (-1) ENOENT, w)
       else if opr = EPOLL_CTL_DEL then (returns 0, (filter (\<lambda>e. fst e \<noteq> (ep, fd)) es, used))
       else (returns 0, (((ep, fd), (ev, d)) # es, used))
   | CEpollWait ep \<Rightarrow> (case map_of es (ep, 5) of None \<Rightarrow> returns 0 | Some (ev, d) \<Rightarrow> (returns 1)\<lparr>r_event := (EPOLLIN, d)\<rparr>, w)
   | CClock i \<Rightarrow> ((returns 0)\<lparr>r_pair := (100, 0)\<rparr>, w)
   | _ \<Rightarrow> (returns 7, w))"

lemma free_block: "free_blocks w = p # ps \<Longrightarrow> p \<noteq> NULL \<and> Mem p \<notin> set (snd w)"
proof -
  assume "free_blocks w = p # ps"
  then have "p \<in> set (free_blocks w)" by simp
  then show ?thesis unfolding free_blocks_def set_filter by auto
qed

lemma free_fd: "fd \<in> set (free_fds w) \<Longrightarrow> 0 < fd \<and> fd < 16 \<and> Fd fd \<notin> set (snd w) \<and> map_of (fst w) (ep, fd) = None"
  unfolding free_fds_def set_filter map_of_eq_None_iff by auto

lemma free_pair: "free_fds w = a # b # fds \<Longrightarrow> a \<noteq> b"
proof -
  assume "free_fds w = a # b # fds"
  moreover have "distinct (free_fds w)" by (simp add: free_fds_def)
  ultimately show ?thesis by simp
qed

lemma map_of_drop: "map_of (filter (\<lambda>e. P (fst e)) es) x = (if P x then map_of es x else None)"
  by (induction es) auto

lemmas drops = map_of_drop [of "\<lambda>x. fst x \<noteq> g" for g] map_of_drop [of "\<lambda>x. fst x \<noteq> g \<and> snd x \<noteq> g" for g]

lemmas desk_defs = desk_kernel_def desk_lists_def desk_used_def desk_watch_def returns_def failed_def Let_def

lemma new_fd: "free_fds w = fd # fds \<Longrightarrow> 0 < fd \<and> fd < 16 \<and> Fd fd \<notin> set (snd w) \<and> map_of (fst w) (ep, fd) = None"
  by (rule free_fd) simp

lemma new_pair:
  "free_fds w = a # b # fds \<Longrightarrow> a \<noteq> b \<and> Fd b \<notin> set (snd w) \<and> 0 < b \<and> b < 16 \<and> map_of (fst w) (ep, b) = None"
  using free_fd [of b w ep] free_pair by simp

lemma desk_posix: "posix_os desk_kernel"
  unfolding posix_os_def
proof (intro allI)
  fix w k
  show "let r = fst (desk_kernel w k) in (fails k r \<longrightarrow> eno r \<noteq> None) \<and> (\<forall>e. eno r = Some e \<longrightarrow> 0 < e)"
  proof (cases "io_call k")
    case True
    then show ?thesis
      by (cases w; elim io_callE)
        (auto simp: desk_defs fails_def returns_pointer_def io_call_def dest: free_block new_fd split: list.splits option.splits)
  qed (simp add: desk_defs fails_def split_beta)
qed

lemma desk_ctl:
  "let (r, w') = desk_kernel w (CEpollCtl ep opr fd ev d) in
     (\<forall>ep' fd'. ep' \<noteq> ep \<or> fd' \<noteq> fd \<longrightarrow> desk_lists w' ep' fd' = desk_lists w ep' fd')
   \<and> (if ret r = 0 then desk_lists w' ep fd = (if opr = EPOLL_CTL_DEL then None else Some (ev, d))
      else ret r < 0 \<and> desk_lists w' ep fd = desk_lists w ep fd \<and> (eno r = Some ENOENT \<longrightarrow> desk_lists w ep fd = None))"
  using map_of_drop [of "\<lambda>e. e \<noteq> (ep, fd)" "fst w"] by (cases w) (auto simp: desk_defs io_call_def)

lemma desk_epoll: "epoll_os desk_lists desk_kernel"
  unfolding epoll_os_def
proof (intro conjI desk_posix allI impI)
  fix w and k
  show "desk_lists (snd (desk_kernel w k)) = desk_lists w" if "quiet k"
    using that by (cases w; cases k) (auto simp: desk_defs io_call_def quiet_def)
qed (rule desk_ctl)

lemma desk_resources: "resource_os desk_used desk_watch desk_kernel"
  unfolding resource_os_def
proof (intro allI impI)
  fix w k assume "io_call k"
  then show "let (r, w') = desk_kernel w k; taken = set (acquires (k, r)); given = set (releases (k, r)) in
        (desk_used w - given) \<union> taken \<subseteq> desk_used w' \<and> taken \<inter> (desk_used w - given) = {}
      \<and> (\<forall>fd. Fd fd \<notin> taken \<union> given \<longrightarrow> desk_watch w' fd = desk_watch w fd)"
    by (cases w; elim io_callE) (auto simp: desk_defs io_call_def dest: free_block new_fd new_pair split: list.splits option.splits)
qed

lemma desk_new: "io_call k \<Longrightarrow> Fd fd \<in> set (acquires (k, fst (desk_kernel w k))) \<Longrightarrow> fd \<in> set (free_fds w)"
  by (cases w; elim io_callE) (auto simp: desk_defs io_call_def split: list.splits option.splits if_splits)

lemma desk_client: "client_os desk_lists desk_used desk_watch desk_kernel"
  unfolding client_os_def
proof (intro conjI desk_epoll desk_resources allI impI)
  show "let r = fst (desk_kernel w (CEpollCtl ep opr fd ev d)) in
          if desk_watch w fd then eno r \<notin> {Some EPERM, Some EACCES} \<and> (desk_lists w ep fd \<noteq> None \<and> opr \<noteq> EPOLL_CTL_ADD \<longrightarrow> ret r = 0)
          else opr \<noteq> EPOLL_CTL_DEL \<longrightarrow> ret r \<noteq> 0 \<and> eno r = Some EPERM" for w ep opr fd ev d
    by (cases w) (auto simp: desk_defs io_call_def)
  show "\<exists>fd ev. desk_lists w ep fd = Some (ev, snd (r_event (fst (desk_kernel w (CEpollWait ep)))))"
    if "0 < ret (fst (desk_kernel w (CEpollWait ep)))" for w ep
    using that by (cases w) (auto simp: desk_defs io_call_def split: option.splits)
  show "0 \<le> fd" "fd < 2 ^ 31" "desk_lists w ep fd = None"
    if "io_call k \<and> Fd fd \<in> set (acquires (k, fst (desk_kernel w k)))" for w k fd ep
    using free_fd [OF desk_new, of k fd w ep] that by (auto simp: desk_lists_def)
  show "let (r, w') = desk_kernel w k in case k of
          CEpollCtl _ _ _ _ _ \<Rightarrow> True
        | CEpollCreate \<Rightarrow> desk_lists w' = (if ret r < 0 then desk_lists w else (desk_lists w)(ret r := \<lambda>_. None))
        | CClose g \<Rightarrow> \<forall>ep fd. ep \<noteq> g \<and> (fd \<noteq> g \<or> desk_lists w ep g = None) \<longrightarrow> desk_lists w' ep fd = desk_lists w ep fd
        | _ \<Rightarrow> desk_lists w' = desk_lists w" if "io_call k" for w k
    using that
    by (cases w; elim io_callE) (auto simp: desk_defs io_call_def fun_eq_iff drops dest: new_fd split: list.splits option.splits)
qed

definition desk_start :: "desk ep" where
  "desk_start = pl.extend (blank ([], [Fd 5, Fd 9])) \<lparr>epoll_fd = (\<lambda>_. 0), timer_fd = (\<lambda>_. 0)\<rparr>"

lemmas desk_simps = desk_defs sys_simps reply_of_def free_blocks_def free_fds_def io_call_def

lemma desk_start_fields: "world desk_start = ([], [Fd 5, Fd 9])" "errno desk_start = 0"
  by (simp_all add: desk_start_def pl.defs blank_def)

lemma desk_queue:
  "\<exists>s. yo_queue_new desk_kernel (epoll_impl_init desk_kernel) desk_start = (4096, s) \<and> epoll_fd s 4096 = 11 \<and> timer_fd s 4096 = 10
     \<and> world s = ([((11, 12), 8217, NULL), ((11, 10), 8217, 10)], [Fd 12, Fd 13, Fd 11, Fd 10, Mem 4096, Fd 5, Fd 9])"
  by (simp add: yo_queue_new_def epoll_impl_init_def yoi_pl_init_def epoll_setmask_def desk_simps after_errno desk_start_fields realmask_of_def)

text \<open>
  The client makes a queue, a handle on the descriptor 5 and a request, and starts to read with it.
\<close>

lemma desk_run:
  "\<exists>s s'. yo_queue_new desk_kernel (epoll_impl_init desk_kernel) desk_start = (4096, s)
     \<and> (epoll_client desk_lists desk_used desk_watch desk_kernel 4096)\<^sup>*\<^sup>* ([], s, {#}, {#}) ([8192], s', {#12288#}, {#})"
proof -
  let ?client = "epoll_client desk_lists desk_used desk_watch desk_kernel 4096"
  from desk_queue obtain s where s: "yo_queue_new desk_kernel (epoll_impl_init desk_kernel) desk_start = (4096, s)"
    "epoll_fd s 4096 = 11" "timer_fd s 4096 = 10"
    "world s = ([((11, 12), 8217, NULL), ((11, 10), 8217, 10)], [Fd 12, Fd 13, Fd 11, Fd 10, Mem 4096, Fd 5, Fd 9])"
    by blast
  obtain s1 where s1: "yo_fd_new desk_kernel 600 5 True s = (YO_OK, s1)" "m_ptr s1 600 = 8192"
    "fd_read_n s1 8192 = 0" "fd_write_n s1 8192 = 0"
    "world s1 = ([((11, 12), 8217, NULL), ((11, 10), 8217, 10)], [Mem 8192, Fd 12, Fd 13, Fd 11, Fd 10, Mem 4096, Fd 5, Fd 9])"
    by (simp add: yo_fd_new_def desk_simps s(4) yoi_unix_mkfd_def yoi_fd_ioq_init_def set_ptr_def)
  have "ep_own desk_lists desk_used 4096 s (Fd 5)"
    by (simp add: ep_own_def ep_reserved_def epoll_registered_def s desk_used_def desk_lists_def)
  then have step1: "?client ([], s, {#}, {#}) ([8192], s1, {#}, {#})"
    using client_step.handle [OF _ _ s1(1), where hs = "[]"] by (simp add: s1(2))
  obtain s2 where s2: "yo_req_new desk_kernel 4096 s1 = (12288, s2)" "rq_queue s2 12288 = 4096" "fd_read_n s2 8192 = 0" "fd_write_n s2 8192 = 0"
    by (simp add: yo_req_new_def desk_simps s1)
  have step2: "?client ([8192], s1, {#}, {#}) ([8192], s2, {#}, {#})"
    by (rule client_step.request [OF s2(1)])
  obtain c s3 where s3: "aio_call epoll_setmask (AioRead 700 708) desk_kernel 12288 8192 s2 = (c, s3)" by fastforce
  have step3: "?client ([8192], s2, {#}, {#}) ([8192], s3, {#12288#}, {#})"
    using client_step.start [OF _ _ s2(2) _ _ _ _ s3, where hs = "[8192]"] s2 by (simp add: is_accept_def)
  have "?client\<^sup>*\<^sup>* ([], s, {#}, {#}) ([8192], s3, {#12288#}, {#})"
    using step1 step2 step3 by (auto intro: converse_rtranclp_into_rtranclp simp del: split_paired_All split_paired_Ex)
  with s(1) show ?thesis by blast
qed

lemma client_accounts_witness:
  "\<exists>s1 s F ys. yo_queue_new desk_kernel (epoll_impl_init desk_kernel) desk_start = (4096, s1)
     \<and> (epoll_client desk_lists desk_used desk_watch desk_kernel 4096)\<^sup>*\<^sup>* ([], s1, {#}, {#}) ([8192], s, {#12288#}, {#})
     \<and> placed s 4096 [8192] F ys \<and> mset (F 8192) + mset (map fst ys) = {#12288#}"
proof -
  obtain s1 s where s: "yo_queue_new desk_kernel (epoll_impl_init desk_kernel) desk_start = (4096, s1)"
    "(epoll_client desk_lists desk_used desk_watch desk_kernel 4096)\<^sup>*\<^sup>* ([], s1, {#}, {#}) ([8192], s, {#12288#}, {#})"
    using desk_run by blast
  from client_accounts [OF desk_client s(1) _ s(2)] obtain F ys where
    "{#12288#} = {#} + mset (concat (map F [8192])) + mset (map fst ys)" "placed s 4096 [8192] F ys"
    by auto
  with s show ?thesis by (intro exI [of _ s1] exI [of _ s] exI [of _ F] exI [of _ ys]) auto
qed

lemma desk_closes: "\<not> interrupted_for_ever desk_kernel fd"
  unfolding interrupted_for_ever_def by (auto simp: desk_defs io_call_def split_beta)

text \<open>It closes the handle while the read is still outstanding, and polls once, without a deadline.\<close>

lemma client_drains_witness:
  "\<exists>s1 s s2 s3. yo_queue_new desk_kernel (epoll_impl_init desk_kernel) desk_start = (4096, s1)
     \<and> (epoll_client desk_lists desk_used desk_watch desk_kernel 4096)\<^sup>*\<^sup>* ([], s1, {#}, {#}) ([8192], s, {#12288#}, {#})
     \<and> close_handles epoll_setmask desk_kernel [8192] s = Some s2
     \<and> polls epoll_setmask epoll_poll desk_kernel 4096 [(None, 800, 808)] s2 = Some ([(YO_OK, 12288)], s3) \<and> ready s3 4096 []"
proof -
  obtain s1 s where s: "yo_queue_new desk_kernel (epoll_impl_init desk_kernel) desk_start = (4096, s1)"
    "(epoll_client desk_lists desk_used desk_watch desk_kernel 4096)\<^sup>*\<^sup>* ([], s1, {#}, {#}) ([8192], s, {#12288#}, {#})"
    using desk_run by blast
  have "case close_handles epoll_setmask desk_kernel [8192] s of None \<Rightarrow> \<exists>fd. interrupted_for_ever desk_kernel fd
    | Some s2 \<Rightarrow> \<exists>rs s3. polls epoll_setmask epoll_poll desk_kernel 4096 [(None, 800, 808)] s2 = Some (rs, s3)
        \<and> fst ` set rs \<subseteq> {YO_OK} \<and> {#} + mset (map snd rs) = {#12288#} \<and> ready s3 4096 []"
    by (rule client_drains [OF desk_client s(1) _ s(2)]) simp_all
  then obtain s2 rs s3 where r: "close_handles epoll_setmask desk_kernel [8192] s = Some s2"
    "polls epoll_setmask epoll_poll desk_kernel 4096 [(None, 800, 808)] s2 = Some (rs, s3)"
    "fst ` set rs \<subseteq> {YO_OK}" "mset (map snd rs) = {#12288#}" "ready s3 4096 []"
    using desk_closes by (auto split: option.splits)
  have "length rs = 1" using arg_cong [OF r(4), of size] by simp
  with r(3,4) have "rs = [(YO_OK, 12288)]" by (cases rs) (auto simp: prod_eq_iff)
  with s r(1,2,5) show ?thesis by blast
qed

end
