(* ===== verification/PollClient.thy ===== *)
theory PollClient
  imports AsyncIO Poll
begin

text \<open>
  The asynchronous interface over the backend of \<open>src/unix/poll.c\<close>, an interpretation of the contract in the theory \<open>AsyncIO\<close>.
  \<open>poll\<close> can watch every descriptor, so no request is finished on the spot.
\<close>

section \<open>The backend\<close>

text \<open>\<open>U\<close> are the blocks and descriptors in use, and the null pointer is not one of them.\<close>

definition poll_os :: "('w \<Rightarrow> resource set) \<Rightarrow> 'w os \<Rightarrow> bool" where
  "poll_os U os \<longleftrightarrow> posix_os os \<and> resource_os U (\<lambda>_ _. True) os \<and> (\<forall>w. Mem NULL \<notin> U w)"

abbreviation (input) blocks :: "('w \<Rightarrow> resource set) \<Rightarrow> 'w \<Rightarrow> addr set" where
  "blocks U w \<equiv> {p. Mem p \<in> U w}"

text \<open>What the queue \<open>q\<close> may not lose: the nodes of all lists, and its array.\<close>

definition po_reserved :: "addr \<Rightarrow> ('w, 'z) po_scheme \<Rightarrow> resource \<Rightarrow> bool" where
  "po_reserved q s x \<longleftrightarrow> (\<exists>p fd. find_node p fd s \<noteq> NULL \<and> x = Mem (find_node p fd s))
     \<or> po_fds s q \<noteq> NULL \<and> x = Mem (po_fds s q)"

text \<open>The array is a block of its own, and its capacity, which starts at 16 and is doubled, a multiple of 16.\<close>

definition po_sane :: "('w \<Rightarrow> resource set) \<Rightarrow> addr \<Rightarrow> 'w os \<Rightarrow> ('w, 'z) po_scheme \<Rightarrow> bool" where
  "po_sane U q os s \<longleftrightarrow> poll_os U os \<and> poll_sane (blocks U) os s \<and> 16 dvd unat (po_cap s q)
     \<and> (po_fds s q \<noteq> NULL \<longrightarrow> Mem (po_fds s q) \<in> U (world s) \<and> (\<forall>p fd. find_node p fd s \<noteq> po_fds s q))"

lemma resource_heap:
  assumes "resource_os U W os"
  shows "heap_os (blocks U) os"
proof -
  have "case os w (CMalloc n) of (r, w') \<Rightarrow>
      blocks U w \<subseteq> blocks U w' \<and> (ptr r \<noteq> NULL \<longrightarrow> ptr r \<notin> blocks U w \<and> ptr r \<in> blocks U w')" for w n
    using assms [unfolded resource_os_def, rule_format, where w = w and k = "CMalloc n"]
    by (auto simp: io_call_def Let_def split: if_splits prod.splits)
  moreover have "blocks U w \<subseteq> blocks U (snd (os w k))" if "quiet k" for w k
    using assms [unfolded resource_os_def, rule_format, where w = w and k = k] that
    by (cases k) (auto simp: io_call_def quiet_def Let_def split: prod.splits)
  ultimately show ?thesis by (simp add: heap_os_def split_beta)
qed

lemma po_own_fields:
  fixes s s' :: "('w, 'z) po_scheme"
  assumes "pl.more s' = pl.more s"
  shows "po_next s' = po_next s" "po_slot s' = po_slot s" "po_fd s' = po_fd s" "po_head s' = po_head s"
    "po_evn s' = po_evn s" "po_udata s' = po_udata s" "po_fds s' = po_fds s" "po_cap s' = po_cap s"
  using assms by (cases s; cases s'; simp)+

text \<open>The nodes that the lists hold are those that a descriptor finds.\<close>

lemma find_node_set:
  assumes "poll_lists s F"
  shows "i \<in> set (F p) \<longleftrightarrow> i \<noteq> NULL \<and> (\<exists>fd. find_node p fd s = i)"
proof
  assume i: "i \<in> set (F p)"
  have "dlist (poll_links s) p (F p)" "distinct (map (po_fd s) (F p))" using assms by (simp_all add: poll_lists_def family_def)
  then have "i \<noteq> NULL" "inj_on (po_fd s) (set (F p))" using i by (auto simp: dlist_def distinct_map dest: chain_nonnull)
  moreover have "find_node p (po_fd s i) s = i"
    using find_node_cases [OF assms, of p "po_fd s i"] i calculation(2) by (auto dest: inj_onD)
  ultimately show "i \<noteq> NULL \<and> (\<exists>fd. find_node p fd s = i)" by blast
next
  assume "i \<noteq> NULL \<and> (\<exists>fd. find_node p fd s = i)"
  then show "i \<in> set (F p)" using find_node_cases [OF assms, of p] by metis
qed

lemma po_reserved_iff:
  assumes "poll_lists s F"
  shows "po_reserved q s x \<longleftrightarrow> (\<exists>p. \<exists>i \<in> set (F p). x = Mem i) \<or> po_fds s q \<noteq> NULL \<and> x = Mem (po_fds s q)"
proof -
  have "(\<exists>p fd. find_node p fd s \<noteq> NULL \<and> x = Mem (find_node p fd s)) \<longleftrightarrow> (\<exists>p. \<exists>i \<in> set (F p). x = Mem i)"
  proof (intro iffI; elim exE bexE conjE)
    fix p fd assume "find_node p fd s \<noteq> NULL" "x = Mem (find_node p fd s)"
    then show "\<exists>p. \<exists>i \<in> set (F p). x = Mem i" using find_node_set [OF assms, of "find_node p fd s" p] by blast
  next
    fix p i assume "i \<in> set (F p)" "x = Mem i"
    then show "\<exists>p fd. find_node p fd s \<noteq> NULL \<and> x = Mem (find_node p fd s)" using find_node_set [OF assms, of i p] by blast
  qed
  then show ?thesis by (simp add: po_reserved_def)
qed

lemma po_saneI:
  assumes "poll_os U os" and "poll_lists s F" and "\<And>p i. i \<in> set (F p) \<Longrightarrow> Mem i \<in> U (world s)"
    and "po_fds s q \<noteq> NULL \<Longrightarrow> Mem (po_fds s q) \<in> U (world s) \<and> (\<forall>p. po_fds s q \<notin> set (F p))"
    and "16 dvd unat (po_cap s q)"
  shows "po_sane U q os s"
proof -
  have "poll_sane (blocks U) os s"
    using assms(1-3) resource_heap unfolding poll_sane_def poll_os_def by blast
  moreover have "find_node p fd s \<noteq> po_fds s q" if "po_fds s q \<noteq> NULL" for p fd
    using assms(4) [OF that] find_node_set [OF assms(2), of "po_fds s q" p] that by blast
  ultimately show ?thesis using assms(1,4,5) unfolding po_sane_def by blast
qed

lemma po_saneE:
  assumes "po_sane U q os s"
  obtains F where "poll_os U os" "poll_lists s F" "\<And>p i. i \<in> set (F p) \<Longrightarrow> Mem i \<in> U (world s)"
    "po_fds s q \<noteq> NULL \<Longrightarrow> Mem (po_fds s q) \<in> U (world s) \<and> (\<forall>p. po_fds s q \<notin> set (F p))"
proof -
  from assms obtain F where F: "poll_lists s F" "\<forall>p. set (F p) \<subseteq> blocks U (world s)"
    unfolding po_sane_def poll_sane_def by blast
  show thesis
  proof (rule that [OF _ F(1)])
    show "poll_os U os" using assms by (simp add: po_sane_def)
    show "Mem i \<in> U (world s)" if "i \<in> set (F p)" for p i using F(2) that by blast
    show "Mem (po_fds s q) \<in> U (world s) \<and> (\<forall>p. po_fds s q \<notin> set (F p))" if "po_fds s q \<noteq> NULL"
      using assms that find_node_set [OF F(1)] unfolding po_sane_def by blast
  qed
qed

text \<open>What waiting leaves alone: everything but the array, which may move to another block.\<close>

definition loose :: "('w \<Rightarrow> resource set) \<Rightarrow> addr \<Rightarrow> ('w, 'z) po_scheme \<Rightarrow> resource \<Rightarrow> bool" where
  "loose U q s x \<longleftrightarrow> x \<in> U (world s) \<and> x \<noteq> Mem (po_fds s q)"

definition po_calm :: "('w \<Rightarrow> resource set) \<Rightarrow> addr \<Rightarrow> ('w, 'z) po_scheme \<Rightarrow> ('w, 'z) po_scheme \<Rightarrow> bool" where
  "po_calm U q s s' \<longleftrightarrow> same_requests s s' \<and> poll_links s' = poll_links s \<and> po_fd s' = po_fd s \<and> po_evn s' = po_evn s
     \<and> po_udata s' = po_udata s \<and> (16 dvd unat (po_cap s q) \<longrightarrow> 16 dvd unat (po_cap s' q)) \<and> (\<forall>x. loose U q s x \<longrightarrow> loose U q s' x)
     \<and> ((po_fds s q \<noteq> NULL \<longrightarrow> Mem (po_fds s q) \<in> U (world s)) \<longrightarrow> (po_fds s' q \<noteq> NULL \<longrightarrow> Mem (po_fds s' q) \<in> U (world s')))"

lemma po_calm_refl: "po_calm U q s s"
  by (simp add: po_calm_def same_requests_refl)

lemma po_calm_trans: "po_calm U q s t \<Longrightarrow> po_calm U q t u \<Longrightarrow> po_calm U q s u"
  using same_requests_trans [of s t u] by (simp add: po_calm_def)

lemma po_links_eq: "poll_links s' = poll_links s \<longleftrightarrow> po_next s' = po_next s \<and> po_slot s' = po_slot s \<and> po_head s' = po_head s"
  by (auto simp: poll_links_def)

lemma po_calm_after:
  assumes "poll_os U os" and "io_call k" and "\<And>r. releases (k, r) = []" and "\<And>r. acquires (k, r) = []"
  shows "po_calm U q s (after os k s)"
proof -
  have res: "resource_os U (\<lambda>_ _. True) os" using assms(1) by (simp add: poll_os_def)
  have "po_fds (after os k s) = po_fds s" "po_cap (after os k s) = po_cap s" by (simp_all add: after_eq)
  then show ?thesis
    using resource_call(1) [OF res assms(2), where s = s] assms(3)
    by (auto simp: po_calm_def loose_def same_requests_after simp del: world_after)
qed

lemma po_calm_own:
  "same_requests s s' \<Longrightarrow> world s' = world s \<Longrightarrow> poll_links s' = poll_links s \<Longrightarrow> po_fd s' = po_fd s \<Longrightarrow> po_evn s' = po_evn s \<Longrightarrow>
     po_udata s' = po_udata s \<Longrightarrow> po_fds s' = po_fds s \<Longrightarrow>
     (16 dvd unat (po_cap s q) \<Longrightarrow> 16 dvd unat (po_cap s' q)) \<Longrightarrow> po_calm U q s s'"
  by (simp add: po_calm_def loose_def)

lemma po_store_same:
  "same_requests s (s\<lparr>po_cap := c\<rparr>)" "same_requests s (s\<lparr>po_arr := a\<rparr>)" "same_requests s (s\<lparr>po_arr := a, po_idx := i\<rparr>)"
  "same_requests s (s\<lparr>po_fds := f, po_arr := a\<rparr>)"
  by (simp_all add: same_requests_def same_queues_def req_links_def)

lemma doubled: "16 dvd unat (c :: u64) \<Longrightarrow> 16 dvd unat (if c * 2 = 0 then 16 else c * 2)"
  by (simp add: unat_word_ariths dvd_mod)

lemma calm_room:
  assumes os: "poll_os U os" and run: "fds_room os q n s = (ok, s')"
  shows "po_calm U q s s'"
proof (cases "of_nat n \<ge> po_cap s q")
  case False
  with run show ?thesis by (simp add: fds_room_def po_calm_refl)
next
  case True
  define cap where "cap = (let c = po_cap s q * 2 in if c = 0 then 16 else c)"
  let ?s = "s\<lparr>po_cap := (po_cap s)(q := cap)\<rparr>" let ?k = "CRealloc (po_fds s q) (sizeof_pollfd * cap)"
  let ?r = "reply_of os ?k ?s" let ?t = "after os ?k ?s"
  have res: "resource_os U (\<lambda>_ _. True) os" and null: "Mem NULL \<notin> U w" for w using os by (simp_all add: poll_os_def)
  note call = resource_call [OF res, where k = ?k and s = ?s]
  have s1: "po_calm U q s ?s" by (rule po_calm_own) (use doubled in \<open>simp_all add: po_store_same poll_links_def cap_def Let_def\<close>)
  have io: "io_call ?k" by (simp add: io_call_def)
  have "po_calm U q ?s s'"
  proof (cases "ptr ?r = NULL")
    case True
    then have "s' = ?t" using run \<open>po_cap s q \<le> of_nat n\<close> by (auto simp: fds_room_def Let_def cap_def sys_simps)
    moreover have "po_fds ?t = po_fds ?s" "po_cap ?t = po_cap ?s" by (simp_all add: after_eq)
    moreover have "U (world ?s) \<subseteq> U (world ?t)" using call(1) [OF io] True by auto
    ultimately show ?thesis by (auto simp: po_calm_def loose_def same_requests_after simp del: world_after)
  next
    case False
    let ?arr = "grow (po_arr s q) (unat cap)"
    have s': "s' = ?t\<lparr>po_fds := (po_fds s)(q := ptr ?r), po_arr := (po_arr s)(q := ?arr)\<rparr>"
      using run \<open>po_cap s q \<le> of_nat n\<close> False by (auto simp: fds_room_def Let_def cap_def sys_simps after_eq)
    have new: "Mem (ptr ?r) \<in> U (world ?t)" using call(2) [OF io] False by simp
    have "loose U q s' x" if "loose U q ?s x" for x
    proof -
      have x: "x \<in> U (world ?s)" "x \<noteq> Mem (po_fds s q)" using that by (simp_all add: loose_def)
      then have "x \<in> U (world ?t)" using call(1) [OF io] False by simp
      moreover have "x \<noteq> Mem (ptr ?r)" using call(3) [OF io, of x] x False by auto
      ultimately show ?thesis by (simp add: loose_def s' del: world_after)
    qed
    moreover have "same_requests ?s s'"
      unfolding s' by (rule same_requests_trans [OF same_requests_after po_store_same(4)])
    ultimately show ?thesis using new by (simp add: po_calm_def s' poll_links_def after_eq)
  qed
  with s1 show ?thesis by (rule po_calm_trans)
qed

lemma calm_addfd:
  assumes os: "poll_os U os" and run: "yoi_poll_addfd os q i n s = Some (ok, n', s')"
  shows "po_calm U q s s'"
proof -
  obtain b t where room: "fds_room os q n s = (b, t)" by fastforce
  have "po_calm U q t s'"
  proof (cases b)
    case True
    with run room obtain a j where "s' = t\<lparr>po_arr := a, po_idx := j\<rparr>"
      by (auto simp: yoi_poll_addfd_def Let_def split: if_splits)
    then show ?thesis by (intro po_calm_own) (simp_all add: po_store_same poll_links_def)
  qed (use run room in \<open>simp add: yoi_poll_addfd_def po_calm_refl\<close>)
  with calm_room [OF os room] show ?thesis by (rule po_calm_trans)
qed

lemma calm_add_all:
  assumes "poll_os U os" and "chain (po_next s) p xs" and "add_all os q p n s = Some (ok, n', s')"
  shows "po_calm U q s s'"
  using assms
proof (induction xs arbitrary: p n s)
  case Nil
  then show ?case by (simp add: add_all.simps po_calm_refl)
next
  case (Cons x xs)
  then have p: "p = x" "x \<noteq> NULL" "chain (po_next s) (po_next s x) xs" by auto
  then obtain b k t where add: "yoi_poll_addfd os q x n s = Some (b, k, t)"
    using Cons.prems(3) by (subst (asm) add_all.simps) (auto simp: bind_eq_Some_conv)
  note c = calm_addfd [OF Cons.prems(1) add]
  then have nxt: "po_next t = po_next s" by (simp add: po_calm_def po_links_eq)
  show ?case
  proof (cases b)
    case True
    with Cons.prems(3) p add have "add_all os q (po_next s x) k t = Some (ok, n', s')"
      by (subst (asm) add_all.simps) (simp add: nxt)
    with Cons.IH [OF Cons.prems(1), of t "po_next s x" k] p(3) nxt have "po_calm U q t s'" by simp
    with c show ?thesis by (rule po_calm_trans)
  next
    case False
    with Cons.prems(3) p add c show ?thesis by (subst (asm) add_all.simps) simp
  qed
qed

lemma calm_once:
  assumes os: "poll_os U os" and run: "poll_once os q n deadline s = Some (r, s')"
  shows "po_calm U q s s'"
proof (cases deadline)
  case None
  with run show ?thesis
    by (auto simp: poll_once_def sys_simps Let_def io_call_def intro: po_calm_after [OF os])
next
  case (Some d)
  with run obtain now t where t: "yo_time_now os YO_CLOCK_MONO s = Some (now, t)"
    and s': "s' = after os (CPoll (map (\<lambda>(fd, ev, _). (fd, ev)) (take n (po_arr s q))) (Some (poll_timeout d now))) t"
    by (cases "yo_time_now os YO_CLOCK_MONO s") (auto simp: poll_once_def sys_simps Let_def)
  from t have "po_calm U q s t"
    by (auto simp: yo_time_now_def sys_simps Let_def io_call_def intro!: po_calm_after [OF os] split: if_splits)
  then show ?thesis unfolding s' by (rule po_calm_trans [OF _ po_calm_after [OF os]]) (simp_all add: io_call_def)
qed

lemma calm_wrapper:
  fixes s :: "('w, 'z) po_scheme"
  assumes os: "poll_os U os" and run: "yoi_poll_wrapper os q n deadline s = Some (r, s')"
  shows "po_calm U q s s'"
proof -
  let ?P = "\<lambda>os' p k d (s :: ('w, 'z) po_scheme) (x :: int \<times> ('w, 'z) po_scheme). os' = os \<longrightarrow> p = q \<longrightarrow> po_calm U q s (snd x)"
  have step: "?P os' p k d s x" if IH: "\<And>os' p k d s x. rep os' p k d s = Some x \<Longrightarrow> ?P os' p k d s x"
    and body: "(poll_once os' p k d s \<bind> (\<lambda>(r, s).
       if ret r < 0 then
         if errno s = EINTR \<or> errno s = EAGAIN then rep os' p k d s else None
       else
         Some (ret r, s\<lparr>po_arr := (po_arr s)(p :=
           map2 (\<lambda>(fd, ev, _) rev. (fd, ev, rev)) (take k (po_arr s p)) (r_revents r)
             @ drop k (po_arr s p))\<rparr>))) = Some x" for rep os' p k d s x
  proof (intro impI)
    assume eq: "os' = os" "p = q"
    with body obtain r t where t: "poll_once os q k d s = Some (r, t)" by (auto simp: bind_eq_Some_conv)
    note c = calm_once [OF os t]
    show "po_calm U q s (snd x)"
    proof (cases "ret r < 0")
      case True
      with body t eq have "rep os q k d t = Some x" by (auto split: if_splits)
      with IH have "po_calm U q t (snd x)" by blast
      with c show ?thesis by (rule po_calm_trans)
    next
      case False
      with body t eq obtain a where "snd x = t\<lparr>po_arr := a\<rparr>" by auto
      moreover have "po_calm U q t (t\<lparr>po_arr := a\<rparr>)" by (rule po_calm_own) (simp_all add: po_store_same poll_links_def)
      ultimately show ?thesis using c po_calm_trans by auto
    qed
  qed
  have "?P os' p k d s x" if "yoi_poll_wrapper os' p k d s = Some x" for os' p k d x and s :: "('w, 'z) po_scheme"
    using yoi_poll_wrapper.raw_induct [OF _ that, of ?P] step by blast
  with run show ?thesis by fastforce
qed

lemma first_ready_listed:
  "chain (po_next s) p xs \<Longrightarrow> first_ready q p s = Some (it, rdy) \<Longrightarrow> it = NULL \<or> it \<in> set xs"
proof (induction xs arbitrary: p)
  case (Cons x xs)
  then show ?case by (subst (asm) (2) first_ready.simps) (auto simp: Let_def split: if_splits)
qed (simp add: first_ready.simps)

text \<open>What \<open>yoi_pl_impl_poll\<close> reports is the data of a node of the queue.\<close>

lemma poll_poll_effect:
  assumes os: "poll_os U os" and F: "poll_lists s F" and run: "poll_poll os q deadline s = Some (c, u, evn, s')"
  shows "po_calm U q s s' \<and> (c = YO_OK \<longrightarrow> (\<exists>i \<in> set (F q). u = po_udata s i))"
proof -
  have ch: "chain (po_next s) (po_head s q) (F q)" using F by (simp add: poll_lists_def family_def dlist_def poll_links_def)
  obtain ok n t where add: "add_all os q (po_head s q) 0 s = Some (ok, n, t)"
    using run by (auto simp: poll_poll_def bind_eq_Some_conv)
  note c1 = calm_add_all [OF os ch add]
  show ?thesis
  proof (cases ok)
    case False
    with run add c1 show ?thesis by (simp add: poll_poll_def)
  next
    case True
    with run add obtain r v it rdy where w: "yoi_poll_wrapper os q n deadline t = Some (r, v)"
      and ready: "first_ready q (po_head v q) v = Some (it, rdy)"
      and res: "(c, u, evn, s') = (if it = NULL then (YO_ETIMEOUT, NULL, 0, v) else (YO_OK, po_udata v it, rdy, v))"
      by (auto simp: poll_poll_def bind_eq_Some_conv split: if_splits)
    note c2 = po_calm_trans [OF c1 calm_wrapper [OF os w]]
    then have "po_next v = po_next s" "po_head v = po_head s" "po_udata v = po_udata s" by (simp_all add: po_calm_def po_links_eq)
    with ch first_ready_listed [of v "po_head v q" "F q" q it rdy] ready res c2 show ?thesis by (auto split: if_splits)
  qed
qed

lemma calm_sane:
  assumes sane: "po_sane U q os s" and calm: "po_calm U q s s'"
  shows "po_sane U q os s'" and "poll_registered s' = poll_registered s"
    and "x \<in> U (world s) \<Longrightarrow> \<not> po_reserved q s x \<Longrightarrow> x \<in> U (world s') \<and> \<not> po_reserved q s' x"
proof -
  obtain F where F: "poll_os U os" "poll_lists s F" "\<And>p i. i \<in> set (F p) \<Longrightarrow> Mem i \<in> U (world s)"
    "po_fds s q \<noteq> NULL \<Longrightarrow> Mem (po_fds s q) \<in> U (world s) \<and> (\<forall>p. po_fds s q \<notin> set (F p))"
    using po_saneE [OF sane] by metis
  have null: "i \<noteq> NULL" if "i \<in> set (F p)" for p i using find_node_set [OF F(2), of i p] that by blast
  have cap: "16 dvd unat (po_cap s' q)" using sane calm by (simp add: po_sane_def po_calm_def)
  have keep: "poll_links s' = poll_links s" "po_fd s' = po_fd s" "po_evn s' = po_evn s" "po_udata s' = po_udata s"
    and res: "\<And>x. loose U q s x \<Longrightarrow> loose U q s' x" "po_fds s' q \<noteq> NULL \<Longrightarrow> Mem (po_fds s' q) \<in> U (world s')"
    using calm F(4) unfolding po_calm_def by blast+
  have lists: "poll_lists s' F" using F(2) by (simp add: poll_lists_def keep)
  have node: "loose U q s' (Mem i)" if "i \<in> set (F p)" for p i
    using F(3) [OF that] F(4) null [OF that] that by (intro res(1)) (auto simp: loose_def)
  show "po_sane U q os s'"
    by (rule po_saneI [OF F(1) lists]) (use node res(2) cap in \<open>auto simp: loose_def\<close>)
  show "poll_registered s' = poll_registered s"
    by (intro ext) (simp add: registered_eq [OF lists] registered_eq [OF F(2)] keep)
  show "x \<in> U (world s') \<and> \<not> po_reserved q s' x" if x: "x \<in> U (world s)" "\<not> po_reserved q s x"
  proof -
    have "Mem NULL \<notin> U w" for w using F(1) by (simp add: poll_os_def)
    then have "loose U q s x" using x by (auto simp: loose_def po_reserved_def)
    with res(1) have "loose U q s' x" by blast
    with x(2) show ?thesis by (auto simp: loose_def po_reserved_iff [OF lists] po_reserved_iff [OF F(2)])
  qed
qed

lemma setmask_effect:
  assumes "poll_setmask os p u fd m s = (c, s')"
  shows "po_fds s' = po_fds s" and "po_cap s' = po_cap s" and "world s' = world s \<or> world s' = world (after os (CMalloc sizeof_poll_node) s)"
  using assms by (auto simp: poll_setmask_def Let_def sys_simps put_poll_links_def after_eq split: if_splits)

lemma setmask_sane:
  assumes sane: "po_sane U q os s" and run: "poll_setmask os p u fd m s = (c, s')"
  shows "po_sane U q os s' \<and> (x \<in> U (world s) \<and> \<not> po_reserved q s x \<longrightarrow> x \<in> U (world s') \<and> \<not> po_reserved q s' x)"
proof -
  obtain F where F: "poll_os U os" "poll_lists s F" "\<And>p i. i \<in> set (F p) \<Longrightarrow> Mem i \<in> U (world s)"
    "po_fds s q \<noteq> NULL \<Longrightarrow> Mem (po_fds s q) \<in> U (world s) \<and> (\<forall>p. po_fds s q \<notin> set (F p))"
    using po_saneE [OF sane] by metis
  have res: "resource_os U (\<lambda>_ _. True) os" using F(1) by (simp add: poll_os_def)
  have "U (world s) \<subseteq> U (world (after os (CMalloc sizeof_poll_node) s))"
    using resource_call(1) [OF res, where k = "CMalloc sizeof_poll_node" and s = s] by (auto simp: io_call_def)
  then have grow: "U (world s) \<subseteq> U (world s')" using setmask_effect(3) [OF run] by auto
  have fds: "po_fds s' = po_fds s" by (rule setmask_effect(1) [OF run])
  have cap: "16 dvd unat (po_cap s' q)" using sane setmask_effect(2) [OF run] by (simp add: po_sane_def)
  have use: ?thesis if G: "poll_lists s' G" and sub: "\<And>r i. i \<in> set (G r) \<Longrightarrow> i \<in> set (F r) \<or> Mem i \<in> U (world s') \<and> Mem i \<notin> U (world s)" for G
  proof (intro conjI impI)
    show "po_sane U q os s'"
      by (rule po_saneI [OF F(1) G]) (use sub F(3,4) grow cap in \<open>unfold fds, blast+\<close>)
    assume x: "x \<in> U (world s) \<and> \<not> po_reserved q s x"
    show "x \<in> U (world s')" using x grow by blast
    show "\<not> po_reserved q s' x"
      using x sub unfolding po_reserved_iff [OF G] po_reserved_iff [OF F(2)] fds by blast
  qed
  have heap: "heap_os (blocks U) os" by (rule resource_heap [OF res])
  have F2: "\<forall>q. set (F q) \<subseteq> blocks U (world s)" using F(3) by blast
  show ?thesis
    using run
  proof (rule poll_setmask_lists [OF heap F(2) F2])
    fix i assume "poll_lists s' (F(p := remove1 i (F p)))"
    then show ?thesis by (rule use) (auto dest: notin_set_remove1 split: if_splits)
  next
    assume "s' = s" then show ?thesis using sane by simp
  next
    assume "poll_lists s' F" then show ?thesis by (rule use) blast
  next
    assume "s' = after os (CMalloc sizeof_poll_node) s"
    then have "poll_lists s' F" using F(2) by (simp add: poll_lists_def)
    then show ?thesis by (rule use) blast
  next
    fix i assume "poll_lists s' (F(p := i # F p))" "i \<in> blocks U (world s')" "i \<notin> blocks U (world s)"
    then show ?thesis by (intro use) (auto split: if_splits)
  qed
qed

lemma po_call:
  assumes sane: "po_sane U q os s" and k: "io_call k"
    and given: "\<And>x. x \<in> set (releases (k, reply_of os k s)) \<Longrightarrow> \<not> po_reserved q s x"
  shows "po_sane U q os (after os k s)"
proof -
  obtain F where F: "poll_os U os" "poll_lists s F" "\<And>p i. i \<in> set (F p) \<Longrightarrow> Mem i \<in> U (world s)"
    "po_fds s q \<noteq> NULL \<Longrightarrow> Mem (po_fds s q) \<in> U (world s) \<and> (\<forall>p. po_fds s q \<notin> set (F p))"
    using po_saneE [OF sane] by metis
  have res: "resource_os U (\<lambda>_ _. True) os" using F(1) by (simp add: poll_os_def)
  have keep: "x \<in> U (world (after os k s))" if "po_reserved q s x" "x \<in> U (world s)" for x
    using resource_call(1) [OF res k that(2)] given that(1) by blast
  have fds: "po_fds (after os k s) = po_fds s" by (simp add: after_eq)
  show ?thesis
  proof (rule po_saneI [OF F(1)])
    show "poll_lists (after os k s) F" using F(2) by (simp add: poll_lists_def)
    show "Mem i \<in> U (world (after os k s))" if "i \<in> set (F p)" for p i
      using F(3) [OF that] that by (intro keep) (auto simp: po_reserved_iff [OF F(2)])
    show "Mem (po_fds (after os k s) q) \<in> U (world (after os k s)) \<and> (\<forall>p. po_fds (after os k s) q \<notin> set (F p))"
      if "po_fds (after os k s) q \<noteq> NULL"
      using F(4) that unfolding fds by (auto simp: po_reserved_def intro: keep simp del: world_after)
    show "16 dvd unat (po_cap (after os k s) q)" using sane by (simp add: po_sane_def after_eq)
  qed
qed

lemma po_sane_own: "world s' = world s \<Longrightarrow> pl.more s' = pl.more s \<Longrightarrow> po_sane U q os s' = po_sane U q os s"
  for s s' :: "('w, 'z) po_scheme"
  using po.own_state [of s' s "blocks U" os] po_own_fields [of s' s]
  by (simp add: po_sane_def find_node_def)

interpretation pa: async_backend poll_setmask "po_sane U q" poll_registered poll_poll q U "\<lambda>_ _. True" "po_reserved q" "\<lambda>_ _. False"
  for U q
proof
  fix os p u fd fd' m s s' c k
  assume sane: "po_sane U q os s"
  then have law: "poll_sane (blocks U) os s" by (simp add: po_sane_def)
  show "poll_registered s' p fd = (if m = 0 then None else Some (m, u))"
    if "poll_setmask os p u fd m s = (YO_OK, s')" "m AND 3 = m"
    using po.setmask_sets [OF law that] .
  show "po_sane U q os s' \<and> same_requests s s' \<and> (fd' \<noteq> fd \<longrightarrow> poll_registered s' p fd' = poll_registered s p fd')"
    if run: "poll_setmask os p u fd m s = (c, s')"
    using po.setmask_frame [OF law run] setmask_sane [OF sane run] by blast
  show "poll_registered s' p = poll_registered s p" if "poll_setmask os p u fd m s = (c, s')" "c \<noteq> YO_OK"
    using po.setmask_error [OF law that] .
  show "po_sane U q os (after os k s) \<and> poll_registered (after os k s) = poll_registered s" if "quiet k"
    using that by (cases k) (auto simp: quiet_def io_call_def intro!: po_call [OF sane])
next
  fix os :: "'a os" and s s' :: "('a, 'b) po_scheme"
  assume w: "world s' = world s" and m: "pl.more s' = pl.more s"
  have "poll_registered s' = poll_registered s"
    by (intro ext) (simp add: poll_registered_def find_node_def po_own_fields [OF m] Let_def)
  with po_sane_own [OF w m] show "po_sane U q os s' = po_sane U q os s \<and> poll_registered s' = poll_registered s" by blast
next
  fix os :: "'a os" and s :: "('a, 'b) po_scheme"
  assume sane: "po_sane U q os s"
  then show "posix_os os" "resource_os U (\<lambda>_ _. True) os" by (simp_all add: po_sane_def poll_os_def)
  obtain F where F: "poll_lists s F" "\<And>p i. i \<in> set (F p) \<Longrightarrow> Mem i \<in> U (world s)"
    "po_fds s q \<noteq> NULL \<Longrightarrow> Mem (po_fds s q) \<in> U (world s) \<and> (\<forall>p. po_fds s q \<notin> set (F p))"
    using po_saneE [OF sane] by metis
  show "x \<in> U (world s)" if "po_reserved q s x" for x
    using that F(2,3) unfolding po_reserved_iff [OF F(1)] by blast
next
  fix s s' :: "('a, 'b) po_scheme"
  assume m: "pl.more s' = pl.more s"
  show "po_reserved q s' = po_reserved q s \<and> (\<lambda>_. False) = (\<lambda>_. False)"
    by (intro conjI ext refl) (simp add: po_reserved_def find_node_def po_own_fields [OF m])
next
  fix os u fd m s c s' x
  assume sane: "po_sane U q os s" and run: "poll_setmask os q u fd m s = (c, s')"
  from sane obtain F where F: "poll_lists s F" by (rule po_saneE)
  show "(True \<longrightarrow> c \<noteq> YO_EPERM \<and> (poll_registered s q fd \<noteq> None \<longrightarrow> c = YO_OK)) \<and> (\<not> True \<and> m \<noteq> 0 \<longrightarrow> c = YO_EPERM)"
    using run registered_eq [OF F, of q fd] find_node_cases [OF F, of q fd]
    by (auto simp: poll_setmask_def Let_def sys_simps split: if_splits)
  show "(\<lambda>_. True) = (\<lambda>_. True) \<and> (\<lambda>_. False) = (\<lambda>_. False)
      \<and> (x \<in> U (world s) \<and> \<not> po_reserved q s x \<longrightarrow> x \<in> U (world s') \<and> \<not> po_reserved q s' x)"
    using setmask_sane [OF sane run] by blast
next
  fix os deadline s c u evn s' x
  assume sane: "po_sane U q os s" and run: "poll_poll os q deadline s = Some (c, u, evn, s')"
  from sane obtain F where F: "poll_os U os" "poll_lists s F" by (rule po_saneE)
  note eff = poll_poll_effect [OF F run]
  note calm = calm_sane [OF sane eff [THEN conjunct1]]
  have "\<exists>fd m. poll_registered s q fd = Some (m, u)" if i: "i \<in> set (F q)" "u = po_udata s i" for i
  proof -
    obtain fd where "find_node q fd s = i" "i \<noteq> NULL" using find_node_set [OF F(2), of i q] i(1) by blast
    with i(2) show ?thesis by (intro exI [of _ fd] exI [of _ "po_evn s i"]) (simp add: poll_registered_def)
  qed
  then show "po_sane U q os s' \<and> same_requests s s' \<and> poll_registered s' q = poll_registered s q
        \<and> (\<lambda>_. True) = (\<lambda>_. True) \<and> (\<lambda>_. False) = (\<lambda>_. False)
        \<and> (x \<in> U (world s) \<and> \<not> po_reserved q s x \<longrightarrow> x \<in> U (world s') \<and> \<not> po_reserved q s' x)
        \<and> (c = YO_OK \<and> u \<noteq> NULL \<longrightarrow> (\<exists>fd m. poll_registered s q fd = Some (m, u) \<and> \<not> False))"
    using calm eff by (auto simp: po_calm_def)
next
  fix os s k
  assume sane: "po_sane U q os s" and k: "io_call k"
    and given: "\<And>x. x \<in> set (releases (k, reply_of os k s)) \<Longrightarrow>
      \<not> po_reserved q s x \<and> (\<forall>fd. x = Fd fd \<longrightarrow> poll_registered s q fd = None)"
  show "po_sane U q os (after os k s) \<and> poll_registered (after os k s) q = poll_registered s q
        \<and> (\<forall>fd m d. Fd fd \<in> set (acquires (k, reply_of os k s)) \<and> poll_registered s q fd = Some (m, d) \<longrightarrow> \<not> False)"
    using po_call [OF sane k] given by simp
qed

section \<open>What a client may rely on\<close>

definition po_own :: "('w \<Rightarrow> resource set) \<Rightarrow> addr \<Rightarrow> ('w, 'z) po_scheme \<Rightarrow> resource \<Rightarrow> bool" where
  "po_own U q s x \<longleftrightarrow> x \<in> U (world s) \<and> \<not> po_reserved q s x \<and> (\<forall>fd. x = Fd fd \<longrightarrow> poll_registered s q fd = None)"

lemma po_own_mine: "po_own U q = async_backend.mine poll_registered q U (po_reserved q)"
  by (simp add: fun_eq_iff po_own_def pa.mine_def pa.usable_def)

abbreviation (input) poll_client ::
  "('w \<Rightarrow> resource set) \<Rightarrow> 'w os \<Rightarrow> addr \<Rightarrow> ('w, 'z po_ext) client \<Rightarrow> ('w, 'z po_ext) client \<Rightarrow> bool" where
  "poll_client U os q \<equiv> client_step poll_setmask poll_poll os q (po_own U q) (\<lambda>_ _. True)"

text \<open>A new queue watches nothing.\<close>

lemma po_queue_new:
  assumes os: "poll_os U os" and sane: "poll_sane (blocks U) os s0" and run: "yo_queue_new os poll_impl_init s0 = (q, s1)" and q: "q \<noteq> NULL"
  shows "po_sane U q os s1" and "poll_registered s1 q fd = None" and "ready s1 q []"
proof -
  let ?m = "after os (CMalloc sizeof_yo_queue) s0"
  have ptr: "ptr (reply_of os (CMalloc sizeof_yo_queue) s0) = q"
    using run q by (auto simp: yo_queue_new_def sys_simps poll_impl_init_def split: if_splits)
  define t where "t = ?m\<lparr>po_fds := (po_fds ?m)(q := NULL), po_arr := (po_arr ?m)(q := []), po_cap := (po_cap ?m)(q := 0),
     po_head := (po_head ?m)(q := NULL), q_head := (q_head ?m)(q := NULL), q_pool := (q_pool ?m)(q := NULL)\<rparr>"
  have s1: "s1 = after os (CMutexNew q) t"
    using run q ptr by (auto simp: yo_queue_new_def sys_simps poll_impl_init_def t_def Let_def)
  from sane obtain F where F: "poll_lists s0 F" "\<forall>p. set (F p) \<subseteq> blocks U (world s0)" by (auto simp: poll_sane_def)
  have res: "resource_os U (\<lambda>_ _. True) os" using os by (simp add: poll_os_def)
  have lists: "poll_lists t (F(q := []))"
    using F(1) by (auto simp: poll_lists_def family_def dlist_def poll_links_def t_def after_eq)
  have "U (world s0) \<subseteq> U (world t)"
    using resource_call(1) [OF res, where k = "CMalloc sizeof_yo_queue" and s = s0] by (auto simp: io_call_def t_def)
  then have "po_sane U q os t"
    using F(2) by (intro po_saneI [OF os lists]) (auto simp: t_def split: if_splits)
  then show "po_sane U q os s1" unfolding s1 by (rule po_call) (simp_all add: io_call_def)
  have "poll_registered t q fd = None" by (simp add: registered_eq [OF lists])
  then show "poll_registered s1 q fd = None" by (simp add: s1)
  show "ready s1 q []" by (simp add: s1 t_def ready_def)
qed

lemma poll_new_accounts:
  assumes "poll_os U os" and "poll_sane (blocks U) os s0" and "yo_queue_new os poll_impl_init s0 = (q, s1)" and "q \<noteq> NULL"
  shows "pa.accounts U q os ([], s1, {#}, {#})"
  by (rule pa.accounts_new [OF po_queue_new(1) [OF assms] _ po_queue_new(3) [OF assms]])
    (simp add: po_queue_new(2) [OF assms])

lemma poll_run_keeps_accounts:
  assumes "pa.accounts U q os c" and "(poll_client U os q)\<^sup>*\<^sup>* c c'"
  shows "pa.accounts U q os c'"
  using pa.run_accounts [OF assms(1)] assms(2) unfolding po_own_mine by blast

text \<open>A poll that watches fewer than 16 descriptors does not write outside the array.\<close>

lemma watched_below:
  assumes F: "poll_lists s F" and cap: "16 dvd unat (po_cap s q)" "po_cap s q = 0 \<or> length (po_arr s q) = unat (po_cap s q)"
    and few: "length (F q) < 16"
  shows "add_all os q (po_head s q) 0 s \<noteq> None"
proof -
  have ch: "chain (po_next s) (po_head s q) (F q)" using F by (simp add: poll_lists_def family_def dlist_def poll_links_def)
  consider "F q = []" | "F q \<noteq> []" "po_cap s q = 0" | "po_cap s q \<noteq> 0" by blast
  then show ?thesis
  proof cases
    case 1
    with ch show ?thesis by (simp add: add_all.simps)
  next
    case 2
    then have head: "po_head s q \<noteq> NULL" using ch by (cases "F q") auto
    show ?thesis
    proof (cases "ptr (reply_of os (CRealloc (po_fds s q) 128) s) = NULL")
      case True
      have "reply_of os c (s\<lparr>po_cap := f\<rparr>) = reply_of os c s" for c f by (simp add: reply_of_def)
      with True have "fst (fds_room os q 0 s) = False" by (simp add: fds_room_def 2 Let_def sys_simps)
      with head show ?thesis by (subst add_all.simps) (simp add: yoi_poll_addfd_def split_beta)
    next
      case False
      note m = fds_room_first [OF 2(2) False]
      have "length (po_arr (made os q s) q) = 16" by (simp add: m grow_def)
      with add_all_inside [of "made os q s" "po_head s q" "F q" q 0 os] ch few show ?thesis
        by (simp add: add_all_first [OF 2(2) False head] m)
    qed
  next
    case 3
    with cap(1) have "16 \<le> unat (po_cap s q)" by (simp add: dvd_imp_le unat_gt_0)
    with add_all_inside [OF ch, of q 0 os] few cap(2) 3 show ?thesis by simp
  qed
qed

lemma watched_handles:
  assumes "pa.accounts U q os (hs, s, started, finished)" and "length hs < 16"
    and arr: "po_cap s q = 0 \<or> length (po_arr s q) = unat (po_cap s q)"
  shows "add_all os q (po_head s q) 0 s \<noteq> None"
proof -
  have sane: "po_sane U q os s" using assms(1) pa.io_sane by (auto simp: pa.accounts_def)
  then obtain F where F: "poll_lists s F" by (rule po_saneE)
  have own: "poll_registered s q fd = Some (m, d) \<longrightarrow> d \<in> set hs \<and> fd = fd_fd s d" for fd m d
    using pa.account [OF assms(1)] by auto
  have "po_fd s i \<in> fd_fd s ` set hs" if "i \<in> set (F q)" for i
  proof -
    obtain fd where i: "find_node q fd s = i" "i \<noteq> NULL" using find_node_set [OF F, of i q] \<open>i \<in> set (F q)\<close> by blast
    then have "po_fd s i = fd" using find_node_cases [OF F, of q fd] by auto
    moreover have "poll_registered s q fd = Some (po_evn s i, po_udata s i)" using i by (simp add: poll_registered_def)
    ultimately show ?thesis using own by blast
  qed
  then have "card (po_fd s ` set (F q)) \<le> card (fd_fd s ` set hs)" by (intro card_mono) auto
  moreover have "distinct (map (po_fd s) (F q))" using F by (simp add: poll_lists_def family_def)
  then have "card (po_fd s ` set (F q)) = length (F q)" using distinct_card by fastforce
  moreover have "card (fd_fd s ` set hs) \<le> length hs" using card_image_le card_length le_trans by blast
  ultimately show ?thesis using watched_below [OF F _ arr] sane assms(2) by (simp add: po_sane_def)
qed

text \<open>
  C3: Nothing is lost and nothing is delivered twice, also on the systems without epoll. A client makes a queue and then any handles
  and requests on it, starts reads, writes and accepts, polls and closes, in whatever order and however the kernel answers. As long as each of
  these calls returns and no poll has written outside the array of the queue (property C14 says when it does), every request
  that it has passed to a call has been delivered to it, or is linked to exactly one of its open handles, or is in the
  ready list, and is in only one of these places; the nodes of the queue are those of the descriptors of open handles with
  requests, and ask \<open>poll\<close> for exactly what these need. With fewer than 16 open handles no poll writes outside the array, provided
  the array has the capacity that the queue records, which no longer holds after an allocation of the array has failed.
  Cancelling a request is not among the calls (see property C34).
\<close>

theorem poll_client_accounts:
  assumes "poll_os U os" and "poll_sane (\<lambda>w. {p. Mem p \<in> U w}) os s0" and "yo_queue_new os poll_impl_init s0 = (q, s1)" and "q \<noteq> NULL"
    and "(poll_client U os q)\<^sup>*\<^sup>* ([], s1, {#}, {#}) (hs, s, started, finished)"
  shows "(\<exists>F ys. started = finished + mset (concat (map F hs)) + mset (map fst ys) \<and> placed s q hs F ys
     \<and> (\<forall>fd m d. poll_registered s q fd = Some (m, d) \<longrightarrow> d \<in> set hs \<and> fd = fd_fd s d \<and> F d \<noteq> [] \<and> m = needed s (F d))
     \<and> (\<forall>x. count finished x \<le> count started x \<and> count started x \<le> Suc (count finished x)))
   \<and> (length hs < 16 \<and> (po_cap s q = 0 \<or> length (po_arr s q) = unat (po_cap s q)) \<longrightarrow> add_all os q (po_head s q) 0 s \<noteq> None)"
proof -
  have acc: "pa.accounts U q os (hs, s, started, finished)"
    by (rule poll_run_keeps_accounts [OF poll_new_accounts [OF assms(1-4)] assms(5)])
  show ?thesis using pa.account [OF acc] watched_handles [OF acc] by simp
qed

section \<open>A concrete client\<close>

text \<open>A kernel with six blocks of memory to give out, whose world is what is in use, and which has input for the descriptor 5.\<close>

definition spare_blocks :: "resource list \<Rightarrow> addr list" where
  "spare_blocks w = filter (\<lambda>p. Mem p \<notin> set w) [4096, 8192, 12288, 16384, 20480, 24576]"

definition spare_fds :: "resource list \<Rightarrow> int list" where
  "spare_fds w = filter (\<lambda>fd. Fd fd \<notin> set w) [10, 11, 12, 13, 14, 15]"

definition spare_kernel :: "resource list os" where
  "spare_kernel w k = (if \<not> io_call k then (returns 4096, w) else case k of
     CMalloc n \<Rightarrow> (case spare_blocks w of [] \<Rightarrow> (failed 0 ENOMEM, w) | p # _ \<Rightarrow> (returns (uint p), Mem p # w))
   | CRealloc old n \<Rightarrow> (case spare_blocks w of [] \<Rightarrow> (failed 0 ENOMEM, w) | p # _ \<Rightarrow> (returns (uint p), Mem p # removeAll (Mem old) w))
   | CFree p \<Rightarrow> (returns 0, if p = NULL then w else removeAll (Mem p) w)
   | CClose fd \<Rightarrow> (returns 0, removeAll (Fd fd) w)
   | CEpollCreate \<Rightarrow> (failed (-1) ENOMEM, w)
   | CTimerfdCreate \<Rightarrow> (failed (-1) ENOMEM, w)
   | CPipe \<Rightarrow> (failed (-1) ENOMEM, w)
   | CAccept _ \<Rightarrow> (case spare_fds w of [] \<Rightarrow> (failed (-1) ENOMEM, w) | fd # _ \<Rightarrow> (returns fd, Fd fd # w))
   | CPoll fds t \<Rightarrow> ((returns (int (length fds)))\<lparr>r_revents := map (\<lambda>(fd, ev). if fd = 5 then POLLIN else 0) fds\<rparr>, w)
   | _ \<Rightarrow> (returns 7, w))"

definition spare_used :: "resource list \<Rightarrow> resource set" where
  "spare_used w = set w - {Mem NULL}"

lemma spare_block: "spare_blocks w = p # ps \<Longrightarrow> p \<noteq> NULL \<and> Mem p \<notin> set w"
proof -
  assume "spare_blocks w = p # ps"
  then have "p \<in> set (spare_blocks w)" by simp
  then show ?thesis unfolding spare_blocks_def set_filter by auto
qed

lemma spare_fd: "spare_fds w = fd # fds \<Longrightarrow> 0 < fd \<and> Fd fd \<notin> set w"
proof -
  assume "spare_fds w = fd # fds"
  then have "fd \<in> set (spare_fds w)" by simp
  then show ?thesis unfolding spare_fds_def set_filter by auto
qed

lemmas spare_defs = spare_kernel_def spare_used_def returns_def failed_def Let_def

lemma spare_os: "poll_os spare_used spare_kernel"
  unfolding poll_os_def posix_os_def resource_os_def
proof (intro conjI allI impI)
  show "let r = fst (spare_kernel w k) in (fails k r \<longrightarrow> eno r \<noteq> None) \<and> (\<forall>e. eno r = Some e \<longrightarrow> 0 < e)" for w k
  proof (cases "io_call k")
    case True
    then show ?thesis
      by (rule io_callE) (auto simp: spare_defs fails_def returns_pointer_def io_call_def dest: spare_block spare_fd split: list.splits)
  qed (simp add: spare_defs fails_def)
  show "let (r, w') = spare_kernel w k; taken = set (acquires (k, r)); given = set (releases (k, r)) in
        (spare_used w - given) \<union> taken \<subseteq> spare_used w' \<and> taken \<inter> (spare_used w - given) = {}
      \<and> (\<forall>fd. Fd fd \<notin> taken \<union> given \<longrightarrow> True = True)" if "io_call k" for w k
    using that by (rule io_callE) (auto simp: spare_defs io_call_def dest: spare_block spare_fd split: list.splits)
qed (simp add: spare_used_def)

definition poll_start :: "resource list po" where
  "poll_start = pl.extend (blank [Fd 5]) \<lparr>po_next = (\<lambda>_. NULL), po_slot = (\<lambda>_. NextSlot NULL), po_fd = (\<lambda>_. 0),
     po_udata = (\<lambda>_. NULL), po_evn = (\<lambda>_. 0), po_idx = (\<lambda>_. 0), po_head = (\<lambda>_. NULL), po_fds = (\<lambda>_. NULL), po_cap = (\<lambda>_. 0),
     po_arr = (\<lambda>_. [])\<rparr>"

lemma poll_start_fields: "world poll_start = [Fd 5]" "po_head poll_start = (\<lambda>_. NULL)"
  by (simp_all add: poll_start_def pl.defs blank_def)

lemma poll_start_sane: "poll_sane (blocks spare_used) spare_kernel poll_start"
  unfolding poll_sane_def
proof (intro conjI exI)
  show "heap_os (blocks spare_used) spare_kernel" using spare_os by (auto simp: poll_os_def intro: resource_heap)
  show "poll_lists poll_start (\<lambda>_. [])"
    by (simp add: poll_lists_def family_def dlist_def poll_links_def poll_start_fields)
qed simp

lemmas spare_simps = spare_defs sys_simps reply_of_def spare_blocks_def spare_fds_def io_call_def

lemma spare_queue:
  "\<exists>s. yo_queue_new spare_kernel poll_impl_init poll_start = (4096, s) \<and> world s = [Mem 4096, Fd 5] \<and> po_cap s 4096 = 0"
  by (simp add: yo_queue_new_def poll_impl_init_def spare_simps poll_start_fields after_eq)

lemma read_capacity:
  assumes "yoa_read poll_setmask os req h buff pn s = (c, s')"
  shows "po_cap s' = po_cap s"
proof -
  have "c \<noteq> YO_EPERM" if "poll_setmask os p u fd m s = (c, s')" for p u fd m c and s s' :: "('a, 'b) po_scheme"
    using that by (auto simp: poll_setmask_def Let_def sys_simps split: if_splits)
  with assms show ?thesis
    by (auto simp: yoa_read_def yoi_pl_req_start_def set_rw_def count_up_def yoi_req_begin_def set_cancelled_def put_links_def Let_def
      split: prod.splits if_splits dest!: setmask_effect(2))
qed

text \<open>The client makes a queue, a handle on the descriptor 5 and a request, and starts to read with it.\<close>

lemma spare_run:
  "\<exists>s s'. yo_queue_new spare_kernel poll_impl_init poll_start = (4096, s)
     \<and> (poll_client spare_used spare_kernel 4096)\<^sup>*\<^sup>* ([], s, {#}, {#}) ([8192], s', {#12288#}, {#}) \<and> po_cap s' 4096 = 0"
proof -
  let ?client = "poll_client spare_used spare_kernel 4096"
  from spare_queue obtain s where s: "yo_queue_new spare_kernel poll_impl_init poll_start = (4096, s)"
    "world s = [Mem 4096, Fd 5]" "po_cap s 4096 = 0" by blast
  obtain s1 where s1: "yo_fd_new spare_kernel 600 5 True s = (YO_OK, s1)" "m_ptr s1 600 = 8192"
    "fd_read_n s1 8192 = 0" "fd_write_n s1 8192 = 0" "world s1 = [Mem 8192, Mem 4096, Fd 5]" "po_cap s1 4096 = 0"
    by (simp add: yo_fd_new_def spare_simps s(2,3) after_eq yoi_unix_mkfd_def yoi_fd_ioq_init_def set_ptr_def)
  note new = po_queue_new [OF spare_os poll_start_sane s(1)]
  have "po_own spare_used 4096 s (Fd 5)"
    using new(2) by (simp add: po_own_def po_reserved_def s spare_used_def)
  then have step1: "?client ([], s, {#}, {#}) ([8192], s1, {#}, {#})"
    using client_step.handle [OF _ _ s1(1), where hs = "[]"] by (simp add: s1(2))
  obtain s2 where s2: "yo_req_new spare_kernel 4096 s1 = (12288, s2)" "rq_queue s2 12288 = 4096" "fd_read_n s2 8192 = 0" "fd_write_n s2 8192 = 0"
    "po_cap s2 4096 = 0"
    by (simp add: yo_req_new_def spare_simps s1 after_eq)
  have step2: "?client ([8192], s1, {#}, {#}) ([8192], s2, {#}, {#})"
    by (rule client_step.request [OF s2(1)])
  obtain c s3 where s3: "aio_call poll_setmask (AioRead 700 708) spare_kernel 12288 8192 s2 = (c, s3)" by fastforce
  have step3: "?client ([8192], s2, {#}, {#}) ([8192], s3, {#12288#}, {#})"
    using client_step.start [OF _ _ s2(2) _ _ _ _ s3, where hs = "[8192]"] s2 by (simp add: is_accept_def)
  have "?client\<^sup>*\<^sup>* ([], s, {#}, {#}) ([8192], s3, {#12288#}, {#})"
    using step1 step2 step3 by (auto intro: converse_rtranclp_into_rtranclp simp del: split_paired_All split_paired_Ex)
  moreover have "po_cap s3 4096 = 0"
    using s3 s2(5) by (simp add: aio_call_def read_capacity)
  ultimately show ?thesis using s(1) by blast
qed

lemma poll_client_accounts_witness:
  "\<exists>s1 s F ys. yo_queue_new spare_kernel poll_impl_init poll_start = (4096, s1)
     \<and> (poll_client spare_used spare_kernel 4096)\<^sup>*\<^sup>* ([], s1, {#}, {#}) ([8192], s, {#12288#}, {#})
     \<and> placed s 4096 [8192] F ys \<and> mset (F 8192) + mset (map fst ys) = {#12288#}
     \<and> add_all spare_kernel 4096 (po_head s 4096) 0 s \<noteq> None"
proof -
  obtain s1 s where s: "yo_queue_new spare_kernel poll_impl_init poll_start = (4096, s1)"
    "(poll_client spare_used spare_kernel 4096)\<^sup>*\<^sup>* ([], s1, {#}, {#}) ([8192], s, {#12288#}, {#})" "po_cap s 4096 = 0"
    using spare_run by blast
  note held = poll_client_accounts [OF spare_os poll_start_sane s(1) _ s(2)]
  from held obtain F ys where
    "{#12288#} = {#} + mset (concat (map F [8192])) + mset (map fst ys)" "placed s 4096 [8192] F ys"
    by auto
  moreover have "add_all spare_kernel 4096 (po_head s 4096) 0 s \<noteq> None" using held s(3) by simp
  ultimately show ?thesis using s by (intro exI [of _ s1] exI [of _ s] exI [of _ F] exI [of _ ys]) auto
qed

end
