(* ===== verification/Bsd.thy ===== *)
theory Bsd
  imports Poll "HOL-Library.Signed_Division"
begin

text \<open>
  The Unix backend outside Linux: the branches of \<open>src/unix/impl.c\<close>, \<open>src/unix/impl.h\<close> and \<open>src/unix/poll.c\<close> without
  \<open>YO_USE_LINUX\<close>, with the prefix \<open>bsd_\<close>. A handle that was opened for statting only is a path there. The
  other operations are those of Linux, behind the test of \<open>bsd_isfd\<close> that the code makes. Header constants keep their
  Linux values, as names: other systems number them differently.
\<close>

section \<open>Handles that are paths\<close>

text \<open>
  \<open>fd\<close> and \<open>at\<close> share their memory and \<open>is_at\<close> says which of them is there; \<open>at_text\<close> is the string in memory that
  \<open>at\<close> points to.
\<close>

record 'w bsd = "'w po" +
  fd_is_at :: "addr \<Rightarrow> bool"
  fd_at :: "addr \<Rightarrow> addr"
  at_text :: "addr \<Rightarrow> string"

definition bsd_isfd :: "addr \<Rightarrow> ('w, 'z) bsd_scheme \<Rightarrow> bool" where
  "bsd_isfd res s \<longleftrightarrow> \<not> fd_is_at s res"

definition bsd_mkfd :: "addr \<Rightarrow> int \<Rightarrow> ('w, 'z) bsd_scheme \<Rightarrow> ('w, 'z) bsd_scheme" where
  "bsd_mkfd res fd s =
     (let s = s\<lparr>fd_owned := (fd_owned s)(res := True)\<rparr>;
          s = s\<lparr>fd_fd := (fd_fd s)(res := fd)\<rparr>;
          s = s\<lparr>fd_head := (fd_head s)(res := NULL)\<rparr>;
          s = s\<lparr>fd_is_at := (fd_is_at s)(res := False)\<rparr>
      in yoi_fd_ioq_init res s)"

text \<open>
  The path is copied to where \<open>res->at\<close> points, before it is set to the new memory: the handle is new then, and the
  pointer is not initialised.
\<close>

definition bsd_mkat :: "'w os \<Rightarrow> addr \<Rightarrow> string \<Rightarrow> ('w, 'z) bsd_scheme \<Rightarrow> (bool \<times> ('w, 'z) bsd_scheme) option" where
  "bsd_mkat os res path s =
     (let (at, s) = malloc os (of_nat (length path) + 1) s
      in if at = NULL then Some (False, s) else None)"

definition bsd_conv_open_flags :: "int \<Rightarrow> int" where
  "bsd_conv_open_flags flags =
     (let res = 0;
          (flags, res) =
            (if flags AND YO_OPEN_STAT \<noteq> 0 then (flags, res)
             else
               let (flags, res) = (if flags AND YO_OPEN_APPEND \<noteq> 0
                                   then (flags OR YO_OPEN_WRITE, res OR O_APPEND) else (flags, res))
               in if flags AND YO_OPEN_WRITE \<noteq> 0 then
                    if flags AND YO_OPEN_READ \<noteq> 0 then (flags, res OR O_RDWR)
                    else (flags, res OR O_WRONLY)
                  else if flags AND YO_OPEN_READ \<noteq> 0 then (flags, res OR O_RDONLY)
                  else (flags, res));
          res = (if flags AND YO_OPEN_CREATE \<noteq> 0 then res OR O_CREAT else res);
          res = (if flags AND YO_OPEN_TRUNC \<noteq> 0 then res OR O_TRUNC else res);
          res = (if flags AND YO_OPEN_DIRECT \<noteq> 0 then res OR O_SYNC else res);
          res = (if flags AND YO_OPEN_NOFOLLOW \<noteq> 0 then res OR O_NOFOLLOW else res);
          res = (if flags AND YO_OPEN_SHARED = 0 then res OR O_CLOEXEC else res)
      in res)"

definition bsd_file_open ::
  "'w os \<Rightarrow> addr \<Rightarrow> string \<Rightarrow> int \<Rightarrow> int \<Rightarrow> ('w, 'z) bsd_scheme \<Rightarrow> (yo_code \<times> ('w, 'z) bsd_scheme) option" where
  "bsd_file_open os pres path flags mode s =
     (let (res, s) = malloc os sizeof_yo_fd s
      in if res = NULL then Some (YO_ENOMEM, s)
         else
           let (r, s) = syscall os (COpen path (bsd_conv_open_flags flags) mode) s; fd = ret r
           in if fd < 0 then Some (return_errno s)
              else if flags = YO_OPEN_STAT then do {
                let s = ignore os (CClose fd) s;
                (made, s) \<leftarrow> bsd_mkat os res path s;
                if \<not> made then Some (YO_ENOMEM, s)
                else Some (YO_OK, set_ptr pres res s)
              }
              else
                let s = s\<lparr>fd_is_at := (fd_is_at s)(res := False)\<rparr>;
                    s = bsd_mkfd res fd s
                in Some (YO_OK, set_ptr pres res s))"

definition bsd_stat :: "'w os \<Rightarrow> addr \<Rightarrow> addr \<Rightarrow> ('w, 'z) bsd_scheme \<Rightarrow> yo_code \<times> ('w, 'z) bsd_scheme" where
  "bsd_stat os fd buff s =
     (let (r, s) = syscall os (if bsd_isfd fd s then CFstat (fd_fd s fd) else CLstat (at_text s (fd_at s fd))) s
      in if ret r < 0 then return_errno s
         else (YO_OK, s\<lparr>m_stat := (m_stat s)(buff := yoi_unix_conv_stat (m_stat s buff) (r_stat r))\<rparr>))"

definition bsd_file_chmod :: "'w os \<Rightarrow> addr \<Rightarrow> int \<Rightarrow> ('w, 'z) bsd_scheme \<Rightarrow> yo_code \<times> ('w, 'z) bsd_scheme" where
  "bsd_file_chmod os fd mode s =
     (if bsd_isfd fd s then simple_call os (CFchmod (fd_fd s fd) mode) s
      else simple_call os (CStd (SChmod (at_text s (fd_at s fd)) mode)) s)"

definition bsd_file_chown :: "'w os \<Rightarrow> addr \<Rightarrow> int \<Rightarrow> int \<Rightarrow> ('w, 'z) bsd_scheme \<Rightarrow> yo_code \<times> ('w, 'z) bsd_scheme" where
  "bsd_file_chown os fd uid gid s =
     (if bsd_isfd fd s then simple_call os (CFchown (fd_fd s fd) uid gid) s
      else simple_call os (CStd (SChown (at_text s (fd_at s fd)) uid gid)) s)"

definition bsd_fd_close ::
  "'w os \<Rightarrow> addr \<Rightarrow> ('w, 'z) bsd_scheme \<Rightarrow> ('w, 'z) bsd_scheme option" where
  "bsd_fd_close os fd s =
     do {
       s \<leftarrow> yoi_unix_onclose poll_setmask os fd s;
       s \<leftarrow> (if fd_owned s fd then
                if fd_is_at s fd then Some (free os (fd_at s fd) s)
                else do {
                  s \<leftarrow> close_loop os (fd_fd s fd) s;
                  Some (yoi_fd_ioq_free fd s)
                }
              else Some s);
       Some (free os fd s)
     }"

section \<open>Clocks\<close>

text \<open>The time of the process by \<open>times\<close>, whose unit is taken for that of \<open>clock\<close>.\<close>

abbreviation (input) CLOCKS_PER_SEC :: int where "CLOCKS_PER_SEC \<equiv> 1000000"

definition bsd_time :: "'w os \<Rightarrow> yo_clock_t \<Rightarrow> ('w, 'z) sys_scheme \<Rightarrow> (yo_time \<times> ('w, 'z) sys_scheme) option" where
  "bsd_time os clock s =
     (case clock of
        YO_CLOCK_CPU \<Rightarrow>
          let (r, s) = syscall os (CStd STimes) s;
              ticks = fst (r_pair r) + snd (r_pair r)
          in Some (timespec_time (ticks sdiv CLOCKS_PER_SEC, ticks smod CLOCKS_PER_SEC * (1000000000 div CLOCKS_PER_SEC)), s)
      | _ \<Rightarrow> yo_time_now os clock s)"

section \<open>Polling\<close>

text \<open>\<open>poll\<close> takes the milliseconds in an \<open>int\<close>.\<close>

definition bsd_poll_ms :: "yo_time \<Rightarrow> yo_time \<Rightarrow> int" where
  "bsd_poll_ms deadline now =
     (let diff_ms = yo_timems (yo_timesub deadline now);
          diff_ms = (if diff_ms <s 0 then 0 else diff_ms)
      in sint (ucast diff_ms :: u32))"

definition bsd_poll_once ::
  "'w os \<Rightarrow> addr \<Rightarrow> nat \<Rightarrow> yo_time option \<Rightarrow> ('w, 'z) po_scheme \<Rightarrow> (reply \<times> ('w, 'z) po_scheme) option" where
  "bsd_poll_once os queue fd_n deadline s =
     (let fds = map (\<lambda>(fd, ev, _). (fd, ev)) (take fd_n (po_arr s queue))
      in case deadline of
           None \<Rightarrow> Some (syscall os (CStd (SPoll fds (-1))) s)
         | Some d \<Rightarrow> do {
             (now, s) \<leftarrow> bsd_time os YO_CLOCK_MONO s;
             Some (syscall os (CStd (SPoll fds (bsd_poll_ms d now))) s)
           })"

partial_function (option) bsd_poll_wrapper ::
  "'w os \<Rightarrow> addr \<Rightarrow> nat \<Rightarrow> yo_time option \<Rightarrow> ('w, 'z) po_scheme \<Rightarrow> (int \<times> ('w, 'z) po_scheme) option" where
  "bsd_poll_wrapper os queue fd_n deadline s =
     do {
       (r, s) \<leftarrow> bsd_poll_once os queue fd_n deadline s;
       if ret r < 0 then
         if errno s = EINTR \<or> errno s = EAGAIN then bsd_poll_wrapper os queue fd_n deadline s else None
       else
         Some (ret r, s\<lparr>po_arr := (po_arr s)(queue :=
           map2 (\<lambda>(fd, ev, _) rev. (fd, ev, rev)) (take fd_n (po_arr s queue)) (r_revents r)
             @ drop fd_n (po_arr s queue))\<rparr>)
     }"

section \<open>Properties\<close>

text \<open>
  Opening for statting only does not work outside Linux. When the file can be opened and there is memory for the handle and
  its path, the behaviour is undefined; otherwise an error is returned, and the handle is leaked if it was made.
\<close>

theorem bsd_stat_open:
  assumes "posix_os os"
  shows "case bsd_file_open os pres path YO_OPEN_STAT mode s of
      None \<Rightarrow> True
    | Some (c, s') \<Rightarrow> c \<noteq> YO_OK \<and> (gained [] s s' \<or> (\<exists>h. h \<noteq> NULL \<and> gained [Mem h] s s'))"
proof -
  let ?q = "COpen path (bsd_conv_open_flags YO_OPEN_STAT) mode"
  define s1 where "s1 = after os (CMalloc sizeof_yo_fd) s"
  define s2 where "s2 = after os ?q s1"
  define s3 where "s3 = after os (CClose (ret (reply_of os ?q s1))) s2"
  define h where "h = ptr (reply_of os (CMalloc sizeof_yo_fd) s)"
  have malloc: "gained (if h = NULL then [] else [Mem h]) s s1" by (simp add: s1_def h_def ledger_simps)
  have open1: "gained [] s1 s2" if "ret (reply_of os ?q s1) < 0" using that by (simp add: s2_def ledger_simps)
  have close: "gained [] s1 s3" if "\<not> ret (reply_of os ?q s1) < 0" using that by (simp add: s2_def s3_def ledger_simps)
  have path: "gained [] s3 (after os (CMalloc (of_nat (length path) + 1)) s3)"
    if "ptr (reply_of os (CMalloc (of_nat (length path) + 1)) s3) = NULL" using that by (simp add: ledger_simps)
  have code: "fst (return_errno s2) \<noteq> YO_OK \<and> snd (return_errno s2) = s2" if "ret (reply_of os ?q s1) < 0"
    using errno_after_failure [OF assms, of ?q s1] that
    by (simp add: return_errno_simps fails_def conv_positive s2_def)
  have run: "bsd_file_open os pres path YO_OPEN_STAT mode s =
     (if h = NULL then Some (YO_ENOMEM, s1)
      else if ret (reply_of os ?q s1) < 0 then Some (return_errno s2)
      else if ptr (reply_of os (CMalloc (of_nat (length path) + 1)) s3) = NULL
        then Some (YO_ENOMEM, after os (CMalloc (of_nat (length path) + 1)) s3) else None)"
    by (simp add: bsd_file_open_def bsd_mkat_def sys_simps Let_def s1_def s2_def s3_def h_def)
  show ?thesis
  proof (cases "h = NULL")
    case True
    then show ?thesis using malloc by (simp add: run)
  next
    case False
    note leak = malloc [unfolded if_not_P [OF False]]
    show ?thesis
      using False code open1 [THEN gained_trans [OF leak]] close [THEN gained_trans [OF leak], THEN gained_trans, OF _ path]
      by (cases "return_errno s2") (auto simp: run)
  qed
qed

text \<open>
  The wait of the poll backend outside Linux: the time to the deadline in milliseconds, rounded up and not negative,
  cut to 32 bits with a sign. A deadline that is more than 24 days away, but not more than 49, is a negative
  number, which means to wait forever.
\<close>

theorem bsd_poll_cut:
  assumes "normal deadline" and "normal now" and "\<bar>sint (sec deadline)\<bar> < 2 ^ 50" and "\<bar>sint (sec now)\<bar> < 2 ^ 50"
  shows "bsd_poll_ms deadline now =
    (let m = max 0 (- ((time_ns now - time_ns deadline) div 10 ^ 6)) mod 2 ^ 32 in if m < 2 ^ 31 then m else m - 2 ^ 32)"
proof -
  define w where "w = yo_timems (yo_timesub deadline now)"
  define v where "v = (ucast (if w <s 0 then 0 else w) :: u32)"
  have w: "sint w = - ((time_ns now - time_ns deadline) div 10 ^ 6)"
    unfolding w_def by (rule ms_between [OF assms])
  have v: "uint v = max 0 (sint w) mod 2 ^ 32"
    by (simp add: v_def dword_mod word_sless_alt)
  have cut: "sint v = (if uint v < 2 ^ 31 then uint v else uint v - 2 ^ 32)"
  proof -
    have "sint v = (uint v + 2 ^ 31) mod 2 ^ 32 - 2 ^ 31"
      by (simp add: sint_uint signed_take_bit_eq_take_bit_shift take_bit_eq_mod)
    moreover have "0 \<le> uint v" "uint v < 2 ^ 32" using uint_bounded [of v] by simp_all
    then have "(uint v + 2 ^ 31) mod 2 ^ 32 = (if uint v < 2 ^ 31 then uint v + 2 ^ 31 else uint v - 2 ^ 31)"
    proof (cases "uint v < 2 ^ 31")
      case True
      then show ?thesis using mod_pos_pos_trivial [of "uint v + 2 ^ 31" "2 ^ 32"] by simp
    next
      case False
      have "(uint v + 2 ^ 31) mod 2 ^ 32 = (uint v + 2 ^ 31 - 2 ^ 32) mod 2 ^ 32" by (simp only: minus_mod_self2)
      also have "\<dots> = uint v + 2 ^ 31 - 2 ^ 32"
        using False \<open>uint v < 2 ^ 32\<close> by (intro mod_pos_pos_trivial) simp_all
      finally show ?thesis using False by simp
    qed
    ultimately show ?thesis by simp
  qed
  have run: "bsd_poll_ms deadline now = sint v"
    by (simp add: bsd_poll_ms_def w_def v_def Let_def)
  show ?thesis unfolding run cut v w Let_def ..
qed

theorem bsd_poll_cut_witness:
  "bsd_poll_ms \<lparr>sec = 2592000, nsec = 0\<rparr> \<lparr>sec = 0, nsec = 0\<rparr> = - 1702967296"
  using bsd_poll_cut [of "\<lparr>sec = 2592000, nsec = 0\<rparr>" "\<lparr>sec = 0, nsec = 0\<rparr>"] by (simp add: normal_def time_ns_def)

text \<open>
  The time of the process counts one microsecond for each tick of \<open>times\<close>, whatever a tick is: with the usual hundred ticks
  in a second it is ten thousand times too small.
\<close>

theorem bsd_cpu_ticks:
  assumes "reply_of os (CStd STimes) s = r" and "0 \<le> fst (r_pair r)" and "0 \<le> snd (r_pair r)"
    and "fst (r_pair r) + snd (r_pair r) < 2 ^ 62"
  shows "\<exists>t. bsd_time os YO_CLOCK_CPU s = Some (t, after os (CStd STimes) s) \<and> normal t
    \<and> time_ns t = (fst (r_pair r) + snd (r_pair r)) * 1000"
proof -
  define k where "k = fst (r_pair r) + snd (r_pair r)"
  have k: "0 \<le> k" "k < 2 ^ 62" using assms(2-4) by (simp_all add: k_def)
  define t where "t = timespec_time (k div 1000000, k mod 1000000 * 1000)"
  have run: "bsd_time os YO_CLOCK_CPU s = Some (t, after os (CStd STimes) s)"
    using k(1) assms(1)
    by (cases "k = 0") (simp_all add: bsd_time_def sys_simps Let_def t_def signed_divide_int_def signed_modulo_int_def flip: k_def)
  have "k div 1000000 < 2 ^ 62" using k by simp
  then have sec: "sint (sec t) = k div 1000000"
    using k(1) by (simp add: t_def timespec_time_def signed_of_int signed_take_bit_int_eq_self)
  have "k mod 1000000 * 1000 < 1000000000" using pos_mod_bound [of 1000000 k] by linarith
  then have nsec: "uint (nsec t) = k mod 1000000 * 1000"
    using k(1) by (simp add: t_def timespec_time_def uint_of_int_exact del: of_int_mult)
  have "time_ns t = k * 1000"
    using div_mult_mod_eq [of k 1000000] unfolding time_ns_def sec nsec by linarith
  then show ?thesis
    using run pos_mod_bound [of 1000000 k] by (auto simp: normal_uint nsec k_def)
qed

end
