(* ===== verification/Spec2Isabelle.thy ===== *)
theory Spec2Isabelle
  imports Prelude Errors Times Addr SockAddr Lists Posix UnixIO ReqQueue Clock Pollish Epoll Poll
    Signals Env Dns Spawn Pool Fallback Ansi WinConv WinIO WinFiles WinSys WinDns Threads
    Config AsyncIO Client PollClient Bsd
begin

text \<open>
  A verification library for libyaooi, a C library for blocking and asynchronous I/O.

  \<^bold>\<open>The program.\<close> A caller uses handles (\<open>yo_fd_t\<close>), requests (\<open>yo_req_t\<close>) and a queue
  (\<open>yo_queue_t\<close>, \<open>src/inc/yaooi/queue.h\<close>). The blocking operations of \<open>src/inc/yaooi/io.h\<close> are implemented once for
  each platform (\<open>src/unix/impl.c\<close>, \<open>src/win/impl.c\<close>, \<open>src/ansi/impl.c\<close>). The asynchronous ones either wait
  for a descriptor (\<open>src/unix/pollish.c\<close> over \<open>epoll.c\<close> or \<open>poll.c\<close>) or run the blocking one in a thread pool
  (\<open>src/fallback/async.c\<close>, \<open>src/pool.c\<close>). Whoever finishes a request links it into the ready list of
  its queue (\<open>src/queue.c\<close>), from where \<open>yo_queue_poll\<close> delivers it.

  \<^bold>\<open>Which theory models what.\<close>
  \<^item> \<open>Prelude\<close>: scalar types, switch statements as tables, C strings, lemma collections.
  \<^item> \<open>Errors\<close>: \<open>src/inc/yaooi/errno.h\<close>, \<open>yo_strerr\<close>, the conversions of \<open>errno\<close> of the Unix and ANSI backends.
  \<^item> \<open>Times\<close>: \<open>src/time.c\<close>, at the width of the fields. \<open>Clock\<close>: \<open>yo_time\<close> and \<open>yo_timesleep\<close> on Unix.
  \<^item> \<open>Addr\<close>: the two parsers of \<open>src/addr.c\<close>. \<open>SockAddr\<close>: socket addresses, Unix and Windows.
  \<^item> \<open>Lists\<close>: the macros of \<open>src/utils/lists.h\<close> and the contract that their users rely on (locale \<open>intrusive_lists\<close>).
  \<^item> \<open>Posix\<close>: libc and kernel as a parameter \<open>os\<close>, a function from a world and a call to a reply and a world.
    Every call is recorded in a trace, from which leaks are read off (\<open>gained\<close>).
  \<^item> \<open>UnixIO\<close>, \<open>Env\<close>, \<open>Dns\<close>, \<open>Signals\<close>, \<open>Spawn\<close>: the operations of \<open>src/unix/impl.c\<close>, one definition for each,
    Linux configuration. A forking call has a fate, which says which process goes on.
  \<^item> \<open>ReqQueue\<close>: requests and ready lists of \<open>src/queue.c\<close>; the locale \<open>notifier\<close> is what they need of a backend.
  \<^item> \<open>Pollish\<close>: handles with waiting requests; \<open>Epoll\<close> and \<open>Poll\<close> are its two backends, which meet one contract
    for the watched events of a descriptor.
  \<^item> \<open>Bsd\<close>: the branches of the Unix backend that are compiled without \<open>YO_USE_LINUX\<close>.
  \<^item> \<open>Pool\<close>: the worker threads of \<open>src/pool.c\<close> with the client of the queue, as a step relation in which a thread is a
    program counter. \<open>Fallback\<close>: the waiting queue and the macro \<open>YOI_MKFALLBACK\<close>; the locale \<open>blocking\<close> is what the
    macro needs of an operation, and 17 of the 19 operations it is used for are interpretations. The other two,
    \<open>yo_dns_getaddrinfo\<close> and \<open>yo_sig_wait\<close>, work on states of their own (\<open>ai\<close>, \<open>sg\<close>), which have no requests; for them the
    asynchronous call is shown to hand its arguments to the blocking one (\<open>dispatches\<close>). \<open>yo_req_exec\<close> exists only with
    threads: without them \<open>src/pool.c\<close> defines \<open>yoi_pool_exec\<close>, which nothing calls, and a library that needs the macro does not link.
  \<^item> \<open>Ansi\<close>: all operations of \<open>src/ansi/impl.c\<close>.
  \<^item> \<open>WinConv\<close>, \<open>WinIO\<close>, \<open>WinFiles\<close>, \<open>WinSys\<close>, \<open>WinDns\<close>: \<open>src/win/impl.c\<close>. The first has its pure conversions and a parser of
    command lines as Windows documents it; the second its state, strings and the command line of a process; the others
    its operations, with the prefix \<open>win_\<close>. The calls of Windows are calls of the same parameter \<open>os\<close>.
  \<^item> \<open>Threads\<close>: \<open>src/utils/multithread.h\<close>, on both platforms. The other theories make the calls directly that its macros stand
    for.
  \<^item> \<open>AsyncIO\<close>: the asynchronous interface as a whole: the calls of a client as steps, the contract of a backend (locale
    \<open>async_backend\<close>, which extends that of \<open>Pollish\<close>), and the invariant that every call keeps over any backend that meets it.
    \<open>Client\<close> and \<open>PollClient\<close>: the two backends meet the contract, and what follows for the requests that are started.
  \<^item> \<open>Config\<close>: \<open>src/inc/yaooi/conf.h\<close> as a function on the set of defined macros, and the \<open>#ifdef\<close>s that choose the backend,
    its polling and its threads.

  \<^bold>\<open>What is shown.\<close> Parsers and conversions: equivalence with a reference grammar, round trips, exact arithmetic.
  Operations of the backends: what is returned on every path, which resources are then owned, what is left in memory.
  Queue and polling: each completion is delivered once, the watched events are those that the waiting requests need.
  Pool: locks exclude, no wakeup is lost, every request is in exactly one place, and the release of the queue
  returns when the workers are between requests and never when one is busy. Client: no request is lost or delivered twice,
  whatever is called in whatever order, and closing all handles and polling drains a queue. This theory: an address from its text to the
  call of the kernel. Where the code does not do
  what it means to, the theorem states what it does, and the manifest has a finding.

  \<^bold>\<open>Conventions.\<close> Machine integers are words. Memory that is shared with the caller is one function from addresses
  for each C type. A result is \<open>None\<close> where the code has undefined behaviour or does not return: loops that may not end
  are \<open>partial_function (option)\<close>, and that they return is a theorem of its own, under a bound on how often the
  system makes them go round (\<open>left\<close>, \<open>finitely_interrupted\<close>, \<open>clock_passes\<close>), or the theorem says that the
  system interrupts a call for ever (\<open>interrupted_for_ever\<close>). The walk over the list of poll nodes
  has a fuel of \<open>2 ^ 64\<close> steps, more than there are addresses. \<open>deliveries\<close> takes the number of polls.
  What a theorem assumes of the system is a named hypothesis that states documented behaviour (\<open>posix_os\<close>,
  \<open>heap_os\<close>, \<open>epoll_os\<close>, \<open>user_os\<close>, \<open>streams\<close>, \<open>resource_os\<close>, \<open>client_os\<close>, \<open>poll_os\<close>, \<open>spawn_os\<close>, \<open>delivers\<close>), and a witness instantiates it with a concrete system.

  \<^bold>\<open>Not modelled.\<close> The headers that only declare what is modelled here. Constants of system headers that the code
  compares are named by their Linux values, also in the branches for other systems. \<open>#ifdef EAI_NODATA\<close> in \<open>yo_dns_getaddrinfo\<close> is taken
  to hold; headers that keep that name for extensions hide it under the \<open>-std=c11\<close> of the Makefile, and then the code
  falls under the conversion of the other errors. \<open>yoi_queue_pop\<close> and \<open>yoi_req_end\<close> make the calls of the lock of the queue in every
  configuration; without threads the macros are empty, and these calls have no effect on what they compute.
\<close>

section \<open>From text to a socket\<close>

text \<open>The socket address of an IPv4 address, as the kernel expects it: the bytes in order, the port in network order.\<close>

definition inet_sockaddr :: "byte list \<Rightarrow> u16 \<Rightarrow> sockaddr" where
  "inet_sockaddr bs port = \<lparr>ss_family = AF_INET, sin_port = htons port, sin_addr = bs\<rparr>"

text \<open>
  C17: An address that is typed reaches the kernel unchanged. For a dotted quad, the parsed address makes
  \<open>yo_socket_connect\<close> connect, and \<open>yo_socket_bind\<close> bind, to those four bytes and that port, in network order and with the
  length of the structure; and no successful call omits it. Read back, the structure gives the parsed address.
\<close>

theorem text_to_socket:
  assumes "posix_os os" and "NUL \<notin> set str" and "dotted_quad str bs"
  shows "\<exists>a. yo_addrparse True str = Some (Some a)
   \<and> yoi_unix_conv_sockaddr (inet_sockaddr bs port) = (a, port)
   \<and> (case yo_socket_connect os pres proto a port s of (c, s') \<Rightarrow>
        (c = YO_OK \<longrightarrow> (\<exists>f sa n r. (CConnect f sa n, r) \<in> set (news s s')))
      \<and> (\<forall>f sa n r. (CConnect f sa n, r) \<in> set (news s s') \<longrightarrow> sa = inet_sockaddr bs port \<and> n = 16))
   \<and> (case yo_socket_bind os pres proto a port max_n s of (c, s') \<Rightarrow>
        (c = YO_OK \<longrightarrow> (\<exists>f sa n r. (CBind f sa n, r) \<in> set (news s s')))
      \<and> (\<forall>f sa n r. (CBind f sa n, r) \<in> set (news s s') \<longrightarrow> sa = inet_sockaddr bs port \<and> n = 16))"
proof -
  have conv: "yoi_unix_conv_addr (YO_ADDR_IPV4 bs) port = (inet_sockaddr bs port, 16)"
    by (simp add: yoi_unix_conv_addr_def inet_sockaddr_def sizeof_sockaddr_in_def)
  have "yoi_unix_conv_sockaddr (inet_sockaddr bs port) = (YO_ADDR_IPV4 bs, port)"
    using addrparse_quad(2) [OF assms(2,3)] by (simp add: yoi_unix_conv_sockaddr_def inet_sockaddr_def)
  moreover have "case yo_socket_connect os pres proto (YO_ADDR_IPV4 bs) port s of (c, s') \<Rightarrow>
        (c = YO_OK \<longrightarrow> (\<exists>f sa n r. (CConnect f sa n, r) \<in> set (news s s')))
      \<and> (\<forall>f sa n r. (CConnect f sa n, r) \<in> set (news s s') \<longrightarrow> sa = inet_sockaddr bs port \<and> n = 16)"
    using assms(1) unfolding yo_socket_connect_def
    by (intro sat_case paths) (auto simp: conv outcome_simps news_def)
  moreover have "case yo_socket_bind os pres proto (YO_ADDR_IPV4 bs) port max_n s of (c, s') \<Rightarrow>
        (c = YO_OK \<longrightarrow> (\<exists>f sa n r. (CBind f sa n, r) \<in> set (news s s')))
      \<and> (\<forall>f sa n r. (CBind f sa n, r) \<in> set (news s s') \<longrightarrow> sa = inet_sockaddr bs port \<and> n = 16)"
    using assms(1) unfolding yo_socket_bind_def
    by (intro sat_case paths) (auto simp: conv outcome_simps news_def)
  ultimately show ?thesis
    by (intro exI [of _ "YO_ADDR_IPV4 bs"] conjI addrparse_quad(1) [OF assms(2,3)])
qed

theorem text_to_socket_witness:
  "\<exists>a. yo_addrparse True ''192.168.1.7'' = Some (Some a)
     \<and> yoi_unix_conv_sockaddr (inet_sockaddr [192, 168, 1, 7] 80) = (a, 80)"
proof -
  have "dotted_quad ''192.168.1.7'' [192, 168, 1, 7]"
    by (simp add: ipv4_accepts_iff [symmetric] yo_parse_ipv4_def ipv4_parts.simps isdigit_def char_code_def)
  from text_to_socket [OF posix_refusing _ this, where port = 80 and pres = NULL and proto = YO_PROTO_TCP and s = "idle ()" and max_n = 1] show ?thesis by auto
qed

end
